(* ===== verification/Prelude.thy ===== *)
theory Prelude
  imports Main "HOL-Library.Word" "HOL-Library.Stream"
begin

text \<open>
  Shared vocabulary of the development: the clock that stands for the successive readings of
  Go's \<open>time.Now()\<close>, the error sums, and the generic lemmas on lists and numbers that more than
  one component uses.
\<close>

unbundle bit_operations_syntax

named_theorems go_simps \<open>unfolding rules for the Go library functions\<close>
named_theorems inv_intros \<open>preservation lemmas of the component invariants\<close>

section \<open>Time\<close>

text \<open>
  Points in time and durations are integers (nanoseconds). A clock is the stream of the readings
  that the successive calls of \<open>time.Now()\<close> will return; a function that reads the time takes the
  clock and returns what is left of it. Nothing is assumed about the readings.
\<close>

type_synonym time = int
type_synonym duration = int
type_synonym clock = "time stream"

definition time_Now :: "clock \<Rightarrow> time \<times> clock" where
  "time_Now c = (shd c, stl c)"

text \<open>\<open>t.Add(d).Before(now)\<close>.\<close>

definition expired :: "time \<Rightarrow> duration \<Rightarrow> time \<Rightarrow> bool" where
  "expired t gracePeriod now \<longleftrightarrow> t + gracePeriod < now"

section \<open>Generic lemmas\<close>

lemma div_pow2_mono:
  fixes x y :: nat
  assumes "x div 2 ^ a = y div 2 ^ a" and "a \<le> b"
  shows "x div 2 ^ b = y div 2 ^ b"
proof -
  have "x div 2 ^ b = x div 2 ^ a div 2 ^ (b - a)" for x :: nat
    using \<open>a \<le> b\<close> by (simp flip: div_mult2_eq power_add)
  then show ?thesis using assms(1) by simp
qed

lemma div_pow2_Suc:
  fixes x y :: nat
  shows "x div 2 ^ Suc a = y div 2 ^ Suc a \<longleftrightarrow>
    x div 2 ^ a = y div 2 ^ a \<or>
    x div 2 ^ Suc a = y div 2 ^ Suc a \<and> x div 2 ^ a mod 2 \<noteq> y div 2 ^ a mod 2"
proof -
  have s: "x div 2 ^ Suc a = x div 2 ^ a div 2" for x :: nat
    by (simp add: mult.commute [of 2] div_mult2_eq)
  have "x div 2 ^ a = y div 2 ^ a" if "x div 2 ^ a div 2 = y div 2 ^ a div 2"
      "x div 2 ^ a mod 2 = y div 2 ^ a mod 2"
    using that by (metis div_mult_mod_eq)
  then show ?thesis unfolding s by auto
qed

end
