(* ===== verification/Netip.thy ===== *)
theory Netip
  imports Prelude
begin

text \<open>
  The part of Go's \<open>net/netip\<close> that the repository uses: addresses of the two families, the zero
  \<open>Addr{}\<close>, prefixes, and \<open>Compare\<close>, \<open>Next\<close>, \<open>Masked\<close>, \<open>Contains\<close> and \<open>Overlaps\<close> on them. Zones are
  not modelled: \<open>ParsePrefix\<close> refuses them and \<open>Contains\<close> is false for a zoned address.
\<close>

section \<open>Addresses and prefixes\<close>

datatype addr = ZeroAddr | V4 "32 word" | V6 "128 word"

datatype prefix = Prefix (Addr: addr) (Bits: nat)

fun BitLen :: "addr \<Rightarrow> nat" where
  "BitLen ZeroAddr = 0"
| "BitLen (V4 _) = 32"
| "BitLen (V6 _) = 128"

definition IsValid :: "addr \<Rightarrow> bool" where
  "IsValid a \<longleftrightarrow> a \<noteq> ZeroAddr"

text \<open>The address as a number.\<close>

fun a_nat :: "addr \<Rightarrow> nat" where
  "a_nat ZeroAddr = 0"
| "a_nat (V4 w) = unat w"
| "a_nat (V6 w) = unat w"

definition Compare :: "addr \<Rightarrow> addr \<Rightarrow> int" where
  "Compare a b =
     (if BitLen a < BitLen b then -1 else if BitLen b < BitLen a then 1
      else if a_nat a < a_nat b then -1 else if a_nat b < a_nat a then 1 else 0)"

text \<open>The address after the given one; \<open>Addr{}\<close> after the last one of the family.\<close>

fun Next :: "addr \<Rightarrow> addr" where
  "Next ZeroAddr = ZeroAddr"
| "Next (V4 w) = (if w + 1 = 0 then ZeroAddr else V4 (w + 1))"
| "Next (V6 w) = (if w + 1 = 0 then ZeroAddr else V6 (w + 1))"

definition Valid :: "prefix \<Rightarrow> bool" where
  "Valid p \<longleftrightarrow> IsValid (Addr p) \<and> Bits p \<le> BitLen (Addr p)"

text \<open>The first \<open>n\<close> bits of an address, the others cleared.\<close>

fun mask_addr :: "nat \<Rightarrow> addr \<Rightarrow> addr" where
  "mask_addr n ZeroAddr = ZeroAddr"
| "mask_addr n (V4 w) = V4 (push_bit (32 - n) (drop_bit (32 - n) w))"
| "mask_addr n (V6 w) = V6 (push_bit (128 - n) (drop_bit (128 - n) w))"

definition Masked :: "prefix \<Rightarrow> prefix" where
  "Masked p = Prefix (mask_addr (Bits p) (Addr p)) (Bits p)"

definition Contains :: "prefix \<Rightarrow> addr \<Rightarrow> bool" where
  "Contains p a \<longleftrightarrow> Valid p \<and>
     (case (Addr p, a) of
        (V4 v, V4 w) \<Rightarrow> drop_bit (32 - Bits p) (w XOR v) = 0
      | (V6 v, V6 w) \<Rightarrow> drop_bit (128 - Bits p) (w XOR v) = 0
      | _ \<Rightarrow> False)"

definition Overlaps :: "prefix \<Rightarrow> prefix \<Rightarrow> bool" where
  "Overlaps p q \<longleftrightarrow> Valid p \<and> Valid q \<and>
     (p = q \<or>
      BitLen (Addr p) = BitLen (Addr q) \<and>
      (let minBits = min (Bits p) (Bits q)
       in minBits = 0 \<or> mask_addr minBits (Addr p) = mask_addr minBits (Addr q)))"

section \<open>Prefixes as numbers\<close>

text \<open>The first \<open>n\<close> bits of an address as a number.\<close>

definition topbits :: "nat \<Rightarrow> addr \<Rightarrow> nat" where
  "topbits n a = a_nat a div 2 ^ (BitLen a - n)"

lemma a_nat_less: "a_nat a < 2 ^ BitLen a"
proof (cases a)
  case (V4 w)
  then show ?thesis using unsigned_less [of w, where ?'a = nat] by simp
next
  case (V6 w)
  then show ?thesis using unsigned_less [of w, where ?'a = nat] by simp
qed simp

lemma addr_eqI: "BitLen a = BitLen b \<Longrightarrow> a_nat a = a_nat b \<Longrightarrow> a = b"
  by (cases a; cases b) (auto simp: word_unat_eq_iff)

lemma addr_eq_iff: "a = b \<longleftrightarrow> BitLen a = BitLen b \<and> a_nat a = a_nat b"
  by (auto intro: addr_eqI)

lemma Compare_eq_0 [simp]: "Compare a b = 0 \<longleftrightarrow> a = b"
  by (auto simp: Compare_def addr_eq_iff)

lemma IsValid_BitLen: "IsValid a \<longleftrightarrow> BitLen a \<noteq> 0"
  by (cases a) (auto simp: IsValid_def)

lemma IsValid_simps [simp]: "IsValid (V4 w)" "IsValid (V6 v)" "\<not> IsValid ZeroAddr"
  by (simp_all add: IsValid_def)

lemma unat_drop_bit:
  fixes w :: "'a::len word"
  shows "unat (drop_bit k w) = unat w div 2 ^ k"
  by (metis drop_bit_eq_div unat_drop_bit_eq)

lemma unat_push_drop:
  fixes w :: "'a::len word"
  shows "unat (push_bit k (drop_bit k w)) = unat w div 2 ^ k * 2 ^ k"
proof -
  have "unat w div 2 ^ k * 2 ^ k < 2 ^ LENGTH('a)"
    using div_times_less_eq_dividend [of "unat w" "2 ^ k"] unsigned_less [of w, where ?'a = nat]
    by linarith
  moreover have "unat (push_bit k (drop_bit k w)) =
      take_bit LENGTH('a) (push_bit k (unat (drop_bit k w)))"
    by (rule unsigned_push_bit_eq)
  ultimately show ?thesis
    by (simp only: unat_drop_bit push_bit_eq_mult take_bit_eq_mod mod_less)
qed

lemma BitLen_mask_addr [simp]: "BitLen (mask_addr n a) = BitLen a"
  by (cases a) auto

lemma a_nat_mask_addr: "a_nat (mask_addr n a) = topbits n a * 2 ^ (BitLen a - n)"
  by (cases a) (auto simp: topbits_def unat_push_drop)

lemma mask_addr_eq_iff:
  "BitLen a = BitLen b \<Longrightarrow> mask_addr n a = mask_addr n b \<longleftrightarrow> topbits n a = topbits n b"
  by (simp add: addr_eq_iff a_nat_mask_addr)

lemma topbits_0 [simp]: "topbits 0 a = 0"
  using a_nat_less [of a] by (simp add: topbits_def)

lemma Overlaps_iff:
  "Overlaps p q \<longleftrightarrow> Valid p \<and> Valid q \<and> BitLen (Addr p) = BitLen (Addr q) \<and>
     topbits (min (Bits p) (Bits q)) (Addr p) = topbits (min (Bits p) (Bits q)) (Addr q)"
  by (auto simp: Overlaps_def Let_def mask_addr_eq_iff)

lemma xor_eq_0_iff_word:
  fixes v w :: "'a::len word"
  shows "w XOR v = 0 \<longleftrightarrow> w = v"
proof
  assume "w XOR v = 0"
  then have "(w XOR v) XOR v = v" by simp
  then show "w = v" by (simp add: xor.assoc)
qed simp

lemma drop_bit_xor_eq_0:
  fixes v w :: "'a::len word"
  shows "drop_bit k (w XOR v) = 0 \<longleftrightarrow> unat w div 2 ^ k = unat v div 2 ^ k"
proof -
  have "drop_bit k (w XOR v) = drop_bit k w XOR drop_bit k v"
    by (rule drop_bit_xor)
  also have "\<dots> = 0 \<longleftrightarrow> drop_bit k w = drop_bit k v"
    by (rule xor_eq_0_iff_word)
  also have "\<dots> \<longleftrightarrow> unat (drop_bit k w) = unat (drop_bit k v)"
    by (rule word_unat_eq_iff)
  finally show ?thesis by (simp only: unat_drop_bit)
qed

lemma Contains_iff:
  "Contains p a \<longleftrightarrow> Valid p \<and> BitLen (Addr p) = BitLen a \<and>
     topbits (Bits p) a = topbits (Bits p) (Addr p)"
  unfolding Contains_def
  by (cases "Addr p"; cases a)
    (simp_all only: topbits_def Valid_def drop_bit_xor_eq_0 addr.simps prod.case BitLen.simps
      a_nat.simps IsValid_simps, auto)

section \<open>Containment and overlap as statements about address sets\<close>

lemma Valid_Addr: "Valid p \<Longrightarrow> BitLen (Addr p) \<noteq> 0"
  by (simp add: Valid_def IsValid_BitLen)

lemma topbits_mono:
  assumes "topbits n a = topbits n b" and "BitLen a = BitLen b" and "m \<le> n"
  shows "topbits m a = topbits m b"
  using assms unfolding topbits_def by (auto intro: div_pow2_mono)

lemma Contains_Addr: "Valid p \<Longrightarrow> Contains p (Addr p)"
  by (simp add: Contains_iff)

lemma Contains_IsValid: "Contains p a \<Longrightarrow> IsValid a"
  by (auto simp: Contains_iff Valid_def IsValid_BitLen)

lemma Overlaps_commute: "Overlaps p q \<longleftrightarrow> Overlaps q p"
  by (auto simp: Overlaps_iff min.commute)

lemma Overlaps_refl: "Valid p \<Longrightarrow> Overlaps p p"
  by (simp add: Overlaps_iff)

lemma Overlaps_Contains:
  assumes "Bits p \<le> Bits q"
  shows "Overlaps p q \<longleftrightarrow> Valid q \<and> Contains p (Addr q)"
  using assms by (auto simp: Overlaps_iff Contains_iff min_absorb1)

text \<open>A prefix that overlaps a longer one holds all its addresses.\<close>

lemma Overlaps_subset:
  assumes "Overlaps p q" and "Bits p \<le> Bits q" and "Contains q a"
  shows "Contains p a"
  using assms by (auto simp: Overlaps_iff Contains_iff min_absorb1 intro: topbits_mono)

text \<open>\<open>Overlaps\<close> decides whether two prefixes share an address.\<close>

lemma Overlaps_iff_common: "Overlaps p q \<longleftrightarrow> (\<exists>a. Contains p a \<and> Contains q a)"
proof
  assume o: "Overlaps p q"
  then have "Valid p" "Valid q" by (auto simp: Overlaps_iff)
  then show "\<exists>a. Contains p a \<and> Contains q a"
    using o Overlaps_Contains [of p q] Overlaps_Contains [of q p] Contains_Addr
    by (meson Overlaps_commute nle_le)
next
  assume "\<exists>a. Contains p a \<and> Contains q a"
  then obtain a where a: "Contains p a" "Contains q a" by blast
  show "Overlaps p q"
    using a topbits_mono [of "Bits p" a "Addr p" "Bits q"] topbits_mono [of "Bits q" a "Addr q" "Bits p"]
    by (auto simp: Overlaps_iff Contains_iff min_def)
qed

text \<open>A longer prefix inside \<open>p\<close> overlaps only what \<open>p\<close> overlaps.\<close>

lemma Overlaps_trans:
  assumes "Overlaps p q" and "Bits p \<le> Bits q" and "Overlaps q x"
  shows "Overlaps p x"
  using assms Overlaps_subset by (meson Overlaps_iff_common)

lemma Overlaps_same_Bits:
  assumes "Overlaps p q" and "Bits p = Bits q" and "Masked p = p" and "Masked q = q"
  shows "p = q"
proof -
  have "Addr p = Addr q"
    using assms by (metis Masked_def Overlaps_iff mask_addr_eq_iff min.idem prefix.sel(1))
  then show ?thesis using assms(2) by (simp add: prefix.expand)
qed

end
