(* ===== verification/NetipText.thy ===== *)
theory NetipText
  imports Netip
begin

text \<open>
  The textual side of \<open>net/netip\<close> for dotted IPv4 addresses, with the pieces of \<open>strings\<close> and
  \<open>fmt\<close> it needs: \<open>strings.Split\<close>, \<open>strings.Join\<close>, the \<open>%d\<close> verb, \<open>ParseAddr\<close> and
  \<open>ParsePrefix\<close> on IPv4 text, and the round trip between printing and parsing.
\<close>

section \<open>Splitting and joining strings\<close>

fun splitOn :: "char \<Rightarrow> string \<Rightarrow> string list" where
  "splitOn c [] = [[]]"
| "splitOn c (x # xs) =
     (if x = c then [] # splitOn c xs
      else (case splitOn c xs of [] \<Rightarrow> [[x]] | y # ys \<Rightarrow> (x # y) # ys))"

fun joinWith :: "string \<Rightarrow> string list \<Rightarrow> string" where
  "joinWith sep [] = []"
| "joinWith sep [x] = x"
| "joinWith sep (x # y # ys) = x @ sep @ joinWith sep (y # ys)"

lemma splitOn_not_Nil [simp]: "splitOn c s \<noteq> []"
  by (induction s) (auto split: list.splits)

lemma splitOn_no_sep: "c \<notin> set s \<Longrightarrow> splitOn c s = [s]"
  by (induction s) auto

lemma splitOn_append: "c \<notin> set s \<Longrightarrow> splitOn c (s @ c # t) = s # splitOn c t"
  by (induction s) auto

lemma splitOn_chars: "set s \<subseteq> insert c (\<Union> (set ` set (splitOn c s)))"
proof (induction s)
  case (Cons a s)
  then show ?case by (cases "splitOn c s") (simp_all, blast)
qed simp

lemma splitOn_joinWith:
  "xs \<noteq> [] \<Longrightarrow> \<forall>x\<in>set xs. c \<notin> set x \<Longrightarrow> splitOn c (joinWith [c] xs) = xs"
  by (induction "[c]" xs rule: joinWith.induct) (auto simp: splitOn_no_sep splitOn_append)

section \<open>Decimal numbers\<close>

definition digit_char :: "nat \<Rightarrow> char" where
  "digit_char n = char_of (48 + n)"

fun dec :: "nat \<Rightarrow> string" where
  "dec n = (if n < 10 then [digit_char n] else dec (n div 10) @ [digit_char (n mod 10)])"

declare dec.simps [simp del]

definition is_digit :: "char \<Rightarrow> bool" where
  "is_digit c \<longleftrightarrow> 48 \<le> (of_char c :: nat) \<and> (of_char c :: nat) \<le> 57"

definition digit_val :: "char \<Rightarrow> nat" where
  "digit_val c = of_char c - 48"

definition dec_val :: "string \<Rightarrow> nat" where
  "dec_val s = foldl (\<lambda>v c. 10 * v + digit_val c) 0 s"

lemma digit_char_simps [simp]:
  assumes "n < 10"
  shows "is_digit (digit_char n)" "digit_val (digit_char n) = n"
  using assms by (auto simp: is_digit_def digit_val_def digit_char_def)

lemma dec_not_Nil [simp]: "dec n \<noteq> []"
  by (subst dec.simps) simp

lemma dec_digits: "\<forall>c\<in>set (dec n). is_digit c"
proof (induction n rule: dec.induct)
  case (1 n)
  then show ?case by (subst dec.simps) auto
qed

lemma dec_val_dec [simp]: "dec_val (dec n) = n"
proof (induction n rule: dec.induct)
  case (1 n)
  then show ?case by (subst dec.simps) (auto simp: dec_val_def)
qed

lemma dec_hd: "0 < n \<Longrightarrow> hd (dec n) \<noteq> digit_char 0"
proof (induction n rule: dec.induct)
  case (1 n)
  show ?case
  proof (cases "n < 10")
    case True
    then have "digit_val (digit_char n) \<noteq> digit_val (digit_char 0)"
      using 1(2) by simp
    then have "digit_char n \<noteq> digit_char 0" by metis
    then show ?thesis using True by (subst dec.simps) simp
  next
    case False
    then have "hd (dec n) = hd (dec (n div 10))"
      by (subst dec.simps) simp
    then show ?thesis using 1(1) False by simp
  qed
qed

lemma dec_length: "1 < length (dec n) \<Longrightarrow> 0 < n"
  by (cases "n = 0") (simp_all add: dec.simps)

section \<open>IPv4 text\<close>

text \<open>One field of \<open>parseIPv4Fields\<close>: digits only, no leading zero, at most 255.\<close>

definition parseOctet :: "string \<Rightarrow> nat option" where
  "parseOctet s =
     (if s = [] \<or> \<not> list_all is_digit s \<or> 1 < length s \<and> hd s = digit_char 0 \<or> 255 < dec_val s
      then None else Some (dec_val s))"

definition v4_of_octets :: "nat \<Rightarrow> nat \<Rightarrow> nat \<Rightarrow> nat \<Rightarrow> addr" where
  "v4_of_octets a b c d = V4 (word_of_nat (((a * 256 + b) * 256 + c) * 256 + d))"

definition ParseAddr4 :: "string \<Rightarrow> addr option" where
  "ParseAddr4 s =
     (case map parseOctet (splitOn (CHR ''.'') s) of
        [Some a, Some b, Some c, Some d] \<Rightarrow> Some (v4_of_octets a b c d)
      | _ \<Rightarrow> None)"

text \<open>\<open>ParsePrefix\<close> on IPv4 text; \<open>None\<close> is its error, the panic of \<open>MustParsePrefix\<close>.\<close>

definition parseBits :: "string \<Rightarrow> nat \<Rightarrow> nat option" where
  "parseBits s maxBits =
     (if s = [] \<or> \<not> list_all is_digit s \<or> 1 < length s \<and> hd s = digit_char 0 \<or> maxBits < dec_val s
      then None else Some (dec_val s))"

definition ParsePrefix4 :: "string \<Rightarrow> prefix option" where
  "ParsePrefix4 s =
     (case splitOn (CHR ''/'') s of
        [a, b] \<Rightarrow>
          (case (ParseAddr4 a, parseBits b 32) of
             (Some ip, Some n) \<Rightarrow> Some (Prefix ip n)
           | _ \<Rightarrow> None)
      | _ \<Rightarrow> None)"

lemma parseOctet_dec: "parseOctet (dec n) = (if n \<le> 255 then Some n else None)"
  using dec_hd [of n] dec_length [of n] dec_digits [of n]
  by (auto simp: parseOctet_def list_all_iff)

lemma parseBits_dec: "parseBits (dec n) m = (if n \<le> m then Some n else None)"
  using dec_hd [of n] dec_length [of n] dec_digits [of n]
  by (auto simp: parseBits_def list_all_iff)

lemma dec_no_sep: "\<not> is_digit c \<Longrightarrow> c \<notin> set (dec n)"
  using dec_digits by blast

lemma not_digit_seps [simp]: "\<not> is_digit (CHR ''.'')" "\<not> is_digit (CHR ''/'')"
  by (simp_all add: is_digit_def)

lemma ParseAddr4_dotted:
  assumes "a \<le> 255" "b \<le> 255" "c \<le> 255" "d \<le> 255"
  shows "ParseAddr4 (joinWith ''.'' (map dec [a, b, c, d])) = Some (v4_of_octets a b c d)"
proof -
  have "splitOn (CHR ''.'') (joinWith ''.'' (map dec [a, b, c, d])) = map dec [a, b, c, d]"
    by (rule splitOn_joinWith) (auto simp: dec_no_sep)
  then show ?thesis using assms by (simp add: ParseAddr4_def parseOctet_dec)
qed

lemma ParsePrefix4_dotted:
  assumes "a \<le> 255" "b \<le> 255" "c \<le> 255" "d \<le> 255"
  shows "ParsePrefix4 (joinWith ''.'' (map dec [a, b, c, d]) @ ''/'' @ dec n) =
    (if n \<le> 32 then Some (Prefix (v4_of_octets a b c d) n) else None)"
proof -
  let ?s = "joinWith ''.'' (map dec [a, b, c, d])"
  have no: "CHR ''/'' \<notin> set ?s"
    using dec_no_sep [of "CHR ''/''"] by auto
  have "splitOn (CHR ''/'') (?s @ ''/'' @ dec n) = [?s, dec n]"
    using splitOn_append [OF no, of "dec n"] splitOn_no_sep [of "CHR ''/''" "dec n"] dec_no_sep
    by simp
  then show ?thesis
    unfolding ParsePrefix4_def
    by (simp only: list.case prod.case ParseAddr4_dotted [OF assms] parseBits_dec option.case)
      simp
qed

end
