(* ===== verification/IpamNet.thy ===== *)
theory IpamNet
  imports NetipText
begin

text \<open>
  \<open>pkg/ipam/core/net.go\<close>: the bit-level helpers of the IPAM. A result \<open>None\<close> of a function that
  can panic (\<open>runtime.Must\<close>, \<open>netip.MustParsePrefix\<close>, an index out of range) is the panic.
\<close>

section \<open>Definitions\<close>

definition convertByteSliceToString :: "8 word list \<Rightarrow> string" where
  "convertByteSliceToString byteSlice = joinWith ''.'' (map (\<lambda>b. dec (unat b)) byteSlice)"

text \<open>\<open>setBit\<close>: \<open>None\<close> is the error "bit position out of range".\<close>

definition setBit :: "8 word \<Rightarrow> int \<Rightarrow> 8 word option" where
  "setBit b position =
     (if 7 < position \<or> position < 0 then None
      else Some (b OR push_bit (nat (7 - position)) 1))"

definition checkHostBitsZero :: "prefix \<Rightarrow> bool" where
  "checkHostBitsZero prefix \<longleftrightarrow> Compare (Addr (Masked prefix)) (Addr prefix) = 0"

text \<open>\<open>netip.Prefix.MarshalBinary\<close>: the address bytes, most significant first, then the mask length.\<close>

definition v4_bytes :: "32 word \<Rightarrow> 8 word list" where
  "v4_bytes w = map (\<lambda>i. ucast (drop_bit (24 - 8 * i) w)) [0, 1, 2, 3]"

definition v6_bytes :: "128 word \<Rightarrow> 8 word list" where
  "v6_bytes w = map (\<lambda>i. ucast (drop_bit (120 - 8 * i) w)) [0..<16]"

definition MarshalBinary :: "prefix \<Rightarrow> 8 word list" where
  "MarshalBinary p =
     (case Addr p of ZeroAddr \<Rightarrow> [] | V4 w \<Rightarrow> v4_bytes w | V6 w \<Rightarrow> v6_bytes w) @
     [word_of_nat (Bits p)]"

definition splitNetworkPrefix :: "prefix \<Rightarrow> (prefix \<times> prefix) option" where
  "splitNetworkPrefix prefix =
     (if \<not> checkHostBitsZero prefix then None
      else
        let bin = MarshalBinary prefix;
            maskLen = last bin;
            forge = (\<lambda>bs. ParsePrefix4
              (convertByteSliceToString (take 4 bs) @ ''/'' @ dec (unat (maskLen + 1))))
        in case forge bin of
             None \<Rightarrow> None
           | Some left \<Rightarrow>
               let byteIndex = unat (maskLen div 8);
                   bitIndex = unat (maskLen mod 8)
               in if length bin \<le> byteIndex then None
                  else case setBit (bin ! byteIndex) (int bitIndex) of
                         None \<Rightarrow> None
                       | Some b \<Rightarrow>
                           (case forge (bin[byteIndex := b]) of
                              None \<Rightarrow> None
                            | Some right \<Rightarrow> Some (left, right)))"

definition isPrefixChildOf :: "prefix \<Rightarrow> prefix \<Rightarrow> bool" where
  "isPrefixChildOf parent child \<longleftrightarrow> Bits parent \<le> Bits child \<and> Overlaps parent child"

section \<open>Splitting an IPv4 prefix\<close>

text \<open>The prefixes that the tree of an IPv4 pool holds: valid, with the host bits cleared.\<close>

definition net4 :: "prefix \<Rightarrow> bool" where
  "net4 p \<longleftrightarrow> (\<exists>w. Addr p = V4 w) \<and> Bits p \<le> 32 \<and> checkHostBitsZero p"

lemma checkHostBitsZero_iff: "checkHostBitsZero p \<longleftrightarrow> Masked p = p"
  by (cases p) (auto simp: checkHostBitsZero_def Masked_def)

lemma v4_byte: "unat (ucast (drop_bit k w :: 32 word) :: 8 word) = unat w div 2 ^ k mod 256"
  unfolding unsigned_ucast_eq unat_drop_bit by (simp add: take_bit_eq_mod)

lemma octets_value:
  fixes n :: nat
  assumes "n < 2 ^ 32"
  shows "((n div 16777216 mod 256 * 256 + n div 65536 mod 256) * 256 + n div 256 mod 256) * 256
    + n mod 256 = n"
proof -
  have "n div 16777216 mod 256 = n div 16777216" using assms by simp
  moreover have "n div 16777216 = n div 65536 div 256" by (simp flip: div_mult2_eq)
  moreover have "n div 65536 = n div 256 div 256" by (simp flip: div_mult2_eq)
  ultimately show ?thesis by simp
qed

lemma unat_or_bit:
  fixes b :: "8 word"
  assumes "k < 8" and "2 ^ Suc k dvd unat b"
  shows "unat (b OR push_bit k 1) = unat b + 2 ^ k"
proof -
  have "unat (push_bit k 1 :: 8 word) = push_bit k 1"
    using assms(1) unfolding unsigned_push_bit_eq by (simp add: take_bit_nat_eq_self_iff)
  then have "unat (b OR push_bit k 1) = set_bit k (unat b)"
    by (simp add: unsigned_or_eq set_bit_nat_def)
  moreover have "\<not> bit (unat b) k"
    using assms(2) by (auto simp: bit_nat_def mult.commute [of 2])
  ultimately show ?thesis by (simp add: set_bit_eq)
qed

text \<open>
  Setting the bit at the mask length, which is clear in a network address, adds the size of half
  the network.
\<close>

lemma octets_set_bit:
  fixes w :: "32 word"
  assumes m: "m < 32" and z: "2 ^ (32 - m) dvd unat w"
  obtains b where "setBit (v4_bytes w ! (m div 8)) (int (m mod 8)) = Some b"
    and "map unat ((v4_bytes w)[m div 8 := b]) = (map unat (v4_bytes w))
      [m div 8 := unat (v4_bytes w ! (m div 8)) + 2 ^ (7 - m mod 8)]"
proof -
  let ?B = "v4_bytes w ! (m div 8)"
  have i: "m div 8 < 4" using m by simp
  then consider "m div 8 = 0" | "m div 8 = 1" | "m div 8 = 2" | "m div 8 = 3"
    by linarith
  then have nth: "?B = ucast (drop_bit (24 - 8 * (m div 8)) w)"
    by cases (simp_all add: v4_bytes_def)
  have "unat ?B = unat w div 2 ^ (24 - 8 * (m div 8)) mod 256"
    unfolding nth by (rule v4_byte)
  moreover have "2 ^ Suc (7 - m mod 8) dvd unat w div 2 ^ (24 - 8 * (m div 8)) mod 256"
  proof (rule dvd_mod)
    have "32 - m = (24 - 8 * (m div 8)) + Suc (7 - m mod 8)"
      using i mod_less_divisor [of 8 m] div_mult_mod_eq [of m 8] by linarith
    then have "unat w = 2 ^ (24 - 8 * (m div 8)) * (2 ^ Suc (7 - m mod 8) * (unat w div 2 ^ (32 - m)))"
      using z by (simp only: power_add mult.assoc [symmetric] dvd_mult_div_cancel)
    then have "unat w div 2 ^ (24 - 8 * (m div 8)) = 2 ^ Suc (7 - m mod 8) * (unat w div 2 ^ (32 - m))"
      by (metis nonzero_mult_div_cancel_left power_not_zero zero_neq_numeral)
    then show "2 ^ Suc (7 - m mod 8) dvd unat w div 2 ^ (24 - 8 * (m div 8))"
      by simp
    show "(2::nat) ^ Suc (7 - m mod 8) dvd 256"
      using le_imp_power_dvd [of "Suc (7 - m mod 8)" 8 "2::nat"] by simp
  qed
  ultimately have "unat (?B OR push_bit (7 - m mod 8) 1) = unat ?B + 2 ^ (7 - m mod 8)"
    by (intro unat_or_bit) auto
  moreover have "setBit ?B (int (m mod 8)) = Some (?B OR push_bit (7 - m mod 8) 1)"
    by (simp add: setBit_def nat_diff_distrib)
  ultimately show thesis
    using that by (simp add: map_update)
qed

lemma forge_octets:
  assumes "length bs = 4"
  shows "ParsePrefix4 (convertByteSliceToString bs @ ''/'' @ dec n) =
    (if n \<le> 32 then Some (Prefix (v4_of_octets (map unat bs ! 0) (map unat bs ! 1)
       (map unat bs ! 2) (map unat bs ! 3)) n) else None)"
proof -
  obtain a b c d where bs: "bs = [a, b, c, d]"
    using assms by (auto simp: numeral_eq_Suc length_Suc_conv)
  have le: "unat x \<le> 255" for x :: "8 word"
    using unsigned_less [of x, where ?'a = nat] by simp
  show ?thesis
    using ParsePrefix4_dotted [OF le le le le, of a b c d n]
    unfolding bs convertByteSliceToString_def by simp
qed

lemma forge_Bits:
  assumes "ParsePrefix4 (convertByteSliceToString bs @ ''/'' @ dec n) = Some p"
  shows "Bits p = n \<and> n \<le> 32"
proof -
  let ?s = "convertByteSliceToString bs"
  have "set (joinWith ''.'' xs) \<subseteq> insert (CHR ''.'') (\<Union> (set ` set xs))" for xs
    by (induction "''.''" xs rule: joinWith.induct) auto
  then have no: "CHR ''/'' \<notin> set ?s"
    unfolding convertByteSliceToString_def
    by (rule contra_subsetD) (auto simp: dec_no_sep)
  have "splitOn (CHR ''/'') (?s @ ''/'' @ dec n) = [?s, dec n]"
    using splitOn_append [OF no, of "dec n"] splitOn_no_sep [of "CHR ''/''" "dec n"] dec_no_sep
    by simp
  then show ?thesis
    using assms unfolding ParsePrefix4_def
    by (auto simp: parseBits_dec split: option.splits if_splits)
qed

lemma v4_octets:
  "map unat (v4_bytes w) =
    [unat w div 16777216 mod 256, unat w div 65536 mod 256, unat w div 256 mod 256, unat w mod 256]"
  using v4_byte [of 24 w] v4_byte [of 16 w] v4_byte [of 8 w] v4_byte [of 0 w]
  by (simp add: v4_bytes_def)

lemma octets_add:
  fixes w :: "32 word"
  assumes m: "m < 32"
  defines "bs \<equiv> (map unat (v4_bytes w))
    [m div 8 := unat (v4_bytes w ! (m div 8)) + 2 ^ (7 - m mod 8)]"
  shows "((bs ! 0 * 256 + bs ! 1) * 256 + bs ! 2) * 256 + bs ! 3 = unat w + 2 ^ (31 - m)"
proof -
  let ?bs = "map unat (v4_bytes w)"
  have len: "length (v4_bytes w) = 4" by (simp add: v4_bytes_def)
  have i: "m div 8 < 4" using m by simp
  have "31 - m = (7 - m mod 8) + (24 - 8 * (m div 8))"
    using i mod_less_divisor [of 8 m] div_mult_mod_eq [of m 8] by linarith
  then have pow: "(2::nat) ^ (31 - m) = 2 ^ (7 - m mod 8) * 2 ^ (24 - 8 * (m div 8))"
    by (simp only: power_add)
  have val: "((?bs ! 0 * 256 + ?bs ! 1) * 256 + ?bs ! 2) * 256 + ?bs ! 3 = unat w"
    unfolding v4_octets using octets_value [of "unat w"] unsigned_less [of w, where ?'a = nat]
    by simp
  have nth: "unat (v4_bytes w ! (m div 8)) = ?bs ! (m div 8)"
    using i len by simp
  from i consider "m div 8 = 0" | "m div 8 = 1" | "m div 8 = 2" | "m div 8 = 3"
    by linarith
  then show ?thesis
    using val unfolding bs_def nth pow by cases (simp_all add: len nth_list_update)
qed

lemma net4_dvd: "net4 (Prefix (V4 w) m) \<Longrightarrow> 2 ^ (32 - m) dvd unat w"
  by (auto simp: net4_def checkHostBitsZero_iff Masked_def unat_push_drop
      dest!: arg_cong [where f = unat])
    (metis dvd_triv_right)

lemma splitNetworkPrefix_net4:
  assumes n: "net4 (Prefix (V4 w) m)"
  shows "splitNetworkPrefix (Prefix (V4 w) m) =
    (if m < 32
     then Some (Prefix (V4 w) (Suc m), Prefix (V4 (w + 2 ^ (31 - m))) (Suc m))
     else None)"
proof -
  have m: "m \<le> 32" and hz: "checkHostBitsZero (Prefix (V4 w) m)"
    using n by (auto simp: net4_def)
  let ?bin = "v4_bytes w @ [word_of_nat m :: 8 word]"
  have len: "length (v4_bytes w) = 4" by (simp add: v4_bytes_def)
  have um: "unat (word_of_nat m :: 8 word) = m" "unat ((word_of_nat m :: 8 word) + 1) = Suc m"
    using m by (simp_all add: unat_word_ariths unsigned_of_nat take_bit_eq_mod)
  have ud: "unat ((word_of_nat m :: 8 word) div 8) = m div 8"
    "unat ((word_of_nat m :: 8 word) mod 8) = m mod 8"
    by (simp_all add: unat_div unat_mod um)
  have left: "ParsePrefix4 (convertByteSliceToString (v4_bytes w) @ ''/'' @ dec (Suc m)) =
      (if m < 32 then Some (Prefix (V4 w) (Suc m)) else None)"
    unfolding forge_octets [OF len] v4_octets v4_of_octets_def
    using octets_value [of "unat w"] unsigned_less [of w, where ?'a = nat] by simp
  show ?thesis
  proof (cases "m < 32")
    case False
    then show ?thesis
      using hz left m
      by (simp add: splitNetworkPrefix_def MarshalBinary_def len um Let_def)
  next
    case True
    obtain b where b: "setBit (v4_bytes w ! (m div 8)) (int (m mod 8)) = Some b"
      and upd: "map unat ((v4_bytes w)[m div 8 := b]) = (map unat (v4_bytes w))
        [m div 8 := unat (v4_bytes w ! (m div 8)) + 2 ^ (7 - m mod 8)]"
      using octets_set_bit [OF True net4_dvd [OF n]] by blast
    have i: "m div 8 < 4" using True by simp
    have lenb: "length ((v4_bytes w)[m div 8 := b]) = 4" by (simp add: len)
    have right: "ParsePrefix4 (convertByteSliceToString ((v4_bytes w)[m div 8 := b]) @ ''/''
        @ dec (Suc m)) = Some (Prefix (V4 (w + 2 ^ (31 - m))) (Suc m))"
      unfolding forge_octets [OF lenb] upd v4_of_octets_def octets_add [OF True]
      using True by simp
    show ?thesis
      using hz left right b True i
      by (simp add: splitNetworkPrefix_def MarshalBinary_def len um ud Let_def nth_append
          list_update_append)
  qed
qed

section \<open>What a split gives\<close>

lemma net4_cases:
  assumes "net4 p"
  obtains w m where "p = Prefix (V4 w) m" and "m \<le> 32"
  using assms by (cases p) (auto simp: net4_def)

lemma net4_Valid [simp]: "net4 p \<Longrightarrow> Valid p"
  by (auto simp: Valid_def elim: net4_cases)

lemma net4_BitLen [simp]: "net4 p \<Longrightarrow> BitLen (Addr p) = 32"
  by (auto elim: net4_cases)

lemma net4_Masked: "net4 p \<Longrightarrow> Masked p = p"
  by (auto simp: net4_def checkHostBitsZero_iff)

lemma net4I: "Addr p = V4 w \<Longrightarrow> Bits p \<le> 32 \<Longrightarrow> 2 ^ (32 - Bits p) dvd unat w \<Longrightarrow> net4 p"
  by (cases p)
    (auto simp: net4_def checkHostBitsZero_iff Masked_def unat_push_drop word_unat_eq_iff)

text \<open>
  A split of a network gives the two halves of it: one bit more, the same leading bits, and a 0 or
  a 1 as the last one.
\<close>

lemma split_net4:
  assumes "net4 p" and "splitNetworkPrefix p = Some (l, r)"
  shows "net4 l" "net4 r" "Bits l = Suc (Bits p)" "Bits r = Suc (Bits p)" "Bits p < 32"
    "topbits (Suc (Bits p)) (Addr l) = 2 * topbits (Bits p) (Addr p)"
    "topbits (Suc (Bits p)) (Addr r) = Suc (2 * topbits (Bits p) (Addr p))"
proof -
  obtain w m where p: "p = Prefix (V4 w) m" using assms(1) by (rule net4_cases)
  have n: "net4 (Prefix (V4 w) m)" using assms(1) p by simp
  have m: "m < 32" and l: "l = Prefix (V4 w) (Suc m)"
    and r: "r = Prefix (V4 (w + 2 ^ (31 - m))) (Suc m)"
    using assms(2) splitNetworkPrefix_net4 [OF n] p by (auto split: if_splits)
  obtain k where k: "unat w = 2 ^ (32 - m) * k"
    using net4_dvd [OF n] by blast
  have s: "32 - m = Suc (31 - m)" using m by simp
  have half: "(2::nat) ^ (32 - m) = 2 * 2 ^ (31 - m)" by (simp only: s power_Suc)
  have "2 ^ (32 - m) * k < 2 ^ (32 - m) * 2 ^ m"
    using unsigned_less [of w, where ?'a = nat] k m by (simp flip: power_add)
  then have "Suc k \<le> 2 ^ m" by simp
  then have "2 ^ (32 - m) * Suc k \<le> 2 ^ (32 - m) * 2 ^ m" by (rule mult_le_mono2)
  also have "\<dots> = 2 ^ 32" using m by (simp flip: power_add)
  finally have "2 ^ (32 - m) * k + 2 ^ (32 - m) \<le> 2 ^ 32" by simp
  moreover have "(2::nat) ^ (31 - m) < 2 ^ (32 - m)" by (simp add: half)
  ultimately have "unat w + 2 ^ (31 - m) < 2 ^ 32" unfolding k by linarith
  then have "unat (word_of_nat (unat w + 2 ^ (31 - m)) :: 32 word) = unat w + 2 ^ (31 - m)"
    by (simp only: unsigned_of_nat) (simp add: take_bit_nat_eq_self)
  then have "unat (w + 2 ^ (31 - m)) = unat w + 2 ^ (31 - m)" by simp
  then have ur: "unat (w + 2 ^ (31 - m)) = 2 ^ (31 - m) * Suc (2 * k)"
    using k half by simp
  show "Bits l = Suc (Bits p)" "Bits r = Suc (Bits p)" "Bits p < 32"
    using p l r m by simp_all
  show "net4 l" "net4 r"
    using l r m k half ur by (auto intro!: net4I)
  show "topbits (Suc (Bits p)) (Addr l) = 2 * topbits (Bits p) (Addr p)"
    "topbits (Suc (Bits p)) (Addr r) = Suc (2 * topbits (Bits p) (Addr p))"
    using p l r ur k half by (simp_all add: topbits_def)
qed

lemma splitNetworkPrefix_total:
  assumes "net4 p" and "Bits p < 32"
  obtains l r where "splitNetworkPrefix p = Some (l, r)"
  using assms splitNetworkPrefix_net4 by (metis net4_cases prefix.sel(2))

lemma splitNetworkPrefix_32: "net4 p \<Longrightarrow> Bits p = 32 \<Longrightarrow> splitNetworkPrefix p = None"
  using splitNetworkPrefix_net4 by (metis nat_neq_iff net4_cases prefix.sel(2))

lemma topbits_half:
  assumes "BitLen a = 32" and "n < 32"
  shows "topbits n a = topbits (Suc n) a div 2"
proof -
  have "32 - n = Suc (32 - Suc n)" using assms(2) by simp
  then show ?thesis
    using assms by (simp add: topbits_def div_mult2_eq [symmetric] mult.commute)
qed

text \<open>The halves are disjoint, and a longer prefix inside the network lies in exactly one of them.\<close>

lemma split_Overlaps:
  assumes n: "net4 p" and s: "splitNetworkPrefix p = Some (l, r)"
  shows "\<not> Overlaps l r" and "Overlaps p l" and "Overlaps p r"
    and "\<And>q. Bits p < Bits q \<Longrightarrow> Overlaps p q \<longleftrightarrow> Overlaps l q \<or> Overlaps r q"
    and "\<And>q. Bits p < Bits q \<Longrightarrow> \<not> (Overlaps l q \<and> Overlaps r q)"
proof -
  note f = split_net4 [OF n s]
  have l: "topbits (Bits p) (Addr l) = topbits (Bits p) (Addr p)"
    and r: "topbits (Bits p) (Addr r) = topbits (Bits p) (Addr p)"
    using topbits_half [of "Addr l" "Bits p"] topbits_half [of "Addr r" "Bits p"] f by simp_all
  show "\<not> Overlaps l r" using f by (simp add: Overlaps_iff)
  show "Overlaps p l" "Overlaps p r" using f n l r by (simp_all add: Overlaps_iff min_absorb1)
  fix q assume q: "Bits p < Bits q"
  have m: "min (Bits p) (Bits q) = Bits p" "min (Suc (Bits p)) (Bits q) = Suc (Bits p)"
    using q by simp_all
  show "Overlaps p q \<longleftrightarrow> Overlaps l q \<or> Overlaps r q"
    using topbits_half [of "Addr q" "Bits p"] f n
    by (auto simp: Overlaps_iff m)
  show "\<not> (Overlaps l q \<and> Overlaps r q)"
    using f by (auto simp: Overlaps_iff m)
qed

end
