(* ===== verification/IpamNode.thy ===== *)
theory IpamNode
  imports IpamNet
begin

text \<open>
  \<open>pkg/ipam/core/node.go\<close>: the buddy tree of a pool. A Go \<open>*node\<close> with \<open>nil\<close> is a \<open>node option\<close>;
  a method that writes through its receiver returns the new node. A function that can panic
  returns \<open>None\<close> for the panic. Every reading of \<open>time.Now()\<close> takes the next value of the clock.
\<close>

section \<open>Nodes\<close>

record nodeIP =
  nodeIP_addr :: addr
  creationTimestamp :: time

text \<open>The fields of the struct \<open>node\<close> but the two children.\<close>

record nodeInfo =
  lastUpdateTimestamp :: time
  prefix :: prefix
  refCount :: int
  ips :: "nodeIP list"
  lastip :: addr

datatype node = Node (info: nodeInfo) (left: "node option") (right: "node option")

datatype nodeDirection = leftDirection | rightDirection

definition isAcquired :: "node \<Rightarrow> bool" where
  "isAcquired n \<longleftrightarrow> refCount (info n) \<noteq> 0"

definition isExclusive :: "node \<Rightarrow> bool" where
  "isExclusive n \<longleftrightarrow> refCount (info n) = -1"

definition newNode :: "prefix \<Rightarrow> clock \<Rightarrow> node \<times> clock" where
  "newNode p c =
     (let (now, c) = time_Now c
      in (Node \<lparr>lastUpdateTimestamp = now, prefix = p, refCount = 0, ips = [], lastip = ZeroAddr\<rparr>
            None None, c))"

definition isSplitted :: "node \<Rightarrow> bool" where
  "isSplitted n \<longleftrightarrow> left n \<noteq> None \<and> right n \<noteq> None"

definition isLeaf :: "node \<Rightarrow> bool" where
  "isLeaf n \<longleftrightarrow> left n = None \<and> right n = None"

fun next_node :: "nodeDirection \<Rightarrow> node \<Rightarrow> node option" where
  "next_node leftDirection n = left n"
| "next_node rightDirection n = right n"

text \<open>Writing a child through its pointer.\<close>

fun set_child :: "nodeDirection \<Rightarrow> node \<Rightarrow> node \<Rightarrow> node" where
  "set_child leftDirection ch (Node i l r) = Node i (Some ch) r"
| "set_child rightDirection ch (Node i l r) = Node i l (Some ch)"

definition insert_node :: "nodeDirection \<Rightarrow> prefix \<Rightarrow> node \<Rightarrow> clock \<Rightarrow> node \<times> clock" where
  "insert_node nd p n c = (let (ch, c) = newNode p c in (set_child nd ch n, c))"

definition split :: "node \<Rightarrow> clock \<Rightarrow> (node \<times> clock) option" where
  "split n c =
     (if isSplitted n then Some (n, c)
      else case splitNetworkPrefix (prefix (info n)) of
             None \<Rightarrow> None
           | Some (lp, rp) \<Rightarrow>
               (let (n, c) = insert_node leftDirection lp n c;
                    (n, c) = insert_node rightDirection rp n c
                in Some (n, c)))"

text \<open>\<open>bestDirection\<close> dereferences the children: \<open>None\<close> when it meets a nil one.\<close>

definition bestDirection :: "node \<Rightarrow> (nodeDirection \<times> nodeDirection) option" where
  "bestDirection n =
     (case left n of
        None \<Rightarrow> None
      | Some l \<Rightarrow>
          if isSplitted l then Some (leftDirection, rightDirection)
          else (case right n of
                  None \<Rightarrow> None
                | Some r \<Rightarrow>
                    if isSplitted r then Some (rightDirection, leftDirection)
                    else Some (leftDirection, rightDirection)))"

section \<open>Networks\<close>

text \<open>Facts that justify the recursion of the allocation functions.\<close>

lemma size_child: "next_node d n = Some ch \<Longrightarrow> size ch < size n"
  by (cases n; cases d) auto

lemma newNode_simps [simp]:
  "left (fst (newNode p c)) = None" "right (fst (newNode p c)) = None"
  "info (fst (newNode p c)) = \<lparr>lastUpdateTimestamp = shd c, prefix = p, refCount = 0, ips = [],
     lastip = ZeroAddr\<rparr>"
  "snd (newNode p c) = stl c"
  by (simp_all add: newNode_def time_Now_def)

lemma split_eq:
  assumes "split n c = Some (n1, c1)"
  shows "isSplitted n \<and> n1 = n \<and> c1 = c \<or>
    \<not> isSplitted n \<and> (\<exists>lp rp. splitNetworkPrefix (prefix (info n)) = Some (lp, rp) \<and>
      n1 = Node (info n) (Some (fst (newNode lp c))) (Some (fst (newNode rp (stl c)))) \<and>
      c1 = stl (stl c))"
  using assms
  by (cases n) (auto simp: split_def insert_node_def case_prod_beta Let_def split: if_splits option.splits)

lemma splitNetworkPrefix_Bits:
  assumes "splitNetworkPrefix p = Some (l, r)"
  shows "Bits l \<le> 32" "Bits r \<le> 32"
    "Bits p \<le> 32 \<Longrightarrow> Bits l = Suc (Bits p) \<and> Bits r = Suc (Bits p)"
proof -
  have "last (MarshalBinary p) = word_of_nat (Bits p)" by (simp add: MarshalBinary_def)
  moreover have "unat ((word_of_nat (Bits p) :: 8 word) + 1) = Suc (Bits p)" if "Bits p \<le> 32"
    using that by (simp add: unat_word_ariths unsigned_of_nat take_bit_eq_mod)
  ultimately show "Bits l \<le> 32" "Bits r \<le> 32"
    "Bits p \<le> 32 \<Longrightarrow> Bits l = Suc (Bits p) \<and> Bits r = Suc (Bits p)"
    using assms forge_Bits
    by (auto simp: splitNetworkPrefix_def Let_def split: if_splits option.splits)
qed

text \<open>How far a prefix is from \<open>/32\<close>, the bound of the recursion below a leaf.\<close>

definition room :: "node \<Rightarrow> nat" where
  "room n = (if Bits (prefix (info n)) \<le> 32 then 33 - Bits (prefix (info n)) else 34)"

lemma split_decreases:
  assumes "split n c = Some (n1, c1)" and "next_node d n1 = Some ch"
  shows "size ch < size n \<or> size ch = size n \<and> room ch < room n"
  using split_eq [OF assms(1)]
proof (elim disjE conjE exE)
  assume "n1 = n"
  then show ?thesis using assms(2) size_child by blast
next
  fix lp rp
  assume s: "splitNetworkPrefix (prefix (info n)) = Some (lp, rp)"
    and n1: "n1 = Node (info n) (Some (fst (newNode lp c))) (Some (fst (newNode rp (stl c))))"
  have "size (fst (newNode p c)) \<le> size n" for p c
    by (cases n; cases "fst (newNode p c)"; cases "left n"; cases "right n")
      (use newNode_simps(1,2) [of p c] in auto)
  moreover have "ch = fst (newNode lp c) \<or> ch = fst (newNode rp (stl c))"
    using assms(2) n1 by (cases d) auto
  moreover have "room (fst (newNode lp c)) < room n" "room (fst (newNode rp c)) < room n" for c
    using splitNetworkPrefix_Bits [OF s] by (auto simp: room_def)
  ultimately show ?thesis by (metis le_neq_implies_less)
qed

lemmas split_decreases_lr =
  split_decreases [where d = leftDirection, unfolded next_node.simps]
  split_decreases [where d = rightDirection, unfolded next_node.simps]

text \<open>The first network of the given size that is free, in the order of \<open>bestDirection\<close>.\<close>

function allocateNetwork ::
  "int \<Rightarrow> node \<Rightarrow> bool \<Rightarrow> clock \<Rightarrow> (node \<times> prefix option \<times> clock) option" where
  "allocateNetwork sz n exclusive c =
     (let bits = int (Bits (prefix (info n))) in
      if isAcquired n \<or> sz < bits then Some (n, None, c)
      else if bits = sz then
        (if \<not> isSplitted n then
           (let (now, c) = time_Now c
            in Some (Node ((info n)\<lparr>refCount := if exclusive then -1 else 1,
                 lastUpdateTimestamp := now\<rparr>) (left n) (right n), Some (prefix (info n)), c))
         else Some (n, None, c))
      else
        (case split n c of
           None \<Rightarrow> None
         | Some (n1, c1) \<Rightarrow>
             (case bestDirection n1 of
                None \<Rightarrow> None
              | Some (first, second) \<Rightarrow>
                  (case next_node first n1 of
                     None \<Rightarrow> None
                   | Some ch1 \<Rightarrow>
                       (case allocateNetwork sz ch1 exclusive c1 of
                          None \<Rightarrow> None
                        | Some (ch1', Some p, c2) \<Rightarrow> Some (set_child first ch1' n1, Some p, c2)
                        | Some (ch1', None, c2) \<Rightarrow>
                            (case next_node second n1 of
                               None \<Rightarrow> None
                             | Some ch2 \<Rightarrow>
                                 (case allocateNetwork sz ch2 exclusive c2 of
                                    None \<Rightarrow> None
                                  | Some (ch2', res, c3) \<Rightarrow>
                                      Some (set_child second ch2' (set_child first ch1' n1),
                                        res, c3))))))))"
  by pat_completeness auto
termination
proof (relation "measures [\<lambda>(sz, n, e, c). size n, \<lambda>(sz, n, e, c). room n]", goal_cases)
  case 1
  show ?case by simp
next
  case 2
  then show ?case by (auto dest: split_decreases)
next
  case 3
  then show ?case by (auto dest: split_decreases)
qed

declare allocateNetwork.simps [simp del]

fun hasAcquiredDescendants :: "node \<Rightarrow> bool" where
  "hasAcquiredDescendants (Node i l r) \<longleftrightarrow>
     (case l of None \<Rightarrow> False | Some l \<Rightarrow> isAcquired l \<or> hasAcquiredDescendants l) \<or>
     (case r of None \<Rightarrow> False | Some r \<Rightarrow> isAcquired r \<or> hasAcquiredDescendants r)"

fun hasExclusiveDescendants :: "node \<Rightarrow> bool" where
  "hasExclusiveDescendants (Node i l r) \<longleftrightarrow>
     (case l of None \<Rightarrow> False | Some l \<Rightarrow> isExclusive l \<or> hasExclusiveDescendants l) \<or>
     (case r of None \<Rightarrow> False | Some r \<Rightarrow> isExclusive r \<or> hasExclusiveDescendants r)"

text \<open>\<open>node.prefix.Addr().Compare(prefix.Addr()) == 0 && node.prefix.Bits() == prefix.Bits()\<close>.\<close>

definition matches :: "prefix \<Rightarrow> node \<Rightarrow> bool" where
  "matches p n \<longleftrightarrow>
     Compare (Addr (prefix (info n))) (Addr p) = 0 \<and> Bits (prefix (info n)) = Bits p"

definition child_overlaps :: "prefix \<Rightarrow> node option \<Rightarrow> bool" where
  "child_overlaps p ch \<longleftrightarrow> (case ch of None \<Rightarrow> False | Some ch \<Rightarrow> Overlaps (prefix (info ch)) p)"

function allocateNetworkWithPrefix ::
  "prefix \<Rightarrow> node \<Rightarrow> bool \<Rightarrow> clock \<Rightarrow> (node \<times> prefix option \<times> clock) option" where
  "allocateNetworkWithPrefix p n exclusive c =
     (if \<not> isPrefixChildOf (prefix (info n)) p then Some (n, None, c)
      else if matches p n then
        (if exclusive then
           (if isAcquired n \<or> hasAcquiredDescendants n then Some (n, None, c)
            else (let (now, c) = time_Now c
                  in Some (Node ((info n)\<lparr>refCount := -1, lastUpdateTimestamp := now\<rparr>)
                       (left n) (right n), Some (prefix (info n)), c)))
         else
           (if isExclusive n \<or> hasExclusiveDescendants n then Some (n, None, c)
            else (let (now, c) = time_Now c
                  in Some (Node ((info n)\<lparr>refCount := refCount (info n) + 1,
                       lastUpdateTimestamp := now\<rparr>) (left n) (right n),
                       Some (prefix (info n)), c))))
      else if isExclusive n \<or> exclusive \<and> isAcquired n then Some (n, None, c)
      else
        (case split n c of
           None \<Rightarrow> None
         | Some (n1, c1) \<Rightarrow>
             if child_overlaps p (next_node leftDirection n1) then
               (case next_node leftDirection n1 of
                  None \<Rightarrow> None
                | Some ch \<Rightarrow>
                    (case allocateNetworkWithPrefix p ch exclusive c1 of
                       None \<Rightarrow> None
                     | Some (ch', res, c2) \<Rightarrow> Some (set_child leftDirection ch' n1, res, c2)))
             else if child_overlaps p (next_node rightDirection n1) then
               (case next_node rightDirection n1 of
                  None \<Rightarrow> None
                | Some ch \<Rightarrow>
                    (case allocateNetworkWithPrefix p ch exclusive c1 of
                       None \<Rightarrow> None
                     | Some (ch', res, c2) \<Rightarrow> Some (set_child rightDirection ch' n1, res, c2)))
             else Some (n1, None, c1)))"
  by pat_completeness auto
termination
proof (relation "measures [\<lambda>(p, n, e, c). size n, \<lambda>(p, n, e, c). room n]", goal_cases)
  case 1
  show ?case by simp
next
  case 2
  then show ?case by (auto dest: split_decreases_lr)
next
  case 3
  then show ?case by (auto dest: split_decreases_lr)
qed

declare allocateNetworkWithPrefix.simps [simp del]

text \<open>
  \<open>merge\<close>: the second reading of the clock happens only when the left child's grace period is over.
\<close>

definition merge :: "duration \<Rightarrow> node \<Rightarrow> clock \<Rightarrow> node \<times> clock" where
  "merge gracePeriod n c =
     (case (left n, right n) of
        (Some l, Some r) \<Rightarrow>
          (let (now, c) = time_Now c in
           if \<not> expired (lastUpdateTimestamp (info l)) gracePeriod now then (n, c)
           else let (now, c) = time_Now c in
           if \<not> expired (lastUpdateTimestamp (info r)) gracePeriod now then (n, c)
           else if \<not> isLeaf l \<or> \<not> isLeaf r then (n, c)
           else if isAcquired l \<or> isAcquired r then (n, c)
           else let (now, c) = time_Now c in
             (Node ((info n)\<lparr>lastUpdateTimestamp := now\<rparr>) None None, c))
      | _ \<Rightarrow> (n, c))"

definition child_parent_of :: "prefix \<Rightarrow> node \<Rightarrow> bool" where
  "child_parent_of p ch \<longleftrightarrow> isPrefixChildOf (prefix (info ch)) p"

text \<open>The release of the node itself, once its prefix matches and its grace period is over.\<close>

definition release_here :: "node \<Rightarrow> clock \<Rightarrow> node \<times> prefix option \<times> clock" where
  "release_here n c =
     (if isAcquired n then
        (let rc = (if isExclusive n then 0
                   else if 0 < refCount (info n) then refCount (info n) - 1
                   else refCount (info n));
             (now, c) = time_Now c
         in (Node ((info n)\<lparr>refCount := rc, lastUpdateTimestamp := now\<rparr>) (left n) (right n),
              Some (prefix (info n)), c))
      else (n, None, c))"

fun networkRelease :: "prefix \<Rightarrow> node \<Rightarrow> duration \<Rightarrow> clock \<Rightarrow> node \<times> prefix option \<times> clock" where
  "networkRelease p (Node i l r) gracePeriod c =
     (let here = matches p (Node i l r);
          (now, c) = (if here then time_Now c else (0, c))
      in if here \<and> expired (lastUpdateTimestamp i) gracePeriod now
         then release_here (Node i l r) c
         else
           (let (l, res, c) =
                  (case l of
                     None \<Rightarrow> (None, None, c)
                   | Some ch \<Rightarrow>
                       if child_parent_of p ch
                       then (let (ch, res, c) = networkRelease p ch gracePeriod c
                             in (Some ch, res, c))
                       else (Some ch, None, c));
                (r, res, c) =
                  (case r of
                     None \<Rightarrow> (None, res, c)
                   | Some ch \<Rightarrow>
                       if child_parent_of p ch
                       then (let (ch, res, c) = networkRelease p ch gracePeriod c
                             in (Some ch, res, c))
                       else (Some ch, res, c));
                (n, c) = merge gracePeriod (Node i l r) c
            in (n, res, c)))"

declare networkRelease.simps [simp del]

fun networkIsAvailable :: "prefix \<Rightarrow> node \<Rightarrow> bool" where
  "networkIsAvailable p (Node i l r) =
     (if matches p (Node i l r) then
        (if (case l of None \<Rightarrow> False | Some l \<Rightarrow> isSplitted l \<or> isAcquired l) then False
         else if (case r of None \<Rightarrow> False | Some r \<Rightarrow> isSplitted r \<or> isAcquired r) then False
         else \<not> isAcquired (Node i l r))
      else if l = None \<and> r = None then \<not> isAcquired (Node i l r)
      else
        (case l of
           Some ch \<Rightarrow>
             if child_parent_of p ch \<and> \<not> isAcquired ch then networkIsAvailable p ch
             else (case r of
                     Some ch' \<Rightarrow>
                       if child_parent_of p ch' \<and> \<not> isAcquired ch' then networkIsAvailable p ch'
                       else False
                   | None \<Rightarrow> False)
         | None \<Rightarrow>
             (case r of
                Some ch' \<Rightarrow>
                  if child_parent_of p ch' \<and> \<not> isAcquired ch' then networkIsAvailable p ch'
                  else False
              | None \<Rightarrow> False)))"

fun listNetworks :: "node \<Rightarrow> prefix list" where
  "listNetworks (Node i l r) =
     (if isExclusive (Node i l r) then [prefix i]
      else (if isAcquired (Node i l r) then [prefix i] else []) @
        (case l of None \<Rightarrow> [] | Some l \<Rightarrow> listNetworks l) @
        (case r of None \<Rightarrow> [] | Some r \<Rightarrow> listNetworks r))"

section \<open>Addresses\<close>

definition isAllocatedIP :: "addr \<Rightarrow> nodeInfo \<Rightarrow> bool" where
  "isAllocatedIP ip i \<longleftrightarrow> (\<exists>x\<in>set (ips i). Compare (nodeIP_addr x) ip = 0)"

text \<open>
  \<open>int(math.Pow(2, float64(BitLen - Bits)))\<close>: exact up to \<open>2^62\<close>; from \<open>2^63\<close> on the conversion is
  out of range and gives the smallest \<open>int64\<close> on amd64.
\<close>

definition ip_count :: "prefix \<Rightarrow> int" where
  "ip_count p =
     (let k = BitLen (Addr p) - Bits p in if k < 63 then 2 ^ k else - (2 ^ 63))"

text \<open>The loop of \<open>ipAcquire\<close>, with the number of iterations left.\<close>

fun ipAcquire_loop :: "nat \<Rightarrow> addr \<Rightarrow> nodeInfo \<Rightarrow> clock \<Rightarrow> nodeInfo \<times> addr option \<times> clock" where
  "ipAcquire_loop 0 a i c = (i, None, c)"
| "ipAcquire_loop (Suc k) a i c =
     (let a = (if \<not> Contains (prefix i) a then Addr (prefix i) else a) in
      if \<not> isAllocatedIP a i then
        (let (now, c) = time_Now c;
             i = i\<lparr>ips := ips i @ [\<lparr>nodeIP_addr = a, creationTimestamp = now\<rparr>]\<rparr>;
             (now, c) = time_Now c
         in (i\<lparr>lastip := a, lastUpdateTimestamp := now\<rparr>, Some a, c))
      else ipAcquire_loop k (Next a) i c)"

definition ipAcquire :: "node \<Rightarrow> clock \<Rightarrow> node \<times> addr option \<times> clock" where
  "ipAcquire n c =
     (if \<not> isAcquired n then (n, None, c)
      else
        let i = info n;
            i = (if \<not> IsValid (lastip i) then i\<lparr>lastip := Addr (prefix i)\<rparr> else i);
            a = (if Compare (lastip i) (Addr (prefix i)) \<noteq> 0 then Next (lastip i) else lastip i);
            (i, res, c) = ipAcquire_loop (nat (ip_count (prefix i))) a i c
        in (Node i (left n) (right n), res, c))"

definition allocateIPWithAddr :: "addr \<Rightarrow> node \<Rightarrow> clock \<Rightarrow> node \<times> addr option \<times> clock" where
  "allocateIPWithAddr a n c =
     (if \<not> isAcquired n then (n, None, c)
      else if \<not> Contains (prefix (info n)) a then (n, None, c)
      else if isAllocatedIP a (info n) then (n, None, c)
      else
        let (now, c) = time_Now c;
            i = (info n)\<lparr>ips := ips (info n) @ [\<lparr>nodeIP_addr = a, creationTimestamp = now\<rparr>]\<rparr>;
            (now, c) = time_Now c
        in (Node (i\<lparr>lastUpdateTimestamp := now\<rparr>) (left n) (right n), Some a, c))"

text \<open>
  The loop of \<open>ipRelease\<close>: the list without the first entry whose grace period is over and whose
  address matches. The clock is read once per entry.
\<close>

fun ipRelease_loop :: "addr \<Rightarrow> duration \<Rightarrow> nodeIP list \<Rightarrow> clock \<Rightarrow> nodeIP list option \<times> clock" where
  "ipRelease_loop ip gracePeriod [] c = (None, c)"
| "ipRelease_loop ip gracePeriod (x # xs) c =
     (let (now, c) = time_Now c in
      if expired (creationTimestamp x) gracePeriod now \<and> Compare (nodeIP_addr x) ip = 0
      then (Some xs, c)
      else let (res, c) = ipRelease_loop ip gracePeriod xs c
           in (map_option ((#) x) res, c))"

definition ipRelease :: "addr \<Rightarrow> duration \<Rightarrow> node \<Rightarrow> clock \<Rightarrow> node \<times> addr option \<times> clock" where
  "ipRelease ip gracePeriod n c =
     (if \<not> isAcquired n then (n, None, c)
      else
        case ipRelease_loop ip gracePeriod (ips (info n)) c of
          (None, c) \<Rightarrow> (n, None, c)
        | (Some xs, c) \<Rightarrow>
            (let (now, c) = time_Now c
             in (Node ((info n)\<lparr>ips := xs, lastUpdateTimestamp := now\<rparr>) (left n) (right n),
                  Some ip, c)))"

section \<open>Pointers into the tree\<close>

text \<open>
  \<open>search\<close> returns a pointer to the node with the prefix. A pointer into a tree is the list of
  directions that lead to the node.
\<close>

fun search :: "prefix \<Rightarrow> node \<Rightarrow> nodeDirection list option" where
  "search p (Node i l r) =
     (if matches p (Node i l r) then Some []
      else
        (case l of
           Some ch \<Rightarrow>
             if child_parent_of p ch then map_option ((#) leftDirection) (search p ch)
             else (case r of
                     Some ch' \<Rightarrow>
                       if child_parent_of p ch' then map_option ((#) rightDirection) (search p ch')
                       else None
                   | None \<Rightarrow> None)
         | None \<Rightarrow>
             (case r of
                Some ch' \<Rightarrow>
                  if child_parent_of p ch' then map_option ((#) rightDirection) (search p ch')
                  else None
              | None \<Rightarrow> None)))"

fun node_at :: "nodeDirection list \<Rightarrow> node \<Rightarrow> node option" where
  "node_at [] n = Some n"
| "node_at (d # ds) n = (case next_node d n of None \<Rightarrow> None | Some ch \<Rightarrow> node_at ds ch)"

fun store_at :: "nodeDirection list \<Rightarrow> node \<Rightarrow> node \<Rightarrow> node" where
  "store_at [] m n = m"
| "store_at (d # ds) m n =
     (case next_node d n of None \<Rightarrow> n | Some ch \<Rightarrow> set_child d (store_at ds m ch) n)"

end
