(* ===== verification/IpamTree.thy ===== *)
theory IpamTree
  imports IpamNode
begin

text \<open>
  The invariant of the buddy tree and the meaning of its operations. A tree is read through
  \<open>refs\<close>, the reference count of every network, and every operation of \<open>IpamNode\<close> is shown to
  change exactly what it should of it.
\<close>

section \<open>Well-formed trees and their reference counts\<close>

definition addrs :: "nodeInfo \<Rightarrow> addr list" where
  "addrs i = map nodeIP_addr (ips i)"

text \<open>No address is allocated twice, and every one is in the network.\<close>

definition ips_ok :: "nodeInfo \<Rightarrow> bool" where
  "ips_ok i \<longleftrightarrow> distinct (addrs i) \<and> (\<forall>a\<in>set (addrs i). Contains (prefix i) a)"

lemma ips_ok_upd [simp]:
  "ips_ok (i\<lparr>refCount := k\<rparr>) \<longleftrightarrow> ips_ok i" "ips_ok (i\<lparr>lastUpdateTimestamp := t\<rparr>) \<longleftrightarrow> ips_ok i"
  by (simp_all add: ips_ok_def addrs_def)

lemma ips_ok_empty [simp]: "ips i = [] \<Longrightarrow> ips_ok i"
  by (simp add: ips_ok_def addrs_def)

fun wf_tree :: "node \<Rightarrow> bool" where
  "wf_tree (Node i l r) \<longleftrightarrow> net4 (prefix i) \<and> -1 \<le> refCount i \<and> ips_ok i \<and>
     (case (l, r) of
        (None, None) \<Rightarrow> True
      | (Some a, Some b) \<Rightarrow>
          splitNetworkPrefix (prefix i) = Some (prefix (info a), prefix (info b)) \<and>
          wf_tree a \<and> wf_tree b
      | _ \<Rightarrow> False)"

fun refs :: "node \<Rightarrow> prefix \<Rightarrow> int" where
  "refs (Node i l r) q =
     (if prefix i = q then refCount i else 0) +
     (case l of None \<Rightarrow> 0 | Some a \<Rightarrow> refs a q) + (case r of None \<Rightarrow> 0 | Some b \<Rightarrow> refs b q)"

abbreviation root :: "node \<Rightarrow> prefix" where
  "root n \<equiv> prefix (info n)"

lemma matches_iff [simp]: "matches p n \<longleftrightarrow> root n = p"
  by (cases p; cases "root n") (auto simp: matches_def)

lemma wf_tree_net4: "wf_tree n \<Longrightarrow> net4 (root n)"
  by (cases n) simp

lemma wf_tree_ips_ok: "wf_tree n \<Longrightarrow> ips_ok (info n)"
  by (cases n) simp

lemma wf_tree_cases [consumes 1, case_names leaf split]:
  assumes "wf_tree n"
  obtains i where "n = Node i None None" and "net4 (prefix i)" and "-1 \<le> refCount i" and "ips_ok i"
  | i a b where "n = Node i (Some a) (Some b)" and "net4 (prefix i)" and "-1 \<le> refCount i"
      and "splitNetworkPrefix (prefix i) = Some (root a, root b)" and "wf_tree a" and "wf_tree b"
      and "ips_ok i"
  using assms by (cases n) (auto split: option.splits)

lemma wf_tree_induct [consumes 1, case_names leaf split]:
  assumes "wf_tree n"
    and leaf: "\<And>i. net4 (prefix i) \<Longrightarrow> -1 \<le> refCount i \<Longrightarrow> ips_ok i \<Longrightarrow> P (Node i None None)"
    and split: "\<And>i a b. net4 (prefix i) \<Longrightarrow> -1 \<le> refCount i \<Longrightarrow>
      splitNetworkPrefix (prefix i) = Some (root a, root b) \<Longrightarrow> wf_tree a \<Longrightarrow> wf_tree b \<Longrightarrow>
      ips_ok i \<Longrightarrow> P a \<Longrightarrow> P b \<Longrightarrow> P (Node i (Some a) (Some b))"
  shows "P n"
  using assms(1)
proof (induction n rule: measure_induct_rule [where f = size])
  case (less n)
  from less.prems show ?case
  proof (cases rule: wf_tree_cases)
    case (leaf i)
    then show ?thesis using assms(2) by simp
  next
    case (split i a b)
    then have "P a" "P b" using less.IH by auto
    then show ?thesis using split assms(3) by simp
  qed
qed

text \<open>Only networks inside the root's prefix have a count.\<close>

definition inside :: "prefix \<Rightarrow> prefix \<Rightarrow> bool" where
  "inside p q \<longleftrightarrow> net4 q \<and> Bits p \<le> Bits q \<and> Overlaps p q"

lemma inside_refl: "net4 p \<Longrightarrow> inside p p"
  by (simp add: inside_def Overlaps_refl)

lemma inside_half:
  assumes "net4 p" and "splitNetworkPrefix p = Some (l, r)" and "inside l q \<or> inside r q"
  shows "inside p q" "Bits p < Bits q"
  using assms split_net4 [OF assms(1,2)] split_Overlaps(4) [OF assms(1,2), of q]
  by (auto simp: inside_def)

lemma halves_disjoint:
  assumes "net4 p" and "splitNetworkPrefix p = Some (l, r)" and "inside l q" and "inside r q'"
  shows "\<not> Overlaps q q'"
proof
  assume "Overlaps q q'"
  with assms(3) have "Overlaps l q'" by (auto simp: inside_def intro: Overlaps_trans)
  with assms(4) have "Overlaps r l"
    using Overlaps_trans [of r q' l] by (auto simp: inside_def Overlaps_commute)
  then show False using split_Overlaps(1) [OF assms(1,2)] by (simp add: Overlaps_commute)
qed

lemma refs_inside: "wf_tree n \<Longrightarrow> refs n q \<noteq> 0 \<Longrightarrow> inside (root n) q"
proof (induction n rule: wf_tree_induct)
  case (leaf i)
  then show ?case by (auto simp: inside_refl split: if_splits)
next
  case (split i a b)
  then have "prefix i = q \<or> refs a q \<noteq> 0 \<or> refs b q \<noteq> 0"
    by (auto split: if_splits)
  then consider "prefix i = q" | "refs a q \<noteq> 0" | "refs b q \<noteq> 0"
    by blast
  then show ?case
    using split inside_half [of "prefix i" "root a" "root b" q] inside_refl
    by cases auto
qed

text \<open>The root, the left and the right subtree count different networks.\<close>

lemma refs_parts:
  assumes "wf_tree (Node i (Some a) (Some b))"
  shows "refs (Node i (Some a) (Some b)) (prefix i) = refCount i"
    and "inside (root a) q \<Longrightarrow> refs (Node i (Some a) (Some b)) q = refs a q"
    and "inside (root b) q \<Longrightarrow> refs (Node i (Some a) (Some b)) q = refs b q"
    and "refs (Node i (Some a) (Some b)) q \<noteq> 0 \<Longrightarrow>
      q = prefix i \<or> inside (root a) q \<or> inside (root b) q"
    and "inside (root a) q \<Longrightarrow> \<not> inside (root b) q"
    and "\<not> inside (root a) (prefix i)" and "\<not> inside (root b) (prefix i)"
proof -
  have w: "net4 (prefix i)" "splitNetworkPrefix (prefix i) = Some (root a, root b)"
    "wf_tree a" "wf_tree b"
    using assms by auto
  note h = inside_half [OF w(1,2)]
  show na: "\<not> inside (root a) (prefix i)" and nb: "\<not> inside (root b) (prefix i)"
    using h(2) by blast+
  show d: "inside (root a) q \<Longrightarrow> \<not> inside (root b) q" for q
    using halves_disjoint [OF w(1,2), of q q] Overlaps_refl by (auto simp: inside_def)
  have z: "\<not> inside (root a) q \<Longrightarrow> refs a q = 0" "\<not> inside (root b) q \<Longrightarrow> refs b q = 0" for q
    using refs_inside w(3,4) by blast+
  show "refs (Node i (Some a) (Some b)) (prefix i) = refCount i"
    using z na nb by simp
  show "inside (root a) q \<Longrightarrow> refs (Node i (Some a) (Some b)) q = refs a q"
    "inside (root b) q \<Longrightarrow> refs (Node i (Some a) (Some b)) q = refs b q"
    using z d na nb by auto
  show "refs (Node i (Some a) (Some b)) q \<noteq> 0 \<Longrightarrow>
      q = prefix i \<or> inside (root a) q \<or> inside (root b) q"
    using z [of q]
    by (cases "inside (root a) q"; cases "inside (root b) q") (auto split: if_splits)
qed

lemma refs_ge: "wf_tree n \<Longrightarrow> -1 \<le> refs n q"
proof (induction n rule: wf_tree_induct)
  case (leaf i)
  then show ?case by auto
next
  case (split i a b)
  have "wf_tree (Node i (Some a) (Some b))" using split by simp
  note p = refs_parts [OF this]
  show ?case
  proof (cases "refs (Node i (Some a) (Some b)) q = 0")
    case False
    with p(4) consider "q = prefix i" | "inside (root a) q" | "inside (root b) q" by blast
    then show ?thesis using p(1,2,3) split by cases (simp_all del: refs.simps)
  qed simp
qed

lemma refs_root: "wf_tree n \<Longrightarrow> refs n (root n) = refCount (info n)"
  by (cases rule: wf_tree_cases) (auto dest: refs_parts(1))

section \<open>Acquired and exclusive descendants\<close>

lemma isAcquired_refs: "wf_tree n \<Longrightarrow> isAcquired n \<longleftrightarrow> refs n (root n) \<noteq> 0"
  by (simp add: isAcquired_def refs_root)

lemma isExclusive_refs: "wf_tree n \<Longrightarrow> isExclusive n \<longleftrightarrow> refs n (root n) = -1"
  by (simp add: isExclusive_def refs_root)

text \<open>A property of counts that 0 does not have is found among the descendants.\<close>

lemma descendants_ex:
  assumes "wf_tree (Node i (Some a) (Some b))" and "\<not> P 0"
  shows "(\<exists>q. q \<noteq> prefix i \<and> P (refs (Node i (Some a) (Some b)) q)) \<longleftrightarrow>
    (\<exists>q. P (refs a q)) \<or> (\<exists>q. P (refs b q))"
proof -
  have w: "wf_tree a" "wf_tree b" using assms(1) by auto
  note p = refs_parts [OF assms(1)]
  have in_a: "P (refs a q) \<Longrightarrow> inside (root a) q" and in_b: "P (refs b q) \<Longrightarrow> inside (root b) q" for q
    using refs_inside [OF w(1), of q] refs_inside [OF w(2), of q] assms(2) by metis+
  show ?thesis
    using in_a in_b p assms(2) by metis
qed

lemma hasAcquiredDescendants_refs:
  "wf_tree n \<Longrightarrow> hasAcquiredDescendants n \<longleftrightarrow> (\<exists>q. q \<noteq> root n \<and> refs n q \<noteq> 0)"
proof (induction n rule: wf_tree_induct)
  case (leaf i)
  then show ?case by auto
next
  case (split i a b)
  have w: "wf_tree (Node i (Some a) (Some b))" using split by simp
  have "isAcquired x \<or> hasAcquiredDescendants x \<longleftrightarrow> (\<exists>q. refs x q \<noteq> 0)" if "x = a \<or> x = b" for x
    using that split isAcquired_refs by metis
  then show ?case
    using descendants_ex [OF w, of "\<lambda>k. k \<noteq> 0"] by (simp del: refs.simps)
qed

lemma hasExclusiveDescendants_refs:
  "wf_tree n \<Longrightarrow> hasExclusiveDescendants n \<longleftrightarrow> (\<exists>q. q \<noteq> root n \<and> refs n q = -1)"
proof (induction n rule: wf_tree_induct)
  case (leaf i)
  then show ?case by auto
next
  case (split i a b)
  have w: "wf_tree (Node i (Some a) (Some b))" using split by simp
  have "isExclusive x \<or> hasExclusiveDescendants x \<longleftrightarrow> (\<exists>q. refs x q = -1)" if "x = a \<or> x = b" for x
    using that split isExclusive_refs by metis
  then show ?case
    using descendants_ex [OF w, of "\<lambda>k. k = -1"] by (simp del: refs.simps)
qed

section \<open>Splitting a node\<close>

lemma split_wf:
  assumes "wf_tree n" and "Bits (root n) < 32"
  obtains a b c1 where "split n c = Some (Node (info n) (Some a) (Some b), c1)"
    and "wf_tree (Node (info n) (Some a) (Some b))"
    and "refs (Node (info n) (Some a) (Some b)) = refs n"
proof (cases rule: wf_tree_cases [OF assms(1)])
  case (1 i)
  obtain l r where s: "splitNetworkPrefix (prefix i) = Some (l, r)"
    using splitNetworkPrefix_total 1 assms(2) by (metis node.sel(1))
  let ?a = "fst (newNode l c)" and ?b = "fst (newNode r (stl c))"
  have a: "?a = Node (info ?a) None None" "?b = Node (info ?b) None None"
    by (simp_all add: node.expand)
  have "wf_tree ?a" "wf_tree ?b"
    using split_net4 [OF 1(2) s] by (subst a; simp)+
  moreover have "refs ?a q = 0" "refs ?b q = 0" for q
    by (subst a; simp)+
  ultimately show thesis
    using that [of ?a ?b "stl (stl c)"] 1 s
    by (auto simp: split_def isSplitted_def insert_node_def case_prod_beta Let_def fun_eq_iff)
next
  case (2 i a b)
  then show thesis using that [of a b c] by (auto simp: split_def isSplitted_def)
qed

lemma split_None: "wf_tree n \<Longrightarrow> \<not> isSplitted n \<Longrightarrow> Bits (root n) = 32 \<Longrightarrow> split n c = None"
  by (auto simp: split_def splitNetworkPrefix_32 wf_tree_net4)

section \<open>Acquiring a given network\<close>

text \<open>
  An exclusive acquisition needs every overlapping network to be free; a shared one, that no
  overlapping network is exclusive.
\<close>

definition grantable :: "bool \<Rightarrow> prefix \<Rightarrow> (prefix \<Rightarrow> int) \<Rightarrow> bool" where
  "grantable exclusive p f \<longleftrightarrow> (\<forall>q. Overlaps q p \<longrightarrow> f q = 0 \<or> \<not> exclusive \<and> f q \<noteq> -1)"

definition grant :: "bool \<Rightarrow> prefix \<Rightarrow> (prefix \<Rightarrow> int) \<Rightarrow> prefix \<Rightarrow> int" where
  "grant exclusive p f = f(p := if exclusive then -1 else f p + 1)"

lemma grantable_root:
  assumes "wf_tree n"
  shows "grantable True (root n) (refs n) \<longleftrightarrow> \<not> (isAcquired n \<or> hasAcquiredDescendants n)"
    and "grantable False (root n) (refs n) \<longleftrightarrow> \<not> (isExclusive n \<or> hasExclusiveDescendants n)"
proof -
  have o: "refs n q \<noteq> 0 \<Longrightarrow> Overlaps q (root n)" for q
    using refs_inside [OF assms] by (auto simp: inside_def Overlaps_commute)
  show "grantable True (root n) (refs n) \<longleftrightarrow> \<not> (isAcquired n \<or> hasAcquiredDescendants n)"
    unfolding grantable_def isAcquired_refs [OF assms] hasAcquiredDescendants_refs [OF assms]
    using o by metis
  show "grantable False (root n) (refs n) \<longleftrightarrow> \<not> (isExclusive n \<or> hasExclusiveDescendants n)"
    unfolding grantable_def isExclusive_refs [OF assms] hasExclusiveDescendants_refs [OF assms]
    using o zero_neq_neg_one by metis
qed

text \<open>Below a split node only the node itself and the half that holds the network matter.\<close>

lemma grantable_half:
  assumes w: "wf_tree (Node i (Some a) (Some b))" and ch: "ch = a \<or> ch = b" and p: "inside (root ch) p"
  shows "grantable e p (refs (Node i (Some a) (Some b))) \<longleftrightarrow>
    (refCount i = 0 \<or> \<not> e \<and> refCount i \<noteq> -1) \<and> grantable e p (refs ch)"
proof -
  let ?n = "Node i (Some a) (Some b)"
  have sp: "net4 (prefix i)" "splitNetworkPrefix (prefix i) = Some (root a, root b)"
    and wch: "wf_tree ch"
    using w ch by auto
  note r = refs_parts [OF w]
  have oi: "Overlaps (prefix i) p"
    using inside_half(1) [OF sp] p ch by (auto simp: inside_def)
  have wab: "wf_tree a" "wf_tree b" using w by auto
  have eq: "refs ?n q = refs ch q" if o: "Overlaps q p" and q: "q \<noteq> prefix i" for q
  proof (cases "ch = a")
    case True
    have "\<not> inside (root b) q"
      using halves_disjoint [OF sp, of p q] p True o by (auto simp: Overlaps_commute)
    then have "refs b q = 0" using refs_inside [OF wab(2)] by blast
    then show ?thesis using True q by simp
  next
    case False
    then have "ch = b" using ch by simp
    have "\<not> inside (root a) q"
      using halves_disjoint [OF sp, of q p] p \<open>ch = b\<close> o by auto
    then have "refs a q = 0" using refs_inside [OF wab(1)] by blast
    then show ?thesis using \<open>ch = b\<close> q by simp
  qed
  have z: "refs ch (prefix i) = 0"
    using refs_inside [OF wch] r(6,7) ch by blast
  show ?thesis
    unfolding grantable_def using eq oi r(1) z by metis
qed

text \<open>Replacing a half by a tree with the same root.\<close>

lemma wf_tree_set_child:
  assumes "wf_tree (Node i (Some a) (Some b))" and "wf_tree ch'"
  shows "root ch' = root a \<Longrightarrow> wf_tree (set_child leftDirection ch' (Node i (Some a) (Some b)))"
    and "root ch' = root b \<Longrightarrow> wf_tree (set_child rightDirection ch' (Node i (Some a) (Some b)))"
  using assms by auto

lemma refs_set_child:
  assumes w: "wf_tree (Node i (Some a) (Some b))"
  shows "inside (root a) p \<Longrightarrow> refs a' = (refs a)(p := v) \<Longrightarrow>
      refs (Node i (Some a') (Some b)) = (refs (Node i (Some a) (Some b)))(p := v)"
    and "inside (root b) p \<Longrightarrow> refs b' = (refs b)(p := v) \<Longrightarrow>
      refs (Node i (Some a) (Some b')) = (refs (Node i (Some a) (Some b)))(p := v)"
proof -
  have wab: "wf_tree a" "wf_tree b" using w by auto
  note r = refs_parts [OF w]
  show "refs (Node i (Some a') (Some b)) = (refs (Node i (Some a) (Some b)))(p := v)"
    if "inside (root a) p" "refs a' = (refs a)(p := v)"
  proof -
    have "p \<noteq> prefix i" "refs b p = 0"
      using that(1) r(5,6) refs_inside [OF wab(2)] by blast+
    then show ?thesis using that(2) by (auto simp: fun_eq_iff)
  qed
  show "refs (Node i (Some a) (Some b')) = (refs (Node i (Some a) (Some b)))(p := v)"
    if "inside (root b) p" "refs b' = (refs b)(p := v)"
  proof -
    have "p \<noteq> prefix i" "refs a p = 0"
      using that(1) r(5,7) refs_inside [OF wab(1)] by blast+
    then show ?thesis using that(2) by (auto simp: fun_eq_iff)
  qed
qed

lemma wf_tree_upd_info:
  assumes "wf_tree n" and "prefix i = root n" and "-1 \<le> refCount i" and "ips_ok i"
  shows "wf_tree (Node i (left n) (right n))"
    and "refs (Node i (left n) (right n)) = (refs n)(root n := refCount i)"
proof -
  have "wf_tree (Node i (left n) (right n)) \<and>
    refs (Node i (left n) (right n)) = (refs n)(root n := refCount i)"
  proof (cases rule: wf_tree_cases [OF assms(1)])
    case (1 j)
    then show ?thesis using assms by (auto simp: fun_eq_iff)
  next
    case (2 j a b)
    then have "wf_tree (Node j (Some a) (Some b))" using assms(1) by simp
    note r = refs_parts [OF this]
    have "refs a (prefix j) = 0" "refs b (prefix j) = 0"
      using r(6,7) refs_inside 2 by blast+
    then show ?thesis using 2 assms by (auto simp: fun_eq_iff)
  qed
  then show "wf_tree (Node i (left n) (right n))"
    "refs (Node i (left n) (right n)) = (refs n)(root n := refCount i)"
    by simp_all
qed

definition acquired_with :: "prefix \<Rightarrow> bool \<Rightarrow> node \<Rightarrow> node \<Rightarrow> prefix option \<Rightarrow> bool" where
  "acquired_with p exclusive n n' res \<longleftrightarrow> wf_tree n' \<and> root n' = root n \<and>
     (if grantable exclusive p (refs n)
      then res = Some p \<and> refs n' = grant exclusive p (refs n)
      else res = None \<and> refs n' = refs n)"

lemma acquired_with_half:
  assumes w: "wf_tree (Node i (Some a) (Some b))"
    and ok: "refCount i = 0 \<or> \<not> e \<and> refCount i \<noteq> -1"
  shows "inside (root a) p \<Longrightarrow> acquired_with p e a a' res \<Longrightarrow>
      acquired_with p e (Node i (Some a) (Some b)) (Node i (Some a') (Some b)) res"
    and "inside (root b) p \<Longrightarrow> acquired_with p e b b' res \<Longrightarrow>
      acquired_with p e (Node i (Some a) (Some b)) (Node i (Some a) (Some b')) res"
proof -
  note r = refs_parts [OF w]
  show "acquired_with p e (Node i (Some a) (Some b)) (Node i (Some a') (Some b)) res"
    if "inside (root a) p" "acquired_with p e a a' res"
  proof (cases "grantable e p (refs a)")
    case True
    then have "refs a' = (refs a)(p := if e then -1 else refs a p + 1)"
      using that(2) by (simp add: acquired_with_def grant_def)
    from refs_set_child(1) [OF w that(1) this] show ?thesis
      using that True w ok grantable_half [OF w, of a p e] r(2) [OF that(1)]
      by (auto simp: acquired_with_def grant_def simp del: refs.simps)
  next
    case False
    then show ?thesis
      using that w grantable_half [OF w, of a p e] by (auto simp: acquired_with_def fun_eq_iff)
  qed
  show "acquired_with p e (Node i (Some a) (Some b)) (Node i (Some a) (Some b')) res"
    if "inside (root b) p" "acquired_with p e b b' res"
  proof (cases "grantable e p (refs b)")
    case True
    then have "refs b' = (refs b)(p := if e then -1 else refs b p + 1)"
      using that(2) by (simp add: acquired_with_def grant_def)
    from refs_set_child(2) [OF w that(1) this] show ?thesis
      using that True w ok grantable_half [OF w, of b p e] r(3) [OF that(1)]
      by (auto simp: acquired_with_def grant_def simp del: refs.simps)
  next
    case False
    then show ?thesis
      using that w grantable_half [OF w, of b p e] by (auto simp: acquired_with_def fun_eq_iff)
  qed
qed

lemma acquire_here:
  assumes w: "wf_tree n"
  obtains n' c' where
    "allocateNetworkWithPrefix (root n) n e c =
       Some (n', if grantable e (root n) (refs n) then Some (root n) else None, c')"
    and "acquired_with (root n) e n n' (if grantable e (root n) (refs n) then Some (root n) else None)"
proof (cases "grantable e (root n) (refs n)")
  case False
  moreover from False have "allocateNetworkWithPrefix (root n) n e c = Some (n, None, c)"
    using grantable_root [OF w] wf_tree_net4 [OF w] Overlaps_refl
    by (cases e) (auto simp: allocateNetworkWithPrefix.simps isPrefixChildOf_def)
  ultimately show thesis using that w by (auto simp: acquired_with_def)
next
  case True
  let ?i = "(info n)\<lparr>refCount := if e then -1 else refCount (info n) + 1,
    lastUpdateTimestamp := shd c\<rparr>"
  have "-1 \<le> refCount (info n)" using refs_ge [OF w] refs_root [OF w] by metis
  then have "wf_tree (Node ?i (left n) (right n))"
    "refs (Node ?i (left n) (right n)) = (refs n)(root n := refCount ?i)"
    using wf_tree_upd_info [OF w, of ?i] wf_tree_ips_ok [OF w] by auto
  moreover have "allocateNetworkWithPrefix (root n) n e c =
      Some (Node ?i (left n) (right n), Some (root n), stl c)"
    using True grantable_root [OF w] wf_tree_net4 [OF w] Overlaps_refl
    by (cases e) (auto simp: allocateNetworkWithPrefix.simps isPrefixChildOf_def time_Now_def)
  ultimately show thesis
    using that True refs_root [OF w] by (auto simp: acquired_with_def grant_def)
qed

lemma not_grantable_above:
  assumes "wf_tree n" and "inside (root n) p" and "isExclusive n \<or> e \<and> isAcquired n"
  shows "\<not> grantable e p (refs n)"
proof -
  have "Overlaps (root n) p" "refs n (root n) = -1 \<or> e \<and> refs n (root n) \<noteq> 0"
    using assms isExclusive_refs isAcquired_refs by (auto simp: inside_def)
  then show ?thesis by (auto simp: grantable_def)
qed

text \<open>
  \<open>allocateNetworkWithPrefix\<close> never panics on a network inside the tree, and it succeeds exactly
  when the network can be granted.
\<close>

lemma allocateNetworkWithPrefix_correct:
  assumes "wf_tree n" and "inside (root n) p"
  shows "\<exists>n' res c'. allocateNetworkWithPrefix p n e c = Some (n', res, c') \<and>
    acquired_with p e n n' res"
  using assms
proof (induction "Bits p - Bits (root n)" arbitrary: n c rule: less_induct)
  case less
  note w = less.prems(1) and ins = less.prems(2)
  show ?case
  proof (cases "root n = p")
    case True
    then show ?thesis using acquire_here [OF w] by metis
  next
    case False
    have np: "net4 p" and le: "Bits (root n) \<le> Bits p" and ov: "Overlaps (root n) p"
      using ins by (auto simp: inside_def)
    then have lt: "Bits (root n) < Bits p"
      using False Overlaps_same_Bits [OF ov] net4_Masked wf_tree_net4 [OF w] by fastforce
    have ch: "isPrefixChildOf (root n) p" using le ov by (simp add: isPrefixChildOf_def)
    show ?thesis
    proof (cases "isExclusive n \<or> e \<and> isAcquired n")
      case True
      then have "allocateNetworkWithPrefix p n e c = Some (n, None, c)"
        using False ch by (subst allocateNetworkWithPrefix.simps) simp
      then show ?thesis
        using w not_grantable_above [OF w ins True] by (auto simp: acquired_with_def)
    next
      case ok: False
      have "Bits p \<le> 32" using np by (simp add: net4_def)
      then obtain a b c1 where sp: "split n c = Some (Node (info n) (Some a) (Some b), c1)"
        and w1: "wf_tree (Node (info n) (Some a) (Some b))"
        and rf: "refs (Node (info n) (Some a) (Some b)) = refs n"
        using split_wf [OF w, of c] lt by auto
      have wab: "wf_tree a" "wf_tree b" and net: "net4 (root n)"
        and s: "splitNetworkPrefix (root n) = Some (root a, root b)"
        using w1 by auto
      note f = split_net4 [OF net s] and so = split_Overlaps [OF net s]
      have dec: "Bits p - Bits (root a) < Bits p - Bits (root n)"
        "Bits p - Bits (root b) < Bits p - Bits (root n)"
        using f(3,4) lt by simp_all
      have ok': "refCount (info n) = 0 \<or> \<not> e \<and> refCount (info n) \<noteq> -1"
        using ok by (auto simp: isExclusive_def isAcquired_def)
      show ?thesis
      proof (cases "Overlaps (root a) p")
        case True
        then have ia: "inside (root a) p" using np lt f by (simp add: inside_def)
        obtain a' res c2 where "allocateNetworkWithPrefix p a e c1 = Some (a', res, c2)"
          and "acquired_with p e a a' res"
          using less.hyps [OF dec(1) wab(1) ia] by blast
        then show ?thesis
          using acquired_with_half(1) [OF w1 ok' ia] rf False ch ok sp True
          by (subst allocateNetworkWithPrefix.simps)
            (auto simp: child_overlaps_def acquired_with_def simp del: refs.simps)
      next
        case notleft: False
        then have "Overlaps (root b) p" using so(4) [OF lt] ov by blast
        then have ib: "inside (root b) p" using np lt f by (simp add: inside_def)
        obtain b' res c2 where "allocateNetworkWithPrefix p b e c1 = Some (b', res, c2)"
          and "acquired_with p e b b' res"
          using less.hyps [OF dec(2) wab(2) ib] by blast
        then show ?thesis
          using acquired_with_half(2) [OF w1 ok' ib] rf False ch ok sp notleft \<open>Overlaps (root b) p\<close>
          by (subst allocateNetworkWithPrefix.simps)
            (auto simp: child_overlaps_def acquired_with_def simp del: refs.simps)
      qed
    qed
  qed
qed

section \<open>Acquiring any network of a size\<close>

fun splitted_at :: "node \<Rightarrow> prefix \<Rightarrow> bool" where
  "splitted_at (Node i l r) q \<longleftrightarrow> prefix i = q \<and> isSplitted (Node i l r) \<or>
     (case l of None \<Rightarrow> False | Some a \<Rightarrow> splitted_at a q) \<or>
     (case r of None \<Rightarrow> False | Some b \<Rightarrow> splitted_at b q)"

text \<open>
  The allocation returns a network of the requested size that overlaps no acquired one; it fails
  only when every network of the size overlaps an acquired one or is split.
\<close>

definition allocated :: "int \<Rightarrow> bool \<Rightarrow> node \<Rightarrow> node \<Rightarrow> prefix option \<Rightarrow> bool" where
  "allocated sz exclusive n n' res \<longleftrightarrow> wf_tree n' \<and> root n' = root n \<and>
     (case res of
        None \<Rightarrow> refs n' = refs n \<and>
          (\<forall>p. inside (root n) p \<and> int (Bits p) = sz \<longrightarrow>
             \<not> grantable True p (refs n) \<or> splitted_at n p)
      | Some p \<Rightarrow> inside (root n) p \<and> int (Bits p) = sz \<and> grantable True p (refs n) \<and>
          refs n' = (refs n)(p := if exclusive then -1 else 1))"

lemma allocated_child:
  assumes w: "wf_tree n" and free: "\<not> isAcquired n" and d: "next_node d n = Some ch"
    and ok: "allocated sz e ch ch' (Some p)"
  shows "allocated sz e n (set_child d ch' n) (Some p)"
proof (cases rule: wf_tree_cases [OF w])
  case (1 i)
  then show ?thesis using d by (cases d) auto
next
  case (2 i a b)
  then have w': "wf_tree (Node i (Some a) (Some b))" using w by simp
  have ch: "ch = a \<or> ch = b" using d 2(1) by (cases d) auto
  have "inside (root ch) p" "int (Bits p) = sz" "grantable True p (refs ch)" "wf_tree ch'"
    "root ch' = root ch" "refs ch' = (refs ch)(p := if e then -1 else 1)"
    using ok by (auto simp: allocated_def)
  moreover from this have "inside (root n) p" "grantable True p (refs n)"
    using inside_half(1) [OF 2(2,4)] ch grantable_half [OF w' ch] 2(1) free
    by (auto simp: isAcquired_def simp del: refs.simps)
  moreover have "wf_tree (set_child d ch' n)" "root (set_child d ch' n) = root n"
    using d 2 \<open>wf_tree ch'\<close> \<open>root ch' = root ch\<close> by (cases d; auto)+
  moreover have "refs (set_child d ch' n) = (refs n)(p := if e then -1 else 1)"
    using refs_set_child [OF w'] calculation d 2(1) by (cases d) (auto simp del: refs.simps)
  ultimately show ?thesis by (simp add: allocated_def)
qed

lemma set_child_same:
  assumes "wf_tree n" and "next_node d n = Some ch" and "wf_tree ch'" and "root ch' = root ch"
    and "refs ch' = refs ch"
  shows "wf_tree (set_child d ch' n)" "root (set_child d ch' n) = root n"
    "refs (set_child d ch' n) = refs n"
  using assms by (cases n; cases d; force split: option.splits simp: fun_eq_iff)+

lemma allocated_none:
  assumes w: "wf_tree n" and free: "\<not> isAcquired n" and sp: "isSplitted n"
    and none: "\<And>d ch. next_node d n = Some ch \<Longrightarrow> \<exists>ch'. allocated sz e ch ch' None"
    and lt: "int (Bits (root n)) < sz" and p: "inside (root n) p" "int (Bits p) = sz"
  shows "\<not> grantable True p (refs n) \<or> splitted_at n p"
proof (cases rule: wf_tree_cases [OF w])
  case (1 i)
  then show ?thesis using sp by (simp add: isSplitted_def)
next
  case (2 i a b)
  then have w': "wf_tree (Node i (Some a) (Some b))" using w by simp
  have n: "\<not> grantable True p (refs ch) \<or> splitted_at ch p"
    if "ch = a \<or> ch = b" "inside (root ch) p" for ch
    using none [of leftDirection a] none [of rightDirection b] that 2(1) p
    by (auto simp: allocated_def)
  have "Overlaps (root a) p \<or> Overlaps (root b) p"
    using split_Overlaps(4) [OF 2(2,4), of p] lt p 2(1) by (simp add: inside_def)
  then have "inside (root a) p \<or> inside (root b) p"
    using split_net4 [OF 2(2,4)] lt p 2(1) by (auto simp: inside_def)
  then show ?thesis
    using n grantable_half [OF w', of _ p True] 2(1) by (auto simp del: refs.simps)
qed

lemma split_splitted_at:
  assumes "split n c = Some (n1, c1)" and "p \<noteq> root n" and "splitted_at n1 p"
  shows "splitted_at n p"
proof -
  have "\<not> splitted_at (fst (newNode q c)) p" for q c
    by (simp add: newNode_def time_Now_def isSplitted_def)
  then show ?thesis
    using split_eq [OF assms(1)] assms(2,3) by (cases n) auto
qed

lemma allocated_split:
  assumes "split n c = Some (n1, c1)" and "refs n1 = refs n" and "root n1 = root n"
    and "int (Bits (root n)) < sz" and "allocated sz e n1 n' res"
  shows "allocated sz e n n' res"
proof -
  have "p \<noteq> root n" if "int (Bits p) = sz" for p using that assms(4) by auto
  then show ?thesis
    using assms split_splitted_at [OF assms(1)]
    by (simp add: allocated_def split: option.splits)
qed

lemma allocate_here:
  assumes w: "wf_tree n" and sz: "int (Bits (root n)) = sz" and free: "\<not> isAcquired n"
  shows "\<exists>n' res c'. allocateNetwork sz n e c = Some (n', res, c') \<and> allocated sz e n n' res"
proof (cases "isSplitted n")
  case True
  then have "allocateNetwork sz n e c = Some (n, None, c)"
    using sz free by (subst allocateNetwork.simps) (simp add: Let_def)
  moreover have "p = root n" if "inside (root n) p" "int (Bits p) = sz" for p
    using that sz Overlaps_same_Bits [of "root n" p] net4_Masked wf_tree_net4 [OF w]
    by (fastforce simp: inside_def)
  moreover have "splitted_at n (root n)" using True by (cases n) auto
  ultimately show ?thesis using w by (auto simp: allocated_def)
next
  case False
  let ?n = "Node ((info n)\<lparr>refCount := if e then -1 else 1, lastUpdateTimestamp := shd c\<rparr>)
    (left n) (right n)"
  have "allocateNetwork sz n e c = Some (?n, Some (root n), stl c)"
    using sz free False by (subst allocateNetwork.simps) (simp add: Let_def time_Now_def)
  moreover have "wf_tree ?n" "refs ?n = (refs n)(root n := if e then -1 else 1)"
    using wf_tree_upd_info [OF w, of "info ?n"] wf_tree_ips_ok [OF w] by (simp_all del: refs.simps wf_tree.simps)
  moreover have "\<not> hasAcquiredDescendants n"
    by (cases rule: wf_tree_cases [OF w]) (use False in \<open>auto simp: isSplitted_def\<close>)
  moreover have "inside (root n) (root n)" using wf_tree_net4 [OF w] by (rule inside_refl)
  ultimately show ?thesis
    using grantable_root(1) [OF w] free sz by (auto simp: allocated_def)
qed

lemma allocate_stop:
  assumes w: "wf_tree n" and "sz < int (Bits (root n)) \<or> isAcquired n"
  shows "allocateNetwork sz n e c = Some (n, None, c) \<and> allocated sz e n n None"
proof -
  have "\<not> grantable True p (refs n)" if "inside (root n) p" "int (Bits p) = sz" for p
    using assms that not_grantable_above [OF w that(1)] by (auto simp: inside_def)
  then show ?thesis
    using assms by (subst allocateNetwork.simps) (auto simp: Let_def allocated_def)
qed

text \<open>The two halves are tried one after the other.\<close>

lemma bestDirection_wf:
  assumes "wf_tree n" and "isSplitted n"
  obtains d1 d2 ch1 ch2 where "bestDirection n = Some (d1, d2)" and "next_node d1 n = Some ch1"
    and "next_node d2 n = Some ch2" and "d1 \<noteq> d2" and "wf_tree ch1" and "wf_tree ch2"
    and "Bits (root ch1) = Suc (Bits (root n))" and "Bits (root ch2) = Suc (Bits (root n))"
proof (cases rule: wf_tree_cases [OF assms(1)])
  case (1 i)
  then show thesis using assms(2) by (simp add: isSplitted_def)
next
  case (2 i a b)
  note f = split_net4 [OF 2(2,4)]
  show thesis
    by (cases "isSplitted a \<or> \<not> isSplitted b")
      (use that [of leftDirection rightDirection a b] that [of rightDirection leftDirection b a] 2 f
        in \<open>auto simp: bestDirection_def\<close>)
qed

lemma next_set_child: "d1 \<noteq> d2 \<Longrightarrow> next_node d2 (set_child d1 ch n) = next_node d2 n"
  by (cases n; cases d1; cases d2) auto

lemma isAcquired_set_child [simp]: "isAcquired (set_child d ch n) \<longleftrightarrow> isAcquired n"
  by (cases n; cases d) (auto simp: isAcquired_def)

lemma allocated_second:
  assumes w: "wf_tree n" and free: "\<not> isAcquired n" and sp: "isSplitted n"
    and lt: "int (Bits (root n)) < sz"
    and d: "next_node d1 n = Some ch1" "next_node d2 n = Some ch2" "d1 \<noteq> d2"
    and a1: "allocated sz e ch1 ch1' None" and a2: "allocated sz e ch2 ch2' res"
  shows "allocated sz e n (set_child d2 ch2' (set_child d1 ch1' n)) res"
proof -
  let ?m = "set_child d1 ch1' n"
  have "wf_tree ch1'" "root ch1' = root ch1" "refs ch1' = refs ch1"
    using a1 by (auto simp: allocated_def)
  note m = set_child_same [OF w d(1) this]
  have d2: "next_node d2 ?m = Some ch2" using d by (simp add: next_set_child)
  show ?thesis
  proof (cases res)
    case (Some p)
    then show ?thesis
      using allocated_child [OF m(1) _ d2, of sz e ch2' p] free a2 m
      by (auto simp: allocated_def simp del: refs.simps)
  next
    case None
    then have "wf_tree ch2'" "root ch2' = root ch2" "refs ch2' = refs ch2"
      using a2 by (auto simp: allocated_def)
    note m2 = set_child_same [OF m(1) d2 this]
    have "\<exists>ch'. allocated sz e ch ch' None" if "next_node k n = Some ch" for k ch
      using that d a1 a2 None by (cases k; cases d1; cases d2) auto
    from allocated_none [OF w free sp this lt] show ?thesis
      using None m m2 by (simp add: allocated_def)
  qed
qed

theorem allocateNetwork_correct:
  assumes "wf_tree n" and "sz \<le> 32"
  shows "\<exists>n' res c'. allocateNetwork sz n e c = Some (n', res, c') \<and> allocated sz e n n' res"
  using assms
proof (induction "33 - Bits (root n)" arbitrary: n c rule: less_induct)
  case less
  note w = less.prems(1)
  consider "sz < int (Bits (root n)) \<or> isAcquired n"
    | "\<not> isAcquired n" "int (Bits (root n)) = sz"
    | "\<not> isAcquired n" "int (Bits (root n)) < sz" by linarith
  then show ?case
  proof cases
    case 1
    then show ?thesis using allocate_stop [OF w] by blast
  next
    case 2
    then show ?thesis using allocate_here [OF w] by blast
  next
    case 3
    then have lt: "Bits (root n) < 32" using less.prems(2) by linarith
    from split_wf [OF w lt, of c] obtain a b c1
      where sp: "split n c = Some (Node (info n) (Some a) (Some b), c1)"
        and w1: "wf_tree (Node (info n) (Some a) (Some b))"
        and rf: "refs (Node (info n) (Some a) (Some b)) = refs n"
      by metis
    define n1 where "n1 = Node (info n) (Some a) (Some b)"
    note w1 = w1 [folded n1_def] and sp = sp [folded n1_def] and rf = rf [folded n1_def]
    have n1: "isSplitted n1" "\<not> isAcquired n1" "root n1 = root n"
      using 3 by (auto simp: n1_def isSplitted_def isAcquired_def)
    from bestDirection_wf [OF w1 n1(1)] obtain d1 d2 ch1 ch2
      where bd: "bestDirection n1 = Some (d1, d2)" "next_node d1 n1 = Some ch1" "next_node d2 n1 = Some ch2"
        "d1 \<noteq> d2" and wch: "wf_tree ch1" "wf_tree ch2"
        and bs: "Bits (root ch1) = Suc (Bits (root n))" "Bits (root ch2) = Suc (Bits (root n))"
      using n1(3) by metis
    have bits: "33 - Bits (root ch1) < 33 - Bits (root n)" "33 - Bits (root ch2) < 33 - Bits (root n)"
      using lt bs by auto
    obtain ch1' res1 c2 where r1: "allocateNetwork sz ch1 e c1 = Some (ch1', res1, c2)"
      and a1: "allocated sz e ch1 ch1' res1"
      using less.hyps [OF bits(1) wch(1) less.prems(2)] by blast
    obtain ch2' res2 c3 where r2: "allocateNetwork sz ch2 e c2 = Some (ch2', res2, c3)"
      and a2: "allocated sz e ch2 ch2' res2"
      using less.hyps [OF bits(2) wch(2) less.prems(2)] by blast
    note step = allocateNetwork.simps [of sz n e c]
    show ?thesis
    proof (cases res1)
      case (Some p)
      then have "allocateNetwork sz n e c = Some (set_child d1 ch1' n1, Some p, c2)"
        using step 3 sp bd r1 by (simp add: Let_def)
      then show ?thesis
        using allocated_split [OF sp rf n1(3) 3(2)] allocated_child [OF w1 n1(2) bd(2)] a1 Some
        by blast
    next
      case None
      let ?m = "set_child d1 ch1' n1"
      have "allocateNetwork sz n e c = Some (set_child d2 ch2' ?m, res2, c3)"
        using step 3 sp bd r1 r2 None by (simp add: Let_def)
      moreover have "allocated sz e n1 (set_child d2 ch2' ?m) res2"
        using allocated_second [OF w1 n1(2,1) _ bd(2,3,4)] a1 a2 None n1(3) 3(2) by simp
      ultimately show ?thesis
        using allocated_split [OF sp rf n1(3) 3(2)] by blast
    qed
  qed
qed

text \<open>
  A request for less than one address panics: below \<open>/32\<close> the recursion reaches a network that
  cannot be split.
\<close>

lemma allocateNetwork_panics:
  assumes "net4 (prefix i)" and "refCount i = 0" and "32 < sz"
  shows "allocateNetwork sz (Node i None None) e c = None"
  using assms
proof (induction "32 - Bits (prefix i)" arbitrary: i c)
  case 0
  then have "Bits (prefix i) = 32" by (simp add: net4_def)
  then show ?case
    using 0 by (subst allocateNetwork.simps)
      (simp add: Let_def isAcquired_def split_def isSplitted_def splitNetworkPrefix_32)
next
  case (Suc k)
  then have "Bits (prefix i) < 32" by linarith
  then obtain l r where s: "splitNetworkPrefix (prefix i) = Some (l, r)"
    using splitNetworkPrefix_total Suc.prems(1) by metis
  note f = split_net4 [OF Suc.prems(1) s]
  let ?i = "\<lparr>lastUpdateTimestamp = shd c, prefix = l, refCount = 0, ips = [], lastip = ZeroAddr\<rparr>"
  have l: "fst (newNode l c) = Node ?i None None" "newNode r d = (fst (newNode r d), stl d)" for d
    by (simp_all add: newNode_def time_Now_def)
  have "isSplitted (fst (newNode q d)) = False" for q d
    by (simp add: isSplitted_def)
  moreover have "allocateNetwork sz (Node ?i None None) e (stl (stl c)) = None"
    using Suc.hyps(1) [of ?i] Suc.hyps(2) Suc.prems f by simp
  ultimately show ?case
    using s l Suc.prems \<open>Bits (prefix i) < 32\<close>
    by (subst allocateNetwork.simps)
      (simp add: Let_def isAcquired_def split_def isSplitted_def insert_node_def case_prod_beta
        bestDirection_def)
qed

section \<open>Releasing a network\<close>

lemma merge_correct:
  assumes w: "wf_tree n" and m: "merge gp n c = (n', c')"
  shows "wf_tree n'" "root n' = root n" "refs n' = refs n"
proof -
  have "wf_tree n' \<and> root n' = root n \<and> refs n' = refs n"
  proof (cases rule: wf_tree_cases [OF w])
    case (1 i)
    then show ?thesis using w m by (auto simp: merge_def)
  next
    case (2 i a b)
    show ?thesis
    proof (cases "n' = n")
      case False
      then have leaf: "isLeaf a" "isLeaf b" "\<not> isAcquired a" "\<not> isAcquired b"
        and n': "n' = Node (i\<lparr>lastUpdateTimestamp := shd (stl (stl c))\<rparr>) None None"
        using m 2(1) by (auto simp: merge_def time_Now_def split: if_splits)
      have "refs a q = 0" "refs b q = 0" for q
        using leaf by (cases a; cases b; simp add: isLeaf_def isAcquired_def)+
      then show ?thesis using n' 2 by (simp add: fun_eq_iff)
    qed (use w in simp)
  qed
  then show "wf_tree n'" "root n' = root n" "refs n' = refs n" by simp_all
qed

definition release :: "prefix \<Rightarrow> (prefix \<Rightarrow> int) \<Rightarrow> prefix \<Rightarrow> int" where
  "release p f = f(p := if f p = -1 then 0 else f p - 1)"

definition released :: "prefix \<Rightarrow> node \<Rightarrow> node \<Rightarrow> prefix option \<Rightarrow> bool" where
  "released p n n' res \<longleftrightarrow> wf_tree n' \<and> root n' = root n \<and>
     (case res of
        None \<Rightarrow> refs n' = refs n
      | Some q \<Rightarrow> q = p \<and> refs n p \<noteq> 0 \<and> refs n' = release p (refs n))"

lemma release_here_correct:
  assumes w: "wf_tree n" and r: "release_here n c = (n', res, c')"
  shows "released (root n) n n' res"
proof (cases "isAcquired n")
  case True
  let ?rc = "if refCount (info n) = -1 then 0 else refCount (info n) - 1"
  let ?i = "(info n)\<lparr>refCount := ?rc, lastUpdateTimestamp := shd c\<rparr>"
  have "-1 \<le> refCount (info n)" using refs_ge [OF w, of "root n"] refs_root [OF w] by simp
  then have "n' = Node ?i (left n) (right n)" "res = Some (root n)"
    using r True by (auto simp: release_here_def time_Now_def isExclusive_def isAcquired_def)
  moreover have "wf_tree (Node ?i (left n) (right n))"
    "refs (Node ?i (left n) (right n)) = (refs n)(root n := ?rc)"
    using wf_tree_upd_info [OF w, of ?i] wf_tree_ips_ok [OF w] \<open>-1 \<le> refCount (info n)\<close> True
    by (auto simp: isAcquired_def simp del: refs.simps wf_tree.simps)
  ultimately show ?thesis
    using True refs_root [OF w]
    by (auto simp: released_def release_def isAcquired_def simp del: refs.simps wf_tree.simps)
next
  case False
  then show ?thesis using r w by (auto simp: released_def release_here_def)
qed

lemma released_half:
  assumes w: "wf_tree (Node i (Some a) (Some b))"
  shows "released p a a' res \<Longrightarrow>
      released p (Node i (Some a) (Some b)) (Node i (Some a') (Some b)) res"
    and "released p b b' res \<Longrightarrow>
      released p (Node i (Some a) (Some b)) (Node i (Some a) (Some b')) res"
proof -
  have wab: "wf_tree a" "wf_tree b" using w by auto
  note r = refs_parts [OF w]
  show "released p (Node i (Some a) (Some b)) (Node i (Some a') (Some b)) res"
    if rel: "released p a a' res"
  proof (cases res)
    case None
    then show ?thesis using rel w by (auto simp: released_def fun_eq_iff)
  next
    case (Some q)
    then have "inside (root a) p" "refs a' = release p (refs a)"
      using rel refs_inside [OF wab(1)] by (auto simp: released_def)
    then show ?thesis
      using rel w Some refs_set_child(1) [OF w, of p a'] r(2)
      by (auto simp: released_def release_def simp del: refs.simps)
  qed
  show "released p (Node i (Some a) (Some b)) (Node i (Some a) (Some b')) res"
    if rel: "released p b b' res"
  proof (cases res)
    case None
    then show ?thesis using rel w by (auto simp: released_def fun_eq_iff)
  next
    case (Some q)
    then have "inside (root b) p" "refs b' = release p (refs b)"
      using rel refs_inside [OF wab(2)] by (auto simp: released_def)
    then show ?thesis
      using rel w Some refs_set_child(2) [OF w, of p b'] r(3)
      by (auto simp: released_def release_def simp del: refs.simps)
  qed
qed

lemma released_refl: "wf_tree n \<Longrightarrow> released p n n None"
  by (simp add: released_def)

lemma released_merge: "released p n m res \<Longrightarrow> merge gp m c = (n', c') \<Longrightarrow> released p n n' res"
  using merge_correct [of m gp c n' c'] by (auto simp: released_def split: option.splits)

text \<open>The node that \<open>search\<close> points to.\<close>

definition lookup :: "prefix \<Rightarrow> node \<Rightarrow> node option" where
  "lookup p n = (case search p n of None \<Rightarrow> None | Some ds \<Rightarrow> node_at ds n)"

lemma lookup_leaf: "lookup p (Node i None None) = (if prefix i = p then Some (Node i None None) else None)"
  by (simp add: lookup_def)

lemma lookup_split:
  "lookup p (Node i (Some a) (Some b)) =
     (if prefix i = p then Some (Node i (Some a) (Some b))
      else if child_parent_of p a then lookup p a
      else if child_parent_of p b then lookup p b else None)"
  by (auto simp: lookup_def split: option.splits)

text \<open>At most one half can hold the network, and none when the node itself is the network.\<close>

lemma child_parent_of_halves:
  assumes "wf_tree (Node i (Some a) (Some b))"
  shows "\<not> (child_parent_of p a \<and> child_parent_of p b)"
    and "prefix i = p \<Longrightarrow> \<not> child_parent_of p a \<and> \<not> child_parent_of p b"
proof -
  have w: "net4 (prefix i)" "splitNetworkPrefix (prefix i) = Some (root a, root b)"
    using assms by auto
  note f = split_net4 [OF w] and o = split_Overlaps(5) [OF w, of p]
  show "\<not> (child_parent_of p a \<and> child_parent_of p b)"
    "prefix i = p \<Longrightarrow> \<not> child_parent_of p a \<and> \<not> child_parent_of p b"
    using f(3,4) o by (auto simp: child_parent_of_def isPrefixChildOf_def)
qed

definition releasable :: "prefix \<Rightarrow> node \<Rightarrow> duration \<Rightarrow> time \<Rightarrow> bool" where
  "releasable p n gp now \<longleftrightarrow>
     (case lookup p n of None \<Rightarrow> False
      | Some m \<Rightarrow> isAcquired m \<and> expired (lastUpdateTimestamp (info m)) gp now)"

lemma networkRelease_correct:
  assumes "wf_tree n" and "networkRelease p n gp c = (n', res, c')"
  shows "released p n n' res \<and> res = (if releasable p n gp (shd c) then Some p else None)"
  using assms
proof (induction n arbitrary: c n' res c' rule: wf_tree_induct)
  case (leaf i)
  have w: "wf_tree (Node i None None)" using leaf by simp
  show ?case
    using leaf.prems w release_here_correct [OF w] released_merge [OF released_refl [OF w]]
    by (auto simp: networkRelease.simps Let_def time_Now_def lookup_leaf releasable_def
        merge_def release_here_def released_refl split: if_splits)
next
  case (split i a b)
  let ?n = "Node i (Some a) (Some b)"
  have w: "wf_tree ?n" using split by simp
  note h = child_parent_of_halves [OF w, of p] and step = networkRelease.simps [of p i "Some a" "Some b"]
  consider "prefix i = p" "expired (lastUpdateTimestamp i) gp (shd c)"
    | "prefix i = p" "\<not> expired (lastUpdateTimestamp i) gp (shd c)"
    | "prefix i \<noteq> p" "child_parent_of p a" | "prefix i \<noteq> p" "child_parent_of p b"
    | "prefix i \<noteq> p" "\<not> child_parent_of p a" "\<not> child_parent_of p b" by blast
  then show ?case
  proof cases
    case 1
    then have "release_here ?n (stl c) = (n', res, c')"
      using split.prems by (simp add: step Let_def time_Now_def)
    then show ?thesis
      using 1 release_here_correct [OF w]
      by (auto simp: releasable_def lookup_split release_here_def time_Now_def split: if_splits)
  next
    case 2
    then have "merge gp ?n (stl c) = (n', c')" "res = None"
      using split.prems h by (auto simp: step Let_def time_Now_def split: prod.splits)
    then show ?thesis
      using 2 released_merge [OF released_refl [OF w]]
      by (auto simp: releasable_def lookup_split)
  next
    case 3
    obtain a' c1 where a: "networkRelease p a gp c = (a', res, c1)"
      and m: "merge gp (Node i (Some a') (Some b)) c1 = (n', c')"
      using split.prems 3 h by (auto simp: step Let_def split: prod.splits)
    show ?thesis
      using split.IH(1) [OF a] released_merge [OF released_half(1) [OF w] m] 3
      by (auto simp: releasable_def lookup_split)
  next
    case 4
    obtain b' c1 where b: "networkRelease p b gp c = (b', res, c1)"
      and m: "merge gp (Node i (Some a) (Some b')) c1 = (n', c')"
      using split.prems 4 h by (auto simp: step Let_def split: prod.splits)
    show ?thesis
      using split.IH(2) [OF b] released_merge [OF released_half(2) [OF w] m] 4 h
      by (auto simp: releasable_def lookup_split)
  next
    case 5
    then have "merge gp ?n c = (n', c')" "res = None"
      using split.prems by (auto simp: step Let_def split: prod.splits)
    then show ?thesis
      using 5 released_merge [OF released_refl [OF w]]
      by (auto simp: releasable_def lookup_split)
  qed
qed

end
