(* ===== verification/IpamList.thy ===== *)
theory IpamList
  imports IpamTree
begin

text \<open>
  The read side of the buddy tree: \<open>search\<close>, \<open>listNetworks\<close> and \<open>networkIsAvailable\<close> against the
  reference counts, and the fact that exclusive networks are alone.
\<close>

section \<open>Finding and listing networks\<close>

lemma lookup_Some:
  assumes "wf_tree n" and "lookup p n = Some m"
  shows "root m = p \<and> wf_tree m \<and> refs n p = refCount (info m) \<and> inside (root n) p"
  using assms
proof (induction n rule: wf_tree_induct)
  case (leaf i)
  then show ?case by (auto simp: lookup_leaf inside_refl split: if_splits)
next
  case (split i a b)
  have w: "wf_tree (Node i (Some a) (Some b))" using split by simp
  note r = refs_parts [OF w] and h = inside_half(1) [OF split.hyps(1,3)]
  have "prefix i = p \<and> m = Node i (Some a) (Some b) \<or> lookup p a = Some m \<or> lookup p b = Some m"
    using split.prems unfolding lookup_split by (metis option.distinct(1) option.inject)
  then consider "prefix i = p" "m = Node i (Some a) (Some b)" | "lookup p a = Some m" | "lookup p b = Some m"
    by blast
  then show ?case
  proof cases
    case 1
    then show ?thesis using w r(1) inside_refl [OF split.hyps(1)] by (simp del: refs.simps)
  next
    case 2
    then show ?thesis using split.IH(1) r(2) [of p] h [of p] by (simp del: refs.simps)
  next
    case 3
    then show ?thesis using split.IH(2) r(3) [of p] h [of p] by (simp del: refs.simps)
  qed
qed

lemma inside_child_parent_of: "inside (root n) p \<Longrightarrow> child_parent_of p n"
  by (simp add: inside_def child_parent_of_def isPrefixChildOf_def)

lemma lookup_refs: "wf_tree n \<Longrightarrow> refs n p \<noteq> 0 \<Longrightarrow> \<exists>m. lookup p n = Some m"
proof (induction n rule: wf_tree_induct)
  case (leaf i)
  then show ?case by (auto simp: lookup_leaf split: if_splits)
next
  case (split i a b)
  have w: "wf_tree (Node i (Some a) (Some b))" using split by simp
  note r = refs_parts [OF w] and h = child_parent_of_halves [OF w]
  have "p = prefix i \<or> inside (root a) p \<or> inside (root b) p" using r(4) split.prems by blast
  then consider "p = prefix i" | "inside (root a) p" "refs a p \<noteq> 0" | "inside (root b) p" "refs b p \<noteq> 0"
    using r(2,3) split.prems by fastforce
  then show ?case
    using split.IH inside_child_parent_of h by cases (auto simp: lookup_split)
qed

text \<open>A network that is exclusive is alone: no acquired network overlaps it.\<close>

definition alone :: "(prefix \<Rightarrow> int) \<Rightarrow> bool" where
  "alone f \<longleftrightarrow> (\<forall>p q. f p = -1 \<longrightarrow> f q \<noteq> 0 \<longrightarrow> Overlaps p q \<longrightarrow> p = q)"

lemma alone_grant: "alone f \<Longrightarrow> grantable e p f \<Longrightarrow> -1 \<le> f p \<Longrightarrow> alone (grant e p f)"
  by (auto simp: alone_def grant_def grantable_def Overlaps_commute split: if_splits)

lemma alone_allocate: "alone f \<Longrightarrow> grantable True p f \<Longrightarrow> alone (f(p := if e then -1 else 1))"
  by (auto simp: alone_def grantable_def Overlaps_commute split: if_splits)

lemma alone_release: "alone f \<Longrightarrow> -1 \<le> f p \<Longrightarrow> f p \<noteq> 0 \<Longrightarrow> alone (release p f)"
  by (auto simp: alone_def release_def split: if_splits)

lemma alone_half:
  assumes w: "wf_tree (Node i (Some a) (Some b))" and "alone (refs (Node i (Some a) (Some b)))"
  shows "alone (refs a)" "alone (refs b)"
proof -
  have wab: "wf_tree a" "wf_tree b" using w by auto
  note r = refs_parts [OF w]
  have a: "refs a q \<noteq> 0 \<Longrightarrow> refs (Node i (Some a) (Some b)) q = refs a q" for q
    using refs_inside [OF wab(1)] r(2) by blast
  have b: "refs b q \<noteq> 0 \<Longrightarrow> refs (Node i (Some a) (Some b)) q = refs b q" for q
    using refs_inside [OF wab(2)] r(3) by blast
  show "alone (refs a)" "alone (refs b)"
    using assms(2) a b by (auto simp: alone_def simp del: refs.simps)
qed

theorem listNetworks_correct:
  assumes "wf_tree n" and "alone (refs n)"
  shows "set (listNetworks n) = {p. refs n p \<noteq> 0} \<and> distinct (listNetworks n)"
  using assms
proof (induction n rule: wf_tree_induct)
  case (leaf i)
  then show ?case by (auto simp: isExclusive_def isAcquired_def)
next
  case (split i a b)
  let ?n = "Node i (Some a) (Some b)"
  have w: "wf_tree ?n" using split by simp
  have wab: "wf_tree a" "wf_tree b" using split by auto
  note r = refs_parts [OF w] and al = alone_half [OF w split.prems]
  show ?case
  proof (cases "isExclusive ?n")
    case True
    then have x: "refs ?n (prefix i) = -1" using r(1) by (simp add: isExclusive_def del: refs.simps)
    have "refs ?n q \<noteq> 0 \<Longrightarrow> q = prefix i" for q
      using split.prems x refs_inside [OF w, of q] by (auto simp: alone_def inside_def simp del: refs.simps)
    then show ?thesis using True x by (auto simp del: refs.simps)
  next
    case False
    have in_a: "refs a p \<noteq> 0 \<Longrightarrow> inside (root a) p" and in_b: "refs b p \<noteq> 0 \<Longrightarrow> inside (root b) p" for p
      using refs_inside wab by blast+
    have "set (listNetworks a) = {p. refs a p \<noteq> 0}" "set (listNetworks b) = {p. refs b p \<noteq> 0}"
      "distinct (listNetworks a)" "distinct (listNetworks b)"
      using split.IH al by auto
    moreover have "refs ?n p \<noteq> 0 \<longleftrightarrow> p = prefix i \<and> isAcquired ?n \<or> refs a p \<noteq> 0 \<or> refs b p \<noteq> 0" for p
      using r(1) r(2-4) [of p] in_a [of p] in_b [of p] by (auto simp: isAcquired_def simp del: refs.simps)
    moreover have "refs a (prefix i) = 0" "refs b (prefix i) = 0" "refs a p = 0 \<or> refs b p = 0" for p
      using r(5-7) in_a in_b by blast+
    ultimately show ?thesis using False by (auto simp del: refs.simps)
  qed
qed

section \<open>Availability\<close>

text \<open>
  \<open>networkIsAvailable\<close> does not look at the root of the tree unless it is the requested network or
  a leaf. When the root is not acquired, an available network can be acquired exclusively.
\<close>

lemma available_here:
  assumes w: "wf_tree n" and "networkIsAvailable (root n) n"
  shows "grantable True (root n) (refs n)"
proof -
  have "\<not> isAcquired n"
    using assms(2) by (cases n) (auto split: if_splits)
  moreover have "\<not> hasAcquiredDescendants n"
  proof (cases rule: wf_tree_cases [OF w])
    case (1 i)
    then show ?thesis by simp
  next
    case (2 i a b)
    then have "\<not> isSplitted a" "\<not> isAcquired a" "\<not> isSplitted b" "\<not> isAcquired b"
      using assms(2) by (auto split: if_splits)
    moreover have "\<not> hasAcquiredDescendants x" if "wf_tree x" "\<not> isSplitted x" for x
      using that(2) by (cases rule: wf_tree_cases [OF that(1)]) (auto simp: isSplitted_def)
    ultimately show ?thesis using 2 by simp
  qed
  ultimately show ?thesis using grantable_root(1) [OF w] by blast
qed

lemma available_grantable:
  assumes "wf_tree n" and "inside (root n) p" and "\<not> isAcquired n" and "networkIsAvailable p n"
  shows "grantable True p (refs n)"
  using assms
proof (induction n rule: wf_tree_induct)
  case (leaf i)
  then show ?case by (simp add: grantable_def isAcquired_def)
next
  case (split i a b)
  have w: "wf_tree (Node i (Some a) (Some b))" using split by simp
  show ?case
  proof (cases "prefix i = p")
    case True
    then show ?thesis using available_here [OF w] split.prems(3) by (simp del: refs.simps)
  next
    case False
    have i: "refCount i = 0" and np: "net4 p"
      using split.prems(1,2) by (simp_all add: isAcquired_def inside_def)
    have ch: "child_parent_of p x \<longrightarrow> inside (root x) p" for x
      using np by (simp add: child_parent_of_def isPrefixChildOf_def inside_def)
    consider "child_parent_of p a" "\<not> isAcquired a" "networkIsAvailable p a"
      | "child_parent_of p b" "\<not> isAcquired b" "networkIsAvailable p b"
      using split.prems(3) False by (simp split: if_splits)
    then show ?thesis
      using split.IH ch grantable_half [OF w, of a p True] grantable_half [OF w, of b p True] i by cases (simp_all del: refs.simps)
  qed
qed

text \<open>A network that is acquired itself is never reported as available.\<close>

lemma acquired_not_available:
  assumes "wf_tree n" and "refs n p \<noteq> 0"
  shows "\<not> networkIsAvailable p n"
  using assms
proof (induction n rule: wf_tree_induct)
  case (leaf i)
  then show ?case by (auto simp: isAcquired_def split: if_splits)
next
  case (split i a b)
  have w: "wf_tree (Node i (Some a) (Some b))" using split by simp
  note r = refs_parts [OF w] and h = child_parent_of_halves [OF w]
  have "p = prefix i \<or> inside (root a) p \<or> inside (root b) p" using r(4) split.prems by blast
  then consider "p = prefix i" "refCount i \<noteq> 0" | "p \<noteq> prefix i" "child_parent_of p a" "\<not> networkIsAvailable p a"
    | "p \<noteq> prefix i" "\<not> child_parent_of p a" "\<not> networkIsAvailable p b"
    using r(1,6,7) r(2,3) [of p] split inside_child_parent_of h
    by (metis (no_types, lifting))
  then show ?case
    by cases (use h in \<open>auto simp: isAcquired_def split: if_splits\<close>)
qed

end
