(* ===== verification/IpamIPs.thy ===== *)
theory IpamIPs
  imports IpamList
begin

text \<open>
  The addresses of an acquired network: \<open>ipAcquire\<close>, \<open>allocateIPWithAddr\<close> and \<open>ipRelease\<close> against the
  set of allocated addresses. The search of \<open>ipAcquire\<close> visits every address of the network, so it
  fails only on a full one.
\<close>

section \<open>The addresses of a network as numbers\<close>

lemma div_block:
  fixes S k x :: nat
  assumes "0 < S"
  shows "x div S = S * k div S \<longleftrightarrow> S * k \<le> x \<and> x < S * k + S"
proof
  assume "x div S = S * k div S"
  then have "x div S = k" using assms by simp
  then show "S * k \<le> x \<and> x < S * k + S"
    using times_div_less_eq_dividend [of S x] dividend_less_times_div [OF assms, of x] by simp
next
  assume "S * k \<le> x \<and> x < S * k + S"
  then have "x div S = k" by (intro div_nat_eqI) simp_all
  then show "x div S = S * k div S" using assms by simp
qed

lemma net4_range:
  assumes "net4 p"
  shows "Contains p a \<longleftrightarrow> BitLen a = 32 \<and> a_nat (Addr p) \<le> a_nat a \<and>
      a_nat a < a_nat (Addr p) + 2 ^ (32 - Bits p)"
    and "a_nat (Addr p) + 2 ^ (32 - Bits p) \<le> 2 ^ 32"
proof -
  obtain w m where p: "p = Prefix (V4 w) m" "m \<le> 32" using assms by (rule net4_cases)
  define S :: nat where "S = 2 ^ (32 - m)"
  have S: "0 < S" "2 ^ 32 = S * 2 ^ m"
    unfolding S_def power_add [symmetric] using p(2) by simp_all
  obtain k where k: "unat w = S * k" using net4_dvd assms p(1) S_def by (metis dvdE)
  have "topbits m a = topbits m (V4 w) \<longleftrightarrow> a_nat a div S = S * k div S" if "BitLen a = 32"
    unfolding topbits_def that S_def [symmetric] BitLen.simps a_nat.simps k ..
  then show "Contains p a \<longleftrightarrow> BitLen a = 32 \<and> a_nat (Addr p) \<le> a_nat a \<and>
      a_nat a < a_nat (Addr p) + 2 ^ (32 - Bits p)"
    using net4_Valid [OF assms]
    unfolding Contains_iff p(1) prefix.sel a_nat.simps k S_def [symmetric] BitLen.simps
      div_block [OF S(1), symmetric] by auto
  have "unat w < 2 ^ 32" using a_nat_less [of "V4 w"] by simp
  then have "k < 2 ^ m" unfolding k S(2) by (rule mult_less_cancel1 [THEN iffD1, THEN conjunct2])
  then have "S * Suc k \<le> S * 2 ^ m" by (intro mult_le_mono2 Suc_leI)
  then show "a_nat (Addr p) + 2 ^ (32 - Bits p) \<le> 2 ^ 32"
    unfolding p(1) a_nat.simps prefix.sel k S(2) S_def [symmetric] by simp
qed

text \<open>The position in the network of the address that the loop of \<open>ipAcquire\<close> looks at.\<close>

definition norm_addr :: "prefix \<Rightarrow> addr \<Rightarrow> addr" where
  "norm_addr p a = (if \<not> Contains p a then Addr p else a)"

definition offset :: "prefix \<Rightarrow> addr \<Rightarrow> nat" where
  "offset p a = a_nat (norm_addr p a) - a_nat (Addr p)"

lemma norm_addr_range:
  assumes "net4 p"
  shows "Contains p (norm_addr p a)" "BitLen (norm_addr p a) = 32"
    "a_nat (norm_addr p a) = a_nat (Addr p) + offset p a" "offset p a < 2 ^ (32 - Bits p)"
proof -
  show c: "Contains p (norm_addr p a)" using assms Contains_Addr by (simp add: norm_addr_def)
  show "BitLen (norm_addr p a) = 32"
    "a_nat (norm_addr p a) = a_nat (Addr p) + offset p a" "offset p a < 2 ^ (32 - Bits p)"
    using c net4_range(1) [OF assms, of "norm_addr p a"] by (auto simp: offset_def)
qed

lemma Next_a_nat: "BitLen a = 32 \<Longrightarrow> Suc (a_nat a) < 2 ^ 32 \<Longrightarrow> BitLen (Next a) = 32 \<and> a_nat (Next a) = Suc (a_nat a)"
  by (cases a) (auto simp: unat_word_ariths word_unat_eq_iff)

lemma Next_last: "BitLen a = 32 \<Longrightarrow> Suc (a_nat a) = 2 ^ 32 \<Longrightarrow> Next a = ZeroAddr"
  by (cases a) (auto simp: unat_word_ariths word_unat_eq_iff)

lemma offset_Next:
  assumes n: "net4 p"
  shows "offset p (Next (norm_addr p a)) = Suc (offset p a) mod 2 ^ (32 - Bits p)"
proof -
  define S :: nat where "S = 2 ^ (32 - Bits p)"
  let ?b = "a_nat (Addr p)" and ?x = "norm_addr p a"
  note r = norm_addr_range [OF n, of a, folded S_def] and rg = net4_range [OF n, folded S_def]
  show ?thesis
  proof (cases "Suc (offset p a) = S")
    case False
    then have lt: "Suc (offset p a) < S" using r(4) by simp
    then have "BitLen (Next ?x) = 32" "a_nat (Next ?x) = ?b + Suc (offset p a)"
      using Next_a_nat [OF r(2)] r(3) rg(2) by auto
    moreover from this have "Contains p (Next ?x)" using rg(1) lt by simp
    ultimately show ?thesis using lt by (simp add: offset_def norm_addr_def S_def)
  next
    case True
    have "\<not> Contains p (Next ?x)"
    proof (cases "Suc (a_nat ?x) = 2 ^ 32")
      case True
      then show ?thesis using Next_last [OF r(2)] by (simp add: Contains_def split: addr.splits)
    next
      case False
      then have "Suc (a_nat ?x) < 2 ^ 32" using a_nat_less [of ?x] r(2) by simp
      then have "a_nat (Next ?x) = ?b + S" using Next_a_nat [OF r(2)] r(3) True by simp
      then show ?thesis using rg(1) by simp
    qed
    then show ?thesis using True by (simp add: offset_def norm_addr_def S_def)
  qed
qed

section \<open>Allocated addresses\<close>

lemma isAllocatedIP_iff: "isAllocatedIP a i \<longleftrightarrow> a \<in> set (addrs i)"
  by (auto simp: isAllocatedIP_def addrs_def)

lemma ipAcquire_loop_Some:
  assumes "Valid (prefix i)" and "ipAcquire_loop k a i c = (i', Some x, c')"
  shows "x \<notin> set (addrs i) \<and> Contains (prefix i) x \<and> addrs i' = addrs i @ [x] \<and>
    prefix i' = prefix i \<and> refCount i' = refCount i"
  using assms(2)
  by (induction k arbitrary: a c)
    (auto simp: Let_def time_Now_def isAllocatedIP_iff Contains_Addr [OF assms(1)] addrs_def
      split: if_splits)

lemma ipAcquire_loop_None: "ipAcquire_loop k a i c = (i', None, c') \<Longrightarrow> i' = i"
  by (induction k arbitrary: a c) (auto simp: Let_def time_Now_def split: if_splits)

text \<open>A loop that finds nothing has seen the next \<open>k\<close> addresses, around the end of the network.\<close>

lemma ipAcquire_loop_visits:
  assumes n: "net4 (prefix i)" and "ipAcquire_loop k a i c = (i', None, c')" and "j < k"
    and "BitLen x = 32"
    and "a_nat x = a_nat (Addr (prefix i)) + (offset (prefix i) a + j) mod 2 ^ (32 - Bits (prefix i))"
  shows "x \<in> set (addrs i)"
  using assms(2-)
proof (induction k arbitrary: a c j)
  case (Suc k)
  let ?p = "prefix i" and ?y = "norm_addr (prefix i) a"
  note r = norm_addr_range [OF n, of a]
  have y: "?y \<in> set (addrs i)" and rec: "ipAcquire_loop k (Next ?y) i c = (i', None, c')"
    using Suc.prems(1)
    by (auto simp: Let_def time_Now_def isAllocatedIP_iff norm_addr_def split: if_splits)
  show ?case
  proof (cases j)
    case 0
    then have "x = ?y" using Suc.prems r by (simp add: addr_eq_iff)
    then show ?thesis using y by simp
  next
    case (Suc j')
    then have "a_nat x = a_nat (Addr ?p) + (offset ?p (Next ?y) + j') mod 2 ^ (32 - Bits ?p)"
      using Suc.prems(4) offset_Next [OF n, of a] by (simp add: mod_simps)
    then show ?thesis using Suc.IH [OF rec _ Suc.prems(3)] Suc.prems(2) Suc by simp
  qed
qed simp

lemma ipAcquire_loop_full:
  assumes n: "net4 (prefix i)"
    and "ipAcquire_loop (2 ^ (32 - Bits (prefix i))) a i c = (i', None, c')"
    and "Contains (prefix i) x"
  shows "x \<in> set (addrs i)"
proof -
  define S :: nat where "S = 2 ^ (32 - Bits (prefix i))"
  let ?b = "a_nat (Addr (prefix i))" and ?o = "offset (prefix i) a"
  have "0 < S" by (simp add: S_def)
  have x: "BitLen x = 32" "?b \<le> a_nat x" "a_nat x < ?b + S"
    using assms(3) net4_range(1) [OF n] by (simp_all add: S_def)
  have o: "?o < S" using norm_addr_range(4) [OF n] by (simp add: S_def)
  obtain d where d: "a_nat x = ?b + d" "d < S" using x le_Suc_ex by (metis nat_add_left_cancel_less)
  define j where "j = (d + (S - ?o)) mod S"
  have "(?o + j) mod S = (?o + (d + (S - ?o))) mod S" unfolding j_def by (simp add: mod_simps)
  also have "?o + (d + (S - ?o)) = d + S" using o by simp
  finally have "a_nat x = ?b + (?o + j) mod S" using d by simp
  moreover have "j < S" using \<open>0 < S\<close> by (simp add: j_def)
  ultimately show ?thesis
    using ipAcquire_loop_visits [OF n assms(2), of j x] x(1) by (simp add: S_def)
qed

lemma ip_count_net4: "net4 p \<Longrightarrow> nat (ip_count p) = 2 ^ (32 - Bits p)"
  by (simp add: ip_count_def Let_def nat_power_eq)

text \<open>The functional contract of \<open>ipAcquire\<close>.\<close>

definition ip_acquired :: "node \<Rightarrow> node \<Rightarrow> addr option \<Rightarrow> bool" where
  "ip_acquired n n' res \<longleftrightarrow> left n' = left n \<and> right n' = right n \<and> root n' = root n \<and>
     refCount (info n') = refCount (info n) \<and>
     (case res of
        None \<Rightarrow> addrs (info n') = addrs (info n)
      | Some a \<Rightarrow> isAcquired n \<and> Contains (root n) a \<and> a \<notin> set (addrs (info n)) \<and>
          addrs (info n') = addrs (info n) @ [a])"

lemma ipAcquire_correct:
  assumes n: "net4 (root n)" and "ipAcquire n c = (n', res, c')"
  shows "ip_acquired n n' res \<and>
    (res = None \<longleftrightarrow> \<not> isAcquired n \<or> {a. Contains (root n) a} \<subseteq> set (addrs (info n)))"
proof (cases "isAcquired n")
  case False
  then show ?thesis using assms by (auto simp: ipAcquire_def ip_acquired_def)
next
  case True
  define i where "i = (if \<not> IsValid (lastip (info n))
    then (info n)\<lparr>lastip := Addr (root n)\<rparr> else info n)"
  define a where "a = (if Compare (lastip i) (Addr (prefix i)) \<noteq> 0 then Next (lastip i) else lastip i)"
  have i: "prefix i = root n" "addrs i = addrs (info n)" "refCount i = refCount (info n)"
    by (simp_all add: i_def addrs_def)
  obtain i' where l: "ipAcquire_loop (2 ^ (32 - Bits (prefix i))) a i c = (i', res, c')"
    and n': "n' = Node i' (left n) (right n)"
    using assms(2) True ip_count_net4 [OF n] i(1)
    unfolding ipAcquire_def Let_def i_def [symmetric] a_def [symmetric]
    by (auto split: prod.splits)
  show ?thesis
  proof (cases res)
    case None
    then show ?thesis
      using l n' i ipAcquire_loop_None [of _ a i c i' c'] ipAcquire_loop_full [of i a c i' c'] n
      by (auto simp: ip_acquired_def)
  next
    case (Some x)
    then show ?thesis
      using l n' i ipAcquire_loop_Some [of i _ a c i' x c'] n True by (auto simp: ip_acquired_def)
  qed
qed

lemma allocateIPWithAddr_correct:
  assumes "allocateIPWithAddr a n c = (n', res, c')"
  shows "ip_acquired n n' res \<and>
    res = (if isAcquired n \<and> Contains (root n) a \<and> a \<notin> set (addrs (info n)) then Some a else None)"
  using assms
  by (auto simp: allocateIPWithAddr_def ip_acquired_def isAllocatedIP_iff time_Now_def Let_def addrs_def
      split: if_splits)

text \<open>The loop of \<open>ipRelease\<close> reads the clock once for each entry it looks at.\<close>

lemma ipRelease_loop_Some:
  assumes "ipRelease_loop ip gp xs c = (Some ys, c')" and "distinct (map nodeIP_addr xs)"
  shows "ip \<in> nodeIP_addr ` set xs \<and> map nodeIP_addr ys = remove1 ip (map nodeIP_addr xs)"
  using assms
proof (induction xs arbitrary: c ys)
  case (Cons x xs)
  show ?case
  proof (cases "expired (creationTimestamp x) gp (shd c) \<and> nodeIP_addr x = ip")
    case True
    then show ?thesis using Cons.prems by (simp add: time_Now_def)
  next
    case False
    then obtain zs where z: "ipRelease_loop ip gp xs (stl c) = (Some zs, c')" "ys = x # zs"
      using Cons.prems(1) by (auto simp: time_Now_def split: prod.splits)
    have ip: "ip \<in> nodeIP_addr ` set xs" "map nodeIP_addr zs = remove1 ip (map nodeIP_addr xs)"
      using Cons.IH [OF z(1)] Cons.prems(2) by simp_all
    then have "nodeIP_addr x \<noteq> ip" using Cons.prems(2) by auto
    then show ?thesis using ip z(2) by auto
  qed
qed simp

lemma ipRelease_loop_iff:
  assumes "distinct (map nodeIP_addr xs)"
  shows "fst (ipRelease_loop ip gp xs c) \<noteq> None \<longleftrightarrow>
    (\<exists>j<length xs. nodeIP_addr (xs ! j) = ip \<and> expired (creationTimestamp (xs ! j)) gp (c !! j))"
  using assms
proof (induction xs arbitrary: c)
  case (Cons x xs)
  have "fst (ipRelease_loop ip gp (x # xs) c) \<noteq> None \<longleftrightarrow>
    nodeIP_addr x = ip \<and> expired (creationTimestamp x) gp (shd c) \<or>
    fst (ipRelease_loop ip gp xs (stl c)) \<noteq> None"
    by (auto simp: time_Now_def case_prod_beta Let_def)
  then show ?case using Cons by (simp add: Ex_less_Suc2)
qed simp

definition ip_released :: "addr \<Rightarrow> node \<Rightarrow> node \<Rightarrow> addr option \<Rightarrow> bool" where
  "ip_released ip n n' res \<longleftrightarrow> left n' = left n \<and> right n' = right n \<and> root n' = root n \<and>
     refCount (info n') = refCount (info n) \<and>
     (case res of
        None \<Rightarrow> n' = n
      | Some a \<Rightarrow> a = ip \<and> isAcquired n \<and> ip \<in> set (addrs (info n)) \<and>
          addrs (info n') = remove1 ip (addrs (info n)))"

lemma ipRelease_correct:
  assumes d: "distinct (addrs (info n))" and r: "ipRelease ip gp n c = (n', res, c')"
  shows "ip_released ip n n' res \<and>
    (res \<noteq> None \<longleftrightarrow> isAcquired n \<and> (\<exists>j<length (ips (info n)). nodeIP_addr (ips (info n) ! j) = ip \<and>
       expired (creationTimestamp (ips (info n) ! j)) gp (c !! j)))"
proof (cases "isAcquired n")
  case False
  then show ?thesis using r by (auto simp: ipRelease_def ip_released_def)
next
  case True
  have d': "distinct (map nodeIP_addr (ips (info n)))" using d by (simp add: addrs_def)
  obtain ys c1 where l: "ipRelease_loop ip gp (ips (info n)) c = (ys, c1)" by fastforce
  show ?thesis
    using r True l ipRelease_loop_iff [OF d', of ip gp c] ipRelease_loop_Some [OF _ d', of ip gp c]
    by (cases ys) (auto simp: ipRelease_def ip_released_def time_Now_def addrs_def)
qed

lemma ips_ok_acquired: "ips_ok (info n) \<Longrightarrow> ip_acquired n n' res \<Longrightarrow> ips_ok (info n')"
  by (cases res) (auto simp: ips_ok_def ip_acquired_def)

lemma ips_ok_released: "ips_ok (info n) \<Longrightarrow> ip_released ip n n' res \<Longrightarrow> ips_ok (info n')"
  by (cases res) (auto simp: ips_ok_def ip_released_def dest: set_remove1_subset [THEN subsetD])

section \<open>Writing through a pointer\<close>

text \<open>A node written back through a pointer, when the write changes nothing but the addresses.\<close>

definition same_network :: "node \<Rightarrow> node \<Rightarrow> bool" where
  "same_network n n' \<longleftrightarrow> left n' = left n \<and> right n' = right n \<and> root n' = root n \<and>
     refCount (info n') = refCount (info n)"

lemma same_network_ip:
  "ip_acquired n n' res \<Longrightarrow> same_network n n'" "ip_released ip n n' res' \<Longrightarrow> same_network n n'"
  by (simp_all add: ip_acquired_def ip_released_def same_network_def)

lemma same_network_wf: "same_network n n' \<Longrightarrow> ips_ok (info n') \<Longrightarrow> wf_tree n \<Longrightarrow> wf_tree n' \<and> root n' = root n \<and> refs n' = refs n"
  by (cases n; cases n') (auto simp: same_network_def fun_eq_iff split: option.splits)

lemma search_split:
  assumes "search p (Node i (Some a) (Some b)) = Some ds"
  obtains "ds = []" and "prefix i = p"
  | es where "ds = leftDirection # es" and "search p a = Some es" and "prefix i \<noteq> p" and "child_parent_of p a"
  | es where "ds = rightDirection # es" and "search p b = Some es" and "prefix i \<noteq> p"
      and "\<not> child_parent_of p a" and "child_parent_of p b"
  using assms by (auto split: if_splits)

lemma store_at_correct:
  assumes "wf_tree n" and "search p n = Some ds" and "node_at ds n = Some m" and "same_network m m'"
    and "ips_ok (info m')"
  shows "wf_tree (store_at ds m' n) \<and> root (store_at ds m' n) = root n \<and>
    refs (store_at ds m' n) = refs n \<and> lookup p (store_at ds m' n) = Some m'"
  using assms
proof (induction n arbitrary: ds rule: wf_tree_induct)
  case (leaf i)
  then have "ds = []" "prefix i = p" by (auto split: if_splits)
  then show ?case
    using leaf same_network_wf [of m m'] by (cases m') (auto simp: lookup_def same_network_def)
next
  case (split i a b)
  have w: "wf_tree (Node i (Some a) (Some b))" using split by simp
  from split.prems(1) show ?case
  proof (cases rule: search_split)
    case 1
    then have m: "m = Node i (Some a) (Some b)" using split.prems(2) by simp
    then have "root m' = p" using 1 split.prems(3) by (simp add: same_network_def)
    then have "lookup p m' = Some m'" by (cases m') (simp add: lookup_def)
    then show ?thesis using 1 m same_network_wf [OF split.prems(3,4)] w by (simp del: refs.simps)
  next
    case (2 es)
    then have "wf_tree (store_at es m' a)" "root (store_at es m' a) = root a"
      "refs (store_at es m' a) = refs a" "lookup p (store_at es m' a) = Some m'"
      using split.IH(1) [OF 2(2) _ split.prems(3,4)] split.prems(2) by auto
    then show ?thesis using 2 w by (auto simp: lookup_split child_parent_of_def fun_eq_iff)
  next
    case (3 es)
    then have "wf_tree (store_at es m' b)" "root (store_at es m' b) = root b"
      "refs (store_at es m' b) = refs b" "lookup p (store_at es m' b) = Some m'"
      using split.IH(2) [OF 3(2) _ split.prems(3,4)] split.prems(2) by auto
    then show ?thesis using 3 w by (auto simp: lookup_split child_parent_of_def fun_eq_iff)
  qed
qed

end
