(* ===== verification/IpamCore.thy ===== *)
theory IpamCore
  imports IpamIPs
begin

text \<open>
  \<open>pkg/ipam/core/ipam.go\<close>: the IPAM as the list of the trees of its pools. A method that writes
  through its receiver returns the new \<open>Ipam\<close>; \<open>None\<close> is a panic.
\<close>

section \<open>The operations\<close>

record Ipam =
  roots :: "node list"

datatype core_error =
    HostBitsSet prefix
  | PoolsOverlap prefix prefix
  | NotContained addr prefix
  | NotInRoots prefix
  | PrefixNotFound prefix
  | IPNotFound addr
  | GraphvizFailed string

fun checkHostBits :: "prefix list \<Rightarrow> core_error option" where
  "checkHostBits [] = None"
| "checkHostBits (p # ps) = (if checkHostBitsZero p then checkHostBits ps else Some (HostBitsSet p))"

fun checkOverlaps :: "prefix list \<Rightarrow> core_error option" where
  "checkOverlaps [] = None"
| "checkOverlaps (p # ps) =
     (case find (Overlaps p) ps of Some q \<Rightarrow> Some (PoolsOverlap p q) | None \<Rightarrow> checkOverlaps ps)"

definition checkRoots :: "prefix list \<Rightarrow> core_error option" where
  "checkRoots ps = (case checkHostBits ps of Some e \<Rightarrow> Some e | None \<Rightarrow> checkOverlaps ps)"

fun newRoots :: "prefix list \<Rightarrow> clock \<Rightarrow> node list \<times> clock" where
  "newRoots [] c = ([], c)"
| "newRoots (p # ps) c =
     (let (n, c) = newNode p c; (ns, c) = newRoots ps c in (n # ns, c))"

definition NewIpam :: "prefix list \<Rightarrow> clock \<Rightarrow> (core_error + Ipam) \<times> clock" where
  "NewIpam pools c =
     (case checkRoots pools of
        Some e \<Rightarrow> (Inl e, c)
      | None \<Rightarrow> (let (ns, c) = newRoots pools c in (Inr \<lparr>roots = ns\<rparr>, c)))"

text \<open>
  The loop \<open>for i := range ipam.roots\<close> that returns at the first root for which the step gives a
  result.
\<close>

fun first_root ::
  "(node \<Rightarrow> clock \<Rightarrow> (node \<times> 'r option \<times> clock) option) \<Rightarrow> node list \<Rightarrow> clock \<Rightarrow>
   (node list \<times> 'r option \<times> clock) option" where
  "first_root f [] c = Some ([], None, c)"
| "first_root f (n # ns) c =
     (case f n c of
        None \<Rightarrow> None
      | Some (n', Some r, c) \<Rightarrow> Some (n' # ns, Some r, c)
      | Some (n', None, c) \<Rightarrow>
          (case first_root f ns c of
             None \<Rightarrow> None
           | Some (ns', res, c) \<Rightarrow> Some (n' # ns', res, c)))"

definition with_roots ::
  "Ipam \<Rightarrow> (node list \<times> 'r option \<times> clock) option \<Rightarrow> (Ipam \<times> 'r option \<times> clock) option" where
  "with_roots ipam x = map_option (\<lambda>(ns, res, c). (ipam\<lparr>roots := ns\<rparr>, res, c)) x"

definition NetworkAcquire ::
  "int \<Rightarrow> bool \<Rightarrow> Ipam \<Rightarrow> clock \<Rightarrow> (Ipam \<times> prefix option \<times> clock) option" where
  "NetworkAcquire sz exclusive ipam c =
     with_roots ipam (first_root (\<lambda>n. allocateNetwork sz n exclusive) (roots ipam) c)"

definition NetworkAcquireWithPrefix ::
  "prefix \<Rightarrow> bool \<Rightarrow> Ipam \<Rightarrow> clock \<Rightarrow> (Ipam \<times> prefix option \<times> clock) option" where
  "NetworkAcquireWithPrefix p exclusive ipam c =
     with_roots ipam (first_root
       (\<lambda>n c. if isPrefixChildOf (prefix (info n)) p then allocateNetworkWithPrefix p n exclusive c
              else Some (n, None, c)) (roots ipam) c)"

definition NetworkRelease ::
  "prefix \<Rightarrow> duration \<Rightarrow> Ipam \<Rightarrow> clock \<Rightarrow> (Ipam \<times> prefix option \<times> clock) option" where
  "NetworkRelease p gracePeriod ipam c =
     with_roots ipam (first_root
       (\<lambda>n c. if isPrefixChildOf (prefix (info n)) p then Some (networkRelease p n gracePeriod c)
              else Some (n, None, c)) (roots ipam) c)"

definition ListNetworks :: "Ipam \<Rightarrow> prefix list" where
  "ListNetworks ipam = concat (map listNetworks (roots ipam))"

definition NetworkIsAvailable :: "prefix \<Rightarrow> Ipam \<Rightarrow> bool" where
  "NetworkIsAvailable p ipam =
     (case find (\<lambda>n. isPrefixChildOf (prefix (info n)) p) (roots ipam) of
        None \<Rightarrow> False
      | Some n \<Rightarrow> networkIsAvailable p n)"

text \<open>
  \<open>Ipam.search\<close> looks only into the first root that holds the prefix. Its result is the pointer
  \<open>(i, ds)\<close>: the root with the index \<open>i\<close> and the path below it; \<open>Inr None\<close> is the nil node.
\<close>

fun search_roots ::
  "prefix \<Rightarrow> nat \<Rightarrow> node list \<Rightarrow> core_error + (nat \<times> nodeDirection list) option" where
  "search_roots p i [] = Inl (NotInRoots p)"
| "search_roots p i (n # ns) =
     (if \<not> isPrefixChildOf (prefix (info n)) p then search_roots p (Suc i) ns
      else Inr (map_option (Pair i) (search p n)))"

definition Ipam_search :: "prefix \<Rightarrow> Ipam \<Rightarrow> core_error + (nat \<times> nodeDirection list) option" where
  "Ipam_search p ipam = search_roots p 0 (roots ipam)"

definition deref :: "Ipam \<Rightarrow> nat \<times> nodeDirection list \<Rightarrow> node option" where
  "deref ipam ptr = (if fst ptr < length (roots ipam) then node_at (snd ptr) (roots ipam ! fst ptr) else None)"

definition store :: "Ipam \<Rightarrow> nat \<times> nodeDirection list \<Rightarrow> node \<Rightarrow> Ipam" where
  "store ipam ptr m =
     ipam\<lparr>roots := (roots ipam)[fst ptr := store_at (snd ptr) m (roots ipam ! fst ptr)]\<rparr>"

text \<open>Run a method on the node that \<open>search\<close> finds; \<open>nil, nil\<close> when there is none.\<close>

definition on_node ::
  "prefix \<Rightarrow> (node \<Rightarrow> clock \<Rightarrow> node \<times> addr option \<times> clock) \<Rightarrow> Ipam \<Rightarrow> clock \<Rightarrow>
   Ipam \<times> (core_error + addr option) \<times> clock" where
  "on_node p f ipam c =
     (case Ipam_search p ipam of
        Inl e \<Rightarrow> (ipam, Inl e, c)
      | Inr None \<Rightarrow> (ipam, Inr None, c)
      | Inr (Some ptr) \<Rightarrow>
          (case deref ipam ptr of
             None \<Rightarrow> (ipam, Inr None, c)
           | Some n \<Rightarrow> (let (n', res, c) = f n c in (store ipam ptr n', Inr res, c))))"

definition IPAcquire :: "prefix \<Rightarrow> Ipam \<Rightarrow> clock \<Rightarrow> Ipam \<times> (core_error + addr option) \<times> clock" where
  "IPAcquire p ipam c = on_node p ipAcquire ipam c"

definition IPAcquireWithAddr ::
  "prefix \<Rightarrow> addr \<Rightarrow> Ipam \<Rightarrow> clock \<Rightarrow> Ipam \<times> (core_error + addr option) \<times> clock" where
  "IPAcquireWithAddr p a ipam c =
     (if \<not> Contains p a then (ipam, Inl (NotContained a p), c)
      else on_node p (allocateIPWithAddr a) ipam c)"

definition IPRelease ::
  "prefix \<Rightarrow> addr \<Rightarrow> duration \<Rightarrow> Ipam \<Rightarrow> clock \<Rightarrow> Ipam \<times> (core_error + addr option) \<times> clock" where
  "IPRelease p a gracePeriod ipam c = on_node p (ipRelease a gracePeriod) ipam c"

definition find_node :: "prefix \<Rightarrow> Ipam \<Rightarrow> core_error + node option" where
  "find_node p ipam =
     (case Ipam_search p ipam of
        Inl e \<Rightarrow> Inl e
      | Inr None \<Rightarrow> Inr None
      | Inr (Some ptr) \<Rightarrow> Inr (deref ipam ptr))"

definition ListIPs :: "prefix \<Rightarrow> Ipam \<Rightarrow> core_error + addr list" where
  "ListIPs p ipam =
     (case find_node p ipam of
        Inl e \<Rightarrow> Inl e
      | Inr None \<Rightarrow> Inr []
      | Inr (Some n) \<Rightarrow> Inr (map nodeIP_addr (ips (info n))))"

definition IPIsAllocated :: "prefix \<Rightarrow> addr \<Rightarrow> Ipam \<Rightarrow> core_error + bool" where
  "IPIsAllocated p a ipam =
     (case find_node p ipam of
        Inl e \<Rightarrow> Inl e
      | Inr None \<Rightarrow> Inr False
      | Inr (Some n) \<Rightarrow> Inr (isAllocatedIP a (info n)))"

definition IsPrefixInRoots :: "prefix \<Rightarrow> Ipam \<Rightarrow> bool" where
  "IsPrefixInRoots p ipam \<longleftrightarrow> (\<exists>n\<in>set (roots ipam). isPrefixChildOf (prefix (info n)) p)"

text \<open>
  \<open>ToGraphviz\<close> writes one file per root. What the file system answers for a root is the parameter
  \<open>io\<close>.
\<close>

definition ToGraphviz :: "(node \<Rightarrow> string option) \<Rightarrow> Ipam \<Rightarrow> core_error option" where
  "ToGraphviz io ipam =
     (case find (\<lambda>n. io n \<noteq> None) (roots ipam) of
        None \<Rightarrow> None
      | Some n \<Rightarrow> map_option GraphvizFailed (io n))"

definition NetworkSetLastUpdateTimestamp :: "prefix \<Rightarrow> time \<Rightarrow> Ipam \<Rightarrow> Ipam \<times> core_error option" where
  "NetworkSetLastUpdateTimestamp p t ipam =
     (case Ipam_search p ipam of
        Inl e \<Rightarrow> (ipam, Some e)
      | Inr None \<Rightarrow> (ipam, Some (PrefixNotFound p))
      | Inr (Some ptr) \<Rightarrow>
          (case deref ipam ptr of
             None \<Rightarrow> (ipam, Some (PrefixNotFound p))
           | Some n \<Rightarrow>
               (store ipam ptr (Node ((info n)\<lparr>lastUpdateTimestamp := t\<rparr>) (left n) (right n)), None)))"

fun set_creation :: "addr \<Rightarrow> time \<Rightarrow> nodeIP list \<Rightarrow> nodeIP list option" where
  "set_creation a t [] = None"
| "set_creation a t (x # xs) =
     (if Compare (nodeIP_addr x) a = 0 then Some (x\<lparr>creationTimestamp := t\<rparr> # xs)
      else map_option ((#) x) (set_creation a t xs))"

definition IPSetCreationTimestamp :: "addr \<Rightarrow> prefix \<Rightarrow> time \<Rightarrow> Ipam \<Rightarrow> Ipam \<times> core_error option" where
  "IPSetCreationTimestamp a p t ipam =
     (case Ipam_search p ipam of
        Inl e \<Rightarrow> (ipam, Some e)
      | Inr None \<Rightarrow> (ipam, Some (PrefixNotFound p))
      | Inr (Some ptr) \<Rightarrow>
          (case deref ipam ptr of
             None \<Rightarrow> (ipam, Some (PrefixNotFound p))
           | Some n \<Rightarrow>
               (case set_creation a t (ips (info n)) of
                  None \<Rightarrow> (ipam, Some (IPNotFound a))
                | Some xs \<Rightarrow>
                    (store ipam ptr (Node ((info n)\<lparr>ips := xs\<rparr>) (left n) (right n)), None))))"

end
