(* ===== verification/IpamCoreSpec.thy ===== *)
theory IpamCoreSpec
  imports IpamCore
begin

text \<open>
  The IPAM core against its abstract specification: a function from networks to reference counts.
  Every operation keeps the invariant, and the exclusive networks are alone in every state that the
  operations reach.
\<close>

section \<open>A network with host bits\<close>

text \<open>A request with host bits never matches a node: it fails, and at most splits some nodes.\<close>

definition unchanged :: "node \<Rightarrow> node \<Rightarrow> bool" where
  "unchanged n n' \<longleftrightarrow> wf_tree n' \<and> root n' = root n \<and> refs n' = refs n"

lemma unchanged_refl: "wf_tree n \<Longrightarrow> unchanged n n"
  by (simp add: unchanged_def)

lemma allocateNetworkWithPrefix_host_bits:
  assumes "wf_tree n" and "\<not> net4 p"
  shows "\<exists>n' c'. allocateNetworkWithPrefix p n e c = Some (n', None, c') \<and> unchanged n n'"
  using assms
proof (induction "Suc (Bits p) - Bits (root n)" arbitrary: n c rule: less_induct)
  case less
  note w = less.prems(1) and step = allocateNetworkWithPrefix.simps [of p n e c]
  have np: "root n \<noteq> p" using wf_tree_net4 [OF w] less.prems(2) by auto
  show ?case
  proof (cases "isPrefixChildOf (root n) p \<and> \<not> (isExclusive n \<or> e \<and> isAcquired n)")
    case False
    then show ?thesis using np w unchanged_refl step by auto
  next
    case True
    then have ch: "Bits (root n) \<le> Bits p" "Overlaps (root n) p" by (auto simp: isPrefixChildOf_def)
    have "Bits (root n) < 32"
    proof (rule ccontr)
      assume "\<not> Bits (root n) < 32"
      then have "Bits (root n) = 32" "BitLen (Addr p) = 32" "Valid p"
        using wf_tree_net4 [OF w] ch(2) by (auto simp: net4_def Overlaps_iff)
      then have "Bits p = 32" using ch(1) by (simp add: Valid_def)
      then have "net4 p"
        using \<open>BitLen (Addr p) = 32\<close> by (cases p; cases "Addr p") (auto intro: net4I)
      then show False using less.prems(2) by simp
    qed
    from split_wf [OF w this, of c] obtain a b c1
      where sp: "split n c = Some (Node (info n) (Some a) (Some b), c1)"
        and w1: "wf_tree (Node (info n) (Some a) (Some b))"
        and rf: "refs (Node (info n) (Some a) (Some b)) = refs n"
      by metis
    have wab: "wf_tree a" "wf_tree b" using w1 by auto
    have bits: "Bits (root a) = Suc (Bits (root n))" "Bits (root b) = Suc (Bits (root n))"
      using split_net4(3,4) [of "root n" "root a" "root b"] w1 by auto
    then have dec: "Suc (Bits p) - Bits (root a) < Suc (Bits p) - Bits (root n)"
      "Suc (Bits p) - Bits (root b) < Suc (Bits p) - Bits (root n)"
      using ch(1) by simp_all
    obtain a' b' c2 c3 where "allocateNetworkWithPrefix p a e c1 = Some (a', None, c2)" "unchanged a a'"
        "allocateNetworkWithPrefix p b e c1 = Some (b', None, c3)" "unchanged b b'"
      using less.hyps [OF dec(1) wab(1) less.prems(2)] less.hyps [OF dec(2) wab(2) less.prems(2)]
      by blast
    then show ?thesis
      using True np step sp w1 rf
      by (auto simp: child_overlaps_def unchanged_def fun_eq_iff split: if_splits)
  qed
qed

section \<open>The trees of the pools\<close>

fun wf_forest :: "node list \<Rightarrow> bool" where
  "wf_forest [] \<longleftrightarrow> True"
| "wf_forest (n # ns) \<longleftrightarrow> wf_tree n \<and> (\<forall>m\<in>set ns. \<not> Overlaps (root n) (root m)) \<and> wf_forest ns"

definition frefs :: "node list \<Rightarrow> prefix \<Rightarrow> int" where
  "frefs ns q = (\<Sum>n\<leftarrow>ns. refs n q)"

lemma frefs_simps [simp]: "frefs [] q = 0" "frefs (n # ns) q = refs n q + frefs ns q"
  by (simp_all add: frefs_def)

lemma wf_forest_tree: "wf_forest ns \<Longrightarrow> n \<in> set ns \<Longrightarrow> wf_tree n"
  by (induction ns) auto

lemma frefs_inside: "wf_forest ns \<Longrightarrow> frefs ns q \<noteq> 0 \<Longrightarrow> \<exists>n\<in>set ns. inside (root n) q"
proof (induction ns)
  case (Cons n ns)
  show ?case
  proof (cases "refs n q = 0")
    case False
    then show ?thesis using Cons.prems refs_inside by auto
  qed (use Cons in auto)
qed simp

lemma inside_meet:
  assumes "inside x p" and "inside y q" and "Overlaps q p"
  shows "Overlaps x y"
proof -
  have "Overlaps y p" using assms(2,3) Overlaps_trans [of y q p] by (simp add: inside_def)
  then show ?thesis
    using assms(1) Overlaps_trans [of x p y] by (simp add: inside_def Overlaps_commute)
qed

text \<open>Around a network of one pool the other pools count nothing.\<close>

lemma frefs_overlap:
  assumes "wf_forest ns" and "n \<in> set ns" and "inside (root n) p" and "Overlaps q p"
  shows "frefs ns q = refs n q"
  using assms(1,2)
proof (induction ns)
  case (Cons m ns)
  show ?case
  proof (cases "n = m")
    case True
    have "\<not> (\<exists>k\<in>set ns. inside (root k) q)"
      using Cons.prems True inside_meet [OF assms(3) _ assms(4)] by auto
    then have "frefs ns q = 0" using frefs_inside [of ns q] Cons.prems by auto
    then show ?thesis using True by simp
  next
    case False
    then have "n \<in> set ns" "\<not> Overlaps (root m) (root n)" using Cons.prems by auto
    then have "\<not> inside (root m) q"
      using inside_meet [OF assms(3) _ assms(4)] Overlaps_commute by blast
    then have "refs m q = 0" using refs_inside Cons.prems by auto
    then show ?thesis using Cons \<open>n \<in> set ns\<close> by simp
  qed
qed simp

lemma frefs_grantable:
  assumes "wf_forest ns" and "n \<in> set ns" and "inside (root n) p"
  shows "grantable e p (frefs ns) \<longleftrightarrow> grantable e p (refs n)" and "frefs ns p = refs n p"
proof -
  show "grantable e p (frefs ns) \<longleftrightarrow> grantable e p (refs n)"
    using frefs_overlap [OF assms] by (auto simp: grantable_def)
  show "frefs ns p = refs n p"
    using frefs_overlap [OF assms] Overlaps_refl assms(3) by (simp add: inside_def)
qed

text \<open>
  What one step of a loop over the roots does to the counts of its tree, the loop does to the
  counts of the forest.
\<close>

definition tree_step ::
  "(node \<Rightarrow> bool) \<Rightarrow> (node \<Rightarrow> prefix \<Rightarrow> int \<Rightarrow> bool) \<Rightarrow> node \<Rightarrow> node \<Rightarrow> prefix option \<Rightarrow> bool" where
  "tree_step N S n n' res \<longleftrightarrow> wf_tree n' \<and> root n' = root n \<and>
     (case res of
        None \<Rightarrow> refs n' = refs n \<and> N n
      | Some p \<Rightarrow> inside (root n) p \<and> (\<exists>v. refs n' = (refs n)(p := v) \<and> S n p v))"

definition forest_step ::
  "(node \<Rightarrow> bool) \<Rightarrow> (node \<Rightarrow> prefix \<Rightarrow> int \<Rightarrow> bool) \<Rightarrow> node list \<Rightarrow> node list \<Rightarrow> prefix option \<Rightarrow> bool" where
  "forest_step N S ns ns' res \<longleftrightarrow> wf_forest ns' \<and> map root ns' = map root ns \<and>
     (case res of
        None \<Rightarrow> frefs ns' = frefs ns \<and> (\<forall>n\<in>set ns. N n)
      | Some p \<Rightarrow> (\<exists>n\<in>set ns. inside (root n) p \<and> (\<exists>v. frefs ns' = (frefs ns)(p := v) \<and> S n p v)))"

lemma wf_forest_roots:
  "wf_forest (n # ns) \<Longrightarrow> wf_tree n' \<Longrightarrow> root n' = root n \<Longrightarrow> wf_forest ns' \<Longrightarrow>
   map root ns' = map root ns \<Longrightarrow> wf_forest (n' # ns')"
  by simp (metis (mono_tags, lifting) imageE image_eqI list.set_map)

lemma first_root_lift:
  assumes "wf_forest ns"
    and step: "\<And>n c. n \<in> set ns \<Longrightarrow> \<exists>n' res c'. f n c = Some (n', res, c') \<and> tree_step N S n n' res"
  shows "\<exists>ns' res c'. first_root f ns c = Some (ns', res, c') \<and> forest_step N S ns ns' res"
  using assms
proof (induction ns arbitrary: c)
  case (Cons n ns)
  obtain n' res c1 where n': "f n c = Some (n', res, c1)" "tree_step N S n n' res"
    using Cons.prems(2) [of n c] by auto
  show ?case
  proof (cases res)
    case (Some p)
    then obtain v where v: "inside (root n) p" "refs n' = (refs n)(p := v)" "S n p v"
      and wn: "wf_tree n'" "root n' = root n"
      using n'(2) by (auto simp: tree_step_def)
    have "refs n p = frefs (n # ns) p"
      using frefs_grantable(2) [OF Cons.prems(1), of n p] v(1) by simp
    then have "frefs (n' # ns) = (frefs (n # ns))(p := v)" using v(2) by auto
    then show ?thesis
      using n'(1) Some v wn wf_forest_roots [OF Cons.prems(1) wn] Cons.prems(1)
      by (auto simp: forest_step_def simp del: frefs_simps)
  next
    case None
    obtain ns' r c2 where ns': "first_root f ns c1 = Some (ns', r, c2)" "forest_step N S ns ns' r"
      using Cons.IH [of c1] Cons.prems by (meson list.set_intros(2) wf_forest.simps(2))
    have wn: "wf_tree n'" "root n' = root n" "refs n' = refs n" "N n"
      using n'(2) None by (auto simp: tree_step_def)
    then have "frefs (n' # ns') q = refs n q + frefs ns' q" for q by simp
    moreover have "refs n p = 0" if "\<exists>m\<in>set ns. inside (root m) p" for p
    proof -
      from that obtain m where m: "m \<in> set ns" "inside (root m) p" by auto
      then have "frefs (n # ns) p = refs m p" "frefs ns p = refs m p"
        using frefs_grantable(2) [OF Cons.prems(1), of m p] frefs_grantable(2) [of ns m p] Cons.prems(1)
        by auto
      then show ?thesis by simp
    qed
    ultimately have "frefs (n' # ns') = (frefs (n # ns))(p := v)"
      if "\<exists>m\<in>set ns. inside (root m) p" "frefs ns' = (frefs ns)(p := v)" for p v
      using that by (simp add: fun_eq_iff)
    moreover have "r = None \<Longrightarrow> frefs (n' # ns') = frefs (n # ns)"
      using ns'(2) wn by (auto simp: forest_step_def)
    moreover have "wf_forest (n' # ns')" "map root (n' # ns') = map root (n # ns)"
      using ns'(2) wf_forest_roots [OF Cons.prems(1) wn(1,2)] wn by (auto simp: forest_step_def)
    moreover have "first_root f (n # ns) c = Some (n' # ns', r, c2)"
      using n'(1) ns'(1) None by simp
    ultimately show ?thesis
      using ns'(2) wn(4) by (cases r) (simp_all add: forest_step_def del: frefs_simps wf_forest.simps, blast)
  qed
qed (simp add: forest_step_def)

section \<open>The invariant and the network operations\<close>

definition irefs :: "Ipam \<Rightarrow> prefix \<Rightarrow> int" where
  "irefs m = frefs (roots m)"

definition pools :: "Ipam \<Rightarrow> prefix list" where
  "pools m = map root (roots m)"

definition in_pool :: "Ipam \<Rightarrow> prefix \<Rightarrow> bool" where
  "in_pool m p \<longleftrightarrow> (\<exists>q\<in>set (pools m). inside q p)"

definition wf_ipam :: "Ipam \<Rightarrow> bool" where
  "wf_ipam m \<longleftrightarrow> wf_forest (roots m) \<and> alone (irefs m)"

lemma in_pool_iff: "in_pool m p \<longleftrightarrow> (\<exists>n\<in>set (roots m). inside (root n) p)"
  by (auto simp: in_pool_def pools_def)

lemma irefs_ge: "wf_ipam m \<Longrightarrow> -1 \<le> irefs m q"
  using frefs_inside [of "roots m" q] frefs_grantable(2) [of "roots m" _ q] refs_ge wf_forest_tree
  unfolding wf_ipam_def irefs_def by (metis neg_le_0_iff_le zero_le_one)

lemma irefs_in_pool: "wf_ipam m \<Longrightarrow> irefs m q \<noteq> 0 \<Longrightarrow> in_pool m q"
  using frefs_inside by (auto simp: wf_ipam_def irefs_def in_pool_iff)

lemma with_roots_lift:
  assumes "\<exists>ns' res c'. first_root f (roots m) c = Some (ns', res, c') \<and> forest_step N S (roots m) ns' res"
  shows "\<exists>m' res c'. with_roots m (first_root f (roots m) c) = Some (m', res, c') \<and>
    forest_step N S (roots m) (roots m') res"
proof -
  obtain ns' res c' where "first_root f (roots m) c = Some (ns', res, c')"
    "forest_step N S (roots m) ns' res" using assms by blast
  then show ?thesis by (auto simp: with_roots_def intro!: exI [of _ "m\<lparr>roots := ns'\<rparr>"])
qed

text \<open>Any network of a size.\<close>

definition splitted :: "Ipam \<Rightarrow> prefix \<Rightarrow> bool" where
  "splitted m p \<longleftrightarrow> (\<exists>n\<in>set (roots m). splitted_at n p)"

definition acquired_size :: "int \<Rightarrow> bool \<Rightarrow> Ipam \<Rightarrow> Ipam \<Rightarrow> prefix option \<Rightarrow> bool" where
  "acquired_size sz e m m' res \<longleftrightarrow>
     (case res of
        None \<Rightarrow> irefs m' = irefs m \<and>
          (\<forall>p. in_pool m p \<and> int (Bits p) = sz \<longrightarrow> \<not> grantable True p (irefs m) \<or> splitted m p)
      | Some p \<Rightarrow> in_pool m p \<and> int (Bits p) = sz \<and> grantable True p (irefs m) \<and>
          irefs m' = (irefs m)(p := if e then -1 else 1))"

lemma NetworkAcquire_correct:
  assumes w: "wf_ipam m" and sz: "sz \<le> 32"
  shows "\<exists>m' res c'. NetworkAcquire sz e m c = Some (m', res, c') \<and>
    wf_ipam m' \<and> pools m' = pools m \<and> acquired_size sz e m m' res"
proof -
  have wf: "wf_forest (roots m)" and al: "alone (irefs m)" using w by (simp_all add: wf_ipam_def)
  define N where "N n \<longleftrightarrow> (\<forall>p. inside (root n) p \<and> int (Bits p) = sz \<longrightarrow>
    \<not> grantable True p (refs n) \<or> splitted_at n p)" for n
  define S where "S n p v \<longleftrightarrow> int (Bits p) = sz \<and> grantable True p (refs n) \<and>
    v = (if e then -1 else 1)" for n p and v :: int
  have step: "\<exists>n' res c'. allocateNetwork sz n e c = Some (n', res, c') \<and> tree_step N S n n' res"
    if "n \<in> set (roots m)" for n c
    using allocateNetwork_correct [OF wf_forest_tree [OF wf that] sz, of e c]
    by (force simp: allocated_def tree_step_def N_def S_def split: option.splits)
  have "\<exists>m' res c'. NetworkAcquire sz e m c = Some (m', res, c') \<and>
      forest_step N S (roots m) (roots m') res"
    unfolding NetworkAcquire_def by (rule with_roots_lift, rule first_root_lift [OF wf], rule step)
  then obtain m' res c' where r: "NetworkAcquire sz e m c = Some (m', res, c')"
      and st: "forest_step N S (roots m) (roots m') res" by blast
  have g: "grantable True p (irefs m) \<longleftrightarrow> grantable True p (refs n)"
    if "n \<in> set (roots m)" "inside (root n) p" for n p
    using frefs_grantable(1) [OF wf that] by (simp add: irefs_def)
  have "acquired_size sz e m m' res"
  proof (cases res)
    case None
    then have "frefs (roots m') = frefs (roots m)" "\<forall>n\<in>set (roots m). N n"
      using st by (simp_all add: forest_step_def)
    then show ?thesis
      using None g unfolding acquired_size_def in_pool_iff splitted_def N_def irefs_def by simp blast
  next
    case (Some p)
    then show ?thesis
      using st g by (auto simp: forest_step_def acquired_size_def S_def in_pool_iff irefs_def)
  qed
  moreover from this have "alone (irefs m')"
    using al alone_allocate by (auto simp: acquired_size_def split: option.splits)
  ultimately show ?thesis
    using r st by (auto simp: wf_ipam_def pools_def forest_step_def)
qed

text \<open>A given network.\<close>

definition acquired_prefix :: "prefix \<Rightarrow> bool \<Rightarrow> Ipam \<Rightarrow> Ipam \<Rightarrow> prefix option \<Rightarrow> bool" where
  "acquired_prefix p e m m' res \<longleftrightarrow>
     (if in_pool m p \<and> grantable e p (irefs m)
      then res = Some p \<and> irefs m' = grant e p (irefs m)
      else res = None \<and> irefs m' = irefs m)"

lemma NetworkAcquireWithPrefix_correct:
  assumes w: "wf_ipam m"
  shows "\<exists>m' res c'. NetworkAcquireWithPrefix p e m c = Some (m', res, c') \<and>
    wf_ipam m' \<and> pools m' = pools m \<and> acquired_prefix p e m m' res"
proof -
  have wf: "wf_forest (roots m)" and al: "alone (irefs m)" using w by (simp_all add: wf_ipam_def)
  define N where "N n \<longleftrightarrow> \<not> (inside (root n) p \<and> grantable e p (refs n))" for n
  define S where "S n q v \<longleftrightarrow> q = p \<and> grantable e p (refs n) \<and>
    v = (if e then -1 else refs n p + 1)" for n q and v :: int
  have step: "\<exists>n' res c'. (if isPrefixChildOf (root n) p then allocateNetworkWithPrefix p n e c
      else Some (n, None, c)) = Some (n', res, c') \<and> tree_step N S n n' res"
    if "n \<in> set (roots m)" for n c
  proof -
    have wn: "wf_tree n" using wf_forest_tree [OF wf that] .
    consider "\<not> isPrefixChildOf (root n) p" | "isPrefixChildOf (root n) p" "\<not> net4 p" | "inside (root n) p"
      by (auto simp: isPrefixChildOf_def inside_def)
    then show ?thesis
    proof cases
      case 1
      then show ?thesis using wn
        by (auto simp: tree_step_def N_def isPrefixChildOf_def inside_def)
    next
      case 2
      then show ?thesis using allocateNetworkWithPrefix_host_bits [OF wn 2(2), of e c]
        by (auto simp: tree_step_def N_def inside_def unchanged_def)
    next
      case 3
      then have "isPrefixChildOf (root n) p" by (simp add: inside_def isPrefixChildOf_def)
      then show ?thesis using allocateNetworkWithPrefix_correct [OF wn 3, of e c] 3
        by (force simp: tree_step_def N_def S_def acquired_with_def grant_def split: if_splits)
    qed
  qed
  have "\<exists>m' res c'. NetworkAcquireWithPrefix p e m c = Some (m', res, c') \<and>
      forest_step N S (roots m) (roots m') res"
    unfolding NetworkAcquireWithPrefix_def by (rule with_roots_lift, rule first_root_lift [OF wf], rule step)
  then obtain m' res c' where r: "NetworkAcquireWithPrefix p e m c = Some (m', res, c')"
      and st: "forest_step N S (roots m) (roots m') res" by blast
  have g: "grantable e p (irefs m) \<longleftrightarrow> grantable e p (refs n)" "irefs m p = refs n p"
    if "n \<in> set (roots m)" "inside (root n) p" for n
    using frefs_grantable [OF wf that] by (simp_all add: irefs_def)
  have "acquired_prefix p e m m' res"
    using st g by (cases res)
      (auto simp: forest_step_def acquired_prefix_def N_def S_def in_pool_iff irefs_def grant_def)
  moreover from this have "alone (irefs m')"
    using al alone_grant irefs_ge [OF w] by (auto simp: acquired_prefix_def split: if_splits)
  ultimately show ?thesis
    using r st by (auto simp: wf_ipam_def pools_def forest_step_def)
qed

text \<open>The release of a network.\<close>

lemma first_root_skip:
  "(\<And>n c. n \<in> set ns \<Longrightarrow> f n c = Some (n, None, c)) \<Longrightarrow> first_root f ns c = Some (ns, None, c)"
  by (induction ns) auto

lemma first_root_only:
  assumes "\<And>n c. n \<in> set xs \<union> set ys \<Longrightarrow> f n c = Some (n, None, c)"
  shows "first_root f (xs @ n # ys) c =
    (case f n c of None \<Rightarrow> None | Some (n', res, c') \<Rightarrow> Some (xs @ n' # ys, res, c'))"
  using assms by (induction xs) (auto simp: first_root_skip split: option.splits)

lemma one_root:
  assumes "wf_forest (xs @ n # ys)" and "isPrefixChildOf (root n) p" and "m \<in> set xs \<union> set ys"
  shows "\<not> isPrefixChildOf (root m) p"
proof -
  have "\<not> Overlaps (root n) (root m)"
    using assms(1,3) by (induction xs) (auto simp: Overlaps_commute)
  then show ?thesis
    using assms(2) Overlaps_trans [of "root n" p "root m"]
    by (auto simp: isPrefixChildOf_def Overlaps_commute)
qed

definition releasable_in :: "prefix \<Rightarrow> Ipam \<Rightarrow> duration \<Rightarrow> time \<Rightarrow> bool" where
  "releasable_in p m gp now \<longleftrightarrow> (\<exists>n\<in>set (roots m). releasable p n gp now)"

definition released_prefix :: "prefix \<Rightarrow> Ipam \<Rightarrow> Ipam \<Rightarrow> prefix option \<Rightarrow> bool" where
  "released_prefix p m m' res \<longleftrightarrow>
     (case res of
        None \<Rightarrow> irefs m' = irefs m
      | Some q \<Rightarrow> q = p \<and> irefs m p \<noteq> 0 \<and> irefs m' = release p (irefs m))"

lemma releasable_child: "wf_tree n \<Longrightarrow> releasable p n gp now \<Longrightarrow> inside (root n) p"
  using lookup_Some by (auto simp: releasable_def split: option.splits)

lemma released_tree_step:
  assumes "released p n n' res" and "wf_tree n"
  shows "tree_step (\<lambda>_. True) (\<lambda>n q v. q = p \<and> refs n p \<noteq> 0 \<and> v = release p (refs n) p) n n' res"
  using assms refs_inside [of n p]
  by (cases res) (auto simp: released_def tree_step_def release_def)

lemma NetworkRelease_state:
  assumes w: "wf_ipam m"
  shows "\<exists>m' res c'. NetworkRelease p gp m c = Some (m', res, c') \<and>
    wf_ipam m' \<and> pools m' = pools m \<and> released_prefix p m m' res"
proof -
  have wf: "wf_forest (roots m)" and al: "alone (irefs m)" using w by (simp_all add: wf_ipam_def)
  define S where "S n q v \<longleftrightarrow> q = p \<and> refs n p \<noteq> 0 \<and> v = release p (refs n) p" for n q and v :: int
  have step: "\<exists>n' res c'. (if isPrefixChildOf (root n) p then Some (networkRelease p n gp c)
      else Some (n, None, c)) = Some (n', res, c') \<and> tree_step (\<lambda>_. True) S n n' res"
    if "n \<in> set (roots m)" for n c
  proof -
    have wn: "wf_tree n" using wf_forest_tree [OF wf that] .
    obtain n' res c' where r: "networkRelease p n gp c = (n', res, c')" by (cases "networkRelease p n gp c") auto
    show ?thesis
      using released_tree_step [of p n n' res] networkRelease_correct [OF wn r] wn r
        released_tree_step [OF released_refl [OF wn] wn, of p]
      unfolding S_def by auto
  qed
  have "\<exists>m' res c'. NetworkRelease p gp m c = Some (m', res, c') \<and>
      forest_step (\<lambda>_. True) S (roots m) (roots m') res"
    unfolding NetworkRelease_def by (rule with_roots_lift, rule first_root_lift [OF wf], rule step)
  then obtain m' res c' where r: "NetworkRelease p gp m c = Some (m', res, c')"
      and st: "forest_step (\<lambda>_. True) S (roots m) (roots m') res" by blast
  have "irefs m p = refs n p" if "n \<in> set (roots m)" "inside (root n) p" for n
    using frefs_grantable [OF wf that] by (simp_all add: irefs_def)
  then have "released_prefix p m m' res"
    using st by (cases res) (auto simp: forest_step_def released_prefix_def S_def irefs_def release_def)
  moreover from this have "alone (irefs m')"
    using al alone_release irefs_ge [OF w] by (auto simp: released_prefix_def split: option.splits)
  ultimately show ?thesis
    using r st by (auto simp: wf_ipam_def pools_def forest_step_def)
qed

lemma NetworkRelease_result:
  assumes w: "wf_ipam m" and r: "NetworkRelease p gp m c = Some (m', res, c')"
  shows "res = (if releasable_in p m gp (shd c) then Some p else None)"
proof -
  let ?f = "\<lambda>n c. if isPrefixChildOf (root n) p then Some (networkRelease p n gp c)
    else Some (n, None, c)"
  have wf: "wf_forest (roots m)" using w by (simp add: wf_ipam_def)
  obtain ns where ns: "first_root ?f (roots m) c = Some (ns, res, c')"
    using r by (auto simp: NetworkRelease_def with_roots_def)
  show ?thesis
  proof (cases "\<exists>n\<in>set (roots m). isPrefixChildOf (root n) p")
    case False
    then have "res = None" using first_root_skip [of "roots m" ?f c] ns by auto
    moreover have "\<not> releasable_in p m gp (shd c)"
      using False releasable_child wf_forest_tree [OF wf]
      by (auto simp: releasable_in_def inside_def isPrefixChildOf_def)
    ultimately show ?thesis by simp
  next
    case True
    then obtain n xs ys where sp: "roots m = xs @ n # ys" "isPrefixChildOf (root n) p"
      using split_list by metis
    note one = one_root [OF wf [unfolded sp(1)] sp(2)]
    have wn: "wf_tree n" using wf_forest_tree [OF wf] sp(1) by simp
    obtain n' res' c1 where k: "networkRelease p n gp c = (n', res', c1)"
      by (cases "networkRelease p n gp c") auto
    have "res = res'"
      using first_root_only [of xs ys ?f n c] one ns k sp by auto
    moreover have "releasable_in p m gp t \<longleftrightarrow> releasable p n gp t" for t
      using one releasable_child wf_forest_tree [OF wf] sp(1)
      by (fastforce simp: releasable_in_def inside_def isPrefixChildOf_def)
    ultimately show ?thesis using networkRelease_correct [OF wn k] by simp
  qed
qed

end
