(* ===== verification/IpamCoreIPs.thy ===== *)
theory IpamCoreIPs
  imports IpamCoreSpec
begin

text \<open>
  The rest of the core: the initial state, the listing, and the address operations through the
  pointer that \<open>search\<close> returns.
\<close>

section \<open>The initial state\<close>

definition pool4 :: "prefix \<Rightarrow> bool" where
  "pool4 p \<longleftrightarrow> (\<exists>w. Addr p = V4 w) \<and> Bits p \<le> 32"

lemma checkHostBits_None: "checkHostBits ps = None \<longleftrightarrow> (\<forall>p\<in>set ps. checkHostBitsZero p)"
  by (induction ps) auto

lemma checkOverlaps_None: "checkOverlaps ps = None \<longleftrightarrow> sorted_wrt (\<lambda>p q. \<not> Overlaps p q) ps"
  by (induction ps) (auto simp: find_None_iff find_Some_iff split: option.splits)

lemma checkRoots_None:
  "checkRoots ps = None \<longleftrightarrow>
     (\<forall>p\<in>set ps. checkHostBitsZero p) \<and> sorted_wrt (\<lambda>p q. \<not> Overlaps p q) ps"
  using checkHostBits_None [of ps] checkOverlaps_None [of ps]
  by (auto simp: checkRoots_def split: option.splits)

lemma newRoots_correct:
  assumes "newRoots ps c = (ns, c')" and "\<forall>p\<in>set ps. net4 p" and "sorted_wrt (\<lambda>p q. \<not> Overlaps p q) ps"
  shows "wf_forest ns \<and> map root ns = ps \<and> frefs ns = (\<lambda>_. 0)"
  using assms
proof (induction ps arbitrary: c ns c')
  case (Cons p ps)
  obtain ms c1 where r: "newRoots ps (stl c) = (ms, c1)" by (cases "newRoots ps (stl c)")
  let ?n = "fst (newNode p c)"
  have n: "newNode p c = (?n, stl c)" by (simp add: newNode_def time_Now_def)
  have ns: "ns = ?n # ms" using Cons.prems(1) n r by (simp add: Let_def case_prod_beta)
  have "?n = Node (info ?n) None None" by (simp add: node.expand)
  then have "wf_tree ?n" "refs ?n = (\<lambda>_. 0)"
    using Cons.prems(2) by (metis (no_types, lifting) ips_ok_empty list.set_intros(1) neg_le_0_iff_le
        newNode_simps(3) nodeInfo.select_convs(2,3,4) option.case(1) prod.case wf_tree.simps zero_le_one)
      (subst \<open>?n = _\<close>, simp add: fun_eq_iff)
  moreover have "wf_forest ms \<and> map root ms = ps \<and> frefs ms = (\<lambda>_. 0)"
    using Cons.IH [OF r] Cons.prems(2,3) by simp
  ultimately show ?case using ns Cons.prems(3) by (auto simp: fun_eq_iff)
qed (simp add: fun_eq_iff)

lemma NewIpam_correct:
  assumes "\<forall>p\<in>set ps. pool4 p" and "NewIpam ps c = (Inr m, c')"
  shows "wf_ipam m" "pools m = ps" "irefs m = (\<lambda>_. 0)"
proof -
  have ok: "(\<forall>p\<in>set ps. checkHostBitsZero p) \<and> sorted_wrt (\<lambda>p q. \<not> Overlaps p q) ps"
    using assms(2) checkRoots_None by (auto simp: NewIpam_def split: option.splits)
  obtain ns where "newRoots ps c = (ns, c')" "m = \<lparr>roots = ns\<rparr>"
    using assms(2) by (auto simp: NewIpam_def split: option.splits prod.splits)
  moreover have "\<forall>p\<in>set ps. net4 p" using ok assms(1) by (auto simp: net4_def pool4_def)
  ultimately show "wf_ipam m" "pools m = ps" "irefs m = (\<lambda>_. 0)"
    using newRoots_correct [of ps c ns c'] ok by (auto simp: wf_ipam_def pools_def irefs_def alone_def)
qed

section \<open>Listing and availability\<close>

lemma frefs_alone_tree:
  assumes "wf_forest ns" and "n \<in> set ns" and "alone (frefs ns)"
  shows "alone (refs n)"
proof -
  have "refs n q \<noteq> 0 \<Longrightarrow> frefs ns q = refs n q" for q
    using frefs_grantable(2) [OF assms(1,2)] refs_inside [OF wf_forest_tree [OF assms(1,2)]] by auto
  then show ?thesis using assms(3) by (auto simp: alone_def)
qed

lemma listNetworks_forest:
  assumes "wf_forest ns" and "\<forall>n\<in>set ns. alone (refs n)"
  shows "set (concat (map listNetworks ns)) = {p. frefs ns p \<noteq> 0} \<and> distinct (concat (map listNetworks ns))"
  using assms
proof (induction ns)
  case (Cons n ns)
  have n: "set (listNetworks n) = {p. refs n p \<noteq> 0}" "distinct (listNetworks n)"
    using listNetworks_correct [of n] Cons.prems by auto
  have ns: "set (concat (map listNetworks ns)) = {p. frefs ns p \<noteq> 0}" "distinct (concat (map listNetworks ns))"
    using Cons by auto
  have "frefs ns p = 0" if "refs n p \<noteq> 0" for p
    using frefs_grantable(2) [OF Cons.prems(1), of n p] refs_inside [of n p] that Cons.prems(1) by simp
  then have "set (listNetworks n) \<inter> set (concat (map listNetworks ns)) = {}"
    "{p. frefs (n # ns) p \<noteq> 0} = {p. refs n p \<noteq> 0} \<union> {p. frefs ns p \<noteq> 0}"
    unfolding n ns by force+
  then show ?case using n ns by simp
qed simp

lemma ListNetworks_correct:
  assumes "wf_ipam m"
  shows "set (ListNetworks m) = {p. irefs m p \<noteq> 0} \<and> distinct (ListNetworks m)"
  using listNetworks_forest [of "roots m"] frefs_alone_tree [of "roots m"] assms
  by (auto simp: ListNetworks_def wf_ipam_def irefs_def)

lemma find_root:
  assumes "wf_forest ns" and "n \<in> set ns" and "isPrefixChildOf (root n) p"
  shows "find (\<lambda>n. isPrefixChildOf (root n) p) ns = Some n"
proof -
  obtain xs ys where ns: "ns = xs @ n # ys" using assms(2) split_list by metis
  have "\<not> isPrefixChildOf (root m) p" if "m \<in> set xs" for m
    using one_root [of xs n ys p m] assms ns that by simp
  then have "find (\<lambda>n. isPrefixChildOf (root n) p) xs = None" by (simp add: find_None_iff)
  then show ?thesis using ns assms(3) by (induction xs arbitrary: ns) (auto split: if_splits)
qed

lemma NetworkIsAvailable_inside:
  assumes "wf_ipam m" and "n \<in> set (roots m)" and "inside (root n) p"
  shows "NetworkIsAvailable p m \<longleftrightarrow> networkIsAvailable p n"
  using assms find_root [of "roots m" n p]
  by (simp add: NetworkIsAvailable_def wf_ipam_def inside_def isPrefixChildOf_def)

text \<open>
  An available network can be acquired exclusively, unless a whole pool that holds it is acquired.
\<close>

lemma NetworkIsAvailable_grantable:
  assumes w: "wf_ipam m" and p: "in_pool m p" and av: "NetworkIsAvailable p m"
    and free: "\<forall>q\<in>set (pools m). irefs m q = 0"
  shows "grantable True p (irefs m)"
proof -
  have wf: "wf_forest (roots m)" using w by (simp add: wf_ipam_def)
  obtain n where n: "n \<in> set (roots m)" "inside (root n) p" using p by (auto simp: in_pool_iff)
  have wn: "wf_tree n" using wf_forest_tree [OF wf n(1)] .
  have "irefs m (root n) = refs n (root n)"
    using frefs_grantable(2) [OF wf n(1)] inside_refl [OF wf_tree_net4 [OF wn]] by (simp add: irefs_def)
  then have "\<not> isAcquired n"
    using free n(1) isAcquired_refs [OF wn] by (auto simp: pools_def)
  then show ?thesis
    using available_grantable [OF wn n(2)] av NetworkIsAvailable_inside [OF w n]
      frefs_grantable(1) [OF wf n] by (simp add: irefs_def)
qed

lemma acquired_not_NetworkIsAvailable:
  assumes w: "wf_ipam m" and "irefs m p \<noteq> 0"
  shows "\<not> NetworkIsAvailable p m"
proof -
  obtain n where n: "n \<in> set (roots m)" "inside (root n) p"
    using irefs_in_pool [OF assms] by (auto simp: in_pool_iff)
  have wf: "wf_forest (roots m)" using w by (simp add: wf_ipam_def)
  then have "refs n p \<noteq> 0" using frefs_grantable(2) [OF wf n] assms(2) by (simp add: irefs_def)
  then show ?thesis
    using acquired_not_available wf_forest_tree [OF wf n(1)] NetworkIsAvailable_inside [OF w n] by blast
qed

section \<open>Addresses\<close>

lemma search_lookup: "search p n = Some ds \<Longrightarrow> \<exists>m. node_at ds n = Some m"
  by (induction p n arbitrary: ds rule: search.induct) (force split: if_splits option.splits)

lemma search_roots_at:
  assumes "\<forall>x\<in>set xs. \<not> isPrefixChildOf (root x) p" and "isPrefixChildOf (root n) p"
  shows "search_roots p i (xs @ n # ys) = Inr (map_option (Pair (i + length xs)) (search p n))"
  using assms by (induction xs arbitrary: i) auto

lemma search_roots_none:
  "\<forall>x\<in>set ns. \<not> isPrefixChildOf (root x) p \<Longrightarrow> search_roots p i ns = Inl (NotInRoots p)"
  by (induction ns arbitrary: i) auto

text \<open>The addresses allocated in a network.\<close>

definition ipaddrs :: "Ipam \<Rightarrow> prefix \<Rightarrow> addr list" where
  "ipaddrs m p = (case find_node p m of Inr (Some n) \<Rightarrow> addrs (info n) | _ \<Rightarrow> [])"

lemma find_node_root:
  assumes "wf_forest (xs @ n # ys)" and "isPrefixChildOf (root n) p"
  shows "Ipam_search p \<lparr>roots = xs @ n # ys\<rparr> = Inr (map_option (Pair (length xs)) (search p n))"
    and "find_node p \<lparr>roots = xs @ n # ys\<rparr> = Inr (lookup p n)"
proof -
  have "\<forall>x\<in>set xs. \<not> isPrefixChildOf (root x) p" using one_root [OF assms] by blast
  from search_roots_at [OF this assms(2), of 0]
  show s: "Ipam_search p \<lparr>roots = xs @ n # ys\<rparr> = Inr (map_option (Pair (length xs)) (search p n))"
    by (simp add: Ipam_search_def)
  show "find_node p \<lparr>roots = xs @ n # ys\<rparr> = Inr (lookup p n)"
    unfolding find_node_def s by (auto simp: lookup_def deref_def split: option.splits)
qed

lemma find_node_none:
  "\<forall>x\<in>set (roots m). \<not> isPrefixChildOf (root x) p \<Longrightarrow>
   Ipam_search p m = Inl (NotInRoots p) \<and> find_node p m = Inl (NotInRoots p)"
  by (simp add: find_node_def Ipam_search_def search_roots_none)

lemma same_network_root:
  "node_at ds n = Some m \<Longrightarrow> same_network m m' \<Longrightarrow> root (store_at ds m' n) = root n"
proof (cases ds)
  case (Cons d es)
  then show "node_at ds n = Some m \<Longrightarrow> root (store_at ds m' n) = root n"
    by (cases n; cases d) (auto split: option.splits)
qed (auto simp: same_network_def)

lemma lookup_store_other:
  assumes "wf_tree n" and "search p n = Some ds" and "node_at ds n = Some m" and "same_network m m'"
    and "q \<noteq> p"
  shows "map_option (\<lambda>x. addrs (info x)) (lookup q (store_at ds m' n)) =
    map_option (\<lambda>x. addrs (info x)) (lookup q n)"
  using assms
proof (induction n arbitrary: ds rule: wf_tree_induct)
  case (leaf i)
  then have "ds = []" "prefix i = p" "m = Node i None None" by (auto split: if_splits)
  then show ?case using leaf.prems by (cases m') (auto simp: same_network_def lookup_leaf)
next
  case (split i a b)
  from split.prems(1) show ?case
  proof (cases rule: search_split)
    case 1
    then have "m = Node i (Some a) (Some b)" using split.prems(2) by simp
    then show ?thesis
      using split.prems 1 by (cases m') (auto simp: same_network_def lookup_split)
  next
    case (2 es)
    then have "map_option (\<lambda>x. addrs (info x)) (lookup q (store_at es m' a)) =
        map_option (\<lambda>x. addrs (info x)) (lookup q a)" "root (store_at es m' a) = root a"
      using split.IH(1) [OF 2(2) _ split.prems(3,4)] split.prems(2,3) same_network_root [of es a m m']
      by auto
    then show ?thesis using 2 by (auto simp: lookup_split child_parent_of_def)
  next
    case (3 es)
    then have "map_option (\<lambda>x. addrs (info x)) (lookup q (store_at es m' b)) =
        map_option (\<lambda>x. addrs (info x)) (lookup q b)" "root (store_at es m' b) = root b"
      using split.IH(2) [OF 3(2) _ split.prems(3,4)] split.prems(2,3) same_network_root [of es b m m']
      by auto
    then show ?thesis using 3 by (auto simp: lookup_split child_parent_of_def)
  qed
qed

lemma ipaddrs_store:
  assumes "wf_forest (xs @ n # ys)" and "wf_forest (xs @ n' # ys)" and "root n' = root n"
    and "map_option (\<lambda>x. addrs (info x)) (lookup q n') = map_option (\<lambda>x. addrs (info x)) (lookup q n)"
  shows "ipaddrs \<lparr>roots = xs @ n' # ys\<rparr> q = ipaddrs \<lparr>roots = xs @ n # ys\<rparr> q"
proof -
  have addrs: "ipaddrs m q = (case find (\<lambda>n. isPrefixChildOf (root n) q) (roots m) of
      None \<Rightarrow> [] | Some x \<Rightarrow> (case map_option (\<lambda>x. addrs (info x)) (lookup q x) of None \<Rightarrow> [] | Some as \<Rightarrow> as))"
    if wf: "wf_forest (roots m)" for m
  proof (cases "find (\<lambda>n. isPrefixChildOf (root n) q) (roots m)")
    case None
    then have "\<forall>x\<in>set (roots m). \<not> isPrefixChildOf (root x) q" by (simp add: find_None_iff)
    then show ?thesis using None find_node_none [of m q] by (simp add: ipaddrs_def)
  next
    case (Some x)
    then have "x \<in> set (roots m)" "isPrefixChildOf (root x) q" by (auto simp: find_Some_iff)
    then obtain us vs where "roots m = us @ x # vs" using split_list by metis
    then have "m = \<lparr>roots = us @ x # vs\<rparr>" "wf_forest (us @ x # vs)" using wf by auto
    then have "find_node q m = Inr (lookup q x)"
      using find_node_root(2) \<open>isPrefixChildOf (root x) q\<close> by blast
    then show ?thesis using Some by (auto simp: ipaddrs_def split: option.splits)
  qed
  have "find P (xs @ z # ys) = (case find P xs of Some x \<Rightarrow> Some x | None \<Rightarrow> if P z then Some z else find P ys)"
    for P and z :: node by (induction xs) auto
  then show ?thesis using addrs assms by (simp split: option.splits)
qed

definition on_found ::
  "(node \<Rightarrow> clock \<Rightarrow> node \<times> addr option \<times> clock) \<Rightarrow> prefix \<Rightarrow> clock \<Rightarrow> Ipam \<Rightarrow> Ipam \<Rightarrow>
   core_error + addr option \<Rightarrow> bool" where
  "on_found f p c m m' r \<longleftrightarrow>
     (case find_node p m of
        Inl e \<Rightarrow> m' = m \<and> r = Inl e
      | Inr None \<Rightarrow> m' = m \<and> r = Inr None
      | Inr (Some n) \<Rightarrow>
          (\<exists>n' res c'. f n c = (n', res, c') \<and> r = Inr res \<and> find_node p m' = Inr (Some n') \<and>
             root n = p \<and> ips_ok (info n) \<and> net4 p \<and> refCount (info n) = irefs m p) \<and>
          (\<forall>q. q \<noteq> p \<longrightarrow> ipaddrs m' q = ipaddrs m q))"

definition ip_method :: "(node \<Rightarrow> clock \<Rightarrow> node \<times> addr option \<times> clock) \<Rightarrow> bool" where
  "ip_method f \<longleftrightarrow> (\<forall>n c n' res c'. net4 (root n) \<longrightarrow> ips_ok (info n) \<longrightarrow> f n c = (n', res, c') \<longrightarrow>
     same_network n n' \<and> ips_ok (info n'))"

lemma ip_methods:
  "ip_method ipAcquire" "ip_method (allocateIPWithAddr a)" "ip_method (ipRelease a gp)"
  "ip_method (\<lambda>n c. (n, None, c))"
proof -
  show "ip_method ipAcquire"
    unfolding ip_method_def using ipAcquire_correct same_network_ip(1) ips_ok_acquired by blast
  show "ip_method (allocateIPWithAddr a)"
    unfolding ip_method_def using allocateIPWithAddr_correct same_network_ip(1) ips_ok_acquired by blast
  show "ip_method (ipRelease a gp)"
    unfolding ip_method_def
    using ipRelease_correct same_network_ip(2) ips_ok_released by (metis ips_ok_def)
  show "ip_method (\<lambda>n c. (n, None, c))" by (simp add: ip_method_def same_network_def)
qed

lemma on_node_correct:
  assumes w: "wf_ipam m" and run: "on_node p f m c = (m', r, c')" and f: "ip_method f"
  shows "wf_ipam m' \<and> pools m' = pools m \<and> irefs m' = irefs m \<and> on_found f p c m m' r"
proof (cases "\<exists>n\<in>set (roots m). isPrefixChildOf (root n) p")
  case False
  then have "Ipam_search p m = Inl (NotInRoots p) \<and> find_node p m = Inl (NotInRoots p)"
    using find_node_none by blast
  then show ?thesis using run w by (simp add: on_node_def on_found_def)
next
  case True
  then obtain n xs ys where sp: "roots m = xs @ n # ys" and ch: "isPrefixChildOf (root n) p"
    using split_list by metis
  have wf: "wf_forest (xs @ n # ys)" and m: "m = \<lparr>roots = xs @ n # ys\<rparr>"
    using w sp by (auto simp: wf_ipam_def)
  have wn: "wf_tree n" using wf_forest_tree [OF wf] by simp
  note fn = find_node_root [OF wf ch]
  show ?thesis
  proof (cases "search p n")
    case None
    then show ?thesis using run w fn m by (simp add: on_node_def on_found_def lookup_def)
  next
    case (Some ds)
    obtain k where k: "node_at ds n = Some k" using search_lookup [OF Some] by blast
    then have l: "lookup p n = Some k" using Some by (simp add: lookup_def)
    obtain k' res where fk: "f k c = (k', res, c')" and r: "r = Inr res"
      and m': "m' = \<lparr>roots = xs @ store_at ds k' n # ys\<rparr>"
      using run fn(1) Some k m
      by (auto simp: on_node_def deref_def store_def Let_def split: prod.splits)
    note lk = lookup_Some [OF wn l]
    have sn: "same_network k k'" "ips_ok (info k')"
      using f fk lk wf_tree_net4 wf_tree_ips_ok unfolding ip_method_def by metis+
    note st = store_at_correct [OF wn Some k sn]
    have fr: "wf_forest (xs @ store_at ds k' n # ys)" "frefs (xs @ store_at ds k' n # ys) = frefs (xs @ n # ys)"
      using wf st by (induction xs) (auto simp: fun_eq_iff)
    have n': "isPrefixChildOf (root (store_at ds k' n)) p" using st ch by simp
    have fp: "find_node p m' = Inr (Some k')" using find_node_root(2) [OF fr(1) n'] st m' by simp
    have other: "ipaddrs m' q = ipaddrs m q" if "q \<noteq> p" for q
      using ipaddrs_store [OF wf fr(1), of q] lookup_store_other [OF wn Some k sn(1) that] st m m'
      by simp
    have "irefs m p = refCount (info k)"
      using lk frefs_grantable(2) [OF wf, of n p] m by (simp add: irefs_def)
    then have "on_found f p c m m' r"
      using fn(2) m l fk r fp lk other wf_tree_ips_ok wf_tree_net4 by (auto simp: on_found_def)
    then show ?thesis using w fr m m' st by (auto simp: wf_ipam_def pools_def irefs_def)
  qed
qed

lemma ipaddrs_ok:
  assumes "wf_ipam m"
  shows "distinct (ipaddrs m p) \<and> (\<forall>a\<in>set (ipaddrs m p). Contains p a)"
proof -
  have "wf_ipam m' \<and> pools m' = pools m \<and> irefs m' = irefs m \<and> on_found f p c m m' r"
    if "on_node p f m c = (m', r, c')" "f = (\<lambda>n c. (n, None, c))" for f m' r c c'
    using on_node_correct [OF assms that(1)] ip_methods(4) that(2) by blast
  then have "on_found (\<lambda>n c. (n, None, c)) p undefined m
      (fst (on_node p (\<lambda>n c. (n, None, c)) m undefined))
      (fst (snd (on_node p (\<lambda>n c. (n, None, c)) m undefined)))"
    by (metis prod.collapse)
  then show ?thesis
    by (auto simp: on_found_def ipaddrs_def ips_ok_def split: sum.splits option.splits)
qed

definition ip_frame :: "prefix \<Rightarrow> Ipam \<Rightarrow> Ipam \<Rightarrow> bool" where
  "ip_frame p m m' \<longleftrightarrow> wf_ipam m' \<and> pools m' = pools m \<and> irefs m' = irefs m \<and>
     (\<forall>q. q \<noteq> p \<longrightarrow> ipaddrs m' q = ipaddrs m q)"

lemma find_node_irefs:
  assumes w: "wf_ipam m" and "\<nexists>n. find_node p m = Inr (Some n)"
  shows "irefs m p = 0" "ipaddrs m p = []"
proof -
  show "ipaddrs m p = []"
    using assms(2) by (auto simp: ipaddrs_def split: sum.splits option.splits)
  show "irefs m p = 0"
  proof (rule ccontr)
    assume r: "irefs m p \<noteq> 0"
    then obtain n where n: "n \<in> set (roots m)" "inside (root n) p"
      using irefs_in_pool [OF w] by (auto simp: in_pool_iff)
    have wf: "wf_forest (roots m)" using w by (simp add: wf_ipam_def)
    then have "refs n p \<noteq> 0" using r frefs_grantable(2) [OF wf n] by (simp add: irefs_def)
    then obtain k where k: "lookup p n = Some k"
      using lookup_refs [OF wf_forest_tree [OF wf n(1)]] by blast
    obtain us vs where "roots m = us @ n # vs" using n(1) split_list by metis
    then have "m = \<lparr>roots = us @ n # vs\<rparr>" "wf_forest (us @ n # vs)" using wf by auto
    then have "find_node p m = Inr (Some k)"
      using find_node_root(2) [of us n vs p] n(2) k by (auto simp: inside_def isPrefixChildOf_def)
    then show False using assms(2) by blast
  qed
qed

lemma IPAcquire_correct:
  assumes w: "wf_ipam m" and run: "IPAcquire p m c = (m', r, c')"
  shows "ip_frame p m m' \<and>
    (case r of
       Inl e \<Rightarrow> m' = m \<and> irefs m p = 0
     | Inr None \<Rightarrow> ipaddrs m' p = ipaddrs m p \<and>
         (irefs m p = 0 \<or> {a. Contains p a} \<subseteq> set (ipaddrs m p))
     | Inr (Some a) \<Rightarrow> irefs m p \<noteq> 0 \<and> Contains p a \<and> a \<notin> set (ipaddrs m p) \<and>
         ipaddrs m' p = ipaddrs m p @ [a])"
proof -
  note on = on_node_correct [OF w run [unfolded IPAcquire_def] ip_methods(1)]
  show ?thesis
  proof (cases "\<exists>n. find_node p m = Inr (Some n)")
    case False
    note z = find_node_irefs [OF w False]
    show ?thesis
      using on False z by (auto simp: on_found_def ip_frame_def split: sum.splits option.splits)
  next
    case True
    then obtain n where n: "find_node p m = Inr (Some n)" by blast
    then obtain n' res c1 where a: "ipAcquire n c = (n', res, c1)" "r = Inr res"
      "find_node p m' = Inr (Some n')" "root n = p" "net4 p" "refCount (info n) = irefs m p"
      using on by (auto simp: on_found_def)
    have net: "net4 (root n)" using a(4,5) by simp
    have "ipaddrs m p = addrs (info n)" "ipaddrs m' p = addrs (info n')" using n a(3) by (simp_all add: ipaddrs_def)
    then show ?thesis
      using on n a ipAcquire_correct [OF net a(1)]
      by (auto simp: on_found_def ip_frame_def ip_acquired_def isAcquired_def split: option.splits)
  qed
qed

lemma IPAcquireWithAddr_correct:
  assumes w: "wf_ipam m" and run: "IPAcquireWithAddr p a m c = (m', r, c')"
  shows "ip_frame p m m' \<and>
    (if Contains p a \<and> irefs m p \<noteq> 0 \<and> a \<notin> set (ipaddrs m p)
     then r = Inr (Some a) \<and> ipaddrs m' p = ipaddrs m p @ [a]
     else (r = Inr None \<or> (\<exists>e. r = Inl e)) \<and> ipaddrs m' p = ipaddrs m p)"
proof (cases "Contains p a")
  case False
  then show ?thesis using run w by (auto simp: IPAcquireWithAddr_def ip_frame_def)
next
  case c: True
  have run': "on_node p (allocateIPWithAddr a) m c = (m', r, c')"
    using run c by (simp add: IPAcquireWithAddr_def)
  note on = on_node_correct [OF w run' ip_methods(2)]
  show ?thesis
  proof (cases "\<exists>n. find_node p m = Inr (Some n)")
    case False
    note z = find_node_irefs [OF w False]
    show ?thesis
      using on False z by (auto simp: on_found_def ip_frame_def split: sum.splits option.splits)
  next
    case True
    then obtain n where n: "find_node p m = Inr (Some n)" by blast
    then obtain n' res c1 where a: "allocateIPWithAddr a n c = (n', res, c1)" "r = Inr res"
      "find_node p m' = Inr (Some n')" "root n = p" "refCount (info n) = irefs m p"
      using on by (auto simp: on_found_def)
    have "ipaddrs m p = addrs (info n)" "ipaddrs m' p = addrs (info n')" using n a(3) by (simp_all add: ipaddrs_def)
    then show ?thesis
      using on n a c allocateIPWithAddr_correct [OF a(1)]
      by (auto simp: on_found_def ip_frame_def ip_acquired_def isAcquired_def split: if_splits)
  qed
qed

lemma IPRelease_correct:
  assumes w: "wf_ipam m" and run: "IPRelease p a gp m c = (m', r, c')"
  shows "ip_frame p m m' \<and>
    (if r = Inr (Some a)
     then irefs m p \<noteq> 0 \<and> a \<in> set (ipaddrs m p) \<and> ipaddrs m' p = remove1 a (ipaddrs m p)
     else (r = Inr None \<or> (\<exists>e. r = Inl e)) \<and> ipaddrs m' p = ipaddrs m p)"
proof -
  note on = on_node_correct [OF w run [unfolded IPRelease_def] ip_methods(3)]
  show ?thesis
  proof (cases "\<exists>n. find_node p m = Inr (Some n)")
    case False
    note z = find_node_irefs [OF w False]
    show ?thesis
      using on False z by (auto simp: on_found_def ip_frame_def split: sum.splits option.splits)
  next
    case True
    then obtain n where n: "find_node p m = Inr (Some n)" by blast
    then obtain n' res c1 where a: "ipRelease a gp n c = (n', res, c1)" "r = Inr res"
      "find_node p m' = Inr (Some n')" "root n = p" "refCount (info n) = irefs m p" "ips_ok (info n)"
      using on by (auto simp: on_found_def)
    have d: "distinct (addrs (info n))" using a(6) by (simp add: ips_ok_def)
    have "ipaddrs m p = addrs (info n)" "ipaddrs m' p = addrs (info n')" using n a(3) by (simp_all add: ipaddrs_def)
    then show ?thesis
      using on n a ipRelease_correct [OF d a(1)]
      by (cases res) (auto simp: on_found_def ip_frame_def ip_released_def isAcquired_def)
  qed
qed

lemma ListIPs_correct: "wf_ipam m \<Longrightarrow> irefs m p \<noteq> 0 \<Longrightarrow> ListIPs p m = Inr (ipaddrs m p)"
  using find_node_irefs(1) [of m p]
  by (auto simp: ListIPs_def ipaddrs_def addrs_def split: sum.splits option.splits)

lemma IPIsAllocated_correct:
  "wf_ipam m \<Longrightarrow> irefs m p \<noteq> 0 \<Longrightarrow> IPIsAllocated p a m = Inr (a \<in> set (ipaddrs m p))"
  using find_node_irefs(1) [of m p]
  by (auto simp: IPIsAllocated_def ipaddrs_def isAllocatedIP_iff split: sum.splits option.splits)

text \<open>An acquired network can be released once enough time has passed.\<close>

lemma releasable_later:
  assumes w: "wf_ipam m" and "irefs m p \<noteq> 0"
  shows "\<exists>t. \<forall>now>t. releasable_in p m gp now"
proof -
  have wf: "wf_forest (roots m)" using w by (simp add: wf_ipam_def)
  obtain n where n: "n \<in> set (roots m)" "inside (root n) p"
    using irefs_in_pool [OF assms] by (auto simp: in_pool_iff)
  have wn: "wf_tree n" using wf_forest_tree [OF wf n(1)] .
  have r: "refs n p \<noteq> 0" using assms(2) frefs_grantable(2) [OF wf n] by (simp add: irefs_def)
  then obtain k where k: "lookup p n = Some k" using lookup_refs [OF wn] by blast
  then have "isAcquired k" using lookup_Some [OF wn k] r by (simp add: isAcquired_def)
  then have "\<forall>now>lastUpdateTimestamp (info k) + gp. releasable p n gp now"
    using k by (simp add: releasable_def expired_def)
  then show ?thesis using n(1) unfolding releasable_in_def by blast
qed

end
