(* ===== verification/IpamContract.thy ===== *)
theory IpamContract
  imports IpamCoreIPs
begin

text \<open>
  The contract between the IPAM server and its core: three operations on a state that is read as
  reference counts. What the server needs of them (an exclusive network blocks every overlapping
  request, and a release undoes an acquisition) is proved once from the contract.
\<close>

locale ipam_contract =
  fixes wf :: "'m \<Rightarrow> bool"
    and count :: "'m \<Rightarrow> prefix \<Rightarrow> int"
    and pool :: "'m \<Rightarrow> prefix \<Rightarrow> bool"
    and acquire :: "int \<Rightarrow> bool \<Rightarrow> 'm \<Rightarrow> clock \<Rightarrow> ('m \<times> prefix option \<times> clock) option"
    and acquireWith :: "prefix \<Rightarrow> bool \<Rightarrow> 'm \<Rightarrow> clock \<Rightarrow> ('m \<times> prefix option \<times> clock) option"
    and free :: "prefix \<Rightarrow> duration \<Rightarrow> 'm \<Rightarrow> clock \<Rightarrow> ('m \<times> prefix option \<times> clock) option"
  assumes alone: "wf m \<Longrightarrow> alone (count m)"
    and count_ge: "wf m \<Longrightarrow> -1 \<le> count m p"
    and pool_Valid: "wf m \<Longrightarrow> pool m p \<Longrightarrow> Valid p"
    and acquire_total: "wf m \<Longrightarrow> sz \<le> 32 \<Longrightarrow> \<exists>m' r c'. acquire sz e m c = Some (m', r, c')"
    and acquire_ok: "wf m \<Longrightarrow> sz \<le> 32 \<Longrightarrow> acquire sz e m c = Some (m', r, c') \<Longrightarrow>
      wf m' \<and> pool m' = pool m \<and>
      (case r of
         None \<Rightarrow> count m' = count m
       | Some p \<Rightarrow> pool m p \<and> int (Bits p) = sz \<and> grantable True p (count m) \<and>
           count m' = (count m)(p := if e then -1 else 1))"
    and acquireWith_ok: "wf m \<Longrightarrow> \<exists>m' r c'. acquireWith p e m c = Some (m', r, c') \<and>
      wf m' \<and> pool m' = pool m \<and>
      (if pool m p \<and> grantable e p (count m) then r = Some p \<and> count m' = grant e p (count m)
       else r = None \<and> count m' = count m)"
    and free_ok: "wf m \<Longrightarrow> \<exists>m' r c'. free p gp m c = Some (m', r, c') \<and>
      wf m' \<and> pool m' = pool m \<and>
      (case r of
         None \<Rightarrow> count m' = count m
       | Some q \<Rightarrow> q = p \<and> count m p \<noteq> 0 \<and> count m' = release p (count m))"
begin

lemma acquireWith_D:
  assumes "wf m" and "acquireWith p e m c = Some (m', r, c')"
  shows "wf m'" "pool m' = pool m"
    "r = Some p \<Longrightarrow> pool m p \<and> grantable e p (count m) \<and> count m' = grant e p (count m)"
    "r \<noteq> Some p \<Longrightarrow> r = None \<and> \<not> (pool m p \<and> grantable e p (count m)) \<and> count m' = count m"
  using acquireWith_ok [OF assms(1), of p e c] assms(2) by (auto split: if_splits)

lemma free_D:
  assumes "wf m" and "free p gp m c = Some (m', r, c')"
  shows "wf m'" "pool m' = pool m"
    "r = Some q \<Longrightarrow> q = p \<and> count m p \<noteq> 0 \<and> count m' = release p (count m)"
    "r = None \<Longrightarrow> count m' = count m"
  using free_ok [OF assms(1), of p gp c] assms(2) by auto

text \<open>While a network is exclusive, no overlapping network can be acquired in any way.\<close>

lemma exclusive_blocks:
  assumes w: "wf m" and x: "count m p = -1" and o: "Overlaps p q"
  shows "\<exists>m' c'. acquireWith q e m c = Some (m', None, c') \<and> count m' = count m"
proof -
  have "\<not> grantable e q (count m)" using x o by (auto simp: grantable_def)
  then show ?thesis using acquireWith_ok [OF w, of q e c] by auto
qed

lemma acquire_disjoint:
  assumes "wf m" and "sz \<le> 32" and "acquire sz e m c = Some (m', Some q, c')" and "count m p \<noteq> 0"
  shows "\<not> Overlaps p q"
  using acquire_ok [OF assms(1-3)] assms(4) by (auto simp: grantable_def)

text \<open>A release takes back the last acquisition of the network.\<close>

lemma release_grant:
  assumes w: "wf m" and p: "pool m p" "grantable e p (count m)"
  shows "release p (grant e p (count m)) = count m"
proof (cases e)
  case True
  then have "count m p = 0"
    using p pool_Valid [OF w p(1)] Overlaps_refl by (auto simp: grantable_def)
  then show ?thesis using True by (auto simp: release_def grant_def)
next
  case False
  then have "count m p \<noteq> -1"
    using p(2) Overlaps_refl [OF pool_Valid [OF w p(1)]] by (fastforce simp: grantable_def)
  then have "0 \<le> count m p" using count_ge [OF w, of p] by simp
  then show ?thesis using False by (auto simp: release_def grant_def)
qed

lemma acquireWith_free:
  assumes "wf m" and "acquireWith p e m c = Some (m1, Some p, c1)"
    and "free p gp m1 c2 = Some (m2, Some p, c3)"
  shows "count m2 = count m"
  using acquireWith_D [OF assms(1,2)] free_D [OF _ assms(3)] release_grant [OF assms(1)] by auto

lemma acquire_free:
  assumes "wf m" and "sz \<le> 32" and "acquire sz e m c = Some (m1, Some p, c1)"
    and "free p gp m1 c2 = Some (m2, Some p, c3)"
  shows "count m2 = count m"
proof -
  have a: "wf m1" "pool m p" "grantable True p (count m)" "count m1 = (count m)(p := if e then -1 else 1)"
    using acquire_ok [OF assms(1-3)] by auto
  then have "count m p = 0"
    using pool_Valid [OF assms(1)] Overlaps_refl by (auto simp: grantable_def)
  then show ?thesis using a free_D(3) [OF a(1) assms(4)] by (auto simp: release_def)
qed

end

lemma in_pool_Valid: "wf_ipam m \<Longrightarrow> in_pool m p \<Longrightarrow> Valid p"
  by (auto simp: in_pool_def inside_def)

lemma in_pool_pools: "pools m' = pools m \<Longrightarrow> in_pool m' = in_pool m"
  by (simp add: in_pool_def fun_eq_iff)

interpretation core: ipam_contract wf_ipam irefs in_pool NetworkAcquire NetworkAcquireWithPrefix
  NetworkRelease
proof unfold_locales
  fix m :: Ipam and p c e gp and sz :: int and m' r c'
  show "wf_ipam m \<Longrightarrow> alone (irefs m)" by (simp add: wf_ipam_def)
  show "wf_ipam m \<Longrightarrow> -1 \<le> irefs m p" by (rule irefs_ge)
  show "wf_ipam m \<Longrightarrow> in_pool m p \<Longrightarrow> Valid p" by (rule in_pool_Valid)
  show "wf_ipam m \<Longrightarrow> sz \<le> 32 \<Longrightarrow> \<exists>m' r c'. NetworkAcquire sz e m c = Some (m', r, c')"
    using NetworkAcquire_correct [of m sz e c] by blast
  show "wf_ipam m \<Longrightarrow> sz \<le> 32 \<Longrightarrow> NetworkAcquire sz e m c = Some (m', r, c') \<Longrightarrow>
      wf_ipam m' \<and> in_pool m' = in_pool m \<and>
      (case r of
         None \<Rightarrow> irefs m' = irefs m
       | Some p \<Rightarrow> in_pool m p \<and> int (Bits p) = sz \<and> grantable True p (irefs m) \<and>
           irefs m' = (irefs m)(p := if e then -1 else 1))"
    using NetworkAcquire_correct [of m sz e c] in_pool_pools [of m' m]
    by (auto simp: acquired_size_def split: option.splits)
  show "wf_ipam m \<Longrightarrow> \<exists>m' r c'. NetworkAcquireWithPrefix p e m c = Some (m', r, c') \<and>
      wf_ipam m' \<and> in_pool m' = in_pool m \<and>
      (if in_pool m p \<and> grantable e p (irefs m) then r = Some p \<and> irefs m' = grant e p (irefs m)
       else r = None \<and> irefs m' = irefs m)"
    using NetworkAcquireWithPrefix_correct [of m p e c] in_pool_pools [of _ m]
    unfolding acquired_prefix_def by blast
  show "wf_ipam m \<Longrightarrow> \<exists>m' r c'. NetworkRelease p gp m c = Some (m', r, c') \<and>
      wf_ipam m' \<and> in_pool m' = in_pool m \<and>
      (case r of
         None \<Rightarrow> irefs m' = irefs m
       | Some q \<Rightarrow> q = p \<and> irefs m p \<noteq> 0 \<and> irefs m' = release p (irefs m))"
    using NetworkRelease_state [of m p gp c] in_pool_pools [of _ m]
    unfolding released_prefix_def by blast
qed

end
