(* ===== verification/NetipText6.thy ===== *)
theory NetipText6
  imports NetipText
begin

text \<open>
  \<open>netip.ParseAddr\<close> and \<open>netip.ParsePrefix\<close> on any text: the IPv6 parser of the Go library beside the
  IPv4 one of \<open>NetipText\<close>. Addresses with a zone are not modelled: the text of one is refused.
\<close>

section \<open>IPv6 text\<close>

definition hex_val :: "char \<Rightarrow> nat option" where
  "hex_val c =
     (let n = (of_char c :: nat) in
      if 48 \<le> n \<and> n \<le> 57 then Some (n - 48)
      else if 97 \<le> n \<and> n \<le> 102 then Some (n - 87)
      else if 65 \<le> n \<and> n \<le> 70 then Some (n - 55)
      else None)"

definition is_hex :: "char \<Rightarrow> bool" where
  "is_hex c \<longleftrightarrow> hex_val c \<noteq> None"

definition hex_num :: "string \<Rightarrow> nat" where
  "hex_num s = foldl (\<lambda>v c. 16 * v + (case hex_val c of None \<Rightarrow> 0 | Some d \<Rightarrow> d)) 0 s"

text \<open>
  The loop of \<open>parseIPv6\<close> over the groups of 16 bits, with the groups still allowed, the groups read
  so far and the position of \<open>::\<close>.
\<close>

fun parse6_loop :: "nat \<Rightarrow> string \<Rightarrow> nat list \<Rightarrow> nat option \<Rightarrow> (nat list \<times> nat option) option" where
  "parse6_loop 0 s gs e = (if s = [] then Some (gs, e) else None)"
| "parse6_loop (Suc k) s gs e =
     (let run = takeWhile is_hex s; rest = dropWhile is_hex s in
      if 4 < length run \<or> run = [] then None
      else case rest of
          [] \<Rightarrow> Some (gs @ [hex_num run], e)
        | c # s' \<Rightarrow>
            if c = CHR ''.'' then
              (if e = None \<and> length gs \<noteq> 6 \<or> 8 < length gs + 2 then None
               else case ParseAddr4 s of
                   Some (V4 w) \<Rightarrow> Some (gs @ [unat w div 65536, unat w mod 65536], e)
                 | _ \<Rightarrow> None)
            else if c \<noteq> CHR '':'' then None
            else
              (let gs = gs @ [hex_num run] in
               case s' of
                 [] \<Rightarrow> None
               | c' # s'' \<Rightarrow>
                   if c' = CHR '':'' then
                     (if e \<noteq> None then None
                      else if s'' = [] then Some (gs, Some (length gs))
                      else parse6_loop k s'' gs (Some (length gs)))
                   else parse6_loop k s' gs e))"

definition v6_of_groups :: "nat list \<Rightarrow> addr" where
  "v6_of_groups gs = V6 (word_of_nat (foldl (\<lambda>v g. 65536 * v + g) 0 gs))"

definition expand6 :: "nat list \<times> nat option \<Rightarrow> addr option" where
  "expand6 r =
     (case r of (gs, e) \<Rightarrow>
        if length gs < 8 then
          (case e of
             None \<Rightarrow> None
           | Some k \<Rightarrow> Some (v6_of_groups (take k gs @ replicate (8 - length gs) 0 @ drop k gs)))
        else if e \<noteq> None then None
        else Some (v6_of_groups gs))"

definition ParseAddr6 :: "string \<Rightarrow> addr option" where
  "ParseAddr6 s =
     (if take 2 s = ''::'' then
        (if drop 2 s = [] then Some (V6 0)
         else Option.bind (parse6_loop 8 (drop 2 s) [] (Some 0)) expand6)
      else Option.bind (parse6_loop 8 s [] None) expand6)"

section \<open>Both families\<close>

definition ParseAddr :: "string \<Rightarrow> addr option" where
  "ParseAddr s =
     (case find (\<lambda>c. c = CHR ''.'' \<or> c = CHR '':'' \<or> c = CHR ''%'') s of
        Some c \<Rightarrow>
          if c = CHR ''.'' then ParseAddr4 s
          else if c = CHR '':'' then ParseAddr6 s
          else None
      | None \<Rightarrow> None)"

definition ParsePrefix :: "string \<Rightarrow> prefix option" where
  "ParsePrefix s =
     (case splitOn (CHR ''/'') s of
        [a, b] \<Rightarrow>
          (case ParseAddr a of
             None \<Rightarrow> None
           | Some ip \<Rightarrow> map_option (Prefix ip) (parseBits b (BitLen ip)))
      | _ \<Rightarrow> None)"

lemma ParseAddr4_V4: "ParseAddr4 s = Some a \<Longrightarrow> \<exists>w. a = V4 w"
  by (auto simp: ParseAddr4_def v4_of_octets_def split: list.splits option.splits)

lemma ParseAddr_IsValid: "ParseAddr s = Some a \<Longrightarrow> IsValid a"
  by (auto simp: ParseAddr_def ParseAddr6_def expand6_def v6_of_groups_def dest: ParseAddr4_V4
      split: option.splits if_splits Option.bind_splits)

text \<open>A parsed prefix is valid.\<close>

lemma ParsePrefix_Valid: "ParsePrefix s = Some p \<Longrightarrow> Valid p"
  using ParseAddr_IsValid
  by (auto simp: ParsePrefix_def Valid_def parseBits_def split: list.splits option.splits if_splits)

text \<open>The text of an IPv4 address has digits and dots only.\<close>

lemma ParseAddr4_chars:
  assumes "ParseAddr4 s = Some a"
  shows "set s \<subseteq> insert (CHR ''.'') (Collect is_digit)"
proof -
  have "\<forall>t \<in> set (splitOn (CHR ''.'') s). list_all is_digit t"
    using assms by (auto simp: ParseAddr4_def parseOctet_def split: list.splits option.splits if_splits)
  then show ?thesis using splitOn_chars [of s "CHR ''.''"] by (fastforce simp: list_all_iff)
qed

lemma ParseAddr_V4_chars:
  assumes "ParseAddr v = Some (V4 w)"
  shows "set v \<subseteq> insert (CHR ''.'') (Collect is_digit)"
proof -
  have "ParseAddr6 v \<noteq> Some (V4 w)"
    by (auto simp: ParseAddr6_def expand6_def v6_of_groups_def bind_eq_Some_conv split: if_splits option.splits)
  then have "ParseAddr4 v = Some (V4 w)"
    using assms by (auto simp: ParseAddr_def split: option.splits if_splits)
  then show ?thesis by (rule ParseAddr4_chars)
qed

lemma digit_char_0: "digit_char 0 = CHR ''0''"
proof -
  have "char_of (of_char (CHR ''0'') :: nat) = CHR ''0''" by (rule char_of_char)
  then show ?thesis by (simp add: digit_char_def)
qed

text \<open>Rules that evaluate the parser on IPv4 text.\<close>

lemmas parse_eval = ParsePrefix_def ParseAddr_def ParseAddr4_def parseOctet_def is_digit_def
  digit_char_0 dec_val_def digit_val_def v4_of_octets_def parseBits_def

lemma ParsePrefix_example: "ParsePrefix ''10.0.0.0/8'' = Some (Prefix (V4 0xA000000) 8)"
  by (simp add: parse_eval)

end
