(* ===== verification/IpamServer.thy ===== *)
theory IpamServer
  imports IpamCoreIPs NetipText6
begin

text \<open>
  \<open>pkg/ipam/ipam.go\<close>, \<open>ips.go\<close> and \<open>networks.go\<close>: the gRPC server around the IPAM core. The mutex makes
  every handler one atomic step from a server state to the next. A request carries the text of its
  CIDR or address; a response carries the prefix or address whose \<open>String()\<close> is sent. The clock and
  what the file system answers to the Graphviz dump (\<open>io\<close>) are arguments. \<open>None\<close> is a panic.
\<close>

section \<open>State and errors\<close>

record ServerOptions =
  Pools :: "string list"
  Port :: int
  SyncInterval :: duration
  SyncGracePeriod :: duration
  GraphvizEnabled :: bool

record LiqoIPAM =
  IpamCore :: Ipam
  opts :: ServerOptions

datatype ipam_error =
    ParseFailed string
  | NotInPool prefix
  | Core core_error
  | AcquireFailed prefix
  | ReserveFailed prefix
  | ReserveAddrFailed addr prefix
  | InsufficientSize prefix nat
  | ListFailed string
  | Joined ipam_error "ipam_error option"

type_synonym io = "node \<Rightarrow> string option"

text \<open>The value of \<open>lipam.IpamCore.ToGraphviz()\<close> at the end of a method, nil when it is disabled.\<close>

definition graphviz :: "io \<Rightarrow> LiqoIPAM \<Rightarrow> ipam_error option" where
  "graphviz io l =
     (if GraphvizEnabled (opts l) then map_option Core (ToGraphviz io (IpamCore l)) else None)"

definition finish :: "io \<Rightarrow> 'a \<Rightarrow> LiqoIPAM \<Rightarrow> ipam_error + 'a" where
  "finish io r l = (case graphviz io l of None \<Rightarrow> Inr r | Some e \<Rightarrow> Inl e)"

section \<open>Addresses\<close>

definition lipam_ipAcquire ::
  "io \<Rightarrow> prefix \<Rightarrow> LiqoIPAM \<Rightarrow> clock \<Rightarrow> LiqoIPAM \<times> (ipam_error + addr) \<times> clock" where
  "lipam_ipAcquire io p l c =
     (case IpamCore.IPAcquire p (IpamCore l) c of
        (m, Inl e, c) \<Rightarrow> (l\<lparr>IpamCore := m\<rparr>, Inl (Core e), c)
      | (m, Inr None, c) \<Rightarrow> (l\<lparr>IpamCore := m\<rparr>, Inl (ReserveFailed p), c)
      | (m, Inr (Some a), c) \<Rightarrow> (let l = l\<lparr>IpamCore := m\<rparr> in (l, finish io a l, c)))"

definition ipAcquireWithAddr ::
  "io \<Rightarrow> addr \<Rightarrow> prefix \<Rightarrow> LiqoIPAM \<Rightarrow> clock \<Rightarrow> LiqoIPAM \<times> ipam_error option \<times> clock" where
  "ipAcquireWithAddr io a p l c =
     (case IPAcquireWithAddr p a (IpamCore l) c of
        (m, Inl e, c) \<Rightarrow> (l\<lparr>IpamCore := m\<rparr>, Some (Core e), c)
      | (m, Inr None, c) \<Rightarrow> (l\<lparr>IpamCore := m\<rparr>, Some (ReserveAddrFailed a p), c)
      | (m, Inr (Some _), c) \<Rightarrow> (let l = l\<lparr>IpamCore := m\<rparr> in (l, graphviz io l, c)))"

definition lipam_ipRelease ::
  "io \<Rightarrow> addr \<Rightarrow> prefix \<Rightarrow> duration \<Rightarrow> LiqoIPAM \<Rightarrow> clock \<Rightarrow> LiqoIPAM \<times> ipam_error option \<times> clock" where
  "lipam_ipRelease io a p gracePeriod l c =
     (case IpamCore.IPRelease p a gracePeriod (IpamCore l) c of
        (m, Inl e, c) \<Rightarrow> (l\<lparr>IpamCore := m\<rparr>, Some (Core e), c)
      | (m, Inr None, c) \<Rightarrow> (l\<lparr>IpamCore := m\<rparr>, None, c)
      | (m, Inr (Some _), c) \<Rightarrow> (let l = l\<lparr>IpamCore := m\<rparr> in (l, graphviz io l, c)))"

definition ipIsAvailable :: "addr \<Rightarrow> prefix \<Rightarrow> LiqoIPAM \<Rightarrow> ipam_error + bool" where
  "ipIsAvailable a p l =
     (case IPIsAllocated p a (IpamCore l) of Inl e \<Rightarrow> Inl (Core e) | Inr b \<Rightarrow> Inr (\<not> b))"

section \<open>Networks\<close>

definition networkAcquire ::
  "io \<Rightarrow> prefix \<Rightarrow> LiqoIPAM \<Rightarrow> clock \<Rightarrow> (LiqoIPAM \<times> (ipam_error + prefix) \<times> clock) option" where
  "networkAcquire io p l c =
     (case NetworkAcquireWithPrefix p True (IpamCore l) c of
        None \<Rightarrow> None
      | Some (m, Some q, c) \<Rightarrow> (let l = l\<lparr>IpamCore := m\<rparr> in Some (l, finish io q l, c))
      | Some (m, None, c) \<Rightarrow>
          (case IpamCore.NetworkAcquire (int (Bits p)) True m c of
             None \<Rightarrow> None
           | Some (m, Some q, c) \<Rightarrow> (let l = l\<lparr>IpamCore := m\<rparr> in Some (l, finish io q l, c))
           | Some (m, None, c) \<Rightarrow> Some (l\<lparr>IpamCore := m\<rparr>, Inl (AcquireFailed p), c)))"

definition networkAcquireSpecific ::
  "io \<Rightarrow> prefix \<Rightarrow> bool \<Rightarrow> LiqoIPAM \<Rightarrow> clock \<Rightarrow> (LiqoIPAM \<times> (ipam_error + prefix) \<times> clock) option" where
  "networkAcquireSpecific io p exclusive l c =
     (case NetworkAcquireWithPrefix p exclusive (IpamCore l) c of
        None \<Rightarrow> None
      | Some (m, Some q, c) \<Rightarrow> (let l = l\<lparr>IpamCore := m\<rparr> in Some (l, finish io q l, c))
      | Some (m, None, c) \<Rightarrow> Some (l\<lparr>IpamCore := m\<rparr>, Inl (AcquireFailed p), c))"

text \<open>\<open>pkg/utils/ipam/ips.go\<close>: the first addresses from the address of a prefix on.\<close>

fun first_addrs :: "addr \<Rightarrow> nat \<Rightarrow> addr list" where
  "first_addrs a 0 = []"
| "first_addrs a (Suc k) = a # first_addrs (Next a) k"

definition FirstNIPsFromPrefix :: "prefix \<Rightarrow> nat \<Rightarrow> addr list" where
  "FirstNIPsFromPrefix p num = first_addrs (Addr p) num"

fun preallocate_loop ::
  "io \<Rightarrow> prefix \<Rightarrow> addr list \<Rightarrow> LiqoIPAM \<Rightarrow> clock \<Rightarrow> LiqoIPAM \<times> ipam_error option \<times> clock" where
  "preallocate_loop io p [] l c = (l, None, c)"
| "preallocate_loop io p (a # as) l c =
     (case ipIsAvailable a p l of
        Inl e \<Rightarrow> (l, Some e, c)
      | Inr available \<Rightarrow>
          if available then
            (case ipAcquireWithAddr io a p l c of
               (l, Some e, c) \<Rightarrow> (l, Some e, c)
             | (l, None, c) \<Rightarrow> preallocate_loop io p as l c)
          else preallocate_loop io p as l c)"

definition acquirePreallocatedIPs ::
  "io \<Rightarrow> prefix \<Rightarrow> nat \<Rightarrow> LiqoIPAM \<Rightarrow> clock \<Rightarrow> LiqoIPAM \<times> ipam_error option \<times> clock" where
  "acquirePreallocatedIPs io p preallocated l c =
     (if Bits p < preallocated then (l, Some (InsufficientSize p preallocated), c)
      else preallocate_loop io p (FirstNIPsFromPrefix p preallocated) l c)"

definition lipam_networkRelease ::
  "io \<Rightarrow> prefix \<Rightarrow> duration \<Rightarrow> LiqoIPAM \<Rightarrow> clock \<Rightarrow> (LiqoIPAM \<times> ipam_error option \<times> clock) option" where
  "lipam_networkRelease io p gracePeriod l c =
     (case IpamCore.NetworkRelease p gracePeriod (IpamCore l) c of
        None \<Rightarrow> None
      | Some (m, None, c) \<Rightarrow> Some (l\<lparr>IpamCore := m\<rparr>, None, c)
      | Some (m, Some _, c) \<Rightarrow> (let l = l\<lparr>IpamCore := m\<rparr> in Some (l, graphviz io l, c)))"

definition lipam_networkIsAvailable :: "prefix \<Rightarrow> LiqoIPAM \<Rightarrow> bool" where
  "lipam_networkIsAvailable p l = IpamCore.NetworkIsAvailable p (IpamCore l)"

definition isInPool :: "prefix \<Rightarrow> LiqoIPAM \<Rightarrow> bool" where
  "isInPool p l = IsPrefixInRoots p (IpamCore l)"

section \<open>The handlers\<close>

record NetworkAcquireRequest =
  Cidr :: string
  Immutable :: bool
  Exclusive :: bool
  PreAllocated :: nat

definition handle_IPAcquire ::
  "io \<Rightarrow> string \<Rightarrow> LiqoIPAM \<Rightarrow> clock \<Rightarrow> LiqoIPAM \<times> (ipam_error + addr) \<times> clock" where
  "handle_IPAcquire io cidr l c =
     (case ParsePrefix cidr of
        None \<Rightarrow> (l, Inl (ParseFailed cidr), c)
      | Some p \<Rightarrow>
          if \<not> isInPool p l then (l, Inl (NotInPool p), c) else lipam_ipAcquire io p l c)"

definition handle_IPRelease ::
  "io \<Rightarrow> string \<Rightarrow> string \<Rightarrow> LiqoIPAM \<Rightarrow> clock \<Rightarrow> LiqoIPAM \<times> ipam_error option \<times> clock" where
  "handle_IPRelease io ip cidr l c =
     (case ParseAddr ip of
        None \<Rightarrow> (l, Some (ParseFailed ip), c)
      | Some a \<Rightarrow>
          (case ParsePrefix cidr of
             None \<Rightarrow> (l, Some (ParseFailed cidr), c)
           | Some p \<Rightarrow> lipam_ipRelease io a p 0 l c))"

definition handle_NetworkAcquire ::
  "io \<Rightarrow> NetworkAcquireRequest \<Rightarrow> LiqoIPAM \<Rightarrow> clock \<Rightarrow>
   (LiqoIPAM \<times> (ipam_error + prefix) \<times> clock) option" where
  "handle_NetworkAcquire io req l c =
     (case ParsePrefix (Cidr req) of
        None \<Rightarrow> Some (l, Inl (ParseFailed (Cidr req)), c)
      | Some p \<Rightarrow>
          if \<not> isInPool p l \<and> Immutable req \<and> \<not> Exclusive req then Some (l, Inr p, c)
          else if \<not> isInPool p l \<and> Immutable req then Some (l, Inl (NotInPool p), c)
          else
            (case (if Immutable req then networkAcquireSpecific io p (Exclusive req) l c
                   else networkAcquire io p l c) of
               None \<Rightarrow> None
             | Some (l, Inl e, c) \<Rightarrow> Some (l, Inl e, c)
             | Some (l, Inr remapped, c) \<Rightarrow>
                 (case acquirePreallocatedIPs io remapped (PreAllocated req) l c of
                    (l, None, c) \<Rightarrow> Some (l, Inr remapped, c)
                  | (l, Some e, c) \<Rightarrow>
                      (case lipam_networkRelease io remapped 0 l c of
                         None \<Rightarrow> None
                       | Some (l, e', c) \<Rightarrow> Some (l, Inl (Joined e e'), c)))))"

definition handle_NetworkRelease ::
  "io \<Rightarrow> string \<Rightarrow> LiqoIPAM \<Rightarrow> clock \<Rightarrow> (LiqoIPAM \<times> ipam_error option \<times> clock) option" where
  "handle_NetworkRelease io cidr l c =
     (case ParsePrefix cidr of
        None \<Rightarrow> Some (l, Some (ParseFailed cidr), c)
      | Some p \<Rightarrow> lipam_networkRelease io p 0 l c)"

definition handle_NetworkIsAvailable :: "string \<Rightarrow> LiqoIPAM \<Rightarrow> ipam_error + bool" where
  "handle_NetworkIsAvailable cidr l =
     (case ParsePrefix cidr of
        None \<Rightarrow> Inl (ParseFailed cidr)
      | Some p \<Rightarrow> if \<not> isInPool p l then Inr False else Inr (lipam_networkIsAvailable p l))"

end
