(* ===== verification/GoMap.thy ===== *)
theory GoMap
  imports Prelude "HOL-Library.AList"
begin

text \<open>
  Go maps as association lists. The order of a list stands for the order in which one \<open>range\<close>
  loop visits the map, which Go leaves open: a theorem about all lists is a theorem about all
  orders. A map proper has distinct keys (\<open>wf_map\<close>). Reading a key that is absent from a map of
  numbers gives the zero value (\<open>get0\<close>).
\<close>

type_synonym ('k, 'v) gomap = "('k \<times> 'v) list"

definition wf_map :: "('k, 'v) gomap \<Rightarrow> bool" where
  "wf_map m \<longleftrightarrow> distinct (map fst m)"

definition has_key :: "'k \<Rightarrow> ('k, 'v) gomap \<Rightarrow> bool" where
  "has_key k m \<longleftrightarrow> k \<in> fst ` set m"

definition get0 :: "('k, 'v::zero) gomap \<Rightarrow> 'k \<Rightarrow> 'v" where
  "get0 m k = (case map_of m k of None \<Rightarrow> 0 | Some v \<Rightarrow> v)"

abbreviation put :: "'k \<Rightarrow> 'v \<Rightarrow> ('k, 'v) gomap \<Rightarrow> ('k, 'v) gomap" where
  "put \<equiv> AList.update"

abbreviation del :: "'k \<Rightarrow> ('k, 'v) gomap \<Rightarrow> ('k, 'v) gomap" where
  "del \<equiv> AList.delete"

named_theorems gomap \<open>lookup after the map operations\<close>

lemma has_key_iff: "has_key k m \<longleftrightarrow> map_of m k \<noteq> None"
  by (simp add: has_key_def map_of_eq_None_iff)

lemma has_key_Cons: "has_key k (kv # m) \<longleftrightarrow> k = fst kv \<or> has_key k m"
  by (auto simp: has_key_def)

lemma has_key_Nil [simp]: "\<not> has_key k []"
  by (simp add: has_key_def)

lemma wf_map_Nil [simp]: "wf_map []"
  by (simp add: wf_map_def)

lemma wf_map_put [simp]: "wf_map m \<Longrightarrow> wf_map (put k v m)"
  by (simp add: wf_map_def distinct_update)

lemma wf_map_del [simp]: "wf_map m \<Longrightarrow> wf_map (del k m)"
  by (simp add: wf_map_def distinct_delete)

lemma wf_map_filter [simp]: "wf_map m \<Longrightarrow> wf_map (filter P m)"
  by (simp add: wf_map_def distinct_map_filter)

lemma map_of_put [gomap]: "map_of (put k v m) k' = (if k' = k then Some v else map_of m k')"
  by (simp add: update_conv')

lemma map_of_del [gomap]: "map_of (del k m) k' = (if k' = k then None else map_of m k')"
  by (simp add: delete_conv')

lemma has_key_put [gomap]: "has_key k' (put k v m) \<longleftrightarrow> k' = k \<or> has_key k' m"
  by (simp add: has_key_iff map_of_put)

lemma has_key_del [gomap]: "has_key k' (del k m) \<longleftrightarrow> k' \<noteq> k \<and> has_key k' m"
  by (simp add: has_key_iff map_of_del)

lemma get0_put [gomap]: "get0 (put k v m) k' = (if k' = k then v else get0 m k')"
  by (simp add: get0_def map_of_put)

lemma get0_Nil [simp]: "get0 [] k = 0"
  by (simp add: get0_def)

lemma get0_Cons: "get0 ((a, v) # m) k = (if k = a then v else get0 m k)"
  by (simp add: get0_def)

lemma get0_absent: "\<not> has_key k m \<Longrightarrow> get0 m k = 0"
  by (simp add: get0_def has_key_iff)

lemma wf_map_Cons [simp]: "wf_map (kv # m) \<longleftrightarrow> \<not> has_key (fst kv) m \<and> wf_map m"
  by (simp add: wf_map_def has_key_def)

lemma wf_map_mem: "wf_map m \<Longrightarrow> (k, v) \<in> set m \<longleftrightarrow> map_of m k = Some v"
  by (simp add: wf_map_def)

lemma all_entries:
  "wf_map m \<Longrightarrow> (\<forall>(k, v) \<in> set m. P k v) \<longleftrightarrow> (\<forall>k. has_key k m \<longrightarrow> P k (get0 m k))"
  by (fastforce simp: wf_map_mem has_key_iff get0_def split: option.splits)

lemma wf_map_values: "wf_map m \<Longrightarrow> map_of m k = Some v \<Longrightarrow> (k, v) \<in> set m"
  by (rule map_of_SomeD)

text \<open>Two maps with distinct keys and the same lookups hold the same entries.\<close>

lemma wf_map_mset:
  assumes "wf_map m" and "wf_map m'" and "map_of m = map_of m'"
  shows "set m = set m'"
  using assms unfolding wf_map_def by (metis map_of_eqI map_of_inject_set)

text \<open>Summing over the values of a map after one key has changed.\<close>

definition sum_values :: "('v \<Rightarrow> int) \<Rightarrow> ('k, 'v) gomap \<Rightarrow> int" where
  "sum_values f m = sum_list (map (f \<circ> snd) m)"

lemma sum_values_put:
  assumes "wf_map m"
  shows "sum_values f (put k v m) =
    sum_values f m + f v - (case map_of m k of None \<Rightarrow> 0 | Some w \<Rightarrow> f w)"
  using assms by (induction m) (auto simp: sum_values_def has_key_iff split: option.splits)

lemma sum_values_del:
  assumes "wf_map m"
  shows "sum_values f (del k m) =
    sum_values f m - (case map_of m k of None \<Rightarrow> 0 | Some w \<Rightarrow> f w)"
  using assms
proof (induction m)
  case (Cons kv m)
  obtain a w where kv: "kv = (a, w)" by force
  have "del k m = m" if "k = a"
    using Cons.prems that kv by (simp add: has_key_def AList.delete_id)
  with Cons kv show ?case by (auto simp: sum_values_def split: option.splits)
qed (simp add: sum_values_def)

section \<open>Two maps that are inverse to each other\<close>

definition inverse_maps :: "('k, 'v) gomap \<Rightarrow> ('v, 'k) gomap \<Rightarrow> bool" where
  "inverse_maps f g \<longleftrightarrow> (\<forall>k v. map_of f k = Some v \<longleftrightarrow> map_of g v = Some k)"

lemma inverse_mapsD: "inverse_maps f g \<Longrightarrow> map_of f k = Some v \<longleftrightarrow> map_of g v = Some k"
  by (simp add: inverse_maps_def)

lemma inverse_maps_Nil [simp]: "inverse_maps [] []"
  by (simp add: inverse_maps_def)

lemma inverse_maps_put:
  assumes "inverse_maps f g" and "\<not> has_key k f" and "\<not> has_key v g"
  shows "inverse_maps (put k v f) (put v k g)"
  unfolding inverse_maps_def
proof (intro allI)
  fix n j
  show "map_of (put k v f) n = Some j \<longleftrightarrow> map_of (put v k g) j = Some n"
    using assms inverse_mapsD [OF assms(1), of n j] inverse_mapsD [OF assms(1), of n v]
      inverse_mapsD [OF assms(1), of k j]
    by (auto simp: map_of_put has_key_iff)
qed

lemma inverse_maps_del:
  assumes "inverse_maps f g" and "map_of f k = Some v"
  shows "inverse_maps (del k f) (del v g)"
  unfolding inverse_maps_def
proof (intro allI)
  fix n j
  show "map_of (del k f) n = Some j \<longleftrightarrow> map_of (del v g) j = Some n"
    using assms inverse_mapsD [OF assms(1), of n j] inverse_mapsD [OF assms(1), of n v]
      inverse_mapsD [OF assms(1), of k j] inverse_mapsD [OF assms(1), of k v]
    by (auto simp: map_of_del)
qed

lemma inverse_maps_inj: "inverse_maps f g \<Longrightarrow> map_of f k = Some v \<Longrightarrow> map_of f k' = Some v \<Longrightarrow> k = k'"
  by (metis inverse_mapsD option.inject)

text \<open>Two maps are equal when they give the same values, whatever the orders.\<close>

definition same_map :: "('k, 'v) gomap \<Rightarrow> ('k, 'v) gomap \<Rightarrow> bool" where
  "same_map m n \<longleftrightarrow> list_all (\<lambda>k. map_of m k = map_of n k) (map fst m @ map fst n)"

lemma same_map_iff: "same_map m n \<longleftrightarrow> map_of m = map_of n"
proof
  assume s: "same_map m n"
  show "map_of m = map_of n"
  proof
    fix k
    show "map_of m k = map_of n k"
    proof (cases "k \<in> fst ` set m \<union> fst ` set n")
      case True
      then show ?thesis using s by (auto simp: same_map_def list_all_iff)
    next
      case False
      then show ?thesis by (simp add: map_of_eq_None_iff [THEN iffD2])
    qed
  qed
qed (simp add: same_map_def list_all_iff)

end
