(* ===== verification/GoNet.thy ===== *)
theory GoNet
  imports NetipText6
begin

text \<open>
  Results of Go functions that may panic or return an error, and the parts of \<open>net\<close>, \<open>strconv\<close>,
  \<open>strings\<close> and \<open>encoding/binary\<close> that the firewall code uses. Text is ASCII.
\<close>

section \<open>Results\<close>

datatype ('e, 'a) res = Panic | Err 'e | Ok 'a

fun res_bind :: "('e, 'a) res \<Rightarrow> ('a \<Rightarrow> ('e, 'b) res) \<Rightarrow> ('e, 'b) res" where
  "res_bind Panic f = Panic"
| "res_bind (Err e) f = Err e"
| "res_bind (Ok x) f = f x"

definition deref :: "'a option \<Rightarrow> ('e, 'a) res" where
  "deref p = (case p of None \<Rightarrow> Panic | Some x \<Rightarrow> Ok x)"

lemma res_bind_Ok: "res_bind r f = Ok y \<longleftrightarrow> (\<exists>x. r = Ok x \<and> f x = Ok y)"
  by (cases r) auto

lemma res_bind_Ok_id [simp]: "res_bind r Ok = r"
  by (cases r) auto

lemma res_bind_Panic: "res_bind r f = Panic \<longleftrightarrow> r = Panic \<or> (\<exists>x. r = Ok x \<and> f x = Panic)"
  by (cases r) auto

lemma deref_simps [simp]: "deref (Some x) = Ok x" "deref None = Panic"
  by (simp_all add: deref_def)

lemma deref_Ok [simp]: "deref p = Ok x \<longleftrightarrow> p = Some x"
  by (cases p) auto

section \<open>Numbers in text\<close>

text \<open>\<open>strconv.ParseUint(s, 10, bits)\<close> and \<open>strconv.Atoi\<close>.\<close>

definition ParseUint :: "string \<Rightarrow> nat \<Rightarrow> nat option" where
  "ParseUint s bits =
     (if s = [] \<or> \<not> list_all is_digit s \<or> 2 ^ bits \<le> dec_val s then None else Some (dec_val s))"

definition Atoi :: "string \<Rightarrow> int option" where
  "Atoi s =
     (let (neg, t) = (case s of c # u \<Rightarrow>
            if c = CHR ''-'' then (True, u) else if c = CHR ''+'' then (False, u) else (False, s)
          | [] \<Rightarrow> (False, s))
      in if t = [] \<or> \<not> list_all is_digit t then None
         else (let n = (if neg then - int (dec_val t) else int (dec_val t))
               in if - (2 ^ 63) \<le> n \<and> n < 2 ^ 63 then Some n else None))"

definition is_space :: "char \<Rightarrow> bool" where
  "is_space c \<longleftrightarrow> c = CHR '' '' \<or> (9 \<le> (of_char c :: nat) \<and> (of_char c :: nat) \<le> 13)"

definition TrimSpace :: "string \<Rightarrow> string" where
  "TrimSpace s = rev (dropWhile is_space (rev (dropWhile is_space s)))"

section \<open>Bytes\<close>

type_synonym bytes = "8 word list"

text \<open>The big-endian bytes of a word, as many as asked for.\<close>

fun be_bytes :: "nat \<Rightarrow> 'a::len word \<Rightarrow> bytes" where
  "be_bytes 0 w = []"
| "be_bytes (Suc n) w = ucast (drop_bit (8 * n) w) # be_bytes n w"

definition be_val :: "bytes \<Rightarrow> nat" where
  "be_val bs = foldl (\<lambda>v b. 256 * v + unat b) 0 bs"

lemma length_be_bytes [simp]: "length (be_bytes n w) = n"
  by (induction n) auto

lemma be_val_append: "foldl (\<lambda>v b. 256 * v + unat b) (x::nat) bs = x * 256 ^ length bs + be_val bs"
proof (induction bs arbitrary: x)
  case (Cons b bs)
  show ?case unfolding be_val_def using Cons [of "256 * x + unat b"] Cons [of "unat b"]
    by (simp add: be_val_def algebra_simps)
qed (simp add: be_val_def)

lemma be_val_Cons: "be_val (b # bs) = unat b * 256 ^ length bs + be_val bs"
  using be_val_append [of "unat b" bs] by (simp add: be_val_def)

lemma be_val_be_bytes:
  fixes w :: "'a::len word"
  shows "be_val (be_bytes n w) = unat w mod 256 ^ n"
proof (induction n)
  case (Suc n)
  have p: "(256::nat) ^ n = 2 ^ (8 * n)" by (simp add: power_mult)
  have "unat (ucast (drop_bit (8 * n) w) :: 8 word) = unat w div 256 ^ n mod 256"
    unfolding unsigned_ucast_eq p by (simp add: unat_drop_bit take_bit_eq_mod)
  then show ?case using Suc mod_mult2_eq [of "unat w" "256 ^ n" 256]
    by (simp add: be_val_Cons mult.commute)
qed (simp add: be_val_def)

lemma be_bytes_inject:
  fixes v w :: "'a::len word"
  assumes "be_bytes n v = be_bytes n w" and "LENGTH('a) \<le> 8 * n"
  shows "v = w"
proof -
  have "unat x < 256 ^ n" for x :: "'a word"
  proof -
    have "unat x < 2 ^ LENGTH('a)" by (rule unsigned_less)
    also have "(2::nat) ^ LENGTH('a) \<le> 2 ^ (8 * n)" using assms(2) by (intro power_increasing) simp_all
    finally show ?thesis by (simp add: power_mult)
  qed
  then show ?thesis
    using be_val_be_bytes [of n v] be_val_be_bytes [of n w] assms(1) by (simp add: word_unat_eq_iff)
qed

lemma map2_and_be_bytes: "map2 (AND) (be_bytes n a) (be_bytes n b) = be_bytes n (a AND b)"
proof (induction n)
  case (Suc n)
  have "ucast (drop_bit (8 * n) a) AND ucast (drop_bit (8 * n) b) = (ucast (drop_bit (8 * n) (a AND b)) :: 8 word)"
    by (rule bit_word_eqI) (auto simp: bit_simps)
  with Suc show ?case by simp
qed simp

lemma be_val_bound: "be_val bs < 256 ^ length bs"
proof (induction bs)
  case (Cons b bs)
  have "unat b < 256" using unsigned_less [of b] by simp
  then have "unat b * 256 ^ length bs + be_val bs < (unat b + 1) * 256 ^ length bs" using Cons by simp
  also have "\<dots> \<le> 256 * 256 ^ length bs" using \<open>unat b < 256\<close> by (intro mult_le_mono1) simp
  finally show ?case by (simp add: be_val_Cons)
qed (simp add: be_val_def)

lemma be_val_inject: "length as = length bs \<Longrightarrow> be_val as = be_val bs \<Longrightarrow> as = bs"
proof (induction as arbitrary: bs)
  case (Cons a as)
  then obtain b bs' where b: "bs = b # bs'" "length as = length bs'" by (cases bs) auto
  have e: "be_val as + unat a * 256 ^ length as = be_val bs' + unat b * 256 ^ length as"
    using Cons.prems b by (simp add: be_val_Cons)
  have l: "be_val as < 256 ^ length as" "be_val bs' < 256 ^ length as"
    using be_val_bound [of as] be_val_bound [of bs'] b(2) by simp_all
  have "be_val as = be_val bs'" using arg_cong [OF e, of "\<lambda>x. x mod 256 ^ length as"] l by simp
  moreover have "unat a = unat b" using arg_cong [OF e, of "\<lambda>x. x div 256 ^ length as"] l by simp
  ultimately show ?case using Cons.IH [OF b(2)] b(1) by (simp add: word_unat_eq_iff)
qed simp

text \<open>The bytes of a slice are those of a word.\<close>

lemma be_bytes_be_val:
  assumes "length bs = n" and "8 * n \<le> LENGTH('a::len)"
  shows "be_bytes n (word_of_nat (be_val bs) :: 'a word) = bs"
proof (rule be_val_inject)
  have "be_val bs < 2 ^ (8 * n)" using be_val_bound [of bs] assms(1) by (simp add: power_mult)
  also have "(2::nat) ^ (8 * n) \<le> 2 ^ LENGTH('a)" using assms(2) by (intro power_increasing) simp_all
  finally have "unat (word_of_nat (be_val bs) :: 'a word) = be_val bs" by (simp add: unat_of_nat)
  then show "be_val (be_bytes n (word_of_nat (be_val bs) :: 'a word)) = be_val bs"
    using be_val_bound [of bs] assms(1) by (simp add: be_val_be_bytes)
qed (simp add: assms(1))

section \<open>net.IP and net.IPNet\<close>

text \<open>
  The 16 bytes of a \<open>net.IP\<close> that \<open>ParseIP\<close> returns are a 128-bit word; an IPv4 address is in its
  IPv6-mapped form.
\<close>

definition v4in6 :: "128 word" where
  "v4in6 = push_bit 32 0xFFFF"

fun As16 :: "addr \<Rightarrow> 128 word" where
  "As16 ZeroAddr = 0"
| "As16 (V4 w) = v4in6 OR ucast w"
| "As16 (V6 w) = w"

definition ParseIP :: "string \<Rightarrow> 128 word option" where
  "ParseIP s = map_option As16 (ParseAddr s)"

definition To4 :: "128 word \<Rightarrow> 32 word option" where
  "To4 ip = (if drop_bit 32 ip = 0xFFFF then Some (ucast ip) else None)"

record IPNet =
  net_IP :: bytes
  net_Mask :: bytes

definition prefix_mask :: "nat \<Rightarrow> 'a::len word" where
  "prefix_mask n = push_bit (LENGTH('a) - n) (- 1)"

text \<open>\<open>ParseCIDR\<close>: the mask may have leading zeros; \<open>dtoi\<close> stops at numbers of 0xFFFFFF and more.\<close>

definition dtoi :: "string \<Rightarrow> nat option" where
  "dtoi s = (if s = [] \<or> \<not> list_all is_digit s \<or> 0xFFFFFF \<le> dec_val s then None else Some (dec_val s))"

fun ip_net :: "addr \<Rightarrow> nat \<Rightarrow> IPNet" where
  "ip_net ZeroAddr n = \<lparr>net_IP = [], net_Mask = []\<rparr>"
| "ip_net (V4 w) n = \<lparr>net_IP = be_bytes 4 (w AND prefix_mask n), net_Mask = be_bytes 4 (prefix_mask n :: 32 word)\<rparr>"
| "ip_net (V6 w) n = \<lparr>net_IP = be_bytes 16 (w AND prefix_mask n), net_Mask = be_bytes 16 (prefix_mask n :: 128 word)\<rparr>"

definition ParseCIDR :: "string \<Rightarrow> (128 word \<times> IPNet) option" where
  "ParseCIDR s =
     (case dropWhile (\<lambda>c. c \<noteq> CHR ''/'') s of
        [] \<Rightarrow> None
      | _ # m \<Rightarrow>
          (case ParseAddr (takeWhile (\<lambda>c. c \<noteq> CHR ''/'') s) of
             None \<Rightarrow> None
           | Some a \<Rightarrow>
               (case dtoi m of
                  None \<Rightarrow> None
                | Some n \<Rightarrow> if BitLen a < n then None else Some (As16 a, ip_net a n))))"

lemma splitOn_two:
  assumes "splitOn c s = [x, y]"
  shows "s = x @ c # y" and "c \<notin> set x" and "c \<notin> set y"
proof -
  have join: "joinWith [c] (splitOn c s) = s" for s
    by (induction s) (auto split: list.splits simp: neq_Nil_conv elim: joinWith.elims)
  have no: "\<forall>t \<in> set (splitOn c s). c \<notin> set t" for s
    by (induction s) (auto split: list.splits)
  show "s = x @ c # y" using join [of s] assms by simp
  show "c \<notin> set x" "c \<notin> set y" using no [of s] assms by simp_all
qed

lemma ParsePrefix_ParseCIDR:
  assumes "ParsePrefix v = Some (Prefix a n)"
  shows "ParseCIDR v = Some (As16 a, ip_net a n)"
proof -
  obtain x y where s: "splitOn (CHR ''/'') v = [x, y]" and a: "ParseAddr x = Some a"
    and n: "parseBits y (BitLen a) = Some n"
    using assms by (auto simp: ParsePrefix_def split: list.splits option.splits)
  note v = splitOn_two [OF s]
  have "BitLen a \<le> 128" by (cases a) auto
  then have "dtoi y = Some n" and "n \<le> BitLen a"
    using n by (auto simp: parseBits_def dtoi_def split: if_splits)
  moreover have "takeWhile (\<lambda>c. c \<noteq> CHR ''/'') v = x" "dropWhile (\<lambda>c. c \<noteq> CHR ''/'') v = CHR ''/'' # y"
    unfolding v(1) using v(2) by (induction x) auto
  ultimately show ?thesis using a by (simp add: ParseCIDR_def)
qed

text \<open>\<open>binary.BigEndian.Uint32\<close> reads the first four bytes.\<close>

definition be_uint32 :: "bytes \<Rightarrow> 32 word" where
  "be_uint32 bs = word_of_nat (be_val (take 4 bs))"

lemma be_uint32_be_bytes: "be_uint32 (be_bytes 4 w) = w"
proof -
  have "unat w < 2 ^ 32" using unsigned_less [of w] by simp
  then show ?thesis by (simp add: be_uint32_def be_val_be_bytes)
qed

lemma drop_mapped:
  fixes x :: "128 word" and w :: "32 word"
  shows "drop_bit 32 (push_bit 32 x OR ucast w) = take_bit 96 x"
  by (rule bit_word_eqI) (auto simp: bit_simps dest: bit_imp_le_length)

lemma low_mapped:
  fixes x :: "128 word" and w :: "32 word"
  shows "ucast (push_bit 32 x OR ucast w) = w"
  by (rule bit_word_eqI) (auto simp: bit_simps)

lemma To4_V4 [simp]: "To4 (As16 (V4 w)) = Some w"
  unfolding To4_def As16.simps v4in6_def drop_mapped low_mapped by simp

end
