(* ===== verification/Kube.thy ===== *)
theory Kube
  imports GoMap GoNet
begin

text \<open>
  The API server as the controllers use it, through the client of \<open>controller-runtime\<close>. The server
  and the client are not part of the repository: they are a record of functions on a state of any
  type, and \<open>kube_ok\<close> states what the code relies on. A read may be stale, so that only the key of
  what it returns is known; a call that fails may have had its effect or not.
\<close>

type_synonym objkey = "string \<times> string"

text \<open>\<open>client.ObjectKeyFromObject(obj).String()\<close>.\<close>

definition key_String :: "objkey \<Rightarrow> string" where
  "key_String k = fst k @ ''/'' @ snd k"

lemma key_String_inj:
  assumes "key_String j = key_String k" and "CHR ''/'' \<notin> set (fst j)" and "CHR ''/'' \<notin> set (fst k)"
  shows "j = k"
proof -
  have "splitOn (CHR ''/'') (fst j @ CHR ''/'' # snd j) = splitOn (CHR ''/'') (fst k @ CHR ''/'' # snd k)"
    using assms(1) by (simp add: key_String_def)
  then have "fst j = fst k" unfolding splitOn_append [OF assms(2)] splitOn_append [OF assms(3)] by simp
  then show ?thesis using assms(1) by (simp add: key_String_def prod_eq_iff)
qed

section \<open>The calls\<close>

datatype 'o got = Got 'o | GetNotFound | GetFailed
datatype deleted = Deleted | DeleteNotFound | DeleteFailed

record ('c, 'o) kube =
  k_get :: "objkey \<Rightarrow> 'c \<Rightarrow> 'o got"
  k_list :: "('o \<Rightarrow> bool) \<Rightarrow> 'c \<Rightarrow> 'o list option"
  k_put :: "'o \<Rightarrow> 'c \<Rightarrow> 'o option \<times> 'c"
  k_delete :: "'o \<Rightarrow> 'c \<Rightarrow> deleted \<times> 'c"

text \<open>
  \<open>view c\<close> are the objects of the server. An object that has been sent is stored with the same
  \<open>part\<close>: the rest (status, resource version) belongs to the server.
\<close>

definition kube_ok :: "('o \<Rightarrow> objkey) \<Rightarrow> ('o \<Rightarrow> 'p) \<Rightarrow> ('c, 'o) kube \<Rightarrow> ('c \<Rightarrow> objkey \<rightharpoonup> 'o) \<Rightarrow> bool" where
  "kube_ok key part K view \<longleftrightarrow>
     (\<forall>c k ob. view c k = Some ob \<longrightarrow> key ob = k) \<and>
     (\<forall>c k ob. k_get K k c = Got ob \<longrightarrow> key ob = k) \<and>
     (\<forall>c P obs. k_list K P c = Some obs \<longrightarrow> (\<forall>ob\<in>set obs. P ob)) \<and>
     (\<forall>c c' ob r. k_put K ob c = (r, c') \<longrightarrow>
        (r = None \<and> view c' = view c) \<or>
        (\<exists>ob'. key ob' = key ob \<and> part ob' = part ob \<and> view c' = (view c)(key ob \<mapsto> ob') \<and>
               (r = None \<or> r = Some ob'))) \<and>
     (\<forall>c c' ob r. k_delete K ob c = (r, c') \<longrightarrow>
        (r = DeleteFailed \<and> view c' = view c) \<or> view c' = (view c)(key ob := None))"

lemma kube_view: "kube_ok key part K view \<Longrightarrow> view c k = Some ob \<Longrightarrow> key ob = k"
  unfolding kube_ok_def by blast

lemma kube_get: "kube_ok key part K view \<Longrightarrow> k_get K k c = Got ob \<Longrightarrow> key ob = k"
  unfolding kube_ok_def by blast

lemma kube_list: "kube_ok key part K view \<Longrightarrow> k_list K P c = Some obs \<Longrightarrow> ob \<in> set obs \<Longrightarrow> P ob"
  unfolding kube_ok_def by blast

lemma kube_put:
  "kube_ok key part K view \<Longrightarrow> k_put K ob c = (r, c') \<Longrightarrow>
     (r = None \<and> view c' = view c) \<or>
     (\<exists>ob'. key ob' = key ob \<and> part ob' = part ob \<and> view c' = (view c)(key ob \<mapsto> ob') \<and>
            (r = None \<or> r = Some ob'))"
  unfolding kube_ok_def by blast

lemma kube_delete:
  "kube_ok key part K view \<Longrightarrow> k_delete K ob c = (r, c') \<Longrightarrow>
     (r = DeleteFailed \<and> view c' = view c) \<or> view c' = (view c)(key ob := None)"
  unfolding kube_ok_def by blast

section \<open>A server that keeps the objects in a map\<close>

text \<open>
  The deletions of the keys in \<open>stuck\<close> fail, and so do the writes of objects whose namespace is not
  a name.
\<close>

definition store_view :: "('o \<Rightarrow> objkey) \<Rightarrow> (objkey, 'o) gomap \<Rightarrow> objkey \<rightharpoonup> 'o" where
  "store_view key c k =
     (case map_of c k of None \<Rightarrow> None | Some ob \<Rightarrow> if key ob = k \<and> CHR ''/'' \<notin> set (fst k) then Some ob else None)"

definition store_kube :: "('o \<Rightarrow> objkey) \<Rightarrow> objkey list \<Rightarrow> ((objkey, 'o) gomap, 'o) kube" where
  "store_kube key stuck =
     \<lparr>k_get = (\<lambda>k c. case store_view key c k of None \<Rightarrow> GetNotFound | Some ob \<Rightarrow> Got ob),
      k_list = (\<lambda>P c. Some (filter (\<lambda>ob. P ob \<and> store_view key c (key ob) = Some ob) (map snd c))),
      k_put = (\<lambda>ob c. if CHR ''/'' \<in> set (fst (key ob)) then (None, c) else (Some ob, put (key ob) ob c)),
      k_delete = (\<lambda>ob c. if List.member stuck (key ob) then (DeleteFailed, c)
                        else (if has_key (key ob) c then Deleted else DeleteNotFound, del (key ob) c))\<rparr>"

lemma store_view_Some: "store_view key c k = Some ob \<Longrightarrow> map_of c k = Some ob \<and> key ob = k \<and> CHR ''/'' \<notin> set (fst k)"
  by (auto simp: store_view_def split: option.splits if_splits)

lemma store_kube_ok: "kube_ok key part (store_kube key stuck) (store_view key)"
  unfolding kube_ok_def store_kube_def
  by (auto simp: store_view_def map_of_put map_of_del fun_eq_iff split: option.splits if_splits)

end
