(* ===== verification/Resource.thy ===== *)
theory Resource
  imports Kube
begin

text \<open>
  What the controllers share: the metadata of an object, computations that change a state and may
  fail or panic, and the wrapper \<open>CreateOrUpdate\<close> of \<open>pkg/utils/resource/wrappers.go\<close>. A panic is
  recovered by the controller runtime, so that the state it leaves is a value of the model too.
\<close>

section \<open>Objects\<close>

record objectMeta =
  om_Namespace :: string
  om_Name :: string
  om_Labels :: "(string, string) gomap"
  om_Annotations :: "(string, string) gomap"
  om_Owners :: "string list"

definition object_key :: "'a objectMeta_scheme \<Rightarrow> objkey" where
  "object_key ob = (om_Namespace ob, om_Name ob)"

section \<open>Computations\<close>

datatype 'e ctrl_error = ListFailed | GetObjectFailed | WriteFailed | DeletionFailed | KindUnknown | OwnedByOther
  | Specific 'e

type_synonym ('s, 'e, 'a) ctl = "'s \<Rightarrow> ('e ctrl_error, 'a) res \<times> 's"

definition greturn :: "'a \<Rightarrow> ('s, 'e, 'a) ctl" where
  "greturn x st = (Ok x, st)"

definition gfail :: "'e ctrl_error \<Rightarrow> ('s, 'e, 'a) ctl" where
  "gfail e st = (Err e, st)"

definition gbind :: "('s, 'e, 'a) ctl \<Rightarrow> ('a \<Rightarrow> ('s, 'e, 'b) ctl) \<Rightarrow> ('s, 'e, 'b) ctl" where
  "gbind f g st = (case f st of (Ok x, st') \<Rightarrow> g x st' | (Err e, st') \<Rightarrow> (Err e, st') | (Panic, st') \<Rightarrow> (Panic, st'))"

fun gforeach :: "('x \<Rightarrow> ('s, 'e, unit) ctl) \<Rightarrow> 'x list \<Rightarrow> ('s, 'e, unit) ctl" where
  "gforeach f [] = greturn ()"
| "gforeach f (x # xs) = gbind (f x) (\<lambda>_. gforeach f xs)"

section \<open>Global labels and annotations\<close>

text \<open>\<open>strings.ReplaceAll\<close> for a text to replace that is not empty.\<close>

function ReplaceAll :: "string \<Rightarrow> string \<Rightarrow> string \<Rightarrow> string" where
  "ReplaceAll old new [] = []"
| "ReplaceAll old new (c # s) =
     (if old \<noteq> [] \<and> take (length old) (c # s) = old
      then new @ ReplaceAll old new (drop (length old) (c # s))
      else c # ReplaceAll old new s)"
  by pat_completeness auto
termination
  by (relation "measure (\<lambda>(_, _, s). length s)") (auto simp: Suc_le_eq intro!: le_imp_less_Suc)

definition replaceVariables :: "string \<Rightarrow> (string, string) gomap \<Rightarrow> string" where
  "replaceVariables s vars = fold (\<lambda>(x, v) t. ReplaceAll (''${'' @ x @ ''}'') v t) vars s"

text \<open>
  What the wrapper needs besides the client: the global labels and annotations, the kind and group
  that the scheme gives (\<open>None\<close> if it gives an error), the order in which one \<open>range\<close> visits the
  variables, and \<open>controllerutil.SetControllerReference\<close>.
\<close>

record globals =
  globalLabels :: "(string, string) gomap"
  globalAnnotations :: "(string, string) gomap"
  objectKind :: "(string \<times> string) option"
  rangeOrder :: "string \<Rightarrow> (string, string) gomap \<Rightarrow> (string, string) gomap"
  setControllerReference :: "string \<Rightarrow> string list \<Rightarrow> string list option"

definition buildVariablesMap :: "globals \<Rightarrow> 'a objectMeta_scheme \<Rightarrow> (string, string) gomap option" where
  "buildVariablesMap G ob =
     (case objectKind G of
        None \<Rightarrow> None
      | Some (kind, grp) \<Rightarrow>
          Some [(''namespace'', om_Namespace ob), (''name'', om_Name ob), (''kind'', kind), (''group'', grp)])"

definition add_globals :: "globals \<Rightarrow> 'a objectMeta_scheme \<Rightarrow> 'a objectMeta_scheme option" where
  "add_globals G ob =
     (case buildVariablesMap G ob of
        None \<Rightarrow> None
      | Some vars \<Rightarrow>
          Some (ob\<lparr>om_Labels := fold (\<lambda>(k, v). put k (replaceVariables v (rangeOrder G v vars))) (globalLabels G) (om_Labels ob),
                   om_Annotations :=
                     fold (\<lambda>(k, v). put k (replaceVariables v (rangeOrder G v vars))) (globalAnnotations G) (om_Annotations ob)\<rparr>))"

lemma add_globals_keeps:
  "add_globals G ob = Some ob' \<Longrightarrow>
     \<exists>ls as. ob' = ob\<lparr>om_Labels := ls, om_Annotations := as\<rparr>"
  by (auto simp: add_globals_def split: option.splits)

text \<open>
  The server is a part of the state: \<open>srv\<close> reads it and \<open>upd\<close> replaces it. An object that the change
  leaves as it is, up to the order of its labels and annotations, is not sent. The object that the
  caller holds afterwards is the one that the server has returned.
\<close>

definition same_object :: "'a objectMeta_scheme \<Rightarrow> 'a objectMeta_scheme \<Rightarrow> bool" where
  "same_object t' t \<longleftrightarrow>
     same_map (om_Labels t') (om_Labels t) \<and> same_map (om_Annotations t') (om_Annotations t) \<and>
     t'\<lparr>om_Labels := om_Labels t, om_Annotations := om_Annotations t\<rparr> = t"

definition CreateOrUpdate ::
  "('s \<Rightarrow> 'c) \<Rightarrow> ('c \<Rightarrow> 's \<Rightarrow> 's) \<Rightarrow> ('c, 'a objectMeta_scheme) kube \<Rightarrow> globals \<Rightarrow> 'a objectMeta_scheme \<Rightarrow>
     ('a objectMeta_scheme \<Rightarrow> ('s, 'e, 'a objectMeta_scheme) ctl) \<Rightarrow> ('s, 'e, 'a objectMeta_scheme) ctl" where
  "CreateOrUpdate srv upd K G ob mutateFn =
     (let wrapped = (\<lambda>t. gbind (mutateFn t) (\<lambda>t'.
            case add_globals G t' of None \<Rightarrow> gfail KindUnknown | Some t'' \<Rightarrow> greturn t''));
          send = (\<lambda>t st. case k_put K t (srv st) of
              (Some t', c) \<Rightarrow> (Ok t', upd c st)
            | (None, c) \<Rightarrow> (Err WriteFailed, upd c st))
      in (\<lambda>st. case k_get K (object_key ob) (srv st) of
            GetFailed \<Rightarrow> (Err GetObjectFailed, st)
          | GetNotFound \<Rightarrow> gbind (wrapped ob) send st
          | Got t \<Rightarrow> gbind (wrapped t) (\<lambda>t'. if same_object t' t then greturn t' else send t') st))"

section \<open>Triples\<close>

text \<open>
  From a state with \<open>P\<close>, a computation that returns leaves a result and a state with \<open>Q\<close>, and one that
  does not a state with \<open>R\<close> for its error, where \<open>None\<close> stands for a panic.
\<close>

definition triple ::
  "('s \<Rightarrow> bool) \<Rightarrow> ('s, 'e, 'a) ctl \<Rightarrow> ('a \<Rightarrow> 's \<Rightarrow> bool) \<Rightarrow> ('e ctrl_error option \<Rightarrow> 's \<Rightarrow> bool) \<Rightarrow> bool" where
  "triple P f Q R \<longleftrightarrow>
     (\<forall>st. P st \<longrightarrow>
        (case f st of (Ok x, st') \<Rightarrow> Q x st' | (Err e, st') \<Rightarrow> R (Some e) st' | (Panic, st') \<Rightarrow> R None st'))"

named_theorems triples \<open>triples of the operations\<close>

lemma triple_return [triples]: "(\<And>st. P st \<Longrightarrow> Q x st) \<Longrightarrow> triple P (greturn x) Q R"
  by (simp add: triple_def greturn_def)

lemma triple_fail [triples]: "(\<And>st. P st \<Longrightarrow> R (Some e) st) \<Longrightarrow> triple P (gfail e) Q R"
  by (simp add: triple_def gfail_def)

lemma triple_bind:
  assumes "triple P f Q R" and "\<And>x. triple (Q x) (g x) S R"
  shows "triple P (gbind f g) S R"
  unfolding triple_def
proof (intro allI impI)
  fix st
  assume "P st"
  then show "case gbind f g st of (Ok x, st') \<Rightarrow> S x st' | (Err e, st') \<Rightarrow> R (Some e) st' | (Panic, st') \<Rightarrow> R None st'"
    using assms unfolding triple_def gbind_def
    by (auto split: prod.splits res.splits; fastforce)
qed

lemma triple_foreach:
  assumes "\<And>x. x \<in> set xs \<Longrightarrow> triple P (f x) (\<lambda>_. P) R"
  shows "triple P (gforeach f xs) (\<lambda>_. P) R"
  using assms
proof (induction xs)
  case (Cons x xs)
  then show ?case by (auto intro!: triple_bind [where Q = "\<lambda>_. P"])
qed (simp add: triple_return)

lemma triple_weaken:
  assumes "triple P f Q R" and "\<And>st. P' st \<Longrightarrow> P st" and "\<And>x st. Q x st \<Longrightarrow> Q' x st"
    and "\<And>e st. R e st \<Longrightarrow> R' e st"
  shows "triple P' f Q' R'"
  using assms unfolding triple_def by (auto split: prod.splits res.splits; blast)

lemma triple_pure: "(F \<Longrightarrow> triple (\<lambda>_. True) f Q R) \<Longrightarrow> triple (\<lambda>_. F) f Q R"
  by (cases F) (simp_all add: triple_def)

lemma triple_any: "triple P f (\<lambda>_ _. True) (\<lambda>_ _. True)"
  by (auto simp: triple_def split: res.splits)

lemma tripleD:
  assumes "triple P f Q R" and "P st" and "f st = (r, st')"
  shows "(case r of Ok x \<Rightarrow> Q x st' | Err e \<Rightarrow> R (Some e) st' | Panic \<Rightarrow> R None st')"
  using assms unfolding triple_def by (auto split: prod.splits res.splits)

text \<open>
  The wrapper leaves \<open>R\<close> on an error and an object with \<open>Q\<close> when it returns, if the change of the
  object gives \<open>W\<close> for what has been read, which the added labels keep, and sending an object with \<open>W\<close>
  gives \<open>Q\<close>.
\<close>

lemma triple_CreateOrUpdate:
  fixes mutateFn :: "'a objectMeta_scheme \<Rightarrow> ('s, 'e, 'a objectMeta_scheme) ctl"
  assumes new: "triple (\<lambda>st. P st \<and> k_get K (object_key ob) (srv st) = GetNotFound) (mutateFn ob) (W GetNotFound) R"
    and old: "\<And>t. triple (\<lambda>st. P st \<and> k_get K (object_key ob) (srv st) = Got t) (mutateFn t) (W (Got t)) R"
    and glob: "\<And>g t st ls as. W g t st \<Longrightarrow> W g (t\<lparr>om_Labels := ls, om_Annotations := as\<rparr>) st"
    and same: "\<And>t t' st. W (Got t) t' st \<Longrightarrow> same_object t' t \<Longrightarrow> Q t' st"
    and err: "\<And>g t e st. W g t st \<Longrightarrow> R e st" "\<And>e st. P st \<Longrightarrow> R e st"
    and put: "\<And>g t t' st c. W g t st \<Longrightarrow> k_put K t (srv st) = (Some t', c) \<Longrightarrow> Q t' (upd c st)"
      "\<And>g t e st c. W g t st \<Longrightarrow> k_put K t (srv st) = (None, c) \<Longrightarrow> R e (upd c st)"
  shows "triple P (CreateOrUpdate srv upd K G ob mutateFn) Q R"
proof -
  define wrapped where "wrapped t = gbind (mutateFn t) (\<lambda>t'.
    case add_globals G t' of None \<Rightarrow> gfail KindUnknown | Some t'' \<Rightarrow> greturn t'')" for t
  define send :: "'a objectMeta_scheme \<Rightarrow> ('s, 'e, 'a objectMeta_scheme) ctl" where "send t st = (case k_put K t (srv st) of
      (Some t', c) \<Rightarrow> (Ok t', upd c st) | (None, c) \<Rightarrow> (Err WriteFailed, upd c st))" for t st
  have g: "triple (W g t) (case add_globals G t of None \<Rightarrow> gfail KindUnknown | Some t'' \<Rightarrow> greturn t'') (W g) R" for g t
    using glob err(1) by (auto split: option.split intro!: triples dest!: add_globals_keeps)
  have p: "triple (W g t) (send t) Q R" for g t
    unfolding triple_def send_def using put by (auto split: prod.splits option.splits)
  have u: "triple (W (Got t) t') (if same_object t' t then greturn t' else send t') Q R" for t t'
    using p same by (auto intro!: triples)
  have s: "triple (\<lambda>st. P st \<and> k_get K (object_key ob) (srv st) = GetNotFound) (gbind (wrapped ob) send) Q R"
    unfolding wrapped_def by (rule triple_bind [OF triple_bind [OF new g] p])
  have r: "triple (\<lambda>st. P st \<and> k_get K (object_key ob) (srv st) = Got t)
      (gbind (wrapped t) (\<lambda>t'. if same_object t' t then greturn t' else send t')) Q R" for t
    unfolding wrapped_def by (rule triple_bind [OF triple_bind [OF old g] u])
  show ?thesis
    unfolding triple_def CreateOrUpdate_def Let_def wrapped_def [symmetric] send_def [symmetric]
    using s r err(2) unfolding triple_def by (auto split: got.splits)
qed

end
