(* ===== verification/NetworkApi.thy ===== *)
theory NetworkApi
  imports Resource
begin

text \<open>
  The \<open>Network\<close> resource (\<open>apis/ipam/v1alpha1/network_types.go\<close>), which the controller of configurations
  creates, the controller of networks fills and the IPAM server lists, and what its labels and
  annotations say (\<open>pkg/utils/ipam/networks.go\<close>, \<open>pkg/utils/preuninstall.go\<close>). A CIDR is a text.
\<close>

record Network = objectMeta +
  nw_Finalizers :: "string list"
  nw_Deleting :: bool
  nw_CIDR :: string
  nw_PreAllocated :: "32 word"
  nw_StatusCIDR :: string

text \<open>
  \<open>strings.EqualFold\<close> against ASCII text: besides the capital letters, U+017F
  (bytes C5 BF) folds to s and U+212A (bytes E2 84 AA) to k.
\<close>

definition lower :: "char \<Rightarrow> char" where
  "lower c = (if 65 \<le> (of_char c :: nat) \<and> (of_char c :: nat) \<le> 90 then char_of ((of_char c :: nat) + 32) else c)"

fun fold_case :: "string \<Rightarrow> string" where
  "fold_case [] = []"
| "fold_case (c # s) =
     (if c = CHR 0xC5 \<and> take 1 s = [CHR 0xBF] then CHR ''s'' # fold_case (drop 1 s)
      else if c = CHR 0xE2 \<and> take 2 s = [CHR 0x84, CHR 0xAA]
      then CHR ''k'' # fold_case (drop 2 s)
      else lower c # fold_case s)"

definition EqualFold :: "string \<Rightarrow> string \<Rightarrow> bool" where
  "EqualFold s t \<longleftrightarrow> fold_case s = fold_case t"

section \<open>Labels and annotations\<close>

text \<open>A lookup in a nil map gives no value, as in an empty one.\<close>

definition NetworkNotRemappedLabelKey :: string where
  "NetworkNotRemappedLabelKey = ''ipam.liqo.io/network-not-remapped''"

definition NetworkSharedLabelKey :: string where
  "NetworkSharedLabelKey = ''ipam.liqo.io/network-shared''"

definition NetworkTypeLabelKey :: string where
  "NetworkTypeLabelKey = ''ipam.liqo.io/network-type''"

definition IsPreinstalledResource :: "'a objectMeta_scheme \<Rightarrow> bool" where
  "IsPreinstalledResource ob =
     (case map_of (om_Annotations ob) ''liqo.io/preinstalled'' of
        None \<Rightarrow> False
      | Some v \<Rightarrow> \<not> EqualFold v ''false'')"

definition NetworkNotRemapped :: "Network \<Rightarrow> bool" where
  "NetworkNotRemapped nw =
     (case map_of (om_Labels nw) NetworkNotRemappedLabelKey of
        None \<Rightarrow> False
      | Some v \<Rightarrow> \<not> EqualFold v ''false'')"

definition NetworkIsExclusive :: "Network \<Rightarrow> bool" where
  "NetworkIsExclusive nw \<longleftrightarrow> map_of (om_Labels nw) NetworkSharedLabelKey \<noteq> Some ''true''"

end
