(* ===== verification/IpamSync.thy ===== *)
theory IpamSync
  imports IpamServer NetworkApi "HOL-Library.AList"
begin

text \<open>
  \<open>pkg/ipam/initialize.go\<close>, \<open>sync.go\<close> and the listing functions of \<open>ips.go\<close> and \<open>networks.go\<close>: the server
  is filled from the Network and IP resources of the cluster when it starts, and compared with them
  periodically. What the API server returns for the two lists is an argument. A Go map is an
  association list without duplicate keys; the order in which a \<open>range\<close> visits it is an argument too
  (\<open>ordN\<close> for the cluster networks, \<open>ordC\<close> for the cached networks, \<open>ordI\<close> for the addresses).
\<close>

section \<open>Resources\<close>

record IPResource =
  ip_deleting :: bool
  ip_Status_IP :: string
  ip_Status_CIDR :: string

record prefixDetails =
  preallocated :: nat
  exclusive :: bool

fun networks_loop ::
  "Network list \<Rightarrow> (prefix \<times> prefixDetails) list \<Rightarrow>
   ipam_error + (prefix \<times> prefixDetails) list" where
  "networks_loop [] result = Inr result"
| "networks_loop (nw # nws) result =
     (if nw_Deleting nw then networks_loop nws result
      else if nw_StatusCIDR nw = '''' then networks_loop nws result
      else
        (case ParsePrefix (nw_StatusCIDR nw) of
           None \<Rightarrow> Inl (ParseFailed (nw_StatusCIDR nw))
         | Some p \<Rightarrow>
             networks_loop nws (AList.update p
               \<lparr>preallocated = unat (nw_PreAllocated nw), exclusive = NetworkIsExclusive nw\<rparr> result)))"

definition listNetworksOnCluster ::
  "string + Network list \<Rightarrow> ipam_error + (prefix \<times> prefixDetails) list" where
  "listNetworksOnCluster networks =
     (case networks of Inl e \<Rightarrow> Inl (ipam_error.ListFailed e) | Inr nws \<Rightarrow> networks_loop nws [])"

fun ips_loop :: "IPResource list \<Rightarrow> (addr \<times> prefix) list \<Rightarrow> ipam_error + (addr \<times> prefix) list" where
  "ips_loop [] result = Inr result"
| "ips_loop (ip # rest) result =
     (if ip_deleting ip then ips_loop rest result
      else if ip_Status_IP ip = '''' then ips_loop rest result
      else if ip_Status_CIDR ip = '''' then ips_loop rest result
      else
        (case ParseAddr (ip_Status_IP ip) of
           None \<Rightarrow> Inl (ParseFailed (ip_Status_IP ip))
         | Some a \<Rightarrow>
             (case ParsePrefix (ip_Status_CIDR ip) of
                None \<Rightarrow> Inl (ParseFailed (ip_Status_CIDR ip))
              | Some p \<Rightarrow> ips_loop rest (AList.update a p result))))"

definition listIPsOnCluster :: "string + IPResource list \<Rightarrow> ipam_error + (addr \<times> prefix) list" where
  "listIPsOnCluster iplist =
     (case iplist of Inl e \<Rightarrow> Inl (ipam_error.ListFailed e) | Inr xs \<Rightarrow> ips_loop xs [])"

section \<open>Initialisation\<close>

fun initializeNetworks_loop ::
  "io \<Rightarrow> (prefix \<times> prefixDetails) list \<Rightarrow> LiqoIPAM \<Rightarrow> clock \<Rightarrow>
   (LiqoIPAM \<times> ipam_error option \<times> clock) option" where
  "initializeNetworks_loop io [] l c = Some (l, None, c)"
| "initializeNetworks_loop io ((p, d) # nets) l c =
     (if \<not> isInPool p l \<and> \<not> exclusive d then initializeNetworks_loop io nets l c
      else
        (case networkAcquireSpecific io p (exclusive d) l c of
           None \<Rightarrow> None
         | Some (l, Inl e, c) \<Rightarrow> Some (l, Some e, c)
         | Some (l, Inr _, c) \<Rightarrow>
             (case acquirePreallocatedIPs io p (preallocated d) l c of
                (l, None, c) \<Rightarrow> initializeNetworks_loop io nets l c
              | (l, Some e, c) \<Rightarrow>
                  (case lipam_networkRelease io p 0 l c of
                     None \<Rightarrow> None
                   | Some (l, e', c) \<Rightarrow> Some (l, Some (Joined e e'), c)))))"

type_synonym orderN = "(prefix \<times> prefixDetails) list \<Rightarrow> (prefix \<times> prefixDetails) list"
type_synonym orderC = "prefix list \<Rightarrow> prefix list"
type_synonym orderI = "(addr \<times> prefix) list \<Rightarrow> (addr \<times> prefix) list"

definition initializeNetworks ::
  "io \<Rightarrow> orderN \<Rightarrow> string + Network list \<Rightarrow> LiqoIPAM \<Rightarrow> clock \<Rightarrow>
   (LiqoIPAM \<times> ipam_error option \<times> clock) option" where
  "initializeNetworks io ordN networks l c =
     (case listNetworksOnCluster networks of
        Inl e \<Rightarrow> Some (l, Some e, c)
      | Inr nets \<Rightarrow> initializeNetworks_loop io (ordN nets) l c)"

fun initializeIPs_loop ::
  "io \<Rightarrow> (addr \<times> prefix) list \<Rightarrow> LiqoIPAM \<Rightarrow> clock \<Rightarrow> LiqoIPAM \<times> ipam_error option \<times> clock" where
  "initializeIPs_loop io [] l c = (l, None, c)"
| "initializeIPs_loop io ((a, p) # rest) l c =
     (case ipAcquireWithAddr io a p l c of
        (l, Some e, c) \<Rightarrow> (l, Some e, c)
      | (l, None, c) \<Rightarrow> initializeIPs_loop io rest l c)"

definition initializeIPs ::
  "io \<Rightarrow> orderI \<Rightarrow> string + IPResource list \<Rightarrow> LiqoIPAM \<Rightarrow> clock \<Rightarrow>
   LiqoIPAM \<times> ipam_error option \<times> clock" where
  "initializeIPs io ordI iplist l c =
     (case listIPsOnCluster iplist of
        Inl e \<Rightarrow> (l, Some e, c)
      | Inr rest \<Rightarrow> initializeIPs_loop io (ordI rest) l c)"

definition initialize ::
  "io \<Rightarrow> orderN \<Rightarrow> orderI \<Rightarrow> string + Network list \<Rightarrow> string + IPResource list \<Rightarrow>
   LiqoIPAM \<Rightarrow> clock \<Rightarrow> (LiqoIPAM \<times> ipam_error option \<times> clock) option" where
  "initialize io ordN ordI networks iplist l c =
     (case initializeNetworks io ordN networks l c of
        None \<Rightarrow> None
      | Some (l, Some e, c) \<Rightarrow> Some (l, Some e, c)
      | Some (l, None, c) \<Rightarrow> Some (initializeIPs io ordI iplist l c))"

fun parse_pools :: "string list \<Rightarrow> ipam_error + prefix list" where
  "parse_pools [] = Inr []"
| "parse_pools (s # ss) =
     (case ParsePrefix s of
        None \<Rightarrow> Inl (ParseFailed s)
      | Some p \<Rightarrow> (case parse_pools ss of Inl e \<Rightarrow> Inl e | Inr ps \<Rightarrow> Inr (p # ps)))"

definition New ::
  "io \<Rightarrow> orderN \<Rightarrow> orderI \<Rightarrow> string + Network list \<Rightarrow> string + IPResource list \<Rightarrow>
   ServerOptions \<Rightarrow> clock \<Rightarrow> ((ipam_error + LiqoIPAM) \<times> clock) option" where
  "New io ordN ordI networks iplist os c =
     (case parse_pools (Pools os) of
        Inl e \<Rightarrow> Some (Inl e, c)
      | Inr ps \<Rightarrow>
          (case NewIpam ps c of
             (Inl e, c) \<Rightarrow> Some (Inl (Core e), c)
           | (Inr m, c) \<Rightarrow>
               (case initialize io ordN ordI networks iplist \<lparr>IpamCore = m, opts = os\<rparr> c of
                  None \<Rightarrow> None
                | Some (l, Some e, c) \<Rightarrow> Some (Inl e, c)
                | Some (l, None, c) \<Rightarrow> Some (Inr l, c))))"

section \<open>Synchronisation\<close>

fun syncNetworkAcquire ::
  "io \<Rightarrow> prefix list \<Rightarrow> (prefix \<times> prefixDetails) list \<Rightarrow> LiqoIPAM \<Rightarrow> clock \<Rightarrow>
   (LiqoIPAM \<times> ipam_error option \<times> clock) option" where
  "syncNetworkAcquire io cached [] l c = Some (l, None, c)"
| "syncNetworkAcquire io cached ((p, d) # nets) l c =
     (if \<not> isInPool p l \<and> \<not> exclusive d then syncNetworkAcquire io cached nets l c
      else
        (case (if p \<notin> set cached then networkAcquireSpecific io p (exclusive d) l c
               else Some (l, Inr p, c)) of
           None \<Rightarrow> None
         | Some (l, Inl e, c) \<Rightarrow> Some (l, Some e, c)
         | Some (l, Inr _, c) \<Rightarrow>
             (case acquirePreallocatedIPs io p (preallocated d) l c of
                (l, None, c) \<Rightarrow> syncNetworkAcquire io cached nets l c
              | (l, Some e, c) \<Rightarrow>
                  (case lipam_networkRelease io p 0 l c of
                     None \<Rightarrow> None
                   | Some (l, e', c) \<Rightarrow> Some (l, Some (Joined e e'), c)))))"

definition isNetworkInCluster :: "(prefix \<times> prefixDetails) list \<Rightarrow> prefix \<Rightarrow> bool" where
  "isNetworkInCluster clusterNetworks p \<longleftrightarrow> map_of clusterNetworks p \<noteq> None"

fun syncNetworkFree ::
  "io \<Rightarrow> (prefix \<times> prefixDetails) list \<Rightarrow> prefix list \<Rightarrow> LiqoIPAM \<Rightarrow> clock \<Rightarrow>
   (LiqoIPAM \<times> ipam_error option \<times> clock) option" where
  "syncNetworkFree io clusterNetworks [] l c = Some (l, None, c)"
| "syncNetworkFree io clusterNetworks (p # cached) l c =
     (if \<not> isNetworkInCluster clusterNetworks p then
        (case lipam_networkRelease io p (SyncGracePeriod (opts l)) l c of
           None \<Rightarrow> None
         | Some (l, Some e, c) \<Rightarrow> Some (l, Some e, c)
         | Some (l, None, c) \<Rightarrow> syncNetworkFree io clusterNetworks cached l c)
      else syncNetworkFree io clusterNetworks cached l c)"

text \<open>\<open>SliceToMap\<close> of \<open>pkg/utils/maps\<close>: only the keys of the map matter.\<close>

definition SliceToMap :: "'a list \<Rightarrow> 'a list" where
  "SliceToMap xs = remdups xs"

definition syncNetworks ::
  "io \<Rightarrow> orderN \<Rightarrow> orderC \<Rightarrow> string + Network list \<Rightarrow> LiqoIPAM \<Rightarrow> clock \<Rightarrow>
   (LiqoIPAM \<times> ipam_error option \<times> clock) option" where
  "syncNetworks io ordN ordC networks l c =
     (case listNetworksOnCluster networks of
        Inl e \<Rightarrow> Some (l, Some e, c)
      | Inr clusterNetworks \<Rightarrow>
          (let cached = SliceToMap (ListNetworks (IpamCore l)) in
           case syncNetworkAcquire io cached (ordN clusterNetworks) l c of
             None \<Rightarrow> None
           | Some (l, Some e, c) \<Rightarrow> Some (l, Some e, c)
           | Some (l, None, c) \<Rightarrow> syncNetworkFree io clusterNetworks (ordC cached) l c))"

fun syncIPsAcquire ::
  "io \<Rightarrow> (addr \<times> prefix) list \<Rightarrow> (addr \<times> prefix) list \<Rightarrow> LiqoIPAM \<Rightarrow> clock \<Rightarrow>
   LiqoIPAM \<times> ipam_error option \<times> clock" where
  "syncIPsAcquire io cachedIPs [] l c = (l, None, c)"
| "syncIPsAcquire io cachedIPs ((a, p) # rest) l c =
     (if map_of cachedIPs a = None then
        (case ipAcquireWithAddr io a p l c of
           (l, Some e, c) \<Rightarrow> (l, Some e, c)
         | (l, None, c) \<Rightarrow> syncIPsAcquire io cachedIPs rest l c)
      else syncIPsAcquire io cachedIPs rest l c)"

fun preallocated_loop :: "nat \<Rightarrow> addr \<Rightarrow> addr \<Rightarrow> bool" where
  "preallocated_loop 0 ip a \<longleftrightarrow> False"
| "preallocated_loop (Suc k) ip a \<longleftrightarrow> Compare ip a = 0 \<or> preallocated_loop k ip (Next a)"

definition iscachedIPPreallocated ::
  "addr \<Rightarrow> prefix \<Rightarrow> (prefix \<times> prefixDetails) list \<Rightarrow> bool" where
  "iscachedIPPreallocated ip p clusterNetworks =
     (case map_of clusterNetworks p of
        None \<Rightarrow> False
      | Some d \<Rightarrow> preallocated_loop (preallocated d) ip (Addr p))"

fun syncIPsFree ::
  "io \<Rightarrow> (addr \<times> prefix) list \<Rightarrow> (prefix \<times> prefixDetails) list \<Rightarrow> (addr \<times> prefix) list \<Rightarrow>
   LiqoIPAM \<Rightarrow> clock \<Rightarrow> LiqoIPAM \<times> ipam_error option \<times> clock" where
  "syncIPsFree io clusterIPs clusterNetworks [] l c = (l, None, c)"
| "syncIPsFree io clusterIPs clusterNetworks ((a, p) # cached) l c =
     (if map_of clusterIPs a = None \<and> \<not> iscachedIPPreallocated a p clusterNetworks then
        (case lipam_ipRelease io a p (SyncGracePeriod (opts l)) l c of
           (l, Some e, c) \<Rightarrow> (l, Some e, c)
         | (l, None, c) \<Rightarrow> syncIPsFree io clusterIPs clusterNetworks cached l c)
      else syncIPsFree io clusterIPs clusterNetworks cached l c)"

fun cached_ips_loop ::
  "LiqoIPAM \<Rightarrow> prefix list \<Rightarrow> (addr \<times> prefix) list \<Rightarrow> ipam_error + (addr \<times> prefix) list" where
  "cached_ips_loop l [] result = Inr result"
| "cached_ips_loop l (p # ps) result =
     (case ListIPs p (IpamCore l) of
        Inl e \<Rightarrow> Inl (Core e)
      | Inr as \<Rightarrow> cached_ips_loop l ps (foldl (\<lambda>res a. AList.update a p res) result as))"

definition syncIPs ::
  "io \<Rightarrow> orderI \<Rightarrow> string + Network list \<Rightarrow> string + IPResource list \<Rightarrow> LiqoIPAM \<Rightarrow> clock \<Rightarrow>
   LiqoIPAM \<times> ipam_error option \<times> clock" where
  "syncIPs io ordI networks iplist l c =
     (case listIPsOnCluster iplist of
        Inl e \<Rightarrow> (l, Some e, c)
      | Inr clusterIPs \<Rightarrow>
          (case listNetworksOnCluster networks of
             Inl e \<Rightarrow> (l, Some e, c)
           | Inr clusterNetworks \<Rightarrow>
               (case cached_ips_loop l (ListNetworks (IpamCore l)) [] of
                  Inl e \<Rightarrow> (l, Some e, c)
                | Inr cachedIPs \<Rightarrow>
                    (case syncIPsAcquire io cachedIPs (ordI clusterIPs) l c of
                       (l, Some e, c) \<Rightarrow> (l, Some e, c)
                     | (l, None, c) \<Rightarrow>
                         syncIPsFree io clusterIPs clusterNetworks (ordI cachedIPs) l c))))"

text \<open>
  One tick of the polling loop of \<open>sync\<close>: an error stops the process (\<open>os.Exit(1)\<close>). The two lists of
  networks are two calls of the API server.
\<close>

definition sync_tick ::
  "io \<Rightarrow> orderN \<Rightarrow> orderC \<Rightarrow> orderI \<Rightarrow> string + Network list \<Rightarrow>
   string + Network list \<Rightarrow> string + IPResource list \<Rightarrow> LiqoIPAM \<Rightarrow> clock \<Rightarrow>
   (LiqoIPAM \<times> ipam_error option \<times> clock) option" where
  "sync_tick io ordN ordC ordI networks networks' iplist l c =
     (case syncNetworks io ordN ordC networks l c of
        None \<Rightarrow> None
      | Some (l, Some e, c) \<Rightarrow> Some (l, Some e, c)
      | Some (l, None, c) \<Rightarrow> Some (syncIPs io ordI networks' iplist l c))"

end
