(* ===== verification/IpamServerSpec.thy ===== *)
theory IpamServerSpec
  imports IpamContract IpamSync
begin

text \<open>
  The IPAM server keeps the invariant of the core through every handler, the initialisation and the
  synchronisation, whatever the requests and the cluster contain, and its answers mean what they
  should.
\<close>

section \<open>Requests for less than one address\<close>

lemma allocateNetwork_large:
  assumes "wf_tree n" and "32 < sz" and "allocateNetwork sz n e c = Some (n', res, c')"
  shows "res = None \<and> unchanged n n'"
  using assms
proof (induction "33 - Bits (root n)" arbitrary: n c n' res c' rule: less_induct)
  case less
  note w = less.prems(1) and run = less.prems(3) [unfolded allocateNetwork.simps [of sz n e c]]
  have b: "Bits (root n) \<le> 32" using wf_tree_net4 [OF w] by (simp add: net4_def)
  then have lt: "int (Bits (root n)) < sz" using less.prems(2) by linarith
  show ?case
  proof (cases "isAcquired n")
    case True
    then show ?thesis using run w by (auto simp: Let_def unchanged_refl)
  next
    case False
    obtain n1 c1 where sp: "split n c = Some (n1, c1)"
      using run False lt by (auto simp: Let_def split: option.splits)
    have s1: "wf_tree n1 \<and> root n1 = root n \<and> refs n1 = refs n \<and> isSplitted n1"
    proof (cases "isSplitted n")
      case True
      then show ?thesis using sp w by (auto simp: split_def)
    next
      case False
      then have "Bits (root n) \<noteq> 32" using split_None [OF w] sp by auto
      then show ?thesis using split_wf [OF w, of c] b sp
        by (metis Pair_inject isSplitted_def node.sel option.distinct(1) option.inject order_le_less)
    qed
    from bestDirection_wf [of n1] s1 obtain d1 d2 ch1 ch2
      where bd: "bestDirection n1 = Some (d1, d2)" "next_node d1 n1 = Some ch1" "next_node d2 n1 = Some ch2"
        "d1 \<noteq> d2" and wch: "wf_tree ch1" "wf_tree ch2"
        and bs: "Bits (root ch1) = Suc (Bits (root n))" "Bits (root ch2) = Suc (Bits (root n))"
      by metis
    have dec: "33 - Bits (root ch1) < 33 - Bits (root n)" "33 - Bits (root ch2) < 33 - Bits (root n)"
      using bs b by auto
    obtain ch1' r1 c2 where r1: "allocateNetwork sz ch1 e c1 = Some (ch1', r1, c2)"
      using run False lt sp bd by (auto simp: Let_def split: option.splits)
    have u1: "r1 = None" "wf_tree ch1'" "root ch1' = root ch1" "refs ch1' = refs ch1"
      using less.hyps [OF dec(1) wch(1) less.prems(2) r1] by (auto simp: unchanged_def)
    obtain ch2' c3 where r2: "allocateNetwork sz ch2 e c2 = Some (ch2', res, c3)"
      and n': "n' = set_child d2 ch2' (set_child d1 ch1' n1)"
      using run False lt sp bd r1 u1(1) by (auto simp: Let_def split: option.splits)
    have u2: "res = None" "wf_tree ch2'" "root ch2' = root ch2" "refs ch2' = refs ch2"
      using less.hyps [OF dec(2) wch(2) less.prems(2) r2] by (auto simp: unchanged_def)
    note m = set_child_same [OF conjunct1 [OF s1] bd(2) u1(2-4)]
    have "next_node d2 (set_child d1 ch1' n1) = Some ch2" using bd by (simp add: next_set_child)
    from set_child_same [OF m(1) this u2(2-4)] show ?thesis
      using u2(1) n' m s1 by (simp add: unchanged_def)
  qed
qed

lemma first_root_large:
  assumes "wf_forest ns" and "32 < sz"
    and "first_root (\<lambda>n. allocateNetwork sz n e) ns c = Some (ns', res, c')"
  shows "res = None \<and> wf_forest ns' \<and> map root ns' = map root ns \<and> frefs ns' = frefs ns"
  using assms
proof (induction ns arbitrary: c ns' res c')
  case (Cons n ns)
  obtain n' r c1 where a: "allocateNetwork sz n e c = Some (n', r, c1)"
    using Cons.prems(3) by (auto split: option.splits)
  have u: "r = None" "wf_tree n'" "root n' = root n" "refs n' = refs n"
    using allocateNetwork_large [OF _ assms(2) a] Cons.prems(1) by (auto simp: unchanged_def)
  obtain ms where ms: "first_root (\<lambda>n. allocateNetwork sz n e) ns c1 = Some (ms, res, c')"
    and ns': "ns' = n' # ms"
    using Cons.prems(3) a u(1) by (auto split: option.splits)
  have "res = None \<and> wf_forest ms \<and> map root ms = map root ns \<and> frefs ms = frefs ns"
    using Cons.IH [OF _ assms(2) ms] Cons.prems(1) by simp
  then show ?case
    using u ns' wf_forest_roots [OF Cons.prems(1) u(2,3), of ms] by (auto simp: fun_eq_iff)
qed simp

lemma NetworkAcquire_any:
  assumes w: "wf_ipam m" and run: "IpamCore.NetworkAcquire sz e m c = Some (m', res, c')"
  shows "wf_ipam m' \<and> pools m' = pools m \<and>
    (case res of
       None \<Rightarrow> irefs m' = irefs m
     | Some p \<Rightarrow> sz \<le> 32 \<and> in_pool m p \<and> int (Bits p) = sz \<and> grantable True p (irefs m) \<and>
         irefs m' = (irefs m)(p := if e then -1 else 1))"
proof (cases "sz \<le> 32")
  case True
  then show ?thesis
    using NetworkAcquire_correct [OF w True, of e c] run by (auto simp: acquired_size_def split: option.splits)
next
  case False
  obtain ns' where "first_root (\<lambda>n. allocateNetwork sz n e) (roots m) c = Some (ns', res, c')"
    "m' = m\<lparr>roots := ns'\<rparr>"
    using run by (auto simp: NetworkAcquire_def with_roots_def)
  then show ?thesis
    using first_root_large [of "roots m" sz e c ns' res c'] False w
    by (auto simp: wf_ipam_def pools_def irefs_def)
qed

section \<open>What the methods of the server keep\<close>

abbreviation cnt :: "LiqoIPAM \<Rightarrow> prefix \<Rightarrow> int" where
  "cnt l \<equiv> irefs (IpamCore l)"

abbreviation held :: "LiqoIPAM \<Rightarrow> prefix \<Rightarrow> addr list" where
  "held l \<equiv> ipaddrs (IpamCore l)"

definition wf_server :: "LiqoIPAM \<Rightarrow> bool" where
  "wf_server l \<longleftrightarrow> wf_ipam (IpamCore l)"

definition keeps :: "LiqoIPAM \<Rightarrow> LiqoIPAM \<Rightarrow> bool" where
  "keeps l l' \<longleftrightarrow> wf_server l' \<and> pools (IpamCore l') = pools (IpamCore l) \<and> opts l' = opts l"

lemma keeps_refl: "wf_server l \<Longrightarrow> keeps l l"
  by (simp add: keeps_def)

lemma keeps_trans [trans]: "keeps l l1 \<Longrightarrow> keeps l1 l2 \<Longrightarrow> keeps l l2"
  by (simp add: keeps_def)

lemma keeps_wf: "keeps l l' \<Longrightarrow> wf_server l'"
  by (simp add: keeps_def)

lemma keeps_in_pool: "keeps l l' \<Longrightarrow> in_pool (IpamCore l') = in_pool (IpamCore l)"
  by (auto simp: keeps_def intro!: in_pool_pools)

text \<open>The operations on addresses keep the counts as well.\<close>

definition keeps_cnt :: "LiqoIPAM \<Rightarrow> LiqoIPAM \<Rightarrow> bool" where
  "keeps_cnt l l' \<longleftrightarrow> keeps l l' \<and> cnt l' = cnt l"

lemma keeps_cnt_trans [trans]: "keeps_cnt l l1 \<Longrightarrow> keeps_cnt l1 l2 \<Longrightarrow> keeps_cnt l l2"
  by (auto simp: keeps_cnt_def intro: keeps_trans)

lemma ip_frame_keeps:
  "wf_server l \<Longrightarrow> ip_frame p (IpamCore l) m \<Longrightarrow> keeps_cnt l (l\<lparr>IpamCore := m\<rparr>)"
  by (simp add: ip_frame_def keeps_def keeps_cnt_def wf_server_def)

lemma lipam_ipAcquire_keeps:
  assumes w: "wf_server l" and run: "lipam_ipAcquire io p l c = (l', r, c')"
  shows "keeps_cnt l l' \<and>
    (case r of
       Inl e \<Rightarrow> True
     | Inr a \<Rightarrow> cnt l p \<noteq> 0 \<and> Contains p a \<and> a \<notin> set (held l p) \<and> held l' p = held l p @ [a])"
proof -
  obtain m q c1 where q: "IpamCore.IPAcquire p (IpamCore l) c = (m, q, c1)" by (cases "IpamCore.IPAcquire p (IpamCore l) c") auto
  have l': "l' = l\<lparr>IpamCore := m\<rparr>"
    using run q by (auto simp: lipam_ipAcquire_def Let_def split: sum.splits option.splits)
  note ok = IPAcquire_correct [OF w [unfolded wf_server_def] q]
  have "keeps_cnt l l'" unfolding l' by (rule ip_frame_keeps [OF w]) (use ok in blast)
  then show ?thesis
    using ok run q l' by (auto simp: lipam_ipAcquire_def Let_def finish_def split: sum.splits option.splits)
qed

lemma ipAcquireWithAddr_keeps:
  assumes w: "wf_server l" and run: "ipAcquireWithAddr io a p l c = (l', r, c')"
  shows "keeps_cnt l l'" "r = None \<Longrightarrow> held l' p = held l p @ [a]" "set (held l p) \<subseteq> set (held l' p)"
    "q \<noteq> p \<Longrightarrow> held l' q = held l q"
proof -
  obtain m x c1 where q: "IPAcquireWithAddr p a (IpamCore l) c = (m, x, c1)"
    by (cases "IPAcquireWithAddr p a (IpamCore l) c") auto
  have l': "l' = l\<lparr>IpamCore := m\<rparr>"
    using run q by (auto simp: ipAcquireWithAddr_def Let_def split: sum.splits option.splits)
  note ok = IPAcquireWithAddr_correct [OF w [unfolded wf_server_def] q]
  show "keeps_cnt l l'" unfolding l' by (rule ip_frame_keeps [OF w]) (use ok in blast)
  show "r = None \<Longrightarrow> held l' p = held l p @ [a]" "set (held l p) \<subseteq> set (held l' p)"
    using ok l' run q
    by (auto simp: ipAcquireWithAddr_def Let_def split: sum.splits option.splits if_splits)
  show "q \<noteq> p \<Longrightarrow> held l' q = held l q" using ok l' by (simp add: ip_frame_def)
qed

lemma lipam_ipRelease_keeps:
  assumes w: "wf_server l" and run: "lipam_ipRelease io a p gp l c = (l', r, c')"
  shows "keeps_cnt l l'" "set (held l' p) \<subseteq> set (held l p)" "set (held l p) - {a} \<subseteq> set (held l' p)"
    "q \<noteq> p \<Longrightarrow> held l' q = held l q"
proof -
  obtain m x c1 where q: "IpamCore.IPRelease p a gp (IpamCore l) c = (m, x, c1)"
    by (cases "IpamCore.IPRelease p a gp (IpamCore l) c") auto
  have l': "l' = l\<lparr>IpamCore := m\<rparr>"
    using run q by (auto simp: lipam_ipRelease_def Let_def split: sum.splits option.splits)
  note ok = IPRelease_correct [OF w [unfolded wf_server_def] q]
  show "keeps_cnt l l'" unfolding l' by (rule ip_frame_keeps [OF w]) (use ok in blast)
  have "set (held l p) - {a} \<subseteq> set (remove1 a (held l p))"
    using in_set_remove1 [of _ a "held l p"] by blast
  then show "set (held l' p) \<subseteq> set (held l p)" "set (held l p) - {a} \<subseteq> set (held l' p)"
    using ok l' set_remove1_subset [of a "held l p"] by (auto split: if_splits)
  show "q \<noteq> p \<Longrightarrow> held l' q = held l q" using ok l' by (simp add: ip_frame_def)
qed

lemma preallocate_loop_keeps:
  assumes "wf_server l" and "preallocate_loop io p as l c = (l', r, c')"
  shows "keeps_cnt l l' \<and> set (held l p) \<subseteq> set (held l' p) \<and>
    (cnt l p \<noteq> 0 \<longrightarrow> r = None \<longrightarrow> set as \<subseteq> set (held l' p))"
  using assms
proof (induction as arbitrary: l c)
  case Nil
  then show ?case by (simp add: keeps_cnt_def keeps_refl)
next
  case (Cons a as)
  show ?case
  proof (cases "ipIsAvailable a p l")
    case (Inl e)
    then show ?thesis using Cons.prems by (auto simp: keeps_cnt_def keeps_refl)
  next
    case (Inr b)
    have held: "cnt l p \<noteq> 0 \<Longrightarrow> b = (a \<notin> set (held l p))"
      using Inr IPIsAllocated_correct [of "IpamCore l" p a] Cons.prems(1)
      by (auto simp: ipIsAvailable_def wf_server_def)
    show ?thesis
    proof (cases b)
      case False
      then have "preallocate_loop io p as l c = (l', r, c')" using Cons.prems(2) Inr by simp
      then show ?thesis using Cons.IH [OF Cons.prems(1)] held False by auto
    next
      case True
      obtain l1 r1 c1 where a: "ipAcquireWithAddr io a p l c = (l1, r1, c1)"
        by (cases "ipAcquireWithAddr io a p l c") auto
      note k = ipAcquireWithAddr_keeps [OF Cons.prems(1) a]
      show ?thesis
      proof (cases r1)
        case (Some e)
        then show ?thesis using Cons.prems(2) Inr True a k by auto
      next
        case None
        then have "preallocate_loop io p as l1 c1 = (l', r, c')" using Cons.prems(2) Inr True a by simp
        moreover have "wf_server l1" "cnt l1 = cnt l" using k(1) by (auto simp: keeps_cnt_def keeps_def)
        ultimately have "keeps_cnt l1 l' \<and> set (held l1 p) \<subseteq> set (held l' p) \<and>
            (cnt l p \<noteq> 0 \<longrightarrow> r = None \<longrightarrow> set as \<subseteq> set (held l' p))"
          using Cons.IH by metis
        then show ?thesis using k(1) k(2) [OF None] keeps_cnt_trans by auto
      qed
    qed
  qed
qed

lemma acquirePreallocatedIPs_keeps:
  assumes "wf_server l" and "acquirePreallocatedIPs io p n l c = (l', r, c')"
  shows "keeps_cnt l l'"
    and "cnt l p \<noteq> 0 \<Longrightarrow> r = None \<Longrightarrow> set (FirstNIPsFromPrefix p n) \<subseteq> set (held l' p)"
    and "set (held l p) \<subseteq> set (held l' p)"
  using assms preallocate_loop_keeps [OF assms(1), of io p "FirstNIPsFromPrefix p n" c l' r c']
  by (auto simp: acquirePreallocatedIPs_def keeps_cnt_def keeps_refl split: if_splits)

lemma networkAcquireSpecific_keeps:
  assumes w: "wf_server l"
  obtains l' r c' where "networkAcquireSpecific io p e l c = Some (l', r, c')" and "keeps l l'"
    and "if in_pool (IpamCore l) p \<and> grantable e p (cnt l)
         then cnt l' = grant e p (cnt l) \<and> r = finish io p l'
         else cnt l' = cnt l \<and> r = Inl (AcquireFailed p)"
proof -
  obtain m x c1 where a: "NetworkAcquireWithPrefix p e (IpamCore l) c = Some (m, x, c1)"
    and k: "wf_ipam m" "pools m = pools (IpamCore l)" "acquired_prefix p e (IpamCore l) m x"
    using NetworkAcquireWithPrefix_correct [OF w [unfolded wf_server_def], of p e c] by blast
  have kl: "keeps l (l\<lparr>IpamCore := m\<rparr>)" using k by (simp add: keeps_def wf_server_def)
  show thesis
  proof (cases "in_pool (IpamCore l) p \<and> grantable e p (cnt l)")
    case True
    then have "x = Some p" "irefs m = grant e p (cnt l)" using k(3) by (simp_all add: acquired_prefix_def)
    then show thesis
      using that [of "l\<lparr>IpamCore := m\<rparr>" "finish io p (l\<lparr>IpamCore := m\<rparr>)" c1] a kl True
      by (simp add: networkAcquireSpecific_def Let_def)
  next
    case False
    then have "x = None" "irefs m = cnt l" using k(3) by (auto simp: acquired_prefix_def split: if_splits)
    then show thesis
      using that [of "l\<lparr>IpamCore := m\<rparr>" "Inl (AcquireFailed p)" c1] a kl False
      by (simp add: networkAcquireSpecific_def)
  qed
qed

text \<open>
  An acquisition that may be remapped: the requested network when it can be granted, otherwise a
  free network of the same size; exclusive in both cases.
\<close>

definition remapped_to :: "prefix \<Rightarrow> LiqoIPAM \<Rightarrow> LiqoIPAM \<Rightarrow> prefix \<Rightarrow> bool" where
  "remapped_to p l l' q \<longleftrightarrow> in_pool (IpamCore l) q \<and> Bits q = Bits p \<and>
     grantable True q (cnt l) \<and> cnt l' = (cnt l)(q := -1) \<and>
     (in_pool (IpamCore l) p \<and> grantable True p (cnt l) \<longrightarrow> q = p)"

lemma networkAcquire_keeps:
  assumes w: "wf_server l" and run: "networkAcquire io p l c = Some (l', r, c')"
  shows "keeps l l' \<and> (cnt l' = cnt l \<and> r = Inl (AcquireFailed p) \<or>
    (\<exists>q. remapped_to p l l' q \<and> r = finish io q l'))"
proof -
  obtain m x c1 where a: "NetworkAcquireWithPrefix p True (IpamCore l) c = Some (m, x, c1)"
    and k: "wf_ipam m" "pools m = pools (IpamCore l)" "acquired_prefix p True (IpamCore l) m x"
    using NetworkAcquireWithPrefix_correct [OF w [unfolded wf_server_def], of p True c] by blast
  show ?thesis
  proof (cases x)
    case (Some q)
    then have "q = p" "in_pool (IpamCore l) p" "grantable True p (cnt l)" "irefs m = (cnt l)(p := -1)"
      using k(3) by (auto simp: acquired_prefix_def grant_def split: if_splits)
    moreover have "l' = l\<lparr>IpamCore := m\<rparr>" "r = finish io q l'"
      using run a Some by (auto simp: networkAcquire_def Let_def)
    ultimately show ?thesis using k by (auto simp: keeps_def wf_server_def remapped_to_def)
  next
    case None
    then have m: "irefs m = cnt l" "\<not> (in_pool (IpamCore l) p \<and> grantable True p (cnt l))"
      using k(3) by (auto simp: acquired_prefix_def split: if_splits)
    obtain m' y c2 where b: "IpamCore.NetworkAcquire (int (Bits p)) True m c1 = Some (m', y, c2)"
      and r: "l' = l\<lparr>IpamCore := m'\<rparr>" "r = (case y of None \<Rightarrow> Inl (AcquireFailed p) | Some q \<Rightarrow> finish io q l')"
      using run a None by (auto simp: networkAcquire_def Let_def split: option.splits)
    show ?thesis
      using NetworkAcquire_any [OF k(1) b] r m k(2) in_pool_pools [OF k(2)]
      by (auto simp: keeps_def wf_server_def remapped_to_def split: option.splits)
  qed
qed

lemma lipam_networkRelease_keeps:
  assumes w: "wf_server l"
  obtains l' r c' where "lipam_networkRelease io p gp l c = Some (l', r, c')" and "keeps l l'"
    and "if releasable_in p (IpamCore l) gp (shd c)
         then cnt l p \<noteq> 0 \<and> cnt l' = release p (cnt l) \<and> r = graphviz io l'
         else cnt l' = cnt l \<and> r = None"
proof -
  obtain m x c1 where a: "IpamCore.NetworkRelease p gp (IpamCore l) c = Some (m, x, c1)"
    and k: "wf_ipam m" "pools m = pools (IpamCore l)" "released_prefix p (IpamCore l) m x"
    using NetworkRelease_state [OF w [unfolded wf_server_def], of p gp c] by blast
  have x: "x = (if releasable_in p (IpamCore l) gp (shd c) then Some p else None)"
    using NetworkRelease_result [OF w [unfolded wf_server_def] a] .
  have kl: "keeps l (l\<lparr>IpamCore := m\<rparr>)" using k by (simp add: keeps_def wf_server_def)
  show thesis
    using that [of "l\<lparr>IpamCore := m\<rparr>" "if x = None then None else graphviz io (l\<lparr>IpamCore := m\<rparr>)" c1]
      a kl x k(3)
    by (auto simp: lipam_networkRelease_def released_prefix_def Let_def split: if_splits)
qed

section \<open>The handlers\<close>

lemma handle_IPAcquire_keeps:
  "wf_server l \<Longrightarrow> handle_IPAcquire io s l c = (l', r, c') \<Longrightarrow> keeps_cnt l l'"
  using lipam_ipAcquire_keeps [of l io _ c l' r c']
  by (auto simp: handle_IPAcquire_def keeps_cnt_def keeps_refl split: option.splits if_splits)

lemma handle_IPRelease_keeps:
  "wf_server l \<Longrightarrow> handle_IPRelease io ip s l c = (l', r, c') \<Longrightarrow> keeps_cnt l l'"
  using lipam_ipRelease_keeps(1) [of l io _ _ 0 c l' r c']
  by (auto simp: handle_IPRelease_def keeps_cnt_def keeps_refl split: option.splits)

lemma handle_NetworkRelease_keeps:
  assumes "wf_server l" and "handle_NetworkRelease io s l c = Some (l', r, c')"
  shows "keeps l l'"
proof (cases "ParsePrefix s")
  case None
  then show ?thesis using assms by (simp add: handle_NetworkRelease_def keeps_refl)
next
  case (Some p)
  obtain l1 r1 c1 where "lipam_networkRelease io p 0 l c = Some (l1, r1, c1)" "keeps l l1"
    by (rule lipam_networkRelease_keeps [OF assms(1)])
  then show ?thesis using assms(2) Some by (simp add: handle_NetworkRelease_def)
qed

lemma isInPool_parsed:
  assumes "wf_server l" and "net4 p"
  shows "isInPool p l \<longleftrightarrow> in_pool (IpamCore l) p"
  using assms(2) by (auto simp: isInPool_def IsPrefixInRoots_def in_pool_iff inside_def isPrefixChildOf_def)

text \<open>
  What a \<open>NetworkAcquire\<close> request gives. A response with a network of a pool means that the network
  was acquired and holds its first addresses; an error can leave it acquired only when the release
  was refused or the Graphviz dump failed.
\<close>

definition requested :: "NetworkAcquireRequest \<Rightarrow> prefix \<Rightarrow> LiqoIPAM \<Rightarrow> LiqoIPAM \<Rightarrow> prefix \<Rightarrow> bool" where
  "requested req p l l' q \<longleftrightarrow>
     (if Immutable req
      then q = p \<and> in_pool (IpamCore l) p \<and> grantable (Exclusive req) p (cnt l) \<and>
        cnt l' = grant (Exclusive req) p (cnt l)
      else remapped_to p l l' q)"

lemma requested_cnt:
  assumes "wf_server l" and "requested req p l l' q"
  shows "cnt l' q \<noteq> 0"
  using assms irefs_ge [of "IpamCore l" q] Overlaps_refl [OF in_pool_Valid [of "IpamCore l" q]]
  by (fastforce simp: requested_def remapped_to_def grant_def grantable_def wf_server_def split: if_splits)

lemma requested_cnt_abs:
  assumes w: "wf_server l" and r: "requested req p l l' q"
  shows "\<bar>cnt l' x\<bar> = \<bar>cnt l x\<bar> + (if x = q then 1 else 0)"
  using assms irefs_ge [of "IpamCore l" q] Overlaps_refl [OF in_pool_Valid [of "IpamCore l" q]]
  by (fastforce simp: requested_def remapped_to_def grant_def grantable_def wf_server_def split: if_splits)

lemma requested_release:
  assumes w: "wf_server l" and r: "requested req p l l' q"
  shows "release q (cnt l') = cnt l"
  using assms irefs_ge [of "IpamCore l" q] Overlaps_refl [OF in_pool_Valid [of "IpamCore l" q]]
  by (fastforce simp: requested_def remapped_to_def grant_def grantable_def release_def wf_server_def
      fun_eq_iff split: if_splits)

text \<open>The acquisition itself, before the first addresses are taken.\<close>

lemma acquire_stage:
  assumes w: "wf_server l"
    and acq: "(if Immutable req then networkAcquireSpecific io p (Exclusive req) l c
        else networkAcquire io p l c) = Some (l1, r1, c1)"
  shows "keeps l l1" and "r1 = Inr q \<Longrightarrow> requested req p l l1 q"
    and "cnt l1 = cnt l \<or> (\<exists>q. requested req p l l1 q)"
proof -
  have "keeps l l1 \<and> (\<forall>q. r1 = Inr q \<longrightarrow> requested req p l l1 q) \<and>
    (cnt l1 = cnt l \<or> (\<exists>q. requested req p l l1 q))"
  proof (cases "Immutable req")
    case True
    obtain l2 r2 c2 where "networkAcquireSpecific io p (Exclusive req) l c = Some (l2, r2, c2)"
      "keeps l l2" and
      "if in_pool (IpamCore l) p \<and> grantable (Exclusive req) p (cnt l)
       then cnt l2 = grant (Exclusive req) p (cnt l) \<and> r2 = finish io p l2
       else cnt l2 = cnt l \<and> r2 = Inl (AcquireFailed p)"
      by (rule networkAcquireSpecific_keeps [OF w])
    then show ?thesis
      using acq True by (auto simp: requested_def finish_def split: if_splits option.splits)
  next
    case False
    then show ?thesis
      using acq networkAcquire_keeps [OF w, of io p c l1 r1 c1]
      by (auto simp: requested_def finish_def split: if_splits option.splits)
  qed
  then show "keeps l l1" "r1 = Inr q \<Longrightarrow> requested req p l l1 q"
    "cnt l1 = cnt l \<or> (\<exists>q. requested req p l l1 q)" by auto
qed

lemma handle_NetworkAcquire_keeps:
  assumes w: "wf_server l" and run: "handle_NetworkAcquire io req l c = Some (l', r, c')"
  shows "keeps l l' \<and>
    (case r of
       Inl e \<Rightarrow> True
     | Inr q \<Rightarrow>
         (\<exists>p. ParsePrefix (Cidr req) = Some p \<and>
           (if \<not> isInPool p l \<and> Immutable req then q = p \<and> \<not> Exclusive req \<and> l' = l
            else requested req p l l' q \<and>
              set (FirstNIPsFromPrefix q (PreAllocated req)) \<subseteq> set (held l' q))))"
proof (cases "ParsePrefix (Cidr req)")
  case None
  then show ?thesis using run w by (auto simp: handle_NetworkAcquire_def keeps_refl)
next
  case (Some p)
  show ?thesis
  proof (cases "\<not> isInPool p l \<and> Immutable req")
    case True
    then show ?thesis using run w Some
      by (cases "Exclusive req") (auto simp: handle_NetworkAcquire_def keeps_refl)
  next
    case pool: False
    obtain l1 r1 c1 where acq: "(if Immutable req then networkAcquireSpecific io p (Exclusive req) l c
        else networkAcquire io p l c) = Some (l1, r1, c1)"
      using run Some pool by (auto simp: handle_NetworkAcquire_def split: option.splits)
    note k1 = acquire_stage(1) [OF w acq] and q1 = acquire_stage(2) [OF w acq]
    show ?thesis
    proof (cases r1)
      case (Inl e)
      then show ?thesis
        using run Some pool acq k1 by (auto simp: handle_NetworkAcquire_def)
    next
      case (Inr q)
      obtain l2 r2 c2 where pre: "acquirePreallocatedIPs io q (PreAllocated req) l1 c1 = (l2, r2, c2)"
        by (cases "acquirePreallocatedIPs io q (PreAllocated req) l1 c1") auto
      note k2 = acquirePreallocatedIPs_keeps [OF keeps_wf [OF k1] pre]
      have k: "keeps l l2" "wf_server l2" "cnt l2 = cnt l1"
        using k1 k2(1) keeps_trans by (auto simp: keeps_cnt_def keeps_def)
      show ?thesis
      proof (cases r2)
        case None
        then have "l' = l2" "r = Inr q"
          using run Some pool acq Inr pre by (auto simp: handle_NetworkAcquire_def)
        moreover have "requested req p l l2 q"
          using q1 [OF Inr] k(3) by (auto simp: requested_def remapped_to_def)
        ultimately show ?thesis
          using k k2(2) [OF _ None] requested_cnt [OF w q1 [OF Inr]] Some pool by auto
      next
        case (Some e)
        obtain l3 r3 c3 where "lipam_networkRelease io q 0 l2 c2 = Some (l3, r3, c3)" "keeps l2 l3"
          by (rule lipam_networkRelease_keeps [OF k(2)])
        then show ?thesis
          using run \<open>ParsePrefix (Cidr req) = Some p\<close> pool acq Inr pre Some keeps_trans [OF k(1)]
          by (auto simp: handle_NetworkAcquire_def)
      qed
    qed
  qed
qed

text \<open>No request lowers a count, failed ones included: what a failed request gives back is its own.\<close>

lemma handle_NetworkAcquire_mono:
  assumes w: "wf_server l" and run: "handle_NetworkAcquire io req l c = Some (l', r, c')"
  shows "\<bar>cnt l x\<bar> \<le> \<bar>cnt l' x\<bar>"
proof (cases "cnt l' = cnt l")
  case False
  then obtain p where p: "ParsePrefix (Cidr req) = Some p" and pool: "\<not> (\<not> isInPool p l \<and> Immutable req)"
    using run by (auto simp: handle_NetworkAcquire_def split: option.splits if_splits)
  obtain l1 r1 c1 where acq: "(if Immutable req then networkAcquireSpecific io p (Exclusive req) l c
      else networkAcquire io p l c) = Some (l1, r1, c1)"
    using run p pool by (auto simp: handle_NetworkAcquire_def split: option.splits)
  have m: "\<bar>cnt l x\<bar> \<le> \<bar>cnt l1 x\<bar>"
    using acquire_stage(3) [OF w acq] requested_cnt_abs [OF w, of req p l1 _ x] by fastforce
  show ?thesis
  proof (cases r1)
    case (Inl e)
    then show ?thesis using run p pool acq m by (auto simp: handle_NetworkAcquire_def)
  next
    case (Inr q)
    obtain l2 r2 c2 where pre: "acquirePreallocatedIPs io q (PreAllocated req) l1 c1 = (l2, r2, c2)"
      by (cases "acquirePreallocatedIPs io q (PreAllocated req) l1 c1") auto
    have k: "wf_server l2" "cnt l2 = cnt l1"
      using acquirePreallocatedIPs_keeps(1) [OF keeps_wf [OF acquire_stage(1) [OF w acq]] pre]
      by (auto simp: keeps_cnt_def keeps_def)
    obtain l3 r3 c3 where rel: "lipam_networkRelease io q 0 l2 c2 = Some (l3, r3, c3)"
      and "cnt l3 = release q (cnt l2) \<or> cnt l3 = cnt l2"
      using lipam_networkRelease_keeps [OF k(1), of io q 0 c2] by (metis (no_types))
    then have "\<bar>cnt l x\<bar> \<le> \<bar>cnt l3 x\<bar>"
      using requested_release [OF w acquire_stage(2) [OF w acq Inr]] k(2) m by auto
    then show ?thesis
      using run p pool acq Inr pre rel k(2) m by (auto simp: handle_NetworkAcquire_def split: option.splits)
  qed
qed simp

text \<open>An immutable request for a network that can be granted succeeds.\<close>

lemma handle_NetworkAcquire_immutable:
  assumes w: "wf_server l" and g: "\<not> GraphvizEnabled (opts l)" and s: "ParsePrefix s = Some p"
    and ok: "in_pool (IpamCore l) p" "grantable e p (cnt l)"
  obtains l' c' where
    "handle_NetworkAcquire io \<lparr>Cidr = s, Immutable = True, Exclusive = e, PreAllocated = 0\<rparr> l c =
       Some (l', Inr p, c')" and "keeps l l'" and "cnt l' = grant e p (cnt l)"
proof -
  obtain l1 r1 c1 where a: "networkAcquireSpecific io p e l c = Some (l1, r1, c1)" "keeps l l1"
    "if in_pool (IpamCore l) p \<and> grantable e p (cnt l)
     then cnt l1 = grant e p (cnt l) \<and> r1 = finish io p l1
     else cnt l1 = cnt l \<and> r1 = Inl (AcquireFailed p)"
    by (rule networkAcquireSpecific_keeps [OF w])
  then have "r1 = Inr p" "cnt l1 = grant e p (cnt l)"
    using ok g by (auto simp: finish_def graphviz_def keeps_def)
  moreover have "isInPool p l"
    using ok(1) by (auto simp: isInPool_def IsPrefixInRoots_def in_pool_iff inside_def isPrefixChildOf_def)
  ultimately show thesis
    using that [of l1 c1] a s
    by (simp add: handle_NetworkAcquire_def acquirePreallocatedIPs_def FirstNIPsFromPrefix_def)
qed

end
