(* ===== verification/IpamReach.thy ===== *)
theory IpamReach
  imports IpamServerSpec "HOL-Library.Multiset"
begin

text \<open>
  The life of the server: its start from the resources of the cluster, the periodic comparison with
  them, and the states it can reach.
\<close>

section \<open>Start from the cluster\<close>

lemma isInPool_keeps: "keeps l l' \<Longrightarrow> isInPool p l' = isInPool p l"
proof -
  have "isInPool p x \<longleftrightarrow> (\<exists>q\<in>set (pools (IpamCore x)). isPrefixChildOf q p)" for x
    by (auto simp: isInPool_def IsPrefixInRoots_def pools_def)
  then show "keeps l l' \<Longrightarrow> isInPool p l' = isInPool p l" by (simp add: keeps_def)
qed

lemma in_pool_isInPool: "in_pool (IpamCore l) p \<Longrightarrow> isInPool p l"
  by (auto simp: isInPool_def IsPrefixInRoots_def in_pool_iff inside_def isPrefixChildOf_def)

text \<open>One network of the cluster: the body of both loops.\<close>

lemma acquire_one:
  assumes w: "wf_server l"
    and a: "networkAcquireSpecific io p e l c = Some (l1, Inr q, c1)"
    and b: "acquirePreallocatedIPs io p n l1 c1 = (l2, r, c2)"
  shows "keeps l l2" "in_pool (IpamCore l) p" "grantable e p (cnt l)" "cnt l2 = grant e p (cnt l)"
    "r = None \<Longrightarrow> set (FirstNIPsFromPrefix p n) \<subseteq> set (held l2 p)"
proof -
  obtain l' r' c' where x: "networkAcquireSpecific io p e l c = Some (l', r', c')" "keeps l l'"
    "if in_pool (IpamCore l) p \<and> grantable e p (cnt l)
     then cnt l' = grant e p (cnt l) \<and> r' = finish io p l'
     else cnt l' = cnt l \<and> r' = Inl (AcquireFailed p)"
    by (rule networkAcquireSpecific_keeps [OF w])
  then show g: "in_pool (IpamCore l) p" "grantable e p (cnt l)"
    using a by (auto split: if_splits)
  have l1: "keeps l l1" "cnt l1 = grant e p (cnt l)" using x a g by auto
  note k = acquirePreallocatedIPs_keeps [OF keeps_wf [OF l1(1)] b]
  show "keeps l l2" "cnt l2 = grant e p (cnt l)"
    using k(1) l1 keeps_trans by (auto simp: keeps_cnt_def)
  have "-1 \<le> cnt l p" using irefs_ge w by (simp add: wf_server_def)
  moreover have "cnt l p \<noteq> -1 \<or> e"
    using g(2) Overlaps_refl [OF in_pool_Valid [OF w [unfolded wf_server_def] g(1)]]
    by (fastforce simp: grantable_def)
  ultimately have "cnt l1 p \<noteq> 0" using l1(2) by (auto simp: grant_def)
  then show "r = None \<Longrightarrow> set (FirstNIPsFromPrefix p n) \<subseteq> set (held l2 p)" using k(2) by simp
qed

text \<open>The count of a network after the initialisation from a list of networks.\<close>

definition loaded :: "LiqoIPAM \<Rightarrow> (prefix \<times> prefixDetails) list \<Rightarrow> prefix \<Rightarrow> int" where
  "loaded l nets q =
     (case map_of nets q of
        None \<Rightarrow> cnt l q
      | Some d \<Rightarrow> if \<not> isInPool q l then cnt l q else if exclusive d then -1 else cnt l q + 1)"

lemma initializeNetworks_loop_keeps:
  assumes "wf_server l" and "initializeNetworks_loop io nets l c = Some (l', r, c')"
  shows "keeps l l' \<and> (r = None \<longrightarrow> distinct (map fst nets) \<longrightarrow> cnt l' = loaded l nets \<and>
    (\<forall>(p, d)\<in>set nets. isInPool p l \<longrightarrow> in_pool (IpamCore l) p))"
  using assms
proof (induction nets arbitrary: l c)
  case Nil
  then show ?case by (auto simp: keeps_refl loaded_def)
next
  case (Cons pd nets)
  obtain p d where pd: "pd = (p, d)" by (cases pd)
  show ?case
  proof (cases "\<not> isInPool p l \<and> \<not> exclusive d")
    case True
    then have "initializeNetworks_loop io nets l c = Some (l', r, c')" using Cons.prems(2) pd by simp
    from Cons.IH [OF Cons.prems(1) this] show ?thesis
      using True pd by (auto simp: loaded_def fun_eq_iff split: option.splits)
  next
    case False
    obtain l1 r1 c1 where a: "networkAcquireSpecific io p (exclusive d) l c = Some (l1, r1, c1)" "keeps l l1"
      by (rule networkAcquireSpecific_keeps [OF Cons.prems(1)])
    show ?thesis
    proof (cases r1)
      case (Inl e)
      then show ?thesis using Cons.prems(2) False a pd by auto
    next
      case (Inr q)
      obtain l2 r2 c2 where b: "acquirePreallocatedIPs io p (preallocated d) l1 c1 = (l2, r2, c2)"
        by (cases "acquirePreallocatedIPs io p (preallocated d) l1 c1") auto
      note one = acquire_one [OF Cons.prems(1) a(1) [unfolded Inr] b]
      show ?thesis
      proof (cases r2)
        case (Some e)
        obtain l3 r3 c3 where "lipam_networkRelease io p 0 l2 c2 = Some (l3, r3, c3)" "keeps l2 l3"
          by (rule lipam_networkRelease_keeps [OF keeps_wf [OF one(1)]])
        then show ?thesis
          using Cons.prems(2) False a(1) Inr b Some pd keeps_trans [OF one(1)] by auto
      next
        case None
        then have "initializeNetworks_loop io nets l2 c2 = Some (l', r, c')"
          using Cons.prems(2) False a(1) Inr b pd by simp
        note ih = Cons.IH [OF keeps_wf [OF one(1)] this]
        have ip: "isInPool q l2 = isInPool q l" "in_pool (IpamCore l2) = in_pool (IpamCore l)" for q
          using isInPool_keeps keeps_in_pool one(1) by auto
        have "loaded l2 nets = loaded l (pd # nets)" if "distinct (map fst (pd # nets))"
        proof
          fix q
          have "map_of nets p = None" using that pd by (auto simp: map_of_eq_None_iff)
          then show "loaded l2 nets q = loaded l (pd # nets) q"
            using pd one(4) in_pool_isInPool [OF one(2)] ip
            by (auto simp: loaded_def grant_def split: option.splits)
        qed
        then show ?thesis using ih pd one(2) ip keeps_trans [OF one(1)] by auto
      qed
    qed
  qed
qed

lemma initializeIPs_loop_keeps:
  "wf_server l \<Longrightarrow> initializeIPs_loop io xs l c = (l', r, c') \<Longrightarrow>
   keeps_cnt l l' \<and> (r = None \<longrightarrow> (\<forall>(a, p)\<in>set xs. a \<in> set (held l' p))) \<and>
   (\<forall>p. set (held l p) \<subseteq> set (held l' p))"
proof (induction xs arbitrary: l c)
  case Nil
  then show ?case by (simp add: keeps_cnt_def keeps_refl)
next
  case (Cons x xs)
  obtain a p where x: "x = (a, p)" by (cases x)
  obtain l1 r1 c1 where q: "ipAcquireWithAddr io a p l c = (l1, r1, c1)"
    by (cases "ipAcquireWithAddr io a p l c") auto
  note k = ipAcquireWithAddr_keeps [OF Cons.prems(1) q]
  have sub: "set (held l y) \<subseteq> set (held l1 y)" for y using k(3) k(4) [of y] by (cases "y = p") simp_all
  show ?case
  proof (cases r1)
    case (Some e)
    then have "l' = l1" "r = Some e" using Cons.prems(2) x q by simp_all
    then show ?thesis using k(1) sub by simp
  next
    case None
    then have run: "initializeIPs_loop io xs l1 c1 = (l', r, c')" using Cons.prems(2) x q by simp
    have "wf_server l1" using k(1) by (simp add: keeps_cnt_def keeps_def)
    from Cons.IH [OF this run]
    have ih: "keeps_cnt l1 l'" "r = None \<longrightarrow> (\<forall>(a, p)\<in>set xs. a \<in> set (held l' p))"
      "\<forall>p. set (held l1 p) \<subseteq> set (held l' p)"
      by simp_all
    have "a \<in> set (held l1 p)" using k(2) [OF None] by simp
    then have "a \<in> set (held l' p)" using ih(3) by blast
    moreover have "\<forall>y. set (held l y) \<subseteq> set (held l' y)" using sub ih(3) by blast
    ultimately show ?thesis using ih(2) x keeps_cnt_trans [OF k(1) ih(1)] by simp
  qed
qed

lemma networks_loop_distinct:
  "networks_loop nws acc = Inr nets \<Longrightarrow> distinct (map fst acc) \<Longrightarrow> distinct (map fst nets)"
  by (induction nws arbitrary: acc) (auto simp: distinct_update split: if_splits option.splits)

lemma networks_loop_old: "networks_loop nws acc = Inr nets \<Longrightarrow> map_of acc p \<noteq> None \<Longrightarrow> isNetworkInCluster nets p"
proof (induction nws arbitrary: acc)
  case (Cons x nws)
  have "map_of (put q d acc) p \<noteq> None" for q d using Cons.prems(2) by (simp add: map_of_put)
  then show ?case using Cons.prems Cons.IH by (simp split: if_splits option.splits)
qed (simp add: isNetworkInCluster_def)

lemma networks_loop_mem:
  "networks_loop nws acc = Inr nets \<Longrightarrow> nw \<in> set nws \<Longrightarrow> \<not> nw_Deleting nw \<Longrightarrow>
    ParsePrefix (nw_StatusCIDR nw) = Some p \<Longrightarrow> isNetworkInCluster nets p"
proof (induction nws arbitrary: acc)
  case (Cons x nws)
  show ?case
  proof (cases "x = nw")
    case True
    have "nw_StatusCIDR nw \<noteq> []" using Cons.prems(4) by (auto simp: ParsePrefix_def)
    then show ?thesis using True Cons.prems networks_loop_old [of nws _ nets p] by (simp add: map_of_put)
  next
    case False
    then show ?thesis using Cons.prems Cons.IH by (simp split: if_splits option.splits)
  qed
qed simp

text \<open>An initialisation without error, from a server without networks.\<close>

lemma initializeNetworks_loaded:
  assumes w: "wf_server l" and z: "cnt l = (\<lambda>_. 0)" and run: "initializeNetworks io ordN (Inr nws) l c = Some (l', None, c')"
    and ord: "\<And>xs. mset (ordN xs) = mset xs"
  obtains nets where "networks_loop nws [] = Inr nets"
    and "cnt l' = (\<lambda>p. case map_of nets p of
      None \<Rightarrow> 0 | Some d \<Rightarrow> if \<not> isInPool p l then 0 else if exclusive d then -1 else 1)"
proof -
  obtain nets where n: "networks_loop nws [] = Inr nets" and r: "initializeNetworks_loop io (ordN nets) l c = Some (l', None, c')"
    using run by (auto simp: initializeNetworks_def listNetworksOnCluster_def split: sum.splits)
  have m: "mset (map fst (ordN nets)) = mset (map fst nets)" using ord by (simp add: mset_map)
  have dn: "distinct (map fst nets)" using networks_loop_distinct [OF n] by simp
  then have d: "distinct (map fst (ordN nets))" using m by (metis mset_eq_imp_distinct_iff)
  have "set (ordN nets) = set nets" using ord mset_eq_setD by blast
  then have "map_of (ordN nets) = map_of nets" using d dn by (simp add: map_of_inject_set)
  moreover have "cnt l' = loaded l (ordN nets)" using initializeNetworks_loop_keeps [OF w r] d by simp
  ultimately have "cnt l' = (\<lambda>p. case map_of nets p of
      None \<Rightarrow> 0 | Some d \<Rightarrow> if \<not> isInPool p l then 0 else if exclusive d then -1 else 1)"
    by (auto simp: loaded_def z fun_eq_iff split: option.splits)
  then show thesis using that n by blast
qed

lemma initializeNetworks_keeps:
  assumes "wf_server l" and "initializeNetworks io ordN networks l c = Some (l', r, c')"
  shows "keeps l l'"
  using assms initializeNetworks_loop_keeps [OF assms(1), of io _ c l' r c']
  by (auto simp: initializeNetworks_def keeps_refl split: sum.splits)

lemma initializeIPs_keeps:
  assumes "wf_server l" and "initializeIPs io ordI iplist l c = (l', r, c')"
  shows "keeps_cnt l l'"
proof (cases "listIPsOnCluster iplist")
  case (Inl e)
  then show ?thesis using assms by (simp add: initializeIPs_def keeps_cnt_def keeps_refl)
next
  case (Inr xs)
  then show ?thesis
    using assms initializeIPs_loop_keeps [OF assms(1), of io "ordI xs" c l' r c']
    by (simp add: initializeIPs_def)
qed

lemma initialize_keeps:
  assumes "wf_server l" and "initialize io ordN ordI networks iplist l c = Some (l', r, c')"
  shows "keeps l l'"
proof -
  obtain l1 r1 c1 where a: "initializeNetworks io ordN networks l c = Some (l1, r1, c1)"
    using assms(2) by (auto simp: initialize_def split: option.splits)
  note k = initializeNetworks_keeps [OF assms(1) a]
  show ?thesis
  proof (cases r1)
    case (Some e)
    then show ?thesis using assms(2) a k by (simp add: initialize_def)
  next
    case None
    then have "initializeIPs io ordI iplist l1 c1 = (l', r, c')"
      using assms(2) a by (simp add: initialize_def)
    from initializeIPs_keeps [OF keeps_wf [OF k] this] show ?thesis
      using k keeps_trans by (auto simp: keeps_cnt_def)
  qed
qed

lemma New_wf:
  assumes p: "\<And>ps. parse_pools (Pools os) = Inr ps \<Longrightarrow> \<forall>p\<in>set ps. pool4 p"
    and "New io ordN ordI networks iplist os c = Some (Inr l, c')"
  shows "wf_server l" "opts l = os" "parse_pools (Pools os) = Inr (pools (IpamCore l))"
proof -
  obtain ps m c1 c2 where ps: "parse_pools (Pools os) = Inr ps" and m: "NewIpam ps c = (Inr m, c1)"
    and i: "initialize io ordN ordI networks iplist \<lparr>IpamCore = m, opts = os\<rparr> c1 = Some (l, None, c2)"
    using assms(2) by (auto simp: New_def split: sum.splits option.splits prod.splits)
  note n = NewIpam_correct [OF p [OF ps] m]
  have "wf_server \<lparr>IpamCore = m, opts = os\<rparr>" using n(1) by (simp add: wf_server_def)
  from initialize_keeps [OF this i] show "wf_server l" "opts l = os"
    "parse_pools (Pools os) = Inr (pools (IpamCore l))"
    using n(2) ps by (auto simp: keeps_def)
qed

section \<open>Synchronisation\<close>

text \<open>The part of \<open>syncNetworks\<close> that adds networks only adds references.\<close>

definition grows :: "(prefix \<Rightarrow> int) \<Rightarrow> (prefix \<Rightarrow> int) \<Rightarrow> bool" where
  "grows f g \<longleftrightarrow> (\<forall>q. \<bar>f q\<bar> \<le> \<bar>g q\<bar>)"

lemma grows_trans: "grows f g \<Longrightarrow> grows g h \<Longrightarrow> grows f h"
  unfolding grows_def using order.trans by blast

lemma grows_nonzero: "grows f g \<Longrightarrow> f q \<noteq> 0 \<Longrightarrow> g q \<noteq> 0"
  unfolding grows_def by (metis abs_le_zero_iff abs_zero)

lemma grows_grant:
  assumes "\<And>q. -1 \<le> f q" and "grantable e p f" and "Valid p"
  shows "grows f (grant e p f)"
proof -
  have "f p = 0 \<or> \<not> e \<and> f p \<noteq> -1" using assms(2) Overlaps_refl [OF assms(3)] unfolding grantable_def by blast
  then have "\<bar>f p\<bar> \<le> \<bar>grant e p f p\<bar>" using assms(1) [of p] by (auto simp: grant_def)
  then show ?thesis by (auto simp: grows_def grant_def split: if_splits)
qed

lemma grant_nonzero:
  assumes "-1 \<le> f p" and "grantable e p f" and "Valid p"
  shows "grant e p f p \<noteq> 0"
proof -
  have "Overlaps p p" using assms(3) by (rule Overlaps_refl)
  then have "e \<or> f p \<noteq> -1" using assms(2) by (auto simp: grantable_def)
  then show ?thesis using assms(1) by (auto simp: grant_def)
qed

lemma sync_one:
  assumes w: "wf_server l"
    and a: "(if p \<notin> set cached then networkAcquireSpecific io p e l c else Some (l, Inr p, c)) =
      Some (l1, Inr q, c1)"
    and b: "acquirePreallocatedIPs io p n l1 c1 = (l2, r, c2)"
    and cached: "\<forall>p\<in>set cached. cnt l p \<noteq> 0"
  shows "keeps l l2" "grows (cnt l) (cnt l2)" "cnt l2 p \<noteq> 0" "\<forall>q. q \<noteq> p \<longrightarrow> cnt l2 q = cnt l q"
proof -
  have ge: "-1 \<le> cnt l q" for q using irefs_ge w by (simp add: wf_server_def)
  have "keeps l l2 \<and> grows (cnt l) (cnt l2) \<and> cnt l2 p \<noteq> 0 \<and> (\<forall>q. q \<noteq> p \<longrightarrow> cnt l2 q = cnt l q)"
  proof (cases "p \<in> set cached")
    case True
    then have "l1 = l" using a by simp
    then show ?thesis
      using acquirePreallocatedIPs_keeps(1) [OF w] b cached True by (auto simp: keeps_cnt_def grows_def)
  next
    case False
    then have a': "networkAcquireSpecific io p e l c = Some (l1, Inr q, c1)" using a by simp
    note one = acquire_one [OF w a' b]
    have "Valid p" using in_pool_Valid [OF w [unfolded wf_server_def] one(2)] .
    then show ?thesis
      using one grows_grant [OF ge one(3)] grant_nonzero [OF ge one(3)] by (simp add: grant_def)
  qed
  then show "keeps l l2" "grows (cnt l) (cnt l2)" "cnt l2 p \<noteq> 0" "\<forall>q. q \<noteq> p \<longrightarrow> cnt l2 q = cnt l q"
    by simp_all
qed

lemma syncNetworkAcquire_keeps:
  assumes "wf_server l" and "syncNetworkAcquire io cached nets l c = Some (l', r, c')"
    and "\<forall>p\<in>set cached. cnt l p \<noteq> 0"
  shows "keeps l l' \<and> (r = None \<longrightarrow> grows (cnt l) (cnt l') \<and>
    (\<forall>(p, d)\<in>set nets. isInPool p l \<longrightarrow> cnt l' p \<noteq> 0) \<and>
    (\<forall>q. q \<notin> fst ` set nets \<longrightarrow> cnt l' q = cnt l q))"
  using assms
proof (induction nets arbitrary: l c)
  case Nil
  then show ?case by (auto simp: keeps_refl grows_def)
next
  case (Cons pd nets)
  obtain p d where pd: "pd = (p, d)" by (cases pd)
  note w = Cons.prems(1) and step = Cons.prems(2)
  have ge: "-1 \<le> cnt l q" for q using irefs_ge w by (simp add: wf_server_def)
  show ?case
  proof (cases "\<not> isInPool p l \<and> \<not> exclusive d")
    case True
    then have "syncNetworkAcquire io cached nets l c = Some (l', r, c')" using step pd by simp
    from Cons.IH [OF w this Cons.prems(3)] show ?thesis using True pd by auto
  next
    case False
    let ?acq = "if p \<notin> set cached then networkAcquireSpecific io p (exclusive d) l c else Some (l, Inr p, c)"
    have "\<exists>l1 r1 c1. ?acq = Some (l1, r1, c1) \<and> keeps l l1"
    proof (cases "p \<in> set cached")
      case True
      then show ?thesis using keeps_refl [OF w] by auto
    next
      case False
      obtain l1 r1 c1 where "networkAcquireSpecific io p (exclusive d) l c = Some (l1, r1, c1)" "keeps l l1"
        by (rule networkAcquireSpecific_keeps [OF w])
      then show ?thesis using False by auto
    qed
    then obtain l1 r1 c1 where a: "?acq = Some (l1, r1, c1)" and kl1: "keeps l l1" by blast
    show ?thesis
    proof (cases r1)
      case (Inl e)
      then show ?thesis using step False a pd kl1 by auto
    next
      case (Inr q)
      obtain l2 r2 c2 where b: "acquirePreallocatedIPs io p (preallocated d) l1 c1 = (l2, r2, c2)"
        by (cases "acquirePreallocatedIPs io p (preallocated d) l1 c1") auto
      have k2: "keeps l l2" "grows (cnt l) (cnt l2)" "cnt l2 p \<noteq> 0" "\<forall>q. q \<noteq> p \<longrightarrow> cnt l2 q = cnt l q"
        using sync_one [OF w a [unfolded Inr] b] Cons.prems(3) by auto
      show ?thesis
      proof (cases r2)
        case (Some e)
        obtain l3 r3 c3 where "lipam_networkRelease io p 0 l2 c2 = Some (l3, r3, c3)" "keeps l2 l3"
          by (rule lipam_networkRelease_keeps [OF keeps_wf [OF k2(1)]])
        then show ?thesis using step False a Inr b Some pd keeps_trans [OF k2(1)] by auto
      next
        case None
        then have run: "syncNetworkAcquire io cached nets l2 c2 = Some (l', r, c')"
          using step False a Inr b pd by simp
        have "\<forall>p\<in>set cached. cnt l2 p \<noteq> 0" using Cons.prems(3) grows_nonzero [OF k2(2)] by blast
        note ih = Cons.IH [OF keeps_wf [OF k2(1)] run this]
        show ?thesis
          using ih pd k2 isInPool_keeps [OF k2(1)] keeps_trans [OF k2(1)] grows_trans [OF k2(2)] grows_nonzero
          by auto
      qed
    qed
  qed
qed

text \<open>The part that frees networks touches only cached networks that the cluster does not have.\<close>

definition dropped :: "int \<Rightarrow> int \<Rightarrow> bool" where
  "dropped k k' \<longleftrightarrow> k' = k \<or> k \<noteq> 0 \<and> k' = (if k = -1 then 0 else k - 1)"

lemma syncNetworkFree_keeps:
  assumes "wf_server l" and "syncNetworkFree io nets cached l c = Some (l', r, c')" and "distinct cached"
  shows "keeps l l' \<and>
    (\<forall>q. if q \<in> set cached \<and> \<not> isNetworkInCluster nets q then dropped (cnt l q) (cnt l' q)
         else cnt l' q = cnt l q)"
  using assms
proof (induction cached arbitrary: l c)
  case Nil
  then show ?case by (simp add: keeps_refl)
next
  case (Cons p cached)
  note w = Cons.prems(1)
  show ?case
  proof (cases "isNetworkInCluster nets p")
    case True
    then have "syncNetworkFree io nets cached l c = Some (l', r, c')" using Cons.prems(2) by simp
    from Cons.IH [OF w this] show ?thesis using True Cons.prems(3) by auto
  next
    case False
    obtain l1 r1 c1 where a: "lipam_networkRelease io p (SyncGracePeriod (opts l)) l c = Some (l1, r1, c1)"
      and k: "keeps l l1"
      and "if releasable_in p (IpamCore l) (SyncGracePeriod (opts l)) (shd c)
         then cnt l p \<noteq> 0 \<and> cnt l1 = release p (cnt l) \<and> r1 = graphviz io l1
         else cnt l1 = cnt l \<and> r1 = None"
      by (rule lipam_networkRelease_keeps [OF w])
    then have d: "dropped (cnt l p) (cnt l1 p)" "\<forall>q. q \<noteq> p \<longrightarrow> cnt l1 q = cnt l q"
      by (auto simp: dropped_def release_def split: if_splits)
    show ?thesis
    proof (cases r1)
      case (Some e)
      then have "l' = l1" using Cons.prems(2) False a by simp
      moreover have "dropped (cnt l q) (cnt l1 q)" for q
        using d by (cases "q = p") (simp_all add: dropped_def)
      ultimately show ?thesis using k d(2) False by simp metis
    next
      case None
      then have "syncNetworkFree io nets cached l1 c1 = Some (l', r, c')"
        using Cons.prems(2) False a by simp
      from Cons.IH [OF keeps_wf [OF k] this] have
        "keeps l1 l'" "\<forall>q. if q \<in> set cached \<and> \<not> isNetworkInCluster nets q
           then dropped (cnt l1 q) (cnt l' q) else cnt l' q = cnt l1 q"
        using Cons.prems(3) by simp_all
      then show ?thesis
        using keeps_trans [OF k] d False Cons.prems(3) by (metis distinct.simps(2) set_ConsD list.set_intros)
    qed
  qed
qed

lemma syncNetworks_keeps:
  assumes w: "wf_server l" and run: "syncNetworks io ordN ordC networks l c = Some (l', r, c')"
    and ord: "\<And>xs. mset (ordN xs) = mset xs" "\<And>xs. mset (ordC xs) = mset xs"
  shows "keeps l l' \<and> (r = None \<longrightarrow>
    (\<exists>nets. listNetworksOnCluster networks = Inr nets \<and>
      (\<forall>(p, d)\<in>set nets. isInPool p l \<longrightarrow> cnt l' p \<noteq> 0) \<and>
      (\<forall>q. \<not> isNetworkInCluster nets q \<longrightarrow> dropped (cnt l q) (cnt l' q)) \<and>
      (\<forall>q. isNetworkInCluster nets q \<longrightarrow> \<bar>cnt l q\<bar> \<le> \<bar>cnt l' q\<bar>)))"
proof (cases "listNetworksOnCluster networks")
  case (Inl e)
  then show ?thesis using run w by (auto simp: syncNetworks_def keeps_refl)
next
  case (Inr nets)
  let ?cached = "SliceToMap (ListNetworks (IpamCore l))"
  have cached: "set ?cached = {p. cnt l p \<noteq> 0}" "distinct ?cached"
    using ListNetworks_correct [OF w [unfolded wf_server_def]] by (simp_all add: SliceToMap_def)
  obtain l1 r1 c1 where a: "syncNetworkAcquire io ?cached (ordN nets) l c = Some (l1, r1, c1)"
    using run Inr by (auto simp: syncNetworks_def Let_def split: option.splits)
  have "keeps l l1 \<and> (r1 = None \<longrightarrow> grows (cnt l) (cnt l1) \<and>
    (\<forall>(p, d)\<in>set (ordN nets). isInPool p l \<longrightarrow> cnt l1 p \<noteq> 0) \<and>
    (\<forall>q. q \<notin> fst ` set (ordN nets) \<longrightarrow> cnt l1 q = cnt l q))"
    by (rule syncNetworkAcquire_keeps [OF w a]) (simp add: cached)
  then have k1: "keeps l l1" and i1: "r1 = None \<Longrightarrow> \<forall>(p, d)\<in>set nets. isInPool p l \<longrightarrow> cnt l1 p \<noteq> 0"
    and o1: "r1 = None \<Longrightarrow> \<forall>q. q \<notin> fst ` set nets \<longrightarrow> cnt l1 q = cnt l q"
    and g1: "r1 = None \<Longrightarrow> grows (cnt l) (cnt l1)"
    using mset_eq_setD [OF ord(1), of nets] by auto
  have cl: "isNetworkInCluster nets q \<longleftrightarrow> q \<in> fst ` set nets" for q
    by (auto simp: isNetworkInCluster_def map_of_eq_None_iff)
  show ?thesis
  proof (cases r1)
    case (Some e)
    then show ?thesis using run Inr a k1 by (auto simp: syncNetworks_def Let_def)
  next
    case None
    then have b: "syncNetworkFree io nets (ordC ?cached) l1 c1 = Some (l', r, c')"
      using run Inr a by (simp add: syncNetworks_def Let_def)
    have "distinct (ordC ?cached)" using cached(2) ord(2) by (metis mset_eq_imp_distinct_iff)
    from syncNetworkFree_keeps [OF keeps_wf [OF k1] b this]
    have k2: "keeps l1 l'" and f: "\<forall>q. if q \<in> set ?cached \<and> \<not> isNetworkInCluster nets q
        then dropped (cnt l1 q) (cnt l' q) else cnt l' q = cnt l1 q"
      using mset_eq_setD [OF ord(2), of ?cached] by auto
    have "cnt l' p \<noteq> 0" if "(p, d) \<in> set nets" "isInPool p l" for p d
      using f i1 [OF None] that cl [of p] by (metis (mono_tags, lifting) case_prodD fst_conv image_eqI)
    moreover have "dropped (cnt l q) (cnt l' q)" if "\<not> isNetworkInCluster nets q" for q
      using f o1 [OF None] that cl [of q] by (metis dropped_def)
    moreover have "\<bar>cnt l q\<bar> \<le> \<bar>cnt l' q\<bar>" if "isNetworkInCluster nets q" for q
      using f g1 [OF None] that by (metis grows_def)
    ultimately show ?thesis using Inr keeps_trans [OF k1 k2] by blast
  qed
qed

lemma syncIPsAcquire_keeps:
  "wf_server l \<Longrightarrow> syncIPsAcquire io cached xs l c = (l', r, c') \<Longrightarrow> keeps_cnt l l'"
proof (induction xs arbitrary: l c)
  case Nil
  then show ?case by (simp add: keeps_cnt_def keeps_refl)
next
  case (Cons x xs)
  obtain a p where x: "x = (a, p)" by (cases x)
  show ?case
  proof (cases "map_of cached a = None")
    case False
    then show ?thesis using Cons x by auto
  next
    case True
    obtain l1 r1 c1 where q: "ipAcquireWithAddr io a p l c = (l1, r1, c1)"
      by (cases "ipAcquireWithAddr io a p l c") auto
    note k = ipAcquireWithAddr_keeps(1) [OF Cons.prems(1) q]
    have w1: "wf_server l1" using k by (simp add: keeps_cnt_def keeps_def)
    show ?thesis
      using Cons.IH [OF w1, of c1] Cons.prems(2) x q k True keeps_cnt_trans [OF k] by (cases r1) auto
  qed
qed

lemma syncIPsFree_keeps:
  "wf_server l \<Longrightarrow> syncIPsFree io cips nets xs l c = (l', r, c') \<Longrightarrow> keeps_cnt l l' \<and>
   (\<forall>a p. a \<in> set (held l p) \<and> (map_of cips a \<noteq> None \<or> iscachedIPPreallocated a p nets) \<longrightarrow>
      a \<in> set (held l' p))"
proof (induction xs arbitrary: l c)
  case Nil
  then show ?case by (simp add: keeps_cnt_def keeps_refl)
next
  case (Cons x xs)
  obtain a p where x: "x = (a, p)" by (cases x)
  show ?case
  proof (cases "map_of cips a = None \<and> \<not> iscachedIPPreallocated a p nets")
    case False
    then have "syncIPsFree io cips nets xs l c = (l', r, c')" using Cons.prems(2) x by auto
    then show ?thesis using Cons.IH [OF Cons.prems(1)] by blast
  next
    case True
    obtain l1 r1 c1 where q: "lipam_ipRelease io a p (SyncGracePeriod (opts l)) l c = (l1, r1, c1)"
      by (cases "lipam_ipRelease io a p (SyncGracePeriod (opts l)) l c") auto
    note k = lipam_ipRelease_keeps [OF Cons.prems(1) q]
    have w1: "wf_server l1" using k(1) by (simp add: keeps_cnt_def keeps_def)
    have keep: "b \<in> set (held l1 q)"
      if "b \<in> set (held l q)" "map_of cips b \<noteq> None \<or> iscachedIPPreallocated b q nets" for b q
    proof (cases "q = p")
      case eq: True
      then have "b \<noteq> a" using that(2) True by auto
      then show ?thesis using k(3) that(1) eq by blast
    next
      case False
      then show ?thesis using k(4) that(1) by simp
    qed
    show ?thesis
    proof (cases r1)
      case (Some e)
      then have "l' = l1" using Cons.prems(2) x q True by simp
      then show ?thesis using k(1) keep by simp
    next
      case None
      then have "syncIPsFree io cips nets xs l1 c1 = (l', r, c')" using Cons.prems(2) x q True by simp
      from Cons.IH [OF w1 this] show ?thesis using keep keeps_cnt_trans [OF k(1)] by simp
    qed
  qed
qed

lemma syncIPs_keeps:
  assumes w: "wf_server l" and run: "syncIPs io ordI networks iplist l c = (l', r, c')"
  shows "keeps_cnt l l'"
proof (cases "\<exists>cips nets cached. listIPsOnCluster iplist = Inr cips \<and> listNetworksOnCluster networks = Inr nets \<and>
    cached_ips_loop l (ListNetworks (IpamCore l)) [] = Inr cached")
  case False
  then have "l' = l" using run by (auto simp: syncIPs_def split: sum.splits)
  then show ?thesis using w by (simp add: keeps_cnt_def keeps_refl)
next
  case True
  then obtain cips nets cached where x: "listIPsOnCluster iplist = Inr cips"
    "listNetworksOnCluster networks = Inr nets"
    "cached_ips_loop l (ListNetworks (IpamCore l)) [] = Inr cached" by blast
  obtain l1 r1 c1 where a: "syncIPsAcquire io cached (ordI cips) l c = (l1, r1, c1)"
    by (cases "syncIPsAcquire io cached (ordI cips) l c") auto
  note k = syncIPsAcquire_keeps [OF w a]
  have w1: "wf_server l1" using k by (simp add: keeps_cnt_def keeps_def)
  show ?thesis
  proof (cases r1)
    case (Some e)
    then show ?thesis using run x a k by (simp add: syncIPs_def)
  next
    case None
    then have "syncIPsFree io cips nets (ordI cached) l1 c1 = (l', r, c')"
      using run x a by (simp add: syncIPs_def)
    from syncIPsFree_keeps [OF w1 this] show ?thesis using keeps_cnt_trans [OF k] by simp
  qed
qed

section \<open>Reachable states\<close>

text \<open>
  One step of the server: a handler with any request, any clock and any answer of the file system,
  or a tick of the synchronisation with any resources. The mutex orders the steps. An error of the
  synchronisation ends the process, and so does a panic.
\<close>

inductive server_step :: "LiqoIPAM \<Rightarrow> LiqoIPAM \<Rightarrow> bool" where
  step_IPAcquire: "handle_IPAcquire io s l c = (l', r, c') \<Longrightarrow> server_step l l'"
| step_IPRelease: "handle_IPRelease io ip s l c = (l', r', c') \<Longrightarrow> server_step l l'"
| step_NetworkAcquire: "handle_NetworkAcquire io req l c = Some (l', r'', c') \<Longrightarrow> server_step l l'"
| step_NetworkRelease: "handle_NetworkRelease io s l c = Some (l', r', c') \<Longrightarrow> server_step l l'"
| step_sync: "sync_tick io ordN ordC ordI networks networks' iplist l c = Some (l', None, c') \<Longrightarrow>
    (\<And>xs. mset (ordN xs) = mset xs) \<Longrightarrow> (\<And>xs. mset (ordC xs) = mset xs) \<Longrightarrow> server_step l l'"

inductive reachable :: "ServerOptions \<Rightarrow> LiqoIPAM \<Rightarrow> bool" for os where
  reach_New: "New io ordN ordI networks iplist os c = Some (Inr l, c') \<Longrightarrow> reachable os l"
| reach_step: "reachable os l \<Longrightarrow> server_step l l' \<Longrightarrow> reachable os l'"

definition pools4 :: "ServerOptions \<Rightarrow> bool" where
  "pools4 os \<longleftrightarrow> (\<forall>ps. parse_pools (Pools os) = Inr ps \<longrightarrow> (\<forall>p\<in>set ps. pool4 p))"

lemma sync_tick_keeps:
  assumes w: "wf_server l"
    and run: "sync_tick io ordN ordC ordI networks networks' iplist l c = Some (l', r, c')"
    and ord: "\<And>xs. mset (ordN xs) = mset xs" "\<And>xs. mset (ordC xs) = mset xs"
  shows "keeps l l'"
proof -
  obtain l1 r1 c1 where a: "syncNetworks io ordN ordC networks l c = Some (l1, r1, c1)"
    using run by (auto simp: sync_tick_def split: option.splits)
  have k: "keeps l l1" using syncNetworks_keeps [OF w a ord] by blast
  show ?thesis
  proof (cases r1)
    case (Some e)
    then show ?thesis using run a k by (simp add: sync_tick_def)
  next
    case None
    then have "syncIPs io ordI networks' iplist l1 c1 = (l', r, c')"
      using run a by (simp add: sync_tick_def)
    from syncIPs_keeps [OF keeps_wf [OF k] this] show ?thesis
      using keeps_trans [OF k] by (simp add: keeps_cnt_def)
  qed
qed

text \<open>A server that starts without error counts every network of the cluster in its pools once.\<close>

lemma New_loaded:
  assumes p4: "pools4 os" and run: "New io ordN ordI (Inr nws) iplist os c = Some (Inr l, c')"
    and ord: "\<And>xs. mset (ordN xs) = mset xs"
  obtains nets where "networks_loop nws [] = Inr nets" and "\<And>p. isNetworkInCluster nets p \<Longrightarrow> isInPool p l \<Longrightarrow> \<bar>cnt l p\<bar> = 1"
proof -
  obtain ps m c1 c2 where ps: "parse_pools (Pools os) = Inr ps" and m: "NewIpam ps c = (Inr m, c1)"
    and i: "initialize io ordN ordI (Inr nws) iplist \<lparr>IpamCore = m, opts = os\<rparr> c1 = Some (l, None, c2)"
    using run by (auto simp: New_def split: sum.splits option.splits prod.splits)
  let ?l = "\<lparr>IpamCore = m, opts = os\<rparr>"
  have "\<forall>p\<in>set ps. pool4 p" using p4 ps by (simp add: pools4_def)
  note n = NewIpam_correct [OF this m]
  have w: "wf_server ?l" "cnt ?l = (\<lambda>_. 0)" using n(1,3) by (simp_all add: wf_server_def)
  obtain l1 c3 where a: "initializeNetworks io ordN (Inr nws) ?l c1 = Some (l1, None, c3)"
    and b: "initializeIPs io ordI iplist l1 c3 = (l, None, c2)"
    using i by (auto simp: initialize_def split: option.splits prod.splits)
  obtain nets where nets: "networks_loop nws [] = Inr nets" "cnt l1 = (\<lambda>p. case map_of nets p of
      None \<Rightarrow> 0 | Some d \<Rightarrow> if \<not> isInPool p ?l then 0 else if exclusive d then -1 else 1)"
    by (rule initializeNetworks_loaded [OF w a ord])
  have k: "keeps ?l l1" "keeps_cnt l1 l"
    using initializeNetworks_keeps [OF w(1) a] initializeIPs_keeps [OF _ b] keeps_wf by blast+
  have "isInPool p l = isInPool p ?l" for p
    using isInPool_keeps [OF keeps_trans [OF k(1)]] k(2) by (simp add: keeps_cnt_def)
  then have "\<bar>cnt l p\<bar> = 1" if "isNetworkInCluster nets p" "isInPool p l" for p
    using that nets(2) k(2) by (auto simp: isNetworkInCluster_def keeps_cnt_def)
  then show thesis using that nets(1) by blast
qed

text \<open>A tick without error takes no reference from a network of the cluster.\<close>

lemma sync_tick_counts:
  assumes w: "wf_server l"
    and run: "sync_tick io ordN ordC ordI (Inr nws) networks' iplist l c = Some (l', None, c')"
    and ord: "\<And>xs. mset (ordN xs) = mset xs" "\<And>xs. mset (ordC xs) = mset xs"
  obtains nets where "networks_loop nws [] = Inr nets" and "\<And>q. isNetworkInCluster nets q \<Longrightarrow> \<bar>cnt l q\<bar> \<le> \<bar>cnt l' q\<bar>"
proof -
  obtain l1 c1 where a: "syncNetworks io ordN ordC (Inr nws) l c = Some (l1, None, c1)"
    and b: "syncIPs io ordI networks' iplist l1 c1 = (l', None, c')"
    using run by (auto simp: sync_tick_def split: option.splits)
  obtain nets where n: "listNetworksOnCluster (Inr nws) = Inr nets" "\<forall>q. isNetworkInCluster nets q \<longrightarrow> \<bar>cnt l q\<bar> \<le> \<bar>cnt l1 q\<bar>"
    and k: "keeps l l1"
    using syncNetworks_keeps [OF w a ord] by blast
  have "cnt l' = cnt l1" using syncIPs_keeps [OF keeps_wf [OF k] b] by (simp add: keeps_cnt_def)
  then show thesis using that n by (simp add: listNetworksOnCluster_def)
qed

lemma server_step_keeps: "server_step l l' \<Longrightarrow> wf_server l \<Longrightarrow> keeps l l'"
proof (induction rule: server_step.induct)
  case (step_IPAcquire io s l c l' r c')
  then show ?case using handle_IPAcquire_keeps by (simp add: keeps_cnt_def)
next
  case (step_IPRelease io ip s l c l' r' c')
  then show ?case using handle_IPRelease_keeps by (simp add: keeps_cnt_def)
next
  case (step_NetworkAcquire io req l c l' r'' c')
  then show ?case using handle_NetworkAcquire_keeps by blast
next
  case (step_NetworkRelease io s l c l' r' c')
  then show ?case using handle_NetworkRelease_keeps by blast
next
  case (step_sync io ordN ordC ordI networks networks' iplist l c l' c')
  then show ?case using sync_tick_keeps by blast
qed

lemma reachable_wf: "reachable os l \<Longrightarrow> pools4 os \<Longrightarrow> wf_server l"
proof (induction rule: reachable.induct)
  case (reach_New io ordN ordI networks iplist c l c')
  then show ?case using New_wf(1) unfolding pools4_def by blast
next
  case (reach_step l l')
  then show ?case using server_step_keeps keeps_wf by blast
qed

end
