(* ===== verification/IpamProps.thy ===== *)
theory IpamProps
  imports IpamReach
begin

text \<open>
  The properties of the IPAM, each with a concrete state at which it is applied: the pool
  \<open>10.0.0.0/8\<close>, a clock that advances, and a server started on that pool.
\<close>

section \<open>A concrete server\<close>

definition ex_clock :: clock where
  "ex_clock = siterate (\<lambda>t. t + 1) 1"

definition ex_pool :: prefix where
  "ex_pool = Prefix (V4 0x0A000000) 8"

definition ex_ipam :: Ipam where
  "ex_ipam = \<lparr>roots = [Node \<lparr>lastUpdateTimestamp = 0, prefix = ex_pool, refCount = 0, ips = [],
     lastip = ZeroAddr\<rparr> None None]\<rparr>"

definition ex_opts :: ServerOptions where
  "ex_opts = \<lparr>Pools = [''10.0.0.0/8''], Port = 6000, SyncInterval = 120, SyncGracePeriod = 30,
     GraphvizEnabled = False\<rparr>"

definition ex_server :: LiqoIPAM where
  "ex_server = \<lparr>IpamCore = ex_ipam, opts = ex_opts\<rparr>"

definition ex_io :: io where
  "ex_io = (\<lambda>_. None)"

lemma net4_ex: "net4 ex_pool" "net4 (Prefix (V4 0x0A010000) 16)" "net4 (Prefix (V4 0x0A010200) 24)"
  by (simp_all add: net4_def ex_pool_def checkHostBitsZero_def Masked_def)

lemma irefs_ex: "irefs ex_ipam p = 0"
  by (simp add: irefs_def ex_ipam_def frefs_def)

lemma wf_ex_ipam: "wf_ipam ex_ipam"
  using net4_ex(1) irefs_ex by (simp add: wf_ipam_def alone_def) (simp add: ex_ipam_def)

lemma wf_ex_server: "wf_server ex_server"
  using wf_ex_ipam by (simp add: wf_server_def ex_server_def)

lemma in_pool_ex: "in_pool ex_ipam (Prefix (V4 0x0A010000) 16)"
  using net4_ex(2)
  by (simp add: in_pool_def pools_def ex_ipam_def inside_def ex_pool_def Overlaps_def Valid_def Let_def)

lemma parse_ex: "parse_pools (Pools ex_opts) = Inr [ex_pool]"
  by (simp add: ex_opts_def ex_pool_def ParsePrefix_example)

lemma pools4_ex: "pools4 ex_opts"
  by (simp add: pools4_def parse_ex pool4_def) (simp add: ex_pool_def)

lemma reachable_ex: "reachable ex_opts ex_server"
proof -
  have "New ex_io id id (Inr []) (Inr []) ex_opts (0 ## ex_clock) = Some (Inr ex_server, ex_clock)"
    by (simp add: New_def parse_ex NewIpam_def checkRoots_def net4_ex(1) [unfolded net4_def, THEN conjunct2, THEN conjunct2]
        newNode_def time_Now_def initialize_def initializeNetworks_def listNetworksOnCluster_def
        initializeIPs_def listIPsOnCluster_def ex_server_def ex_ipam_def)
  then show ?thesis by (rule reach_New)
qed

definition ex_P :: prefix where
  "ex_P = Prefix (V4 0x0A010000) 16"

definition ex_Q :: prefix where
  "ex_Q = Prefix (V4 0x0A020000) 16"

lemma ex_PQ: "net4 ex_P" "net4 ex_Q" "ex_P \<noteq> ex_Q" "\<not> Overlaps ex_P ex_Q" "\<not> Overlaps ex_Q ex_P"
  "in_pool ex_ipam ex_P" "in_pool ex_ipam ex_Q"
  "ParsePrefix ''10.1.0.0/16'' = Some ex_P" "ParsePrefix ''10.2.0.0/16'' = Some ex_Q"
  by (simp_all add: net4_def ex_P_def ex_Q_def checkHostBitsZero_def Masked_def Overlaps_def Valid_def
      in_pool_def pools_def ex_ipam_def inside_def ex_pool_def Let_def parse_eval)

text \<open>A reachable state with an exclusive network and a shared one.\<close>

lemma ex_reachable_networks:
  "\<exists>l. reachable ex_opts l \<and> cnt l = (\<lambda>_. 0)(ex_P := -1, ex_Q := 1)"
proof -
  have g: "\<not> GraphvizEnabled (opts ex_server)" by (simp add: ex_server_def ex_opts_def)
  have z: "cnt ex_server = (\<lambda>_. 0)" using irefs_ex by (simp add: ex_server_def fun_eq_iff)
  obtain l1 c1 where a: "handle_NetworkAcquire ex_io \<lparr>Cidr = ''10.1.0.0/16'', Immutable = True,
      Exclusive = True, PreAllocated = 0\<rparr> ex_server ex_clock = Some (l1, Inr ex_P, c1)"
    and k1: "keeps ex_server l1" "cnt l1 = grant True ex_P (cnt ex_server)"
    by (rule handle_NetworkAcquire_immutable [OF wf_ex_server g ex_PQ(8), of True ex_io ex_clock])
      (auto simp: grantable_def ex_PQ(6) ex_server_def irefs_ex)
  have p2: "in_pool (IpamCore l1) ex_Q" "\<not> GraphvizEnabled (opts l1)"
    using keeps_in_pool [OF k1(1)] k1(1) g ex_PQ(7) by (simp_all add: keeps_def ex_server_def)
  have "grantable False ex_Q (cnt l1)"
    using k1(2) z ex_PQ(4) by (auto simp: grantable_def grant_def)
  then obtain l2 c2 where b: "handle_NetworkAcquire ex_io \<lparr>Cidr = ''10.2.0.0/16'', Immutable = True,
      Exclusive = False, PreAllocated = 0\<rparr> l1 c1 = Some (l2, Inr ex_Q, c2)"
    and k2: "cnt l2 = grant False ex_Q (cnt l1)"
    by (rule handle_NetworkAcquire_immutable [OF keeps_wf [OF k1(1)] p2(2) ex_PQ(9) p2(1)])
  have "reachable ex_opts l2"
    using reach_step [OF reach_step [OF reachable_ex step_NetworkAcquire [OF a]] step_NetworkAcquire [OF b]] .
  moreover have "cnt l2 = (\<lambda>_. 0)(ex_P := -1, ex_Q := 1)"
    using k1(2) k2 z ex_PQ(3) by (auto simp: grant_def fun_eq_iff)
  ultimately show ?thesis by blast
qed

section \<open>Properties of the reachable states\<close>

text \<open>C1: in every state the server can reach from IPv4 pools, a network that is held exclusively shares
  no address with any other acquired network.\<close>

theorem exclusive_networks_alone:
  assumes "reachable os l" and "pools4 os" and "cnt l p = -1" and "cnt l q \<noteq> 0" and "p \<noteq> q"
  shows "\<not> (\<exists>a. Contains p a \<and> Contains q a)"
  using core.alone [of "IpamCore l"] reachable_wf [OF assms(1,2)] assms(3-5)
  by (auto simp: alone_def wf_server_def Overlaps_iff_common)

theorem exclusive_networks_alone_witness:
  "\<exists>l. reachable ex_opts l \<and> cnt l ex_P = -1 \<and> cnt l ex_Q = 1 \<and>
     \<not> (\<exists>a. Contains ex_P a \<and> Contains ex_Q a)"
proof -
  obtain l where l: "reachable ex_opts l" "cnt l = (\<lambda>_. 0)(ex_P := -1, ex_Q := 1)"
    using ex_reachable_networks by blast
  then have c: "cnt l ex_P = -1" "cnt l ex_Q = 1" using ex_PQ(3) by simp_all
  then show ?thesis
    using exclusive_networks_alone [OF l(1) pools4_ex c(1), of ex_Q] l(1) ex_PQ(3) by auto
qed

text \<open>C8: in every state the server can reach from IPv4 pools, no address is allocated twice in a
  network and every allocated address belongs to its network.\<close>

theorem allocated_addresses_sound:
  assumes "reachable os l" and "pools4 os"
  shows "distinct (held l p) \<and> (\<forall>a\<in>set (held l p). Contains p a)"
  using ipaddrs_ok reachable_wf [OF assms] by (simp add: wf_server_def)

theorem allocated_addresses_sound_witness:
  "distinct (held ex_server ex_P) \<and> set (held ex_server ex_P) \<subseteq> {a. Contains ex_P a}"
  using allocated_addresses_sound [OF reachable_ex pools4_ex, of ex_P] by blast

section \<open>Properties of the core\<close>

text \<open>C2: \<open>NetworkAcquireWithPrefix\<close> never panics and succeeds exactly when the requested network lies in
  a pool and no conflicting network overlaps it (none at all for an exclusive request, no exclusive
  one for a shared request); it then adds one reference, or the exclusive mark, to that network only.\<close>

theorem network_acquire_with_prefix_exact:
  assumes "wf_ipam m"
  shows "\<exists>m' res c'. NetworkAcquireWithPrefix p e m c = Some (m', res, c') \<and> wf_ipam m' \<and>
    pools m' = pools m \<and>
    (if in_pool m p \<and> (\<forall>q. Overlaps q p \<longrightarrow> irefs m q = 0 \<or> \<not> e \<and> irefs m q \<noteq> -1)
     then res = Some p \<and> irefs m' = (irefs m)(p := if e then -1 else irefs m p + 1)
     else res = None \<and> irefs m' = irefs m)"
  using NetworkAcquireWithPrefix_correct [OF assms, of p e c]
  unfolding acquired_prefix_def grantable_def grant_def .

theorem network_acquire_with_prefix_exact_witness:
  "\<exists>m' c'. NetworkAcquireWithPrefix ex_P True ex_ipam ex_clock = Some (m', Some ex_P, c') \<and>
     irefs m' = (irefs ex_ipam)(ex_P := -1)"
  using network_acquire_with_prefix_exact [OF wf_ex_ipam, of ex_P True ex_clock] ex_PQ(6) irefs_ex
  by auto

text \<open>C3: \<open>NetworkAcquire\<close> for a mask of at most 32 bits never panics. A network it returns has the
  requested size, lies in a pool, overlaps no acquired network and is the only one whose count
  changes. It returns none only when every network of that size overlaps an acquired one or is split.\<close>

theorem network_acquire_any_correct:
  assumes "wf_ipam m" and "sz \<le> 32"
  shows "\<exists>m' res c'. IpamCore.NetworkAcquire sz e m c = Some (m', res, c') \<and> wf_ipam m' \<and>
    pools m' = pools m \<and>
    (case res of
       None \<Rightarrow> irefs m' = irefs m \<and>
         (\<forall>p. in_pool m p \<and> int (Bits p) = sz \<longrightarrow>
            (\<exists>q. Overlaps q p \<and> irefs m q \<noteq> 0) \<or> splitted m p)
     | Some p \<Rightarrow> in_pool m p \<and> int (Bits p) = sz \<and> (\<forall>q. Overlaps q p \<longrightarrow> irefs m q = 0) \<and>
         irefs m' = (irefs m)(p := if e then -1 else 1))"
proof -
  obtain m' res c' where "IpamCore.NetworkAcquire sz e m c = Some (m', res, c')" "wf_ipam m'"
    "pools m' = pools m" "acquired_size sz e m m' res"
    using NetworkAcquire_correct [OF assms, of e c] by blast
  then show ?thesis
    by (intro exI [of _ m'] exI [of _ res] exI [of _ c'])
      (cases res, auto simp: acquired_size_def grantable_def)
qed

theorem network_acquire_any_correct_witness:
  "\<exists>m' p c'. IpamCore.NetworkAcquire 8 True ex_ipam ex_clock = Some (m', Some p, c') \<and> irefs m' p = -1"
proof -
  have "in_pool ex_ipam ex_pool \<and> int (Bits ex_pool) = 8"
    using inside_refl [OF net4_ex(1)] by (simp add: in_pool_def pools_def ex_ipam_def ex_pool_def)
  moreover have "\<not> splitted ex_ipam ex_pool" by (simp add: splitted_def ex_ipam_def isSplitted_def)
  moreover obtain m' res c' where "IpamCore.NetworkAcquire 8 True ex_ipam ex_clock = Some (m', res, c')"
    and "case res of
       None \<Rightarrow> irefs m' = irefs ex_ipam \<and>
         (\<forall>p. in_pool ex_ipam p \<and> int (Bits p) = 8 \<longrightarrow>
            (\<exists>q. Overlaps q p \<and> irefs ex_ipam q \<noteq> 0) \<or> splitted ex_ipam p)
     | Some p \<Rightarrow> in_pool ex_ipam p \<and> int (Bits p) = 8 \<and> (\<forall>q. Overlaps q p \<longrightarrow> irefs ex_ipam q = 0) \<and>
         irefs m' = (irefs ex_ipam)(p := if True then -1 else 1)"
    using network_acquire_any_correct [OF wf_ex_ipam, of 8 True ex_clock] by auto
  ultimately show ?thesis using irefs_ex by (cases res) auto
qed

text \<open>C4: \<open>NetworkRelease\<close> releases exactly when the network has a node that is acquired and whose last
  update is older than the grace period at the first reading of the clock; it then takes one
  reference away (or the exclusive mark) and changes no other network.\<close>

theorem network_release_exact:
  assumes "wf_ipam m"
  shows "\<exists>m' c'. IpamCore.NetworkRelease p gp m c =
      Some (m', if releasable_in p m gp (shd c) then Some p else None, c') \<and>
    wf_ipam m' \<and> pools m' = pools m \<and>
    irefs m' = (if releasable_in p m gp (shd c)
      then (irefs m)(p := if irefs m p = -1 then 0 else irefs m p - 1) else irefs m)"
proof -
  obtain m' res c' where r: "IpamCore.NetworkRelease p gp m c = Some (m', res, c')" "wf_ipam m'"
    "pools m' = pools m" "released_prefix p m m' res"
    using NetworkRelease_state [OF assms, of p gp c] by blast
  then show ?thesis
    using NetworkRelease_result [OF assms r(1)] by (auto simp: released_prefix_def release_def)
qed

theorem network_release_exact_witness:
  "\<exists>m' c'. IpamCore.NetworkRelease ex_P 0 ex_ipam ex_clock = Some (m', None, c') \<and>
     irefs m' = irefs ex_ipam"
proof -
  have "\<not> releasable_in ex_P ex_ipam 0 (shd ex_clock)"
    by (auto simp: releasable_in_def releasable_def ex_ipam_def lookup_leaf ex_pool_def ex_P_def)
  then show ?thesis using network_release_exact [OF wf_ex_ipam, of ex_P 0 ex_clock] by auto
qed

text \<open>releasing a network right after its acquisition restores every reference count, for exclusive
  and for shared acquisitions.\<close>

theorem acquire_release_roundtrip:
  assumes "wf_ipam m" and "NetworkAcquireWithPrefix p e m c = Some (m1, Some p, c1)"
    and "IpamCore.NetworkRelease p gp m1 c2 = Some (m2, Some p, c3)"
  shows "irefs m2 = irefs m"
  by (rule core.acquireWith_free [OF assms])

theorem acquire_release_roundtrip_witness:
  "\<exists>m1 c1 c2 m2 c3. NetworkAcquireWithPrefix ex_P True ex_ipam ex_clock = Some (m1, Some ex_P, c1) \<and>
     IpamCore.NetworkRelease ex_P 0 m1 c2 = Some (m2, Some ex_P, c3) \<and> irefs m2 = irefs ex_ipam"
proof -
  have ok: "in_pool ex_ipam ex_P \<and> grantable True ex_P (irefs ex_ipam)"
    using ex_PQ(6) irefs_ex by (simp add: grantable_def)
  then obtain m1 c1 where a: "NetworkAcquireWithPrefix ex_P True ex_ipam ex_clock = Some (m1, Some ex_P, c1)"
    and m1: "wf_ipam m1" "irefs m1 = grant True ex_P (irefs ex_ipam)"
    using core.acquireWith_ok [OF wf_ex_ipam, of ex_P True ex_clock] by auto
  have "irefs m1 ex_P \<noteq> 0" using m1(2) by (simp add: grant_def)
  then obtain t where t: "\<forall>now>t. releasable_in ex_P m1 0 now" using releasable_later [OF m1(1)] by blast
  let ?c2 = "(t + 1) ## ex_clock"
  have re: "releasable_in ex_P m1 0 (shd ?c2)" using t by simp
  obtain m2 r c3 where b: "IpamCore.NetworkRelease ex_P 0 m1 ?c2 = Some (m2, r, c3)"
    using core.free_ok [OF m1(1), of ex_P 0 ?c2] by blast
  then have "r = Some ex_P" using NetworkRelease_result [OF m1(1) b] re by simp
  then show ?thesis using a b acquire_release_roundtrip [OF wf_ex_ipam a] by blast
qed

text \<open>C29: every acquired network can be released: from some time on, \<open>NetworkRelease\<close> returns it.\<close>

theorem network_release_live:
  assumes "wf_ipam m" and "irefs m p \<noteq> 0"
  shows "\<exists>t. \<forall>c. t < shd c \<longrightarrow> (\<exists>m' c'. IpamCore.NetworkRelease p gp m c = Some (m', Some p, c'))"
proof -
  obtain t where t: "\<forall>now>t. releasable_in p m gp now" using releasable_later [OF assms] by blast
  have "\<exists>m' c'. IpamCore.NetworkRelease p gp m c = Some (m', Some p, c')" if "t < shd c" for c
    using core.free_ok [OF assms(1), of p gp c] NetworkRelease_result [OF assms(1), of p gp c] t that
    by fastforce
  then show ?thesis by blast
qed

theorem network_release_live_witness:
  "\<exists>l t m' c'. reachable ex_opts l \<and>
     IpamCore.NetworkRelease ex_P 30 (IpamCore l) (t ## ex_clock) = Some (m', Some ex_P, c')"
proof -
  obtain l where l: "reachable ex_opts l" "cnt l = (\<lambda>_. 0)(ex_P := -1, ex_Q := 1)"
    using ex_reachable_networks by blast
  have w: "wf_ipam (IpamCore l)" using reachable_wf [OF l(1) pools4_ex] by (simp add: wf_server_def)
  have "irefs (IpamCore l) ex_P \<noteq> 0" using l(2) ex_PQ(3) by simp
  from network_release_live [OF w this, of 30] obtain t where
    "\<exists>m' c'. IpamCore.NetworkRelease ex_P 30 (IpamCore l) ((t + 1) ## ex_clock) = Some (m', Some ex_P, c')"
    by (metis stream.sel(1) zless_add1_eq)
  then show ?thesis using l(1) by blast
qed

text \<open>while a network is exclusive, no request for an overlapping network succeeds, and the refused
  request changes no count.\<close>

theorem exclusive_blocks_overlap:
  assumes "wf_ipam m" and "irefs m p = -1" and "Overlaps p q"
  shows "\<exists>m' c'. NetworkAcquireWithPrefix q e m c = Some (m', None, c') \<and> irefs m' = irefs m"
  by (rule core.exclusive_blocks [OF assms])

theorem exclusive_blocks_overlap_witness:
  "\<exists>l m' c'. reachable ex_opts l \<and>
     NetworkAcquireWithPrefix (Prefix (V4 0x0A010200) 24) False (IpamCore l) ex_clock = Some (m', None, c')"
proof -
  obtain l where l: "reachable ex_opts l" "cnt l = (\<lambda>_. 0)(ex_P := -1, ex_Q := 1)"
    using ex_reachable_networks by blast
  then have x: "irefs (IpamCore l) ex_P = -1" using ex_PQ(3) by simp
  have o: "Overlaps ex_P (Prefix (V4 0x0A010200) 24)"
    by (simp add: ex_P_def Overlaps_def Valid_def Let_def)
  have w: "wf_ipam (IpamCore l)" using reachable_wf [OF l(1) pools4_ex] by (simp add: wf_server_def)
  show ?thesis using exclusive_blocks_overlap [OF w x o, of False ex_clock] l(1) by blast
qed

text \<open>\<open>ListNetworks\<close> returns every acquired network of every pool, once.\<close>

theorem list_networks_complete:
  assumes "wf_ipam m"
  shows "set (ListNetworks m) = {p. irefs m p \<noteq> 0} \<and> distinct (ListNetworks m)"
  by (rule ListNetworks_correct [OF assms])

theorem list_networks_complete_witness:
  "\<exists>l. reachable ex_opts l \<and> set (ListNetworks (IpamCore l)) = {ex_P, ex_Q}"
proof -
  obtain l where l: "reachable ex_opts l" "cnt l = (\<lambda>_. 0)(ex_P := -1, ex_Q := 1)"
    using ex_reachable_networks by blast
  have w: "wf_ipam (IpamCore l)" using reachable_wf [OF l(1) pools4_ex] by (simp add: wf_server_def)
  have "{p. irefs (IpamCore l) p \<noteq> 0} = {ex_P, ex_Q}" using l(2) by auto
  then show ?thesis using list_networks_complete [OF w] l(1) by blast
qed

text \<open>C7: \<open>IPAcquire\<close> returns an address of the network that was not allocated and records it, in that
  network only. For an acquired network it returns none only when all its addresses are allocated.\<close>

theorem ip_acquire_fresh_and_complete:
  assumes "wf_ipam m" and "IpamCore.IPAcquire p m c = (m', r, c')"
  shows "wf_ipam m' \<and> irefs m' = irefs m \<and> (\<forall>q. q \<noteq> p \<longrightarrow> ipaddrs m' q = ipaddrs m q) \<and>
    (case r of
       Inl e \<Rightarrow> m' = m \<and> irefs m p = 0
     | Inr None \<Rightarrow> ipaddrs m' p = ipaddrs m p \<and>
         (irefs m p = 0 \<or> {a. Contains p a} \<subseteq> set (ipaddrs m p))
     | Inr (Some a) \<Rightarrow> irefs m p \<noteq> 0 \<and> Contains p a \<and> a \<notin> set (ipaddrs m p) \<and>
         ipaddrs m' p = ipaddrs m p @ [a])"
  using IPAcquire_correct [OF assms] by (auto simp: ip_frame_def)

theorem ip_acquire_fresh_and_complete_witness:
  "\<exists>m' r c'. IpamCore.IPAcquire ex_P ex_ipam ex_clock = (m', r, c') \<and> irefs m' = irefs ex_ipam"
  using ip_acquire_fresh_and_complete [OF wf_ex_ipam]
  by (metis prod_cases3)

text \<open>an available network in a pool can be acquired exclusively, provided no whole pool is
  acquired; an acquired network is never reported as available.\<close>

theorem network_is_available_sound:
  assumes "wf_ipam m" and "IpamCore.NetworkIsAvailable p m"
  shows "irefs m p = 0 \<and>
    (in_pool m p \<and> (\<forall>q\<in>set (pools m). irefs m q = 0) \<longrightarrow> (\<forall>q. Overlaps q p \<longrightarrow> irefs m q = 0))"
  using NetworkIsAvailable_grantable [OF assms(1), of p] acquired_not_NetworkIsAvailable [OF assms(1), of p]
    assms(2) by (auto simp: grantable_def)

theorem network_is_available_sound_witness:
  "IpamCore.NetworkIsAvailable ex_P ex_ipam \<and> {q. Overlaps q ex_P} \<subseteq> {q. irefs ex_ipam q = 0}"
proof -
  have "IpamCore.NetworkIsAvailable ex_P ex_ipam"
    by (simp add: NetworkIsAvailable_def ex_ipam_def ex_P_def ex_pool_def isPrefixChildOf_def Overlaps_def
        Valid_def Let_def isAcquired_def)
  then show ?thesis
    using network_is_available_sound [OF wf_ex_ipam, of ex_P] ex_PQ(6) irefs_ex by blast
qed

text \<open>The pool \<open>10.0.0.0/8\<close> acquired as a shared network while its first half, once acquired too, is free.\<close>

definition ex_leaf :: "prefix \<Rightarrow> node" where
  "ex_leaf p = Node \<lparr>lastUpdateTimestamp = 0, prefix = p, refCount = 0, ips = [], lastip = ZeroAddr\<rparr> None None"

definition ex_shared_pool :: Ipam where
  "ex_shared_pool = \<lparr>roots = [Node \<lparr>lastUpdateTimestamp = 0, prefix = ex_pool, refCount = 1, ips = [],
     lastip = ZeroAddr\<rparr> (Some (ex_leaf (Prefix (V4 0x0A000000) 9))) (Some (ex_leaf (Prefix (V4 0x0A800000) 9)))]\<rparr>"

text \<open>\<open>NetworkIsAvailable\<close> does not look at the pool itself once it is split: the first half of an
  acquired pool is reported as available, although no exclusive request for it can succeed.\<close>

theorem available_in_acquired_pool:
  "IpamCore.NetworkIsAvailable (Prefix (V4 0x0A000000) 9) ex_shared_pool \<and>
   irefs ex_shared_pool ex_pool = 1 \<and> Overlaps ex_pool (Prefix (V4 0x0A000000) 9)"
  by (simp add: NetworkIsAvailable_def ex_shared_pool_def ex_leaf_def ex_pool_def isPrefixChildOf_def
      Overlaps_def Valid_def Let_def isAcquired_def isSplitted_def matches_def child_parent_of_def
      irefs_def frefs_def)

section \<open>Properties of the server\<close>

text \<open>C10: a successful \<open>NetworkAcquire\<close> request either was an immutable shared request outside the pools,
  which changes nothing, or acquired the network it answers. For an immutable request that is the
  requested one, taken exclusively if it overlapped no acquired network, or with one more reference if the
  request is shared and it overlapped no exclusive network. Otherwise it is an exclusive network of the same
  size in a pool that overlapped no acquired network, the requested one whenever that was free. No other
  network changes. The requested number of first addresses of the
  network is then allocated.\<close>

theorem network_acquire_response_sound:
  assumes "wf_server l" and "handle_NetworkAcquire io req l c = Some (l', Inr q, c')"
  shows "\<exists>p. ParsePrefix (Cidr req) = Some p \<and>
    (if \<not> isInPool p l \<and> Immutable req then q = p \<and> \<not> Exclusive req \<and> l' = l
     else in_pool (IpamCore l) q \<and> Bits q = Bits p \<and>
       (Immutable req \<longrightarrow> q = p \<and>
         (\<forall>x. Overlaps x q \<longrightarrow> (if Exclusive req then cnt l x = 0 else cnt l x \<noteq> -1)) \<and>
         cnt l' = (cnt l)(q := if Exclusive req then -1 else cnt l q + 1)) \<and>
       (\<not> Immutable req \<longrightarrow> (\<forall>x. Overlaps x q \<longrightarrow> cnt l x = 0) \<and> cnt l' = (cnt l)(q := -1) \<and>
         (in_pool (IpamCore l) p \<and> (\<forall>x. Overlaps x p \<longrightarrow> cnt l x = 0) \<longrightarrow> q = p)) \<and>
       cnt l' q \<noteq> 0 \<and> set (FirstNIPsFromPrefix q (PreAllocated req)) \<subseteq> set (held l' q))"
proof -
  obtain p where p: "ParsePrefix (Cidr req) = Some p"
    and r: "if \<not> isInPool p l \<and> Immutable req then q = p \<and> \<not> Exclusive req \<and> l' = l
      else requested req p l l' q \<and> set (FirstNIPsFromPrefix q (PreAllocated req)) \<subseteq> set (held l' q)"
    using handle_NetworkAcquire_keeps [OF assms] by auto
  then show ?thesis
    using requested_cnt [OF assms(1), of req p l' q]
    by (intro exI [of _ p]) (auto simp: requested_def remapped_to_def grantable_def grant_def split: if_splits)
qed

theorem network_acquire_response_sound_witness:
  "\<exists>l' c'. handle_NetworkAcquire ex_io \<lparr>Cidr = ''10.1.0.0/16'', Immutable = True, Exclusive = True,
     PreAllocated = 0\<rparr> ex_server ex_clock = Some (l', Inr ex_P, c') \<and> cnt l' = (cnt ex_server)(ex_P := -1)"
proof -
  have g: "\<not> GraphvizEnabled (opts ex_server)" by (simp add: ex_server_def ex_opts_def)
  obtain l1 c1 where a: "handle_NetworkAcquire ex_io \<lparr>Cidr = ''10.1.0.0/16'', Immutable = True,
      Exclusive = True, PreAllocated = 0\<rparr> ex_server ex_clock = Some (l1, Inr ex_P, c1)"
    by (rule handle_NetworkAcquire_immutable [OF wf_ex_server g ex_PQ(8), of True ex_io ex_clock])
      (auto simp: grantable_def ex_PQ(6) ex_server_def irefs_ex)
  have "isInPool ex_P ex_server" using ex_PQ(6) by (auto intro: in_pool_isInPool simp: ex_server_def)
  then have "cnt l1 = (cnt ex_server)(ex_P := -1)"
    using network_acquire_response_sound [OF wf_ex_server a] ex_PQ(8) by auto
  then show ?thesis using a by blast
qed

text \<open>C13: a synchronisation of the networks that ends without error leaves every network of the cluster
  that lies in a pool acquired, and takes at most one reference away from a network that the cluster
  does not have; it never adds one to such a network. The order in which Go visits the maps does not
  matter.\<close>

theorem sync_networks_converges:
  assumes "wf_server l" and "syncNetworks io ordN ordC networks l c = Some (l', None, c')"
    and "\<forall>xs. mset (ordN xs) = mset xs" and "\<forall>xs. mset (ordC xs) = mset xs"
  shows "\<exists>nets. listNetworksOnCluster networks = Inr nets \<and>
    (\<forall>p d. map_of nets p = Some d \<and> isInPool p l \<longrightarrow> cnt l' p \<noteq> 0) \<and>
    (\<forall>q. map_of nets q = None \<longrightarrow>
       cnt l' q = cnt l q \<or> cnt l q = -1 \<and> cnt l' q = 0 \<or> 0 < cnt l q \<and> cnt l' q = cnt l q - 1)"
proof -
  obtain nets where n: "listNetworksOnCluster networks = Inr nets"
    "\<forall>(p, d)\<in>set nets. isInPool p l \<longrightarrow> cnt l' p \<noteq> 0"
    "\<forall>q. \<not> isNetworkInCluster nets q \<longrightarrow> dropped (cnt l q) (cnt l' q)"
    using syncNetworks_keeps [OF assms(1,2)] assms(3,4) by blast
  have ge: "-1 \<le> cnt l q" for q using irefs_ge assms(1) by (simp add: wf_server_def)
  have "cnt l' q = cnt l q \<or> cnt l q = -1 \<and> cnt l' q = 0 \<or> 0 < cnt l q \<and> cnt l' q = cnt l q - 1"
    if "map_of nets q = None" for q
  proof -
    have "dropped (cnt l q) (cnt l' q)" using n(3) that by (simp add: isNetworkInCluster_def)
    then show ?thesis using ge [of q] by (auto simp: dropped_def split: if_splits)
  qed
  then show ?thesis using n(1,2) by (fastforce dest: map_of_SomeD)
qed

theorem sync_networks_converges_witness:
  "\<exists>l' c'. syncNetworks ex_io id id (Inr []) ex_server ex_clock = Some (l', None, c') \<and>
     (\<forall>q. cnt l' q = cnt ex_server q)"
proof -
  have run: "syncNetworks ex_io id id (Inr []) ex_server ex_clock = Some (ex_server, None, ex_clock)"
    by (simp add: syncNetworks_def listNetworksOnCluster_def SliceToMap_def ListNetworks_def ex_server_def
        ex_ipam_def isExclusive_def isAcquired_def)
  then show ?thesis
    using sync_networks_converges [OF wf_ex_server run] by simp
qed

text \<open>C16: a server that starts on an empty IPAM without error holds exactly the networks of the cluster
  that lie in its pools: an exclusive one exclusively, a shared one with a single reference, however
  many Network resources share it.\<close>

theorem initialize_loads_cluster:
  assumes "wf_server l" and "cnt l = (\<lambda>_. 0)"
    and "initializeNetworks io ordN (Inr nws) l c = Some (l', None, c')"
    and "networks_loop nws [] = Inr nets" and "\<forall>xs. mset (ordN xs) = mset xs"
  shows "cnt l' = (\<lambda>p. case map_of nets p of
      None \<Rightarrow> 0 | Some d \<Rightarrow> if \<not> isInPool p l then 0 else if exclusive d then -1 else 1)"
proof -
  obtain nets' where "networks_loop nws [] = Inr nets'" "cnt l' = (\<lambda>p. case map_of nets' p of
      None \<Rightarrow> 0 | Some d \<Rightarrow> if \<not> isInPool p l then 0 else if exclusive d then -1 else 1)"
    by (rule initializeNetworks_loaded [OF assms(1-3)]) (use assms(5) in simp)
  then show ?thesis using assms(4) by simp
qed

text \<open>Two shared Network resources with the same CIDR.\<close>

definition ex_network :: Network where
  "ex_network = \<lparr>om_Namespace = ''liqo'', om_Name = ''n'', om_Labels = [(''ipam.liqo.io/network-shared'', ''true'')],
     om_Annotations = [], om_Owners = [], nw_Finalizers = [], nw_Deleting = False, nw_CIDR = ''10.2.0.0/16'',
     nw_PreAllocated = 0, nw_StatusCIDR = ''10.2.0.0/16''\<rparr>"

lemma ex_networks_loop:
  "networks_loop [ex_network, ex_network] [] = Inr [(ex_Q, \<lparr>preallocated = 0, exclusive = False\<rparr>)]"
  using ex_PQ(9) by (simp add: ex_network_def NetworkIsExclusive_def NetworkSharedLabelKey_def)

lemma ex_initialize:
  "\<exists>l' c'. initializeNetworks ex_io id (Inr [ex_network, ex_network]) ex_server ex_clock = Some (l', None, c')"
proof -
  have g: "\<not> GraphvizEnabled (opts ex_server)" by (simp add: ex_server_def ex_opts_def)
  have i: "isInPool ex_Q ex_server" using ex_PQ(7) by (auto intro: in_pool_isInPool simp: ex_server_def)
  obtain l1 r1 c1 where a: "networkAcquireSpecific ex_io ex_Q False ex_server ex_clock = Some (l1, r1, c1)"
    "keeps ex_server l1"
    "if in_pool (IpamCore ex_server) ex_Q \<and> grantable False ex_Q (cnt ex_server)
     then cnt l1 = grant False ex_Q (cnt ex_server) \<and> r1 = finish ex_io ex_Q l1
     else cnt l1 = cnt ex_server \<and> r1 = Inl (AcquireFailed ex_Q)"
    by (rule networkAcquireSpecific_keeps [OF wf_ex_server])
  then have "r1 = Inr ex_Q"
    using g ex_PQ(7) by (auto simp: grantable_def ex_server_def irefs_ex finish_def graphviz_def keeps_def)
  then show ?thesis
    using a(1) i ex_networks_loop
    by (simp add: initializeNetworks_def listNetworksOnCluster_def acquirePreallocatedIPs_def
        FirstNIPsFromPrefix_def)
qed

theorem initialize_loads_cluster_witness:
  "\<exists>l' c'. initializeNetworks ex_io id (Inr [ex_network, ex_network]) ex_server ex_clock = Some (l', None, c') \<and>
     cnt l' ex_Q = 1"
proof -
  obtain l' c' where r: "initializeNetworks ex_io id (Inr [ex_network, ex_network]) ex_server ex_clock =
      Some (l', None, c')" using ex_initialize by blast
  have z: "cnt ex_server = (\<lambda>_. 0)" using irefs_ex by (simp add: ex_server_def fun_eq_iff)
  have "isInPool ex_Q ex_server" using ex_PQ(7) by (auto intro: in_pool_isInPool simp: ex_server_def)
  then show ?thesis
    using initialize_loads_cluster [OF wf_ex_server z r ex_networks_loop] r by auto
qed



text \<open>C23: a split of an IPv4 network of less than 32 bits gives its two halves: every address of the network
  is in exactly one of them and neither has another address.\<close>

theorem split_partitions_network:
  assumes "net4 p" and "Bits p < 32"
  shows "\<exists>l r. splitNetworkPrefix p = Some (l, r) \<and> net4 l \<and> net4 r \<and>
    Bits l = Suc (Bits p) \<and> Bits r = Suc (Bits p) \<and>
    (\<forall>a. Contains p a \<longleftrightarrow> Contains l a \<or> Contains r a) \<and> \<not> (\<exists>a. Contains l a \<and> Contains r a)"
proof -
  obtain l r where s: "splitNetworkPrefix p = Some (l, r)"
    using splitNetworkPrefix_total [OF assms] by blast
  note f = split_net4 [OF assms(1) s] and o = split_Overlaps [OF assms(1) s]
  have sub: "Contains p a" if "Contains l a \<or> Contains r a" for a
    using that Overlaps_subset [OF o(2), of a] Overlaps_subset [OF o(3), of a] f by auto
  have cov: "Contains l a \<or> Contains r a" if "Contains p a" for a
  proof -
    let ?q = "Prefix a 32"
    have q: "Valid ?q" "Addr ?q = a" "Bits p < Bits ?q" "Bits l \<le> Bits ?q" "Bits r \<le> Bits ?q"
      using that assms f by (auto simp: Contains_iff Valid_def IsValid_BitLen)
    then have "Overlaps p ?q" using that Overlaps_Contains [of p ?q] by simp
    then have "Overlaps l ?q \<or> Overlaps r ?q" using o(4) [OF q(3)] by blast
    then show ?thesis using Overlaps_Contains [OF q(4)] Overlaps_Contains [OF q(5)] q(2) by auto
  qed
  show ?thesis using s f sub cov o(1) Overlaps_iff_common by blast
qed

theorem split_partitions_network_witness:
  "\<exists>l r. splitNetworkPrefix ex_pool = Some (l, r) \<and> (\<forall>a. Contains ex_pool a \<longleftrightarrow> Contains l a \<or> Contains r a)"
  using split_partitions_network [OF net4_ex(1)] by (auto simp: ex_pool_def)

text \<open>the check of \<open>acquirePreallocatedIPs\<close> compares the mask length with the number of addresses: a
  \<open>/8\<close> with more than 16 million addresses refuses to preallocate nine, and a \<open>/32\<close> passes the check for
  two addresses, of which it has one.\<close>

theorem preallocation_check_uses_mask:
  "acquirePreallocatedIPs io ex_pool 9 l c = (l, Some (InsufficientSize ex_pool 9), c) \<and>
   (\<forall>a\<in>set (FirstNIPsFromPrefix ex_pool 9). Contains ex_pool a) \<and>
   acquirePreallocatedIPs io (Prefix (V4 0x0A000000) 32) 2 l c =
     preallocate_loop io (Prefix (V4 0x0A000000) 32) [V4 0x0A000000, V4 0x0A000001] l c \<and>
   \<not> Contains (Prefix (V4 0x0A000000) 32) (V4 0x0A000001)"
proof -
  have n: "(9 :: nat) = Suc (Suc (Suc (Suc (Suc (Suc (Suc (Suc (Suc 0))))))))" "(2 :: nat) = Suc (Suc 0)"
    by simp_all
  have "FirstNIPsFromPrefix (Prefix (V4 0x0A000000) 32) 2 = [V4 0x0A000000, V4 0x0A000001]"
    unfolding FirstNIPsFromPrefix_def n by simp
  moreover have "\<forall>a\<in>set (FirstNIPsFromPrefix ex_pool 9). Contains ex_pool a"
    unfolding FirstNIPsFromPrefix_def n by (simp add: ex_pool_def Contains_def Valid_def)
  ultimately show ?thesis
    by (simp add: acquirePreallocatedIPs_def) (simp add: ex_pool_def Contains_def Valid_def)
qed

theorem preallocation_check_uses_mask_witness:
  "set (FirstNIPsFromPrefix ex_pool 9) \<subseteq> {a. Contains ex_pool a} \<and>
   acquirePreallocatedIPs ex_io ex_pool 9 ex_server ex_clock =
     (ex_server, Some (InsufficientSize ex_pool 9), ex_clock)"
  using preallocation_check_uses_mask [of ex_io ex_server ex_clock] by blast

end
