(* ===== verification/GoIP.thy ===== *)
theory GoIP
  imports GoNet
begin

text \<open>
  \<open>net.IP\<close> and \<open>net.IPNet\<close> as slices of bytes: the operations of the Go standard library that the
  address allocator of the fabric and the remapping of addresses use. The empty slice is \<open>nil\<close>.
\<close>

unbundle bit_operations_syntax

section \<open>Addresses\<close>

definition ip_To4 :: "bytes \<Rightarrow> bytes option" where
  "ip_To4 ip =
     (if length ip = 4 then Some ip
      else if length ip = 16 \<and> take 10 ip = replicate 10 0 \<and> ip ! 10 = 0xFF \<and> ip ! 11 = 0xFF
      then Some (drop 12 ip) else None)"

definition ip_To16 :: "bytes \<Rightarrow> bytes" where
  "ip_To16 ip = (if length ip = 4 then replicate 10 0 @ [0xFF, 0xFF] @ ip else if length ip = 16 then ip else [])"

text \<open>The two bytes of each group of an IPv6 address.\<close>

fun groups16 :: "bytes \<Rightarrow> nat list" where
  "groups16 (a # b # bs) = (256 * unat a + unat b) # groups16 bs"
| "groups16 _ = []"

definition hex_digit :: "nat \<Rightarrow> char" where
  "hex_digit n = (if n < 10 then digit_char n else char_of (n + 87))"

fun hex :: "nat \<Rightarrow> string" where
  "hex n = (if n < 16 then [hex_digit n] else hex (n div 16) @ [hex_digit (n mod 16)])"

declare hex.simps [simp del]

definition zero_run :: "nat list \<Rightarrow> nat \<Rightarrow> nat" where
  "zero_run gs i = length (takeWhile (\<lambda>g. g = 0) (drop i gs))"

text \<open>The first of the longest runs of at least two zero groups: where it starts and ends.\<close>

definition longest_zeros :: "nat list \<Rightarrow> nat \<times> nat" where
  "longest_zeros gs = fold (\<lambda>i (s, e). if 2 \<le> zero_run gs i \<and> e - s < zero_run gs i
                                        then (i, i + zero_run gs i) else (s, e)) [0..<8] (255, 255)"

definition text6 :: "nat list \<Rightarrow> string" where
  "text6 gs =
     (let (s, e) = longest_zeros gs
      in if s = 255 then joinWith '':'' (map hex gs)
         else joinWith '':'' (map hex (take s gs)) @ ''::'' @ joinWith '':'' (map hex (drop e gs)))"

definition text4 :: "bytes \<Rightarrow> string" where
  "text4 b = joinWith ''.'' (map (\<lambda>x. dec (unat x)) b)"

definition ip_String :: "bytes \<Rightarrow> string" where
  "ip_String ip =
     (if ip = [] then ''<nil>''
      else if length ip \<noteq> 4 \<and> length ip \<noteq> 16
      then ''?'' @ concat (map (\<lambda>b. [hex_digit (unat b div 16), hex_digit (unat b mod 16)]) ip)
      else (case ip_To4 ip of Some b \<Rightarrow> text4 b | None \<Rightarrow> text6 (groups16 ip)))"

text \<open>\<open>net.ParseIP\<close> gives a slice of 16 bytes, or \<open>nil\<close>.\<close>

definition ip_Parse :: "string \<Rightarrow> bytes" where
  "ip_Parse s = (case ParseIP s of None \<Rightarrow> [] | Some x \<Rightarrow> be_bytes 16 x)"

section \<open>Networks\<close>

definition networkNumberAndMask :: "IPNet \<Rightarrow> bytes \<times> bytes" where
  "networkNumberAndMask n =
     (let ip = (case ip_To4 (net_IP n) of Some b \<Rightarrow> b | None \<Rightarrow> net_IP n)
      in if length ip \<noteq> 4 \<and> length ip \<noteq> 16 then ([], [])
         else if length (net_Mask n) = 4 then if length ip \<noteq> 4 then ([], []) else (ip, net_Mask n)
         else if length (net_Mask n) = 16 then (ip, if length ip = 4 then drop 12 (net_Mask n) else net_Mask n)
         else ([], []))"

definition net_Contains :: "IPNet \<Rightarrow> bytes \<Rightarrow> bool" where
  "net_Contains n ip =
     (let (nn, m) = networkNumberAndMask n;
          x = (case ip_To4 ip of Some b \<Rightarrow> b | None \<Rightarrow> ip)
      in length x = length nn \<and> map2 (AND) nn m = map2 (AND) x m)"

definition ip_Mask :: "bytes \<Rightarrow> bytes \<Rightarrow> bytes" where
  "ip_Mask ip msk =
     (let m' = (if length msk = 16 \<and> length ip = 4 \<and> take 12 msk = replicate 12 0xFF then drop 12 msk else msk);
          ip' = (if length m' = 4 \<and> length ip = 16 \<and> ip_To4 ip \<noteq> None then drop 12 ip else ip)
      in if length ip' \<noteq> length m' then [] else map2 (AND) ip' m')"

text \<open>\<open>IPMask.Size\<close>: the leading ones and the number of bits, or two zeros if other ones follow.\<close>

definition mask_bits :: "bytes \<Rightarrow> bool list" where
  "mask_bits m = concat (map (\<lambda>b. map (bit b) (rev [0..<8])) m)"

definition mask_Size :: "bytes \<Rightarrow> nat \<times> nat" where
  "mask_Size m =
     (let ones = length (takeWhile id (mask_bits m))
      in if list_ex id (drop ones (mask_bits m)) then (0, 0) else (ones, 8 * length m))"

section \<open>Addresses as words\<close>

lemma be_bytes_4: "length b = 4 \<Longrightarrow> \<exists>v :: 32 word. b = be_bytes 4 v"
  by (rule exI [of _ "word_of_nat (be_val b)"], rule be_bytes_be_val [symmetric]) simp_all

lemma be_bytes_16: "length b = 16 \<Longrightarrow> \<exists>x :: 128 word. b = be_bytes 16 x"
  by (rule exI [of _ "word_of_nat (be_val b)"], rule be_bytes_be_val [symmetric]) simp_all

lemma be_bytes_split: "be_bytes (k + n) w = be_bytes k (drop_bit (8 * n) w) @ be_bytes n w"
proof (induction k)
  case (Suc k)
  have "drop_bit (8 * (k + n)) w = drop_bit (8 * k) (drop_bit (8 * n) w)"
    by (simp add: drop_bit_drop_bit algebra_simps)
  then show ?case using Suc by simp
qed simp

lemma be_bytes_4_ucast: "be_bytes 4 (ucast x :: 32 word) = be_bytes 4 x" for x :: "128 word"
proof (rule be_val_inject)
  have "unat (ucast x :: 32 word) = unat x mod 2 ^ 32" by (simp add: unsigned_ucast_eq take_bit_eq_mod)
  then show "be_val (be_bytes 4 (ucast x :: 32 word)) = be_val (be_bytes 4 x)"
    by (simp add: be_val_be_bytes)
qed simp

lemma high_bytes: "be_bytes 12 (drop_bit 32 x) = be_bytes 12 y \<longleftrightarrow> drop_bit 32 x = y"
  if "unat y < 2 ^ 96" for x y :: "128 word"
proof
  assume e: "be_bytes 12 (drop_bit 32 x) = be_bytes 12 y"
  have "unat x < 2 ^ 128" using unsigned_less [of x] by simp
  then have l: "unat (drop_bit 32 x) < 2 ^ 96" unfolding unat_drop_bit by (simp add: drop_bit_eq_div)
  have p: "(256::nat) ^ 12 = 2 ^ 96" by simp
  have "unat (drop_bit 32 x) mod 2 ^ 96 = unat y mod 2 ^ 96"
    using arg_cong [OF e, of be_val] unfolding be_val_be_bytes p .
  then have "unat (drop_bit 32 x) = unat y" unfolding mod_less [OF l] mod_less [OF that] .
  then show "drop_bit 32 x = y" unfolding word_unat_eq_iff .
qed simp

lemma be_val_zeros: "be_val (replicate k 0 @ bs) = be_val bs"
  by (induction k) (simp_all add: be_val_Cons)

lemma last_two: "length h = 12 \<Longrightarrow> h = take 10 h @ [h ! 10, h ! 11]"
  using take_Suc_conv_app_nth [of 10 h] take_Suc_conv_app_nth [of 11 h] by simp

lemma mapped_bytes:
  assumes "length h = 12"
  shows "take 10 h = replicate 10 0 \<and> h ! 10 = 0xFF \<and> h ! 11 = 0xFF \<longleftrightarrow> h = be_bytes 12 (0xFFFF :: 128 word)"
proof -
  have "be_bytes 12 (0xFFFF :: 128 word) = replicate 10 0 @ [0xFF, 0xFF]"
    by (rule be_val_inject) (simp_all add: be_val_be_bytes be_val_zeros be_val_Cons, simp add: be_val_def)
  moreover have "take 10 (replicate 10 0 @ [0xFF, 0xFF :: 8 word]) = replicate 10 0" by simp
  moreover have "(replicate 10 0 @ [0xFF, 0xFF :: 8 word]) ! 10 = 0xFF" "(replicate 10 0 @ [0xFF, 0xFF :: 8 word]) ! 11 = 0xFF"
    by (simp_all add: nth_append)
  ultimately show ?thesis using last_two [OF assms] by metis
qed

lemma ip_To4_16: "ip_To4 (be_bytes 16 x) = map_option (be_bytes 4) (To4 x)" for x :: "128 word"
proof -
  have s: "be_bytes 16 x = be_bytes 12 (drop_bit 32 x) @ be_bytes 4 x" using be_bytes_split [of 12 4 x] by simp
  define h where "h = be_bytes 12 (drop_bit 32 x)"
  have l: "length h = 12" by (simp add: h_def)
  have "h = be_bytes 12 (0xFFFF :: 128 word) \<longleftrightarrow> drop_bit 32 x = 0xFFFF"
    unfolding h_def by (rule high_bytes) simp
  then have "take 10 h = replicate 10 0 \<and> h ! 10 = 0xFF \<and> h ! 11 = 0xFF \<longleftrightarrow> drop_bit 32 x = 0xFFFF"
    using mapped_bytes [OF l] by simp
  moreover have "take 10 (h @ be_bytes 4 x) = take 10 h" "(h @ be_bytes 4 x) ! 10 = h ! 10"
    "(h @ be_bytes 4 x) ! 11 = h ! 11" "drop 12 (h @ be_bytes 4 x) = be_bytes 4 x" "length (h @ be_bytes 4 x) = 16"
    using l by (simp_all add: nth_append)
  ultimately have "ip_To4 (h @ be_bytes 4 x) = (if drop_bit 32 x = 0xFFFF then Some (be_bytes 4 x) else None)"
    unfolding ip_To4_def by (simp only: if_True if_False) simp
  then show ?thesis unfolding s h_def [symmetric] To4_def by (simp add: be_bytes_4_ucast)
qed

lemma ip_To4_4 [simp]: "length b = 4 \<Longrightarrow> ip_To4 b = Some b"
  by (simp add: ip_To4_def)

lemma ip_To4_Some:
  assumes "ip_To4 ip = Some b"
  shows "length b = 4"
  using assms by (auto simp: ip_To4_def split: if_splits)

lemma ip_String_To4: "ip_To4 ip = Some b \<Longrightarrow> ip_String ip = text4 b"
  by (auto simp: ip_String_def ip_To4_def split: if_splits)

section \<open>IPv4 networks\<close>

lemma be_bytes_4_list:
  "be_bytes 4 w = [ucast (drop_bit 24 w), ucast (drop_bit 16 w), ucast (drop_bit 8 w), ucast w]" for w :: "32 word"
  by (simp add: eval_nat_numeral(2,3) numeral_3_eq_3 numeral_2_eq_2 One_nat_def)

lemma be_bytes_4_eq: "be_bytes 4 a = be_bytes 4 b \<longleftrightarrow> a = b" for a b :: "32 word"
  using be_bytes_inject [of 4 a b] by auto

lemma net_Contains_V4:
  "net_Contains (ip_net (V4 w) n) ip \<longleftrightarrow>
     (\<exists>v. ip_To4 ip = Some (be_bytes 4 v) \<and> v AND prefix_mask n = w AND prefix_mask n)"
proof -
  let ?m = "prefix_mask n :: 32 word"
  have nn: "networkNumberAndMask (ip_net (V4 w) n) = (be_bytes 4 (w AND ?m), be_bytes 4 ?m)"
    by (simp add: networkNumberAndMask_def)
  have e: "map2 (AND) (be_bytes 4 (w AND ?m)) (be_bytes 4 ?m) = map2 (AND) (be_bytes 4 v) (be_bytes 4 ?m) \<longleftrightarrow>
      v AND ?m = w AND ?m" for v
    unfolding map2_and_be_bytes be_bytes_4_eq and.right_idem by (rule eq_commute)
  show ?thesis
  proof (cases "ip_To4 ip")
    case None
    then have "length ip \<noteq> 4" by (auto simp: ip_To4_def)
    then show ?thesis unfolding net_Contains_def nn None by simp
  next
    case (Some b)
    obtain v :: "32 word" where v: "b = be_bytes 4 v" using be_bytes_4 [OF ip_To4_Some [OF Some]] by blast
    have "net_Contains (ip_net (V4 w) n) ip \<longleftrightarrow> v AND ?m = w AND ?m"
      unfolding net_Contains_def nn Some v Let_def prod.case option.case e by simp
    then show ?thesis unfolding Some v option.inject be_bytes_4_eq by blast
  qed
qed

text \<open>Two addresses are in the same network exactly when their first bits are the same.\<close>

lemma drop_push_drop: "drop_bit k (push_bit k (drop_bit k x)) = drop_bit k x" for x :: "'a::len word"
proof (rule bit_word_eqI)
  fix i
  have "bit x (k + i) \<Longrightarrow> k + i < LENGTH('a)" by (rule bit_imp_le_length)
  then show "bit (drop_bit k (push_bit k (drop_bit k x))) i \<longleftrightarrow> bit (drop_bit k x) i"
    by (auto simp: bit_drop_bit_eq bit_push_bit_iff)
qed

lemma same_network: "v AND prefix_mask n = w AND prefix_mask n \<longleftrightarrow> unat v div 2 ^ (32 - n) = unat w div 2 ^ (32 - n)"
  for v w :: "32 word"
proof -
  let ?d = "\<lambda>x :: 32 word. drop_bit (32 - n) x"
  have m: "x AND prefix_mask n = push_bit (32 - n) (?d x)" for x :: "32 word"
    by (rule bit_word_eqI) (auto simp: prefix_mask_def bit_simps)
  have d: "?d (push_bit (32 - n) (?d x)) = ?d x" for x by (rule drop_push_drop)
  have "v AND prefix_mask n = w AND prefix_mask n \<longleftrightarrow> ?d v = ?d w"
  proof
    assume "v AND prefix_mask n = w AND prefix_mask n"
    then have "push_bit (32 - n) (?d v) = push_bit (32 - n) (?d w)" unfolding m .
    then have "?d (push_bit (32 - n) (?d v)) = ?d (push_bit (32 - n) (?d w))" by (rule arg_cong)
    then show "?d v = ?d w" unfolding d .
  qed (simp only: m)
  moreover have "unat (?d x) = unat x div 2 ^ (32 - n)" for x by (rule unat_drop_bit)
  ultimately show ?thesis using word_unat_eq_iff [of "?d v" "?d w"] by (simp only:)
qed

lemma text4_parse:
  assumes "length b = 4"
  shows "ParseAddr4 (text4 b) = Some (V4 (word_of_nat (be_val b)))"
proof -
  obtain w x y z where b: "b = [w, x, y, z]"
    using assms by (auto simp: numeral_eq_Suc length_Suc_conv)
  have l: "unat v \<le> 255" for v :: "8 word"
  proof -
    have "unat v < 256" using unsigned_less [of v] by simp
    then show ?thesis by linarith
  qed
  have "text4 b = joinWith ''.'' (map dec [unat w, unat x, unat y, unat z])" by (simp add: b text4_def)
  moreover have "be_val b = ((unat w * 256 + unat x) * 256 + unat y) * 256 + unat z" by (simp add: b be_val_def)
  ultimately show ?thesis using ParseAddr4_dotted [OF l l l l, of w x y z] by (simp only: v4_of_octets_def)
qed

lemma text4_inject:
  assumes "text4 a = text4 b" and "length a = 4" and "length b = 4"
  shows "a = b"
proof -
  have "(word_of_nat (be_val a) :: 32 word) = word_of_nat (be_val b)"
    using text4_parse [OF assms(2)] text4_parse [OF assms(3)] assms(1) by simp
  then have "be_bytes 4 (word_of_nat (be_val a) :: 32 word) = be_bytes 4 (word_of_nat (be_val b) :: 32 word)"
    by (rule arg_cong)
  moreover have "be_bytes 4 (word_of_nat (be_val x) :: 32 word) = x" if "length x = 4" for x
    by (rule be_bytes_be_val [OF that]) simp
  ultimately show ?thesis using assms(2,3) by metis
qed

lemma find_append_hit: "(\<And>x. x \<in> set xs \<Longrightarrow> \<not> P x) \<Longrightarrow> P y \<Longrightarrow> find P (xs @ y # zs) = Some y"
  by (induction xs) auto

lemma ParseAddr_text4:
  assumes "length b = 4"
  shows "ParseAddr (text4 b) = Some (V4 (word_of_nat (be_val b)))"
proof -
  obtain x xs where b: "b = x # xs" "xs \<noteq> []"
    using assms by (cases b; cases "tl b") auto
  have t: "text4 b = dec (unat x) @ CHR ''.'' # joinWith ''.'' (map (\<lambda>x. dec (unat x)) xs)"
    using b by (cases xs) (simp_all add: text4_def)
  have "\<not> (c = CHR ''.'' \<or> c = CHR '':'' \<or> c = CHR ''%'')" if "c \<in> set (dec (unat x))" for c
    using dec_digits [of "unat x"] that by (auto simp: is_digit_def)
  then have "find (\<lambda>c. c = CHR ''.'' \<or> c = CHR '':'' \<or> c = CHR ''%'') (text4 b) = Some (CHR ''.'')"
    unfolding t by (rule find_append_hit) simp_all
  then show ?thesis using text4_parse [OF assms] by (simp add: ParseAddr_def)
qed

lemma ip_Parse_text4:
  assumes "length b = 4"
  shows "ip_To4 (ip_Parse (text4 b)) = Some b"
proof -
  have "ip_Parse (text4 b) = be_bytes 16 (As16 (V4 (word_of_nat (be_val b))))"
    unfolding ip_Parse_def ParseIP_def ParseAddr_text4 [OF assms] by (simp del: As16.simps)
  then show ?thesis
    using ip_To4_16 [of "As16 (V4 (word_of_nat (be_val b)))"] be_bytes_be_val [of b 4, where 'a = 32] assms
    by (simp del: As16.simps)
qed

text \<open>The ones of a prefix mask are counted.\<close>

lemma mask_bits_be_bytes: "mask_bits (be_bytes k w) = map (bit w) (rev [0..<8 * k])"
proof (induction k)
  case (Suc k)
  have u: "rev [0..<8 * Suc k] = map (\<lambda>i. 8 * k + i) (rev [0..<8]) @ rev [0..<8 * k]"
  proof -
    have "[0..<8 * Suc k] = [0..<8 * k] @ [8 * k..<8 * k + 8]" using upt_add_eq_append [of 0 "8 * k" 8] by (simp add: add.commute)
    moreover have "[8 * k..<8 * k + 8] = map (\<lambda>i. 8 * k + i) [0..<8]" by (simp add: map_add_upt [symmetric] add.commute)
    ultimately show ?thesis by (simp add: rev_map)
  qed
  have "map (bit (ucast (drop_bit (8 * k) w) :: 8 word)) (rev [0..<8]) = map (bit w) (map (\<lambda>i. 8 * k + i) (rev [0..<8]))"
    by (auto simp: bit_simps)
  then show ?case unfolding u using Suc by (simp add: mask_bits_def)
qed (simp add: mask_bits_def)

lemma rev_upt_split: "n \<le> m \<Longrightarrow> rev [0..<m] = rev [m - n..<m] @ rev [0..<m - n]"
  by (metis diff_le_self le_add_diff_inverse2 rev_append upt_add_eq_append zero_le)

lemma mask_Size_prefix: "n \<le> 32 \<Longrightarrow> mask_Size (be_bytes 4 (prefix_mask n :: 32 word)) = (n, 32)"
proof -
  assume n: "n \<le> 32"
  have b: "bit (prefix_mask n :: 32 word) i \<longleftrightarrow> 32 - n \<le> i \<and> i < 32" for i
    by (auto simp: prefix_mask_def bit_simps)
  have hi: "map (bit (prefix_mask n :: 32 word)) (rev [32 - n..<32]) = replicate n True"
    using n by (intro replicate_eqI) (auto simp: b)
  have lo: "map (bit (prefix_mask n :: 32 word)) (rev [0..<32 - n]) = replicate (32 - n) False"
    by (intro replicate_eqI) (auto simp: b)
  have "mask_bits (be_bytes 4 (prefix_mask n :: 32 word)) = replicate n True @ replicate (32 - n) False"
    using rev_upt_split [OF n] unfolding mask_bits_be_bytes by (simp add: hi lo)
  then show ?thesis
    by (simp add: mask_Size_def takeWhile_append list_ex_iff takeWhile_replicate)
qed

end
