(* ===== verification/NetworkController.thy ===== *)
theory NetworkController
  imports IpamServer NetworkApi GoIP
begin

text \<open>
  The controller of networks (\<open>pkg/liqo-controller-manager/networking/network-controller\<close>): it asks the
  IPAM server for the CIDR of a \<open>Network\<close>, writes the answer into the status, and gives the CIDR back
  when the \<open>Network\<close> is deleted. The handlers of the server are those of \<open>IpamServer\<close>; log lines are
  left out.
\<close>

section \<open>Text\<close>

text \<open>\<open>String()\<close> of \<open>netip.Addr\<close> and \<open>netip.Prefix\<close>.\<close>

fun addr_String :: "addr \<Rightarrow> string" where
  "addr_String ZeroAddr = ''invalid IP''"
| "addr_String (V4 w) = text4 (be_bytes 4 w)"
| "addr_String (V6 w) =
     (if drop_bit 32 w = 0xFFFF then ''::ffff:'' @ text4 (be_bytes 4 (ucast w :: 32 word))
      else text6 (groups16 (be_bytes 16 w)))"

definition prefix_String :: "prefix \<Rightarrow> string" where
  "prefix_String p = (if Valid p then addr_String (Addr p) @ ''/'' @ dec (Bits p) else ''invalid Prefix'')"

section \<open>Finalizers\<close>

definition ipamNetworkFinalizer :: string where
  "ipamNetworkFinalizer = ''network.ipam.liqo.io/finalizer''"

definition ContainsFinalizer :: "Network \<Rightarrow> bool" where
  "ContainsFinalizer nw = List.member (nw_Finalizers nw) ipamNetworkFinalizer"

section \<open>The reconciliation\<close>

text \<open>
  The calls of the API server. \<open>Update\<close> and \<open>Status().Update\<close> get the object as it was read, which
  carries its resource version, and the object to write; they tell whether they have succeeded.
  \<open>ipamEnabled\<close> says that the client of the IPAM is not nil, \<open>n_call\<close> what becomes of a call to it: the
  request can get lost before it reaches the server, and the answer on its way back.
\<close>

datatype call = Answered | RequestLost | AnswerLost

record 'c network_env =
  n_get :: "objkey \<Rightarrow> 'c \<Rightarrow> Network got"
  n_list :: "(Network \<Rightarrow> bool) \<Rightarrow> 'c \<Rightarrow> Network list option"
  n_update :: "Network \<Rightarrow> Network \<Rightarrow> 'c \<Rightarrow> bool \<times> 'c"
  n_updateStatus :: "Network \<Rightarrow> Network \<Rightarrow> 'c \<Rightarrow> bool \<times> 'c"
  n_call :: "'c \<Rightarrow> call"
  ipamEnabled :: bool

record 'c nst =
  napi :: 'c
  nipam :: LiqoIPAM
  nclock :: clock

datatype network_error = GetNetworkFailed | AddFinalizerFailed | AcquireError ipam_error | AcquireCallFailed
  | StatusUpdateFailed | InvalidStatusCIDR string | ReleaseError ipam_error | ReleaseCallFailed | RemoveFinalizerFailed
  | ListNetworksFailed | NetworkNotFound | MultipleNetworks

type_synonym ('c, 'a) nm = "'c nst \<Rightarrow> (network_error, 'a) res \<times> 'c nst"

definition getRemappedCIDR :: "'c network_env \<Rightarrow> io \<Rightarrow> string \<Rightarrow> bool \<Rightarrow> bool \<Rightarrow> 32 word \<Rightarrow> ('c, string) nm" where
  "getRemappedCIDR E io desiredCIDR imm excl pre st =
     (if \<not> ipamEnabled E then (Ok desiredCIDR, st)
      else if n_call E (napi st) = RequestLost then (Err AcquireCallFailed, st)
      else (case handle_NetworkAcquire io \<lparr>Cidr = desiredCIDR, Immutable = imm, Exclusive = excl, PreAllocated = unat pre\<rparr>
                   (nipam st) (nclock st) of
              None \<Rightarrow> (Panic, st)
            | Some (l, r, c) \<Rightarrow>
                (if n_call E (napi st) = AnswerLost then Err AcquireCallFailed
                 else case r of Inl e \<Rightarrow> Err (AcquireError e) | Inr p \<Rightarrow> Ok (prefix_String p),
                 st\<lparr>nipam := l, nclock := c\<rparr>)))"

definition deleteRemappedCIDR :: "'c network_env \<Rightarrow> io \<Rightarrow> string \<Rightarrow> ('c, unit) nm" where
  "deleteRemappedCIDR E io cidr st =
     (if \<not> ipamEnabled E then (Ok (), st)
      else if n_call E (napi st) = RequestLost then (Err ReleaseCallFailed, st)
      else (case handle_NetworkRelease io cidr (nipam st) (nclock st) of
              None \<Rightarrow> (Panic, st)
            | Some (l, r, c) \<Rightarrow>
                (if n_call E (napi st) = AnswerLost then Err ReleaseCallFailed
                 else case r of Some e \<Rightarrow> Err (ReleaseError e) | None \<Rightarrow> Ok (),
                 st\<lparr>nipam := l, nclock := c\<rparr>)))"

definition unmap_network :: "'c network_env \<Rightarrow> io \<Rightarrow> string \<Rightarrow> ('c, unit) nm" where
  "unmap_network E io remappedCIDR st =
     (if remappedCIDR = [] then (Ok (), st)
      else if ParseCIDR remappedCIDR = None then (Err (InvalidStatusCIDR remappedCIDR), st)
      else deleteRemappedCIDR E io remappedCIDR st)"

definition handleNetworkStatus :: "'c network_env \<Rightarrow> io \<Rightarrow> Network \<Rightarrow> ('c, unit) nm" where
  "handleNetworkStatus E io nw st =
     (if \<not> nw_Deleting nw
      then if \<not> ContainsFinalizer nw \<and> \<not> IsPreinstalledResource nw
           then (let (ok, c) = n_update E nw (nw\<lparr>nw_Finalizers := nw_Finalizers nw @ [ipamNetworkFinalizer]\<rparr>) (napi st)
                 in (if ok then Ok () else Err AddFinalizerFailed, st\<lparr>napi := c\<rparr>))
           else if nw_StatusCIDR nw = []
           then (case getRemappedCIDR E io (nw_CIDR nw) (NetworkNotRemapped nw) (NetworkIsExclusive nw) (nw_PreAllocated nw) st of
                   (Panic, st') \<Rightarrow> (Panic, st')
                 | (Err e, st') \<Rightarrow> (Err e, st')
                 | (Ok remappedCIDR, st') \<Rightarrow>
                     (let (ok, c) = n_updateStatus E nw (nw\<lparr>nw_StatusCIDR := remappedCIDR\<rparr>) (napi st')
                      in (if ok then Ok () else Err StatusUpdateFailed, st'\<lparr>napi := c\<rparr>)))
           else (Ok (), st)
      else if ContainsFinalizer nw
      then (case unmap_network E io (nw_StatusCIDR nw) st of
              (Panic, st') \<Rightarrow> (Panic, st')
            | (Err e, st') \<Rightarrow> (Err e, st')
            | (Ok _, st') \<Rightarrow>
                (let (ok, c) = n_update E nw (nw\<lparr>nw_StatusCIDR := [],
                                 nw_Finalizers := filter (\<lambda>f. f \<noteq> ipamNetworkFinalizer) (nw_Finalizers nw)\<rparr>) (napi st')
                 in (if ok then Ok () else Err RemoveFinalizerFailed, st'\<lparr>napi := c\<rparr>)))
      else (Ok (), st))"

definition network_Reconcile :: "'c network_env \<Rightarrow> io \<Rightarrow> objkey \<Rightarrow> ('c, unit) nm" where
  "network_Reconcile E io key st =
     (case n_get E key (napi st) of
        GetNotFound \<Rightarrow> (Ok (), st)
      | GetFailed \<Rightarrow> (Err GetNetworkFailed, st)
      | Got nw \<Rightarrow> handleNetworkStatus E io nw st)"

end
