(* ===== verification/NetworkInit.thy ===== *)
theory NetworkInit
  imports NetworkController
begin

text \<open>
  The networks that the controller manager itself acquires when it starts
  (\<open>cmd/liqo-controller-manager/modules/networking.go\<close>): the pod, service and reserved networks, and the
  external and the internal one. The lookups are those of \<open>pkg/utils/ipam/networks.go\<close> and
  \<open>pkg/utils/getters\<close>. The call of the IPAM client is the one of \<open>getRemappedCIDR\<close>: without a client the
  CIDR is the one of the specification. Log lines are left out.
\<close>

definition nbind :: "('c, 'a) nm \<Rightarrow> ('a \<Rightarrow> ('c, 'b) nm) \<Rightarrow> ('c, 'b) nm" where
  "nbind f g st = (case f st of (Ok x, st') \<Rightarrow> g x st' | (Err e, st') \<Rightarrow> (Err e, st') | (Panic, st') \<Rightarrow> (Panic, st'))"

section \<open>Lookups\<close>

definition GetNetworksByLabel :: "'c network_env \<Rightarrow> string \<Rightarrow> ('c, Network list) nm" where
  "GetNetworksByLabel E networkType st =
     (case n_list E (\<lambda>nw. map_of (om_Labels nw) NetworkTypeLabelKey = Some networkType) (napi st) of
        None \<Rightarrow> (Err ListNetworksFailed, st)
      | Some nws \<Rightarrow> (Ok nws, st))"

definition GetUniqueNetworkByLabel :: "'c network_env \<Rightarrow> string \<Rightarrow> ('c, Network) nm" where
  "GetUniqueNetworkByLabel E networkType =
     nbind (GetNetworksByLabel E networkType) (\<lambda>nws st.
       case nws of
         [] \<Rightarrow> (Err NetworkNotFound, st)
       | [nw] \<Rightarrow> (Ok nw, st)
       | _ \<Rightarrow> (Err MultipleNetworks, st))"

definition GetPodCIDRNetworks :: "'c network_env \<Rightarrow> ('c, Network list) nm" where
  "GetPodCIDRNetworks E = GetNetworksByLabel E ''pod-cidr''"

definition GetServiceCIDRNetwork :: "'c network_env \<Rightarrow> ('c, Network) nm" where
  "GetServiceCIDRNetwork E = GetUniqueNetworkByLabel E ''service-cidr''"

definition GetExternalCIDRNetwork :: "'c network_env \<Rightarrow> ('c, Network) nm" where
  "GetExternalCIDRNetwork E = GetUniqueNetworkByLabel E ''external-cidr''"

definition GetInternalCIDRNetwork :: "'c network_env \<Rightarrow> ('c, Network) nm" where
  "GetInternalCIDRNetwork E = GetUniqueNetworkByLabel E ''internal-cidr''"

definition GetReservedSubnetNetworks :: "'c network_env \<Rightarrow> ('c, Network list) nm" where
  "GetReservedSubnetNetworks E = GetNetworksByLabel E ''reserved''"

section \<open>The networks that are reserved\<close>

definition write_status :: "'c network_env \<Rightarrow> Network \<Rightarrow> string \<Rightarrow> ('c, unit) nm" where
  "write_status E nw cidr st =
     (let (ok, c) = n_updateStatus E nw (nw\<lparr>nw_StatusCIDR := cidr\<rparr>) (napi st)
      in (if ok then Ok () else Err StatusUpdateFailed, st\<lparr>napi := c\<rparr>))"

text \<open>The answer is not read: a reserved network is not remapped.\<close>

definition reserve_network :: "'c network_env \<Rightarrow> io \<Rightarrow> Network \<Rightarrow> ('c, unit) nm" where
  "reserve_network E io nw =
     (if nw_StatusCIDR nw \<noteq> [] then (\<lambda>st. (Ok (), st))
      else nbind (getRemappedCIDR E io (nw_CIDR nw) True False (nw_PreAllocated nw)) (\<lambda>_.
             write_status E nw (nw_CIDR nw)))"

fun reserve_networks :: "'c network_env \<Rightarrow> io \<Rightarrow> Network list \<Rightarrow> ('c, unit) nm" where
  "reserve_networks E io [] = (\<lambda>st. (Ok (), st))"
| "reserve_networks E io (nw # nws) = nbind (reserve_network E io nw) (\<lambda>_. reserve_networks E io nws)"

definition initializeReservedNetworks :: "'c network_env \<Rightarrow> io \<Rightarrow> ('c, unit) nm" where
  "initializeReservedNetworks E io =
     nbind (GetPodCIDRNetworks E) (\<lambda>podCidrs.
     nbind (GetServiceCIDRNetwork E) (\<lambda>serviceCidr.
     nbind (GetReservedSubnetNetworks E) (\<lambda>reservedNetworks.
       reserve_networks E io (podCidrs @ [serviceCidr] @ reservedNetworks))))"

section \<open>The networks that are required\<close>

definition require_network :: "'c network_env \<Rightarrow> io \<Rightarrow> Network \<Rightarrow> ('c, unit) nm" where
  "require_network E io nw =
     (if nw_StatusCIDR nw \<noteq> [] then (\<lambda>st. (Ok (), st))
      else nbind (getRemappedCIDR E io (nw_CIDR nw) (NetworkNotRemapped nw) (NetworkIsExclusive nw) (nw_PreAllocated nw))
             (write_status E nw))"

definition initializeRequiredNetworks :: "'c network_env \<Rightarrow> io \<Rightarrow> ('c, unit) nm" where
  "initializeRequiredNetworks E io =
     nbind (GetExternalCIDRNetwork E) (\<lambda>externalCIDR.
     nbind (GetInternalCIDRNetwork E) (\<lambda>internalCIDR.
     nbind (require_network E io externalCIDR) (\<lambda>_.
       require_network E io internalCIDR)))"

end
