(* ===== verification/NetworkSpec.thy ===== *)
theory NetworkSpec
  imports NetworkInit IpamReach
begin

text \<open>
  What the controller of networks keeps: a CIDR of a pool that stands in the status of some networks is
  counted by the IPAM server at least once for each of them.
\<close>

section \<open>The text of a prefix\<close>

lemma ParsePrefix_String:
  assumes "Addr p = V4 w" and "Valid p"
  shows "ParsePrefix (prefix_String p) = Some p"
proof -
  obtain n where p: "p = Prefix (V4 w) n" "n \<le> 32" using assms by (cases p) (auto simp: Valid_def)
  let ?a = "text4 (be_bytes 4 w)"
  have "be_val (be_bytes 4 w) = unat w" using unsigned_less [of w, where 'a = nat] by (simp add: be_val_be_bytes)
  then have a: "ParseAddr ?a = Some (V4 w)" using ParseAddr_text4 [of "be_bytes 4 w"] by simp
  then have "CHR ''/'' \<notin> set ?a" using ParseAddr_V4_chars by (fastforce simp: is_digit_def)
  then have "splitOn (CHR ''/'') (?a @ CHR ''/'' # dec n) = [?a, dec n]"
    by (simp add: splitOn_append splitOn_no_sep dec_no_sep)
  then show ?thesis using a p assms by (simp add: ParsePrefix_def prefix_String_def parseBits_dec)
qed

lemma ParsePrefix_V4_chars:
  assumes "ParsePrefix s = Some (Prefix (V4 w) n)"
  shows "CHR '':'' \<notin> set s"
proof -
  obtain a b where s: "splitOn (CHR ''/'') s = [a, b]" and a: "ParseAddr a = Some (V4 w)" and b: "list_all is_digit b"
    using assms by (auto simp: ParsePrefix_def parseBits_def split: list.splits option.splits if_splits)
  have "c \<noteq> CHR '':''" if "c \<in> set s" for c
    using that splitOn_chars [of s "CHR ''/''"] s b ParseAddr_V4_chars [OF a]
    by (fastforce simp: list_all_iff is_digit_def)
  then show ?thesis by blast
qed

text \<open>The text of an IPv6 prefix has a colon, so it is never read as an IPv4 prefix.\<close>

lemma colon_joinWith: "2 \<le> length xs \<Longrightarrow> CHR '':'' \<in> set (joinWith '':'' xs)"
  by (cases xs; cases "tl xs") auto

lemma colon_text6: "length gs = 8 \<Longrightarrow> CHR '':'' \<in> set (text6 gs)"
  by (cases "longest_zeros gs") (simp add: text6_def colon_joinWith)

lemma prefix_String_inject:
  assumes "ParsePrefix (prefix_String q) = Some p" and "net4 p"
  shows "q = p"
proof -
  obtain w n where p: "p = Prefix (V4 w) n" using assms(2) by (cases p) (auto simp: net4_def)
  have c: "CHR '':'' \<notin> set (prefix_String q)" using ParsePrefix_V4_chars assms(1) p by blast
  have v: "Valid q" using assms(1) by (auto simp: prefix_String_def parse_eval split: if_splits)
  have "length (groups16 (be_bytes 16 x)) = 8" for x :: "128 word" by (simp add: numeral_eq_Suc)
  then have "\<exists>w. Addr q = V4 w"
    using c v colon_text6 by (cases "Addr q") (auto simp: prefix_String_def Valid_def split: if_splits)
  then show ?thesis using ParsePrefix_String [OF _ v] assms(1) by auto
qed

section \<open>The networks on the API server\<close>

text \<open>
  \<open>view\<close> gives the networks the API server stores. What the controller relies on: a read may be old but
  has the key asked for; a write takes effect only on the version that was read; the update of the
  status touches the status only and the other update everything else; an object under deletion goes
  away with its last finalizer. A failed call may have taken effect.
\<close>

type_synonym 'c view = "'c \<Rightarrow> objkey \<Rightarrow> Network option"

definition status_written :: "Network \<Rightarrow> Network \<Rightarrow> Network option \<Rightarrow> bool" where
  "status_written nw new stored \<longleftrightarrow> (\<exists>s. stored = Some s \<and> nw_StatusCIDR s = nw_StatusCIDR new \<and>
     nw_Deleting s = nw_Deleting nw \<and> nw_Finalizers s = nw_Finalizers nw)"

definition object_written :: "Network \<Rightarrow> Network \<Rightarrow> Network option \<Rightarrow> bool" where
  "object_written nw new stored \<longleftrightarrow>
     (if nw_Deleting nw \<and> nw_Finalizers new = [] then stored = None
      else \<exists>s. stored = Some s \<and> nw_StatusCIDR s = nw_StatusCIDR nw \<and> nw_Deleting s = nw_Deleting nw \<and>
        nw_Finalizers s = nw_Finalizers new)"

definition write_ok ::
  "'c view \<Rightarrow> (Network \<Rightarrow> Network \<Rightarrow> Network option \<Rightarrow> bool) \<Rightarrow> (Network \<Rightarrow> Network \<Rightarrow> 'c \<Rightarrow> bool \<times> 'c) \<Rightarrow> bool" where
  "write_ok view W write \<longleftrightarrow> (\<forall>nw new c ok c'. write nw new c = (ok, c') \<longrightarrow>
     \<not> ok \<and> view c' = view c \<or>
     view c (object_key nw) = Some nw \<and> (\<exists>stored. W nw new stored \<and> view c' = (view c)(object_key nw := stored)))"

definition network_api_ok :: "'c network_env \<Rightarrow> 'c view \<Rightarrow> bool" where
  "network_api_ok E view \<longleftrightarrow> (\<forall>c. finite (dom (view c))) \<and>
     write_ok view object_written (n_update E) \<and> write_ok view status_written (n_updateStatus E)"

text \<open>A network holds the CIDR of its status until it is deleted and the finalizer is gone.\<close>

definition holds :: "prefix \<Rightarrow> Network option \<Rightarrow> bool" where
  "holds p stored \<longleftrightarrow> (\<exists>nw. stored = Some nw \<and> ParsePrefix (nw_StatusCIDR nw) = Some p \<and>
     (nw_Deleting nw \<longrightarrow> ContainsFinalizer nw))"

definition holders :: "(objkey \<Rightarrow> Network option) \<Rightarrow> prefix \<Rightarrow> objkey set" where
  "holders v p = {k. holds p (v k)}"

definition backed :: "(objkey \<Rightarrow> Network option) \<Rightarrow> LiqoIPAM \<Rightarrow> bool" where
  "backed v l \<longleftrightarrow> (\<forall>p. in_pool (IpamCore l) p \<longrightarrow> int (card (holders v p)) \<le> \<bar>cnt l p\<bar>)"

lemma holds_simps [simp]:
  "\<not> holds p None"
  "holds p (Some nw) \<longleftrightarrow> ParsePrefix (nw_StatusCIDR nw) = Some p \<and> (nw_Deleting nw \<longrightarrow> ContainsFinalizer nw)"
  by (simp_all add: holds_def)

lemma holders_upd: "holders (v(k := s)) p = (if holds p s then insert k (holders v p) else holders v p - {k})"
  by (auto simp: holders_def)

lemma finite_holders: "finite (dom v) \<Longrightarrow> finite (holders v p)"
  by (erule finite_subset [rotated]) (auto simp: holders_def holds_def)

lemma backed_mono:
  assumes "backed v l" and "\<And>p. holders v' p \<subseteq> holders v p" and "finite (dom v)"
    and "pools (IpamCore l') = pools (IpamCore l)" and "\<And>p. \<bar>cnt l p\<bar> \<le> \<bar>cnt l' p\<bar>"
  shows "backed v' l'"
  unfolding backed_def
proof (intro allI impI)
  fix p assume "in_pool (IpamCore l') p"
  then have "int (card (holders v p)) \<le> \<bar>cnt l p\<bar>"
    using assms(1) in_pool_pools [OF assms(4)] by (simp add: backed_def)
  moreover have "card (holders v' p) \<le> card (holders v p)"
    by (rule card_mono [OF finite_holders [OF assms(3)] assms(2)])
  ultimately show "int (card (holders v' p)) \<le> \<bar>cnt l' p\<bar>" using assms(5) [of p] by linarith
qed

section \<open>What a reconciliation does to the counts\<close>

lemma backed_acquire:
  assumes w: "wf_server l" and b: "backed v l" and f: "finite (dom v)"
    and run: "handle_NetworkAcquire io req l c = Some (l', Inr q, c')"
    and s: "\<And>p. net4 p \<Longrightarrow> ParsePrefix (nw_StatusCIDR s) = Some p \<Longrightarrow> q = p"
  shows "backed (v(k := Some s)) l'"
  unfolding backed_def
proof (intro allI impI)
  fix p assume p: "in_pool (IpamCore l') p"
  have k: "pools (IpamCore l') = pools (IpamCore l)"
    using handle_NetworkAcquire_keeps [OF w run] by (simp add: keeps_def)
  have old: "int (card (holders v p)) \<le> \<bar>cnt l p\<bar>"
    using b p in_pool_pools [OF k] by (simp add: backed_def)
  show "int (card (holders (v(k := Some s)) p)) \<le> \<bar>cnt l' p\<bar>"
  proof (cases "holds p (Some s)")
    case True
    have q: "q = p" using True s p by (simp add: in_pool_def inside_def)
    then have "isInPool q l" using p in_pool_isInPool in_pool_pools [OF k] by metis
    then obtain p0 where "requested req p0 l l' q"
      using handle_NetworkAcquire_keeps [OF w run] by (auto split: if_splits)
    then have "\<bar>cnt l' p\<bar> = \<bar>cnt l p\<bar> + 1" using requested_cnt_abs [OF w] q by auto
    moreover have "card (holders (v(k := Some s)) p) \<le> card (holders v p) + 1"
      using card_insert_le_m1 [of "card (holders v p) + 1" "holders v p" k] True by (simp add: holders_upd del: holds_simps)
    ultimately show ?thesis using old by linarith
  next
    case False
    have "card (holders v p - {k}) \<le> card (holders v p)" using finite_holders [OF f] by (simp add: card_mono)
    then show ?thesis
      using old handle_NetworkAcquire_mono [OF w run, of p] False by (simp add: holders_upd del: holds_simps)
  qed
qed

lemma backed_release:
  assumes w: "wf_server l" and b: "backed v l" and f: "finite (dom v)"
    and run: "handle_NetworkRelease io (nw_StatusCIDR nw) l c = Some (l', r, c')"
    and nw: "v k = Some nw" "ContainsFinalizer nw" and s: "\<And>p. \<not> holds p s"
  shows "backed (v(k := s)) l'"
proof (cases "ParsePrefix (nw_StatusCIDR nw)")
  case None
  then have "l' = l" using run by (simp add: handle_NetworkRelease_def)
  then show ?thesis using backed_mono [OF b _ f, of "v(k := s)" l] s by (auto simp: holders_upd)
next
  case (Some q)
  obtain l1 r1 c1 where rel: "lipam_networkRelease io q 0 l c = Some (l1, r1, c1)" and k: "keeps l l1"
    and cnt: "cnt l q \<noteq> 0 \<and> cnt l1 = release q (cnt l) \<or> cnt l1 = cnt l"
    using lipam_networkRelease_keeps [OF w, of io q 0 c] by (metis (no_types))
  have l1: "l1 = l'" using run rel Some by (simp add: handle_NetworkRelease_def)
  show ?thesis
    unfolding backed_def
  proof (intro allI impI)
    fix p assume "in_pool (IpamCore l') p"
    then have old: "int (card (holders v p)) \<le> \<bar>cnt l p\<bar>"
      using b in_pool_pools [of "IpamCore l'" "IpamCore l"] k l1 by (simp add: backed_def keeps_def)
    have fin: "finite (holders v p)" using f by (rule finite_holders)
    have "card (holders v p - {k}) + (if p = q then 1 else 0) \<le> card (holders v p)"
    proof (cases "p = q")
      case True
      then have "k \<in> holders v p" using nw Some by (simp add: holders_def)
      then show ?thesis using True card_Suc_Diff1 [OF fin] by simp
    qed (simp add: fin card_mono)
    moreover have "\<bar>cnt l p\<bar> \<le> \<bar>cnt l' p\<bar> + (if p = q then 1 else 0)"
      using cnt l1 irefs_ge [of "IpamCore l" q] w by (auto simp: release_def wf_server_def)
    ultimately show "int (card (holders (v(k := s)) p)) \<le> \<bar>cnt l' p\<bar>"
      using old s by (auto simp: holders_upd split: if_splits)
  qed
qed

section \<open>Reconciliations\<close>

text \<open>
  A deletion is settled when it has got through: a CIDR that was given back no longer stands in the
  status of the network.
\<close>

fun settled :: "(network_error, unit) res \<Rightarrow> bool" where
  "settled Panic = False"
| "settled (Err (ReleaseError e)) = False"
| "settled (Err ReleaseCallFailed) = False"
| "settled (Err RemoveFinalizerFailed) = False"
| "settled r = True"

definition in_order :: "'c view \<Rightarrow> 'c \<Rightarrow> LiqoIPAM \<Rightarrow> bool" where
  "in_order view c l \<longleftrightarrow> wf_server l \<and> backed (view c) l"

lemma write_okD:
  assumes "write_ok view W write" and "write nw new c = (ok, c')"
  obtains "\<not> ok" "view c' = view c"
  | stored where "view c (object_key nw) = Some nw" "W nw new stored" "view c' = (view c)(object_key nw := stored)"
  using assms unfolding write_ok_def by blast

lemma add_finalizer_in_order:
  assumes api: "network_api_ok E view" and i: "in_order view c l" and nw: "\<not> nw_Deleting nw"
    and u: "n_update E nw (nw\<lparr>nw_Finalizers := fs\<rparr>) c = (ok, c')"
  shows "in_order view c' l"
proof -
  have w: "write_ok view object_written (n_update E)" and f: "finite (dom (view c))"
    using api by (simp_all add: network_api_ok_def)
  have "holders (view c') p \<subseteq> holders (view c) p" for p
    using w u
  proof (cases rule: write_okD)
    case (2 stored)
    then show ?thesis using nw by (auto simp: holders_def object_written_def split: if_splits)
  qed simp
  then show ?thesis using i backed_mono [OF _ _ f, of l "view c'" l] by (auto simp: in_order_def)
qed

lemma acquire_in_order:
  assumes api: "network_api_ok E view" and en: "ipamEnabled E" and i: "in_order view (napi st) (nipam st)"
    and g: "getRemappedCIDR E io d im ex pre st = (r, st')"
  shows "in_order view (napi st') (nipam st')" and "napi st' = napi st"
    and "r = Ok cidr \<Longrightarrow> val = cidr \<or> im \<and> val = d \<Longrightarrow>
      n_updateStatus E nw (nw\<lparr>nw_StatusCIDR := val\<rparr>) (napi st') = (ok, c') \<Longrightarrow> in_order view c' (nipam st')"
proof -
  let ?req = "\<lparr>Cidr = d, Immutable = im, Exclusive = ex, PreAllocated = unat pre\<rparr>"
  have w: "wf_server (nipam st)" and b: "backed (view (napi st)) (nipam st)" using i by (simp_all add: in_order_def)
  have f: "finite (dom (view (napi st)))" using api by (simp add: network_api_ok_def)
  have grown: "in_order view (napi st) l" if "handle_NetworkAcquire io ?req (nipam st) (nclock st) = Some (l, a, t)" for l a t
    using backed_mono [OF b _ f, of "view (napi st)" l] handle_NetworkAcquire_keeps [OF w that]
      handle_NetworkAcquire_mono [OF w that]
    by (auto simp: in_order_def keeps_def)
  show same: "napi st' = napi st" using g by (auto simp: getRemappedCIDR_def split: if_splits option.splits)
  show ord: "in_order view (napi st') (nipam st')"
    using g i grown by (auto simp: getRemappedCIDR_def split: if_splits option.splits)
  assume r: "r = Ok cidr" and tx: "val = cidr \<or> im \<and> val = d"
    and u: "n_updateStatus E nw (nw\<lparr>nw_StatusCIDR := val\<rparr>) (napi st') = (ok, c')"
  obtain l q t where h: "handle_NetworkAcquire io ?req (nipam st) (nclock st) = Some (l, Inr q, t)"
    and q: "cidr = prefix_String q" "nipam st' = l"
    using g en r by (auto simp: getRemappedCIDR_def split: if_splits option.splits sum.splits)
  have same_val: "q = p" if "net4 p" "ParsePrefix val = Some p" for p
  proof (cases "val = cidr")
    case True
    then show ?thesis using prefix_String_inject that q(1) by blast
  next
    case False
    obtain p0 where "ParsePrefix d = Some p0" "if \<not> isInPool p0 (nipam st) \<and> im then q = p0 else requested ?req p0 (nipam st) l q"
      using handle_NetworkAcquire_keeps [OF w h] by (auto split: if_splits)
    then show ?thesis using False tx that by (auto simp: requested_def split: if_splits)
  qed
  have "write_ok view status_written (n_updateStatus E)" using api by (simp add: network_api_ok_def)
  from this u show "in_order view c' (nipam st')"
  proof (cases rule: write_okD)
    case 1
    then show ?thesis using ord by (simp add: in_order_def)
  next
    case (2 stored)
    then obtain s where s: "stored = Some s" "nw_StatusCIDR s = val" by (auto simp: status_written_def)
    have "backed ((view (napi st))(object_key nw := Some s)) l"
      by (rule backed_acquire [OF w b f h]) (use s(2) same_val in simp)
    then show ?thesis using 2 s(1) ord same q(2) by (simp add: in_order_def)
  qed
qed

lemma release_in_order:
  assumes api: "network_api_ok E view" and en: "ipamEnabled E" and i: "in_order view (napi st) (nipam st)"
    and nw: "nw_Deleting nw" "ContainsFinalizer nw"
    and un: "unmap_network E io (nw_StatusCIDR nw) st = (Ok x, st')"
    and u: "n_update E nw (nw\<lparr>nw_StatusCIDR := [], nw_Finalizers := filter (\<lambda>f. f \<noteq> ipamNetworkFinalizer) (nw_Finalizers nw)\<rparr>)
      (napi st') = (True, c')"
  shows "in_order view c' (nipam st')"
proof -
  have w: "wf_server (nipam st)" and b: "backed (view (napi st)) (nipam st)" using i by (simp_all add: in_order_def)
  have f: "finite (dom (view (napi st)))" and wr: "write_ok view object_written (n_update E)"
    using api by (simp_all add: network_api_ok_def)
  have same: "napi st' = napi st"
    using un by (auto simp: unmap_network_def deleteRemappedCIDR_def split: if_splits option.splits)
  from wr u obtain stored where v: "view (napi st) (object_key nw) = Some nw"
    "view c' = (view (napi st))(object_key nw := stored)" and s: "\<not> holds p stored" for p
  proof (cases rule: write_okD)
    case (2 stored)
    then have "\<not> holds p stored" for p
      using nw(1) by (auto simp: object_written_def ContainsFinalizer_def List.member_iff split: if_splits)
    then show ?thesis using that 2 same by simp
  qed simp
  show ?thesis
  proof (cases "nw_StatusCIDR nw = []")
    case True
    then have "st' = st" using un by (simp add: unmap_network_def)
    then show ?thesis
      using backed_mono [OF b _ f, of "view c'" "nipam st"] s w v(2) by (auto simp: in_order_def holders_upd)
  next
    case False
    then obtain l r t where h: "handle_NetworkRelease io (nw_StatusCIDR nw) (nipam st) (nclock st) = Some (l, r, t)"
      and l: "nipam st' = l"
      using un en by (auto simp: unmap_network_def deleteRemappedCIDR_def split: if_splits option.splits)
    show ?thesis
      using backed_release [OF w b f h v(1) nw(2) s] handle_NetworkRelease_keeps [OF w h] v(2) l
      by (simp add: in_order_def keeps_def)
  qed
qed

lemma unmap_failed:
  "unmap_network E io s st = (Err e, st') \<Longrightarrow> settled (Err e) \<Longrightarrow> st' = st"
  by (auto simp: unmap_network_def deleteRemappedCIDR_def split: if_splits option.splits)

lemma handleNetworkStatus_in_order:
  assumes api: "network_api_ok E view" and en: "ipamEnabled E" and i: "in_order view (napi st) (nipam st)"
    and run: "handleNetworkStatus E io nw st = (r, st')" and r: "settled r"
  shows "in_order view (napi st') (nipam st')"
proof (cases "nw_Deleting nw")
  case False
  consider (add) "\<not> ContainsFinalizer nw \<and> \<not> IsPreinstalledResource nw"
    | (acquire) "\<not> (\<not> ContainsFinalizer nw \<and> \<not> IsPreinstalledResource nw)" "nw_StatusCIDR nw = []"
    | (none) "\<not> (\<not> ContainsFinalizer nw \<and> \<not> IsPreinstalledResource nw)" "nw_StatusCIDR nw \<noteq> []" by blast
  then show ?thesis
  proof cases
    case add
    then show ?thesis
      using run False add_finalizer_in_order [OF api i False]
      by (auto simp: handleNetworkStatus_def split: prod.splits)
  next
    case acquire
    obtain x st1 where g: "getRemappedCIDR E io (nw_CIDR nw) (NetworkNotRemapped nw) (NetworkIsExclusive nw)
        (nw_PreAllocated nw) st = (x, st1)"
      by (cases "getRemappedCIDR E io (nw_CIDR nw) (NetworkNotRemapped nw) (NetworkIsExclusive nw)
        (nw_PreAllocated nw) st") auto
    note a = acquire_in_order [OF api en i g]
    show ?thesis
    proof (cases x)
      case (Ok cidr)
      obtain ok c' where u: "n_updateStatus E nw (nw\<lparr>nw_StatusCIDR := cidr\<rparr>) (napi st1) = (ok, c')"
        by (cases "n_updateStatus E nw (nw\<lparr>nw_StatusCIDR := cidr\<rparr>) (napi st1)") auto
      then have "st' = st1\<lparr>napi := c'\<rparr>"
        using run False acquire g Ok by (auto simp: handleNetworkStatus_def)
      then show ?thesis using a(3) [OF Ok _ u] by simp
    qed (use run False acquire g a(1) in \<open>auto simp: handleNetworkStatus_def\<close>)
  qed (use run False i in \<open>auto simp: handleNetworkStatus_def\<close>)
next
  case True
  show ?thesis
  proof (cases "ContainsFinalizer nw")
    case fin: True
    obtain x st1 where un: "unmap_network E io (nw_StatusCIDR nw) st = (x, st1)"
      by (cases "unmap_network E io (nw_StatusCIDR nw) st") auto
    show ?thesis
    proof (cases x)
      case (Ok y)
      then show ?thesis
        using run True fin un r release_in_order [OF api en i True fin un [unfolded Ok]]
        by (auto simp: handleNetworkStatus_def split: prod.splits if_splits)
    next
      case (Err e)
      then have "r = Err e" "st' = st1" using run True fin un by (auto simp: handleNetworkStatus_def)
      then show ?thesis using unmap_failed [OF un [unfolded Err]] r i by simp
    qed (use run True fin un r in \<open>auto simp: handleNetworkStatus_def\<close>)
  qed (use run True i in \<open>auto simp: handleNetworkStatus_def\<close>)
qed

section \<open>The start of the controller manager\<close>

definition keeps_order :: "'c view \<Rightarrow> ('c, 'a) nm \<Rightarrow> bool" where
  "keeps_order view f \<longleftrightarrow> (\<forall>st r st'. in_order view (napi st) (nipam st) \<longrightarrow> f st = (r, st') \<longrightarrow> r \<noteq> Panic \<longrightarrow>
     in_order view (napi st') (nipam st'))"

lemma keeps_order_bind:
  assumes "keeps_order view f" and "\<And>x. keeps_order view (g x)"
  shows "keeps_order view (nbind f g)"
  unfolding keeps_order_def
proof (intro allI impI)
  fix st r st' assume i: "in_order view (napi st) (nipam st)" and run: "nbind f g st = (r, st')" and r: "r \<noteq> Panic"
  obtain x st1 where f: "f st = (x, st1)" by (cases "f st")
  have x: "x \<noteq> Panic" using run r f by (auto simp: nbind_def)
  then have "in_order view (napi st1) (nipam st1)" using assms(1) i f by (simp add: keeps_order_def)
  then show "in_order view (napi st') (nipam st')"
    using assms(2) run r f x by (cases x) (auto simp: nbind_def keeps_order_def)
qed

lemma keeps_order_skip: "keeps_order view (\<lambda>st. (Ok x, st))"
  by (simp add: keeps_order_def)

lemma keeps_order_list: "keeps_order view (GetNetworksByLabel E t)"
  by (auto simp: keeps_order_def GetNetworksByLabel_def split: option.splits)

lemma keeps_order_unique: "keeps_order view (GetUniqueNetworkByLabel E t)"
  unfolding GetUniqueNetworkByLabel_def
  by (rule keeps_order_bind [OF keeps_order_list]) (auto simp: keeps_order_def split: list.splits)

text \<open>An acquisition and the write of its answer, or of the CIDR that was asked for if it may not change.\<close>

lemma keeps_order_acquire:
  assumes "network_api_ok E view" and "ipamEnabled E" and "\<And>cidr. g cidr = cidr \<or> im \<and> g cidr = d"
  shows "keeps_order view (nbind (getRemappedCIDR E io d im ex pre) (\<lambda>cidr. write_status E nw (g cidr)))"
  unfolding keeps_order_def
proof (intro allI impI)
  fix st r st'
  assume i: "in_order view (napi st) (nipam st)"
    and run: "nbind (getRemappedCIDR E io d im ex pre) (\<lambda>cidr. write_status E nw (g cidr)) st = (r, st')"
  obtain x st1 where f: "getRemappedCIDR E io d im ex pre st = (x, st1)" by (cases "getRemappedCIDR E io d im ex pre st")
  note a = acquire_in_order [OF assms(1,2) i f]
  show "in_order view (napi st') (nipam st')"
  proof (cases x)
    case (Ok cidr)
    obtain ok c where u: "n_updateStatus E nw (nw\<lparr>nw_StatusCIDR := g cidr\<rparr>) (napi st1) = (ok, c)"
      by (cases "n_updateStatus E nw (nw\<lparr>nw_StatusCIDR := g cidr\<rparr>) (napi st1)")
    then have "st' = st1\<lparr>napi := c\<rparr>" using run f Ok by (simp add: nbind_def write_status_def)
    then show ?thesis using a(3) [OF Ok assms(3) u] by simp
  qed (use run f a(1) in \<open>simp_all add: nbind_def\<close>)
qed

lemma initializeReservedNetworks_order:
  assumes "network_api_ok E view" and "ipamEnabled E"
  shows "keeps_order view (initializeReservedNetworks E io)"
proof -
  have "keeps_order view (reserve_network E io nw)" for nw
    unfolding reserve_network_def
    using keeps_order_acquire [OF assms, where g = "\<lambda>_. nw_CIDR nw" and im = True and d = "nw_CIDR nw"] keeps_order_skip by auto
  then have "keeps_order view (reserve_networks E io nws)" for nws
    by (induction nws) (simp_all add: keeps_order_skip keeps_order_bind)
  then show ?thesis
    unfolding initializeReservedNetworks_def GetPodCIDRNetworks_def GetServiceCIDRNetwork_def GetReservedSubnetNetworks_def
    by (intro keeps_order_bind keeps_order_list keeps_order_unique)
qed

lemma initializeRequiredNetworks_order:
  assumes "network_api_ok E view" and "ipamEnabled E"
  shows "keeps_order view (initializeRequiredNetworks E io)"
proof -
  have "keeps_order view (require_network E io nw)" for nw
    unfolding require_network_def using keeps_order_acquire [OF assms, where g = "\<lambda>x. x"] keeps_order_skip by auto
  then show ?thesis
    unfolding initializeRequiredNetworks_def GetExternalCIDRNetwork_def GetInternalCIDRNetwork_def
    by (intro keeps_order_bind keeps_order_unique)
qed

section \<open>Runs\<close>

text \<open>No network under deletion holds a CIDR: such a network is not in the list that the server reads.\<close>

definition quiet :: "(objkey \<Rightarrow> Network option) \<Rightarrow> bool" where
  "quiet v \<longleftrightarrow> (\<forall>p k nw. v k = Some nw \<longrightarrow> nw_Deleting nw \<longrightarrow> \<not> holds p (Some nw))"

lemma holders_listed:
  assumes "quiet v" and "ran v \<subseteq> set nws" and "networks_loop nws [] = Inr nets" and "k \<in> holders v p"
  shows "isNetworkInCluster nets p"
proof -
  obtain nw where nw: "v k = Some nw" "ParsePrefix (nw_StatusCIDR nw) = Some p" and h: "holds p (Some nw)"
    using assms(4) by (auto simp: holders_def holds_def)
  have "\<not> nw_Deleting nw" using assms(1) nw(1) h unfolding quiet_def by blast
  moreover have "nw \<in> set nws" using assms(2) ranI [of v k nw] nw(1) by blast
  ultimately show ?thesis using networks_loop_mem [OF assms(3)] nw(2) by blast
qed

text \<open>
  The states of the API server and of the IPAM server together. The IPAM server starts, and may be
  restarted at any time, from the networks of the cluster: its list has to be current, no network under deletion may hold a
  CIDR, and no two networks the same CIDR of a pool, as the server loads it with one reference only. The steps are
  reconciliations whose deletions are settled, the start of the controller manager, requests for addresses, the periodic comparison of
  the server with a current list of the cluster while no network under deletion holds a CIDR, and whatever else happens on the
  API server as long as it gives no network a CIDR. A comparison that fails and a panic end the process of the
  server, which is then restarted. A reconciliation is one step.
\<close>

inductive network_run :: "'c network_env \<Rightarrow> 'c view \<Rightarrow> 'c \<Rightarrow> LiqoIPAM \<Rightarrow> bool" for E view where
  run_New: "New io ordN ordI (Inr nws) iplist os t = Some (Inr l, t') \<Longrightarrow> pools4 os \<Longrightarrow> (\<And>xs. mset (ordN xs) = mset xs) \<Longrightarrow>
    ran (view c) \<subseteq> set nws \<Longrightarrow> quiet (view c) \<Longrightarrow> (\<And>p. in_pool (IpamCore l) p \<Longrightarrow> card (holders (view c) p) \<le> 1) \<Longrightarrow>
    network_run E view c l"
| run_reconcile: "network_run E view (napi st) (nipam st) \<Longrightarrow> network_Reconcile E io key st = (r, st') \<Longrightarrow>
    settled r \<Longrightarrow> network_run E view (napi st') (nipam st')"
| run_reserved: "network_run E view (napi st) (nipam st) \<Longrightarrow> initializeReservedNetworks E io st = (r, st') \<Longrightarrow>
    r \<noteq> Panic \<Longrightarrow> network_run E view (napi st') (nipam st')"
| run_required: "network_run E view (napi st) (nipam st) \<Longrightarrow> initializeRequiredNetworks E io st = (r, st') \<Longrightarrow>
    r \<noteq> Panic \<Longrightarrow> network_run E view (napi st') (nipam st')"
| run_sync: "network_run E view c l \<Longrightarrow> sync_tick io ordN ordC ordI (Inr nws) networks iplist l t = Some (l', None, t') \<Longrightarrow>
    (\<And>xs. mset (ordN xs) = mset xs) \<Longrightarrow> (\<And>xs. mset (ordC xs) = mset xs) \<Longrightarrow>
    ran (view c) \<subseteq> set nws \<Longrightarrow> quiet (view c) \<Longrightarrow> network_run E view c l'"
| run_IPAcquire: "network_run E view c l \<Longrightarrow> handle_IPAcquire io s l t = (l', a, t') \<Longrightarrow> network_run E view c l'"
| run_IPRelease: "network_run E view c l \<Longrightarrow> handle_IPRelease io ip s l t = (l', e, t') \<Longrightarrow> network_run E view c l'"
| run_other: "network_run E view c l \<Longrightarrow> (\<And>p. holders (view c') p \<subseteq> holders (view c) p) \<Longrightarrow> network_run E view c' l"

lemma New_in_order:
  assumes run: "New io ordN ordI (Inr nws) iplist os t = Some (Inr l, t')" and "pools4 os" and "\<And>xs. mset (ordN xs) = mset xs"
    and c: "ran (view c) \<subseteq> set nws" "quiet (view c)" "\<And>p. in_pool (IpamCore l) p \<Longrightarrow> card (holders (view c) p) \<le> 1"
  shows "in_order view c l"
proof -
  obtain nets where n: "networks_loop nws [] = Inr nets"
    and one: "\<And>p. isNetworkInCluster nets p \<Longrightarrow> isInPool p l \<Longrightarrow> \<bar>cnt l p\<bar> = 1"
    by (rule New_loaded [OF assms(2) run assms(3)]) blast
  have "int (card (holders (view c) p)) \<le> \<bar>cnt l p\<bar>" if p: "in_pool (IpamCore l) p" for p
  proof (cases "holders (view c) p = {}")
    case False
    then have "isNetworkInCluster nets p" using holders_listed [OF c(2,1) n] by blast
    then show ?thesis using one in_pool_isInPool [OF p] c(3) [OF p] by simp
  qed simp
  moreover have "wf_server l" using reachable_wf [OF reach_New [OF run] assms(2)] .
  ultimately show ?thesis by (simp add: in_order_def backed_def)
qed

lemma sync_in_order:
  assumes i: "in_order view c l" and run: "sync_tick io ordN ordC ordI (Inr nws) networks iplist l t = Some (l', None, t')"
    and ord: "\<And>xs. mset (ordN xs) = mset xs" "\<And>xs. mset (ordC xs) = mset xs"
    and c: "ran (view c) \<subseteq> set nws" "quiet (view c)"
  shows "in_order view c l'"
proof -
  have w: "wf_server l" using i by (simp add: in_order_def)
  have k: "keeps l l'" by (rule sync_tick_keeps [OF w run ord])
  obtain nets where n: "networks_loop nws [] = Inr nets"
    and up: "\<And>q. isNetworkInCluster nets q \<Longrightarrow> \<bar>cnt l q\<bar> \<le> \<bar>cnt l' q\<bar>"
    by (rule sync_tick_counts [OF w run ord]) blast
  have "int (card (holders (view c) p)) \<le> \<bar>cnt l' p\<bar>" if p: "in_pool (IpamCore l') p" for p
  proof (cases "holders (view c) p = {}")
    case False
    then have "\<bar>cnt l p\<bar> \<le> \<bar>cnt l' p\<bar>" using up holders_listed [OF c(2,1) n] by blast
    moreover have "int (card (holders (view c) p)) \<le> \<bar>cnt l p\<bar>"
      using i p keeps_in_pool [OF k] by (simp add: in_order_def backed_def)
    ultimately show ?thesis by linarith
  qed simp
  then show ?thesis using keeps_wf [OF k] by (simp add: in_order_def backed_def)
qed

lemma network_run_in_order:
  assumes "network_run E view c l" and api: "network_api_ok E view" and en: "ipamEnabled E"
  shows "in_order view c l"
  using assms(1)
proof (induction rule: network_run.induct)
  case (run_New io ordN ordI nws iplist os t l t' c)
  then show ?case by (intro New_in_order)
next
  case (run_reconcile st io key r st')
  then show ?case
    using handleNetworkStatus_in_order [OF api en run_reconcile.IH]
    by (auto simp: network_Reconcile_def split: got.splits)
next
  case (run_reserved st io r st')
  then show ?case using initializeReservedNetworks_order [OF api en, of io] by (auto simp: keeps_order_def)
next
  case (run_required st io r st')
  then show ?case using initializeRequiredNetworks_order [OF api en, of io] by (auto simp: keeps_order_def)
next
  case (run_sync c l io ordN ordC ordI nws networks iplist t l' t')
  show ?case by (rule sync_in_order [OF run_sync.IH run_sync.hyps(2-6)])
next
  case (run_IPAcquire c l io s t l' a t')
  then show ?case
    using handle_IPAcquire_keeps [of l io s t l' a t'] backed_mono [of "view c" l "view c" l'] api
    by (auto simp: in_order_def keeps_cnt_def keeps_def network_api_ok_def)
next
  case (run_IPRelease c l io ip s t l' e t')
  then show ?case
    using handle_IPRelease_keeps [of l io ip s t l' e t'] backed_mono [of "view c" l "view c" l'] api
    by (auto simp: in_order_def keeps_cnt_def keeps_def network_api_ok_def)
next
  case (run_other c l c')
  then show ?case
    using backed_mono [of "view c" l "view c'" l] api by (auto simp: in_order_def network_api_ok_def)
qed

end
