(* ===== verification/NetworkProps.thy ===== *)
theory NetworkProps
  imports NetworkSpec IpamProps
begin

text \<open>
  The properties of the controller of networks together with the IPAM server.
\<close>

section \<open>Example\<close>

text \<open>An API server that stores the networks in a list, and shared networks that ask for the same CIDR.\<close>

definition ex_nenv :: "(objkey \<times> Network) list network_env" where
  "ex_nenv =
     \<lparr>n_get = (\<lambda>k c. case map_of c k of None \<Rightarrow> GetNotFound | Some nw \<Rightarrow> Got nw),
      n_list = (\<lambda>P c. Some (filter P (map snd c))),
      n_update = (\<lambda>nw new c.
        if map_of c (object_key nw) \<noteq> Some nw then (False, c)
        else if nw_Deleting nw \<and> nw_Finalizers new = [] then (True, del (object_key nw) c)
        else (True, put (object_key nw) (new\<lparr>nw_StatusCIDR := nw_StatusCIDR nw, nw_Deleting := nw_Deleting nw\<rparr>) c)),
      n_updateStatus = (\<lambda>nw new c.
        if map_of c (object_key nw) \<noteq> Some nw then (False, c)
        else (True, put (object_key nw) (nw\<lparr>nw_StatusCIDR := nw_StatusCIDR new\<rparr>) c)),
      n_call = (\<lambda>_. Answered),
      ipamEnabled = True\<rparr>"

definition ex_shared :: "string \<Rightarrow> Network" where
  "ex_shared name =
     \<lparr>om_Namespace = ''liqo'', om_Name = name,
      om_Labels = [(''ipam.liqo.io/network-not-remapped'', ''true''), (''ipam.liqo.io/network-shared'', ''true'')],
      om_Annotations = [], om_Owners = [], nw_Finalizers = [ipamNetworkFinalizer], nw_Deleting = False,
      nw_CIDR = ''10.2.0.0/16'', nw_PreAllocated = 0, nw_StatusCIDR = ''''\<rparr>"

lemma ex_nenv_ok: "network_api_ok ex_nenv map_of"
  by (auto simp: network_api_ok_def write_ok_def ex_nenv_def object_written_def status_written_def finite_dom_map_of
      update_conv' delete_conv' split: if_splits intro!: exI [of _ "Some x" for x])

lemma ex_shared_labels: "NetworkNotRemapped (ex_shared name)" "\<not> NetworkIsExclusive (ex_shared name)"
  by (simp_all add: NetworkNotRemapped_def NetworkIsExclusive_def ex_shared_def NetworkNotRemappedLabelKey_def
      NetworkSharedLabelKey_def EqualFold_def lower_def)

definition ex_granted :: "string \<Rightarrow> Network" where
  "ex_granted name = (ex_shared name)\<lparr>nw_StatusCIDR := prefix_String ex_Q\<rparr>"

lemma ex_granted_holds: "holds ex_Q (Some (ex_granted name))"
  using ParsePrefix_String [of ex_Q] ex_PQ(2) by (auto simp: ex_granted_def ex_shared_def net4_def ex_Q_def Valid_def)

lemma ex_share:
  assumes "network_run ex_nenv map_of c l" and "map_of c (''liqo'', name) = Some (ex_shared name)"
    and "wf_server l" "\<not> GraphvizEnabled (opts l)" "in_pool (IpamCore l) ex_Q" "grantable False ex_Q (cnt l)"
  obtains l' where "network_run ex_nenv map_of (put (''liqo'', name) (ex_granted name) c) l'"
    and "keeps l l'" and "cnt l' = grant False ex_Q (cnt l)"
proof -
  obtain l' c' where h: "handle_NetworkAcquire ex_io \<lparr>Cidr = ''10.2.0.0/16'', Immutable = True,
      Exclusive = False, PreAllocated = 0\<rparr> l ex_clock = Some (l', Inr ex_Q, c')"
    and l': "keeps l l'" "cnt l' = grant False ex_Q (cnt l)"
    by (rule handle_NetworkAcquire_immutable [OF assms(3,4) ex_PQ(9) assms(5,6)])
  let ?st = "\<lparr>napi = c, nipam = l, nclock = ex_clock\<rparr>"
  have f: "nw_CIDR (ex_shared name) = ''10.2.0.0/16''" "nw_PreAllocated (ex_shared name) = 0"
    "nw_StatusCIDR (ex_shared name) = ''''" "\<not> nw_Deleting (ex_shared name)" "ContainsFinalizer (ex_shared name)"
    "object_key (ex_shared name) = (''liqo'', name)"
    by (simp_all add: ex_shared_def ContainsFinalizer_def object_key_def)
  have "network_Reconcile ex_nenv ex_io (''liqo'', name) ?st =
      (Ok (), ?st\<lparr>napi := put (''liqo'', name) (ex_granted name) c, nipam := l', nclock := c'\<rparr>)"
    using h assms(2) f ex_shared_labels [of name]
    by (simp add: network_Reconcile_def handleNetworkStatus_def getRemappedCIDR_def ex_nenv_def ex_granted_def)
  then have "network_run ex_nenv map_of (put (''liqo'', name) (ex_granted name) c) l'"
    using run_reconcile [of ex_nenv map_of ?st] assms(1) by fastforce
  then show thesis using that l' by blast
qed

lemma ex_two_shared:
  obtains c l where "network_run ex_nenv map_of c l" and "cnt l ex_Q = 2" and "in_pool (IpamCore l) ex_Q"
    and "map_of c (''liqo'', ''a'') = Some (ex_granted ''a'')" and "map_of c (''liqo'', ''b'') = Some (ex_granted ''b'')"
proof -
  let ?c = "[((''liqo'', ''a''), ex_shared ''a''), ((''liqo'', ''b''), ex_shared ''b'')]"
  have z: "cnt ex_server = (\<lambda>_. 0)" using irefs_ex by (simp add: ex_server_def fun_eq_iff)
  have g: "\<not> GraphvizEnabled (opts ex_server)" by (simp add: ex_server_def ex_opts_def)
  have p: "in_pool (IpamCore ex_server) ex_Q" using ex_PQ(7) by (simp add: ex_server_def)
  have s: "nw_StatusCIDR (ex_shared n) = []" "\<not> nw_Deleting (ex_shared n)" for n by (simp_all add: ex_shared_def)
  have h: "holders (map_of ?c) q = {}" for q
    by (auto simp: holders_def holds_def s ParsePrefix_def split: if_splits)
  have "New ex_io id id (Inr [ex_shared ''a'', ex_shared ''b'']) (Inr []) ex_opts (0 ## ex_clock) = Some (Inr ex_server, ex_clock)"
    by (simp add: New_def parse_ex NewIpam_def checkRoots_def net4_ex(1) [unfolded net4_def, THEN conjunct2, THEN conjunct2]
        newNode_def time_Now_def initialize_def initializeNetworks_def listNetworksOnCluster_def
        initializeIPs_def listIPsOnCluster_def ex_server_def ex_ipam_def s)
  then have "network_run ex_nenv map_of ?c ex_server"
    by (rule run_New [OF _ pools4_ex]) (use s h in \<open>auto simp: ran_def quiet_def split: if_splits\<close>)
  then obtain l1 where r1: "network_run ex_nenv map_of (put (''liqo'', ''a'') (ex_granted ''a'') ?c) l1"
    and k1: "keeps ex_server l1" "cnt l1 = grant False ex_Q (cnt ex_server)"
    by (rule ex_share [where name = "''a''"]) (simp_all add: wf_ex_server g p z grantable_def)
  have q: "in_pool (IpamCore l1) ex_Q" "\<not> GraphvizEnabled (opts l1)"
    using keeps_in_pool [OF k1(1)] k1(1) g p by (simp_all add: keeps_def)
  obtain l2 where r2: "network_run ex_nenv map_of (put (''liqo'', ''b'') (ex_granted ''b'')
      (put (''liqo'', ''a'') (ex_granted ''a'') ?c)) l2"
    and k2: "keeps l1 l2" "cnt l2 = grant False ex_Q (cnt l1)"
    by (rule ex_share [OF r1, of "''b''"]) (use k1 z q keeps_wf in \<open>auto simp: grantable_def grant_def\<close>)
  show thesis
    by (rule that [OF r2]) (use k1(2) k2 z q keeps_in_pool in \<open>auto simp: grant_def update_conv'\<close>)
qed

section \<open>Properties\<close>

text \<open>C5: when the statuses of two networks hold overlapping CIDRs of the pools, the IPAM server counts both
  CIDRs as shared: an exclusive CIDR is in the status of one network only and overlaps no other. This holds
  whatever the requests, the remappings, the failed calls and the lost answers of acquisitions were, through
  the acquisitions at the start of the controller manager, the periodic comparisons of the IPAM server with the cluster and its
  restarts, under these provisos on the run: the deletion of a network gets through (its call is answered
  and the finalizer is removed); the list of networks that a start or a comparison reads is current, and at that time no
  network under deletion holds a CIDR, since the list leaves such a network out; at a start no two networks hold the
  same CIDR of a pool, since the server loads each CIDR with one reference; a reconciliation, the start of the controller
  manager and a comparison each run as one step; and nothing else gives a network a CIDR.\<close>

theorem network_statuses_disjoint:
  assumes "network_api_ok E view" and "ipamEnabled E" and "network_run E view c l"
    and "holds p (view c j)" and "holds q (view c k)" and "j \<noteq> k"
    and "in_pool (IpamCore l) p" and "in_pool (IpamCore l) q" and "Overlaps p q"
  shows "0 < cnt l p \<and> 0 < cnt l q"
proof -
  have w: "wf_ipam (IpamCore l)" and b: "backed (view c) l"
    using network_run_in_order [OF assms(3,1,2)] by (simp_all add: in_order_def wf_server_def)
  have f: "finite (holders (view c) x)" for x using assms(1) finite_holders by (simp add: network_api_ok_def)
  have n: "int (card K) \<le> \<bar>cnt l x\<bar>" if "in_pool (IpamCore l) x" "K \<subseteq> holders (view c) x" for x K
    using b that card_mono [OF f that(2)] by (force simp: backed_def)
  have "cnt l p \<noteq> 0" "cnt l q \<noteq> 0"
    using n [OF assms(7), of "{j}"] n [OF assms(8), of "{k}"] assms(4,5) by (auto simp: holders_def)
  moreover have "p \<noteq> q" if "cnt l p = -1 \<or> cnt l q = -1"
    using n [OF assms(7), of "{j, k}"] assms(4-6) that by (auto simp: holders_def)
  moreover have "Overlaps q p" using assms(9) Overlaps_commute by metis
  ultimately have "cnt l p \<noteq> -1 \<and> cnt l q \<noteq> -1"
    using core.alone [OF w] assms(9) by (auto simp: alone_def)
  then show ?thesis
    using \<open>cnt l p \<noteq> 0\<close> \<open>cnt l q \<noteq> 0\<close> irefs_ge [OF w, of p] irefs_ge [OF w, of q] by auto
qed

theorem network_statuses_disjoint_witness:
  "\<exists>c l. network_run ex_nenv map_of c l \<and> holds ex_Q (map_of c (''liqo'', ''a'')) \<and>
     holds ex_Q (map_of c (''liqo'', ''b'')) \<and> 0 < cnt l ex_Q"
proof -
  obtain c l where c: "network_run ex_nenv map_of c l" "in_pool (IpamCore l) ex_Q"
    and ab: "map_of c (''liqo'', ''a'') = Some (ex_granted ''a'')" "map_of c (''liqo'', ''b'') = Some (ex_granted ''b'')"
    by (rule ex_two_shared)
  have h: "holds ex_Q (map_of c (''liqo'', ''a''))" "holds ex_Q (map_of c (''liqo'', ''b''))"
    using ex_granted_holds by (simp_all only: ab)
  have e: "ipamEnabled ex_nenv" by (simp add: ex_nenv_def)
  have o: "Overlaps ex_Q ex_Q" by (rule Overlaps_refl [OF net4_Valid [OF ex_PQ(2)]])
  have d: "(''liqo'', ''a'') \<noteq> (''liqo'', ''b'')" by simp
  have "0 < cnt l ex_Q \<and> 0 < cnt l ex_Q"
    by (rule network_statuses_disjoint [where E = ex_nenv and view = map_of and c = c and j = "(''liqo'', ''a'')"
          and k = "(''liqo'', ''b'')"]) (fact ex_nenv_ok e c h d o)+
  then show ?thesis using c(1) h by blast
qed

text \<open>C38: a deletion gives the CIDR back before it removes the finalizer, and leaves no trace of it when the
  removal fails: the network still holds the CIDR on the API server while the IPAM server counts one
  reference less, and every retry takes one more, be it the reference of another network.\<close>

theorem failed_finalizer_removal_releases:
  assumes "wf_server (nipam st)" and "\<not> GraphvizEnabled (opts (nipam st))" and "ipamEnabled E" and "n_call E (napi st) = Answered"
    and "n_get E key (napi st) = Got nw" and "nw_Deleting nw" and "ContainsFinalizer nw"
    and "ParsePrefix (nw_StatusCIDR nw) = Some p"
    and "releasable_in p (IpamCore (nipam st)) 0 (shd (nclock st))"
    and "\<And>new. n_update E nw new (napi st) = (False, napi st)"
  shows "\<exists>st'. network_Reconcile E io key st = (Err RemoveFinalizerFailed, st') \<and> napi st' = napi st \<and>
    cnt (nipam st') = release p (cnt (nipam st))"
proof -
  obtain l r t where rel: "lipam_networkRelease io p 0 (nipam st) (nclock st) = Some (l, r, t)"
    and k: "keeps (nipam st) l" and c: "cnt l = release p (cnt (nipam st))" "r = graphviz io l"
    using lipam_networkRelease_keeps [OF assms(1), of io p 0 "nclock st"] assms(9) by (metis (no_types))
  have "r = None" using c(2) k assms(2) by (simp add: graphviz_def keeps_def)
  moreover have "ParseCIDR (nw_StatusCIDR nw) \<noteq> None"
    using ParsePrefix_ParseCIDR [of "nw_StatusCIDR nw" "Addr p" "Bits p"] assms(8) by simp
  moreover have "nw_StatusCIDR nw \<noteq> []" using assms(8) by (auto simp: ParsePrefix_def)
  ultimately have "unmap_network E io (nw_StatusCIDR nw) st = (Ok (), st\<lparr>nipam := l, nclock := t\<rparr>)"
    using assms(3,4,8) rel by (simp add: unmap_network_def deleteRemappedCIDR_def handle_NetworkRelease_def)
  then show ?thesis using assms(5-7,10) c(1) by (simp add: network_Reconcile_def handleNetworkStatus_def)
qed

theorem failed_finalizer_removal_releases_witness:
  "\<exists>(E :: (objkey \<times> Network) list network_env) st st'. network_Reconcile E ex_io (''liqo'', ''a'') st = (Err RemoveFinalizerFailed, st') \<and>
     napi st' = napi st \<and> cnt (nipam st) ex_P = -1 \<and> cnt (nipam st') ex_P = 0"
proof -
  obtain l where l: "reachable ex_opts l" "cnt l = (\<lambda>_. 0)(ex_P := -1, ex_Q := 1)"
    using ex_reachable_networks by blast
  have w: "wf_server l" using reachable_wf [OF l(1) pools4_ex] .
  have n: "cnt l ex_P = -1" using l(2) ex_PQ(3) by simp
  then obtain t where t: "\<forall>now>t. releasable_in ex_P (IpamCore l) 0 now"
    using releasable_later [of "IpamCore l" ex_P] w by (auto simp: wf_server_def)
  let ?l = "l\<lparr>opts := ex_opts\<rparr>"
  let ?nw = "(ex_shared ''a'')\<lparr>nw_Deleting := True, nw_StatusCIDR := ''10.1.0.0/16''\<rparr>"
  let ?E = "ex_nenv\<lparr>n_update := \<lambda>_ _ c. (False, c)\<rparr>"
  let ?st = "\<lparr>napi = [((''liqo'', ''a''), ?nw)], nipam = ?l, nclock = (t + 1) ## ex_clock\<rparr>"
  have "\<exists>st'. network_Reconcile ?E ex_io (''liqo'', ''a'') ?st = (Err RemoveFinalizerFailed, st') \<and>
      napi st' = napi ?st \<and> cnt (nipam st') = release ex_P (cnt (nipam ?st))"
    by (rule failed_finalizer_removal_releases [where nw = ?nw])
      (use w t ex_PQ(8) in \<open>simp_all add: wf_server_def ex_opts_def ex_nenv_def ex_shared_def ContainsFinalizer_def\<close>)
  then obtain st' where "network_Reconcile ?E ex_io (''liqo'', ''a'') ?st = (Err RemoveFinalizerFailed, st')"
    "napi st' = napi ?st" "cnt (nipam st') = release ex_P (cnt l)" by auto
  moreover have "release ex_P (cnt l) ex_P = 0" using n by (simp add: release_def)
  ultimately show ?thesis using n by (intro exI [of _ ?E] exI [of _ ?st] exI [of _ st']) simp
qed

end
