(* ===== verification/ShadowPod.thy ===== *)
theory ShadowPod
  imports GoMap
begin

text \<open>
  The quota accounting of the shadow pod webhook (\<open>pkg/webhooks/shadowpod\<close>, files
  \<open>spdescription.go\<close> and \<open>peeringinfo.go\<close>): what a shadow pod requests, the record the cache keeps
  per user, and the two updates an admission request makes to it.

  A \<open>resource.Quantity\<close> is an integer number of nano-units, the finest step it can represent, with
  \<open>Add\<close>, \<open>Sub\<close> and \<open>Cmp\<close> as its arithmetic. Its \<open>Value\<close> method and \<open>quotav1.Max\<close> belong to
  Kubernetes and are the fields of the argument \<open>k8s\<close>. The methods of \<open>peeringInfo\<close> run under its
  mutex, so each is one function from the record to the record.
\<close>

section \<open>Objects of the API\<close>

type_synonym quantity = int
type_synonym ResourceList = "(string, quantity) gomap"

record k8s_lib =
  q_Value :: "quantity \<Rightarrow> int"
  quota_Max :: "ResourceList \<Rightarrow> ResourceList \<Rightarrow> ResourceList"

record NamespacedName =
  nn_Namespace :: string
  nn_Name :: string

definition nn_String :: "NamespacedName \<Rightarrow> string" where
  "nn_String n = nn_Namespace n @ ''/'' @ nn_Name n"

text \<open>
  A container with the fields the webhook reads; \<open>c_rest\<close> is everything else, as written in the
  object. A slice that may be nil is an option.
\<close>

text \<open>A quantity is an amount with a representation: scale, format and cached text. The accounting reads
  the amounts (\<open>c_Requests\<close>, \<open>c_Limits\<close>, empty for a nil map); the \<open>Form\<close> fields hold the representation
  of each amount, \<open>None\<close> for a nil map, which only \<open>reflect.DeepEqual\<close> looks at.\<close>

type_synonym ResourceForm = "(string, string) gomap option"

record Container =
  c_Name :: string
  c_Image :: string
  c_Requests :: ResourceList
  c_RequestsForm :: ResourceForm
  c_Limits :: ResourceList
  c_LimitsForm :: ResourceForm
  c_rest :: string

record PodSpec =
  Containers :: "Container list option"
  InitContainers :: "Container list option"
  ActiveDeadlineSeconds :: "int option"
  Tolerations :: "string list option"
  ps_rest :: string

text \<open>A nil label map reads as an empty one, and is written as one.\<close>

record ShadowPod =
  sp_Name :: string
  sp_Namespace :: string
  sp_UID :: string
  sp_Labels :: "(string, string) gomap"
  sp_Pod :: PodSpec

definition slice :: "'a list option \<Rightarrow> 'a list" where
  "slice s = (case s of None \<Rightarrow> [] | Some xs \<Rightarrow> xs)"

type_synonym LimitsEnforcement = string

definition HardLimitsEnforcement :: LimitsEnforcement where
  "HardLimitsEnforcement = ''Hard''"

definition SoftLimitsEnforcement :: LimitsEnforcement where
  "SoftLimitsEnforcement = ''Soft''"

definition NoLimitsEnforcement :: LimitsEnforcement where
  "NoLimitsEnforcement = ''None''"

record Quota =
  q_User :: string
  q_LimitsEnforcement :: LimitsEnforcement
  q_Resources :: ResourceList
  q_Cordoned :: "bool option"

datatype sp_error =
    NoContainers string
  | LimitsDiffer string string
  | RequestsNotSet string
  | InitRequestsNotSet string
  | AlreadyRunning string
  | ClientError string
  | StillExists
  | QuotaExceeded string quantity quantity
  | QuotaLimitNotFound string
  | NotFoundInCache string
  | UIDMismatch string

section \<open>Requests of a shadow pod\<close>

text \<open>
  One \<open>range\<close> loop over the requests of a container: \<open>upd\<close> is what the loop does to the
  accumulated resources (a sum for containers, a maximum for init containers), the flags are
  \<open>cpuFlag\<close> and \<open>memoryFlag\<close>.
\<close>

definition sum_request :: "string \<Rightarrow> quantity \<Rightarrow> ResourceList \<Rightarrow> ResourceList" where
  "sum_request key val acc =
     (case map_of acc key of
        Some prev \<Rightarrow> put key (prev + val) acc
      | None \<Rightarrow> put key val acc)"

definition max_request :: "k8s_lib \<Rightarrow> string \<Rightarrow> quantity \<Rightarrow> ResourceList \<Rightarrow> ResourceList" where
  "max_request k8s key val acc =
     (case map_of acc key of
        Some prev \<Rightarrow> if q_Value k8s prev < q_Value k8s val then put key val acc else acc
      | None \<Rightarrow> put key val acc)"

fun requests_loop :: "(string \<Rightarrow> quantity \<Rightarrow> ResourceList \<Rightarrow> ResourceList) \<Rightarrow> LimitsEnforcement \<Rightarrow>
    Container \<Rightarrow> ResourceList \<Rightarrow> bool \<Rightarrow> bool \<Rightarrow> ResourceList \<Rightarrow>
    sp_error + (bool \<times> bool \<times> ResourceList)" where
  "requests_loop upd enf c [] cpuFlag memoryFlag acc = Inr (cpuFlag, memoryFlag, acc)"
| "requests_loop upd enf c ((key, val) # reqs) cpuFlag memoryFlag acc =
     (let cpuFlag' = (key = ''cpu'' \<or> cpuFlag); memoryFlag' = (key = ''memory'' \<or> memoryFlag);
          acc' = upd key val acc
      in if enf = HardLimitsEnforcement \<and> get0 (c_Requests c) key \<noteq> get0 (c_Limits c) key
         then Inl (LimitsDiffer key (c_Name c))
         else requests_loop upd enf c reqs cpuFlag' memoryFlag' acc')"

fun containers_loop :: "(string \<Rightarrow> quantity \<Rightarrow> ResourceList \<Rightarrow> ResourceList) \<Rightarrow>
    (string \<Rightarrow> sp_error) \<Rightarrow> LimitsEnforcement \<Rightarrow> Container list \<Rightarrow> ResourceList \<Rightarrow>
    sp_error + ResourceList" where
  "containers_loop upd notSet enf [] acc = Inr acc"
| "containers_loop upd notSet enf (c # cs) acc =
     (case requests_loop upd enf c (c_Requests c) False False acc of
        Inl e \<Rightarrow> Inl e
      | Inr (cpuFlag, memoryFlag, acc') \<Rightarrow>
          if enf = NoLimitsEnforcement then containers_loop upd notSet enf cs acc'
          else if \<not> cpuFlag \<or> \<not> memoryFlag then Inl (notSet (c_Name c))
          else containers_loop upd notSet enf cs acc')"

definition getQuotaFromShadowPod :: "k8s_lib \<Rightarrow> ShadowPod \<Rightarrow> LimitsEnforcement \<Rightarrow>
    sp_error + ResourceList" where
  "getQuotaFromShadowPod k8s sp enf =
     (case Containers (sp_Pod sp) of
        None \<Rightarrow> Inl (NoContainers (sp_Name sp))
      | Some cs \<Rightarrow>
          (case containers_loop sum_request RequestsNotSet enf cs [] of
             Inl e \<Rightarrow> Inl e
           | Inr conResources \<Rightarrow>
               (case containers_loop (max_request k8s) InitRequestsNotSet enf
                   (slice (InitContainers (sp_Pod sp))) [] of
                  Inl e \<Rightarrow> Inl e
                | Inr initConResources \<Rightarrow> Inr (quota_Max k8s conResources initConResources))))"

section \<open>Descriptions and the record of a user\<close>

record Description =
  namespacedName :: NamespacedName
  uid :: string
  quota :: ResourceList
  running :: bool
  creationTimestamp :: time

definition createShadowPodDescription :: "string \<Rightarrow> string \<Rightarrow> string \<Rightarrow> ResourceList \<Rightarrow> clock \<Rightarrow>
    Description \<times> clock" where
  "createShadowPodDescription name namespace u resources c =
     (let (now, c') = time_Now c in
      (\<lparr>namespacedName = \<lparr>nn_Namespace = namespace, nn_Name = name\<rparr>, uid = u, quota = resources,
        running = True, creationTimestamp = now\<rparr>, c'))"

definition terminate :: "Description \<Rightarrow> Description" where
  "terminate spd = spd\<lparr>running := False\<rparr>"

record peeringInfo =
  userName :: string
  shadowPods :: "(string, Description) gomap"
  totalQuota :: ResourceList
  usedQuota :: ResourceList

definition generateQuotaPattern :: "ResourceList \<Rightarrow> ResourceList" where
  "generateQuotaPattern q = fold (\<lambda>(key, _). put key 0) q []"

definition createPeeringInfo :: "string \<Rightarrow> ResourceList \<Rightarrow> peeringInfo" where
  "createPeeringInfo user resources =
     \<lparr>userName = user, shadowPods = [], totalQuota = resources,
      usedQuota = generateQuotaPattern resources\<rparr>"

definition getFreeQuota :: "peeringInfo \<Rightarrow> ResourceList" where
  "getFreeQuota pi =
     fold (\<lambda>(key, val). put key (val - get0 (usedQuota pi) key)) (totalQuota pi) []"

definition sub_used :: "ResourceList \<Rightarrow> ResourceList \<Rightarrow> ResourceList" where
  "sub_used resources used =
     fold (\<lambda>(key, val) u. case map_of u key of Some prev \<Rightarrow> put key (prev - val) u | None \<Rightarrow> u)
       resources used"

definition subUsedResources :: "ResourceList \<Rightarrow> peeringInfo \<Rightarrow> peeringInfo" where
  "subUsedResources resources pi = pi\<lparr>usedQuota := sub_used resources (usedQuota pi)\<rparr>"

definition add_used :: "ResourceList \<Rightarrow> ResourceList \<Rightarrow> ResourceList" where
  "add_used resources used =
     fold (\<lambda>(key, val) u.
         case map_of u key of Some prev \<Rightarrow> put key (prev + val) u | None \<Rightarrow> put key val u)
       resources used"

definition addUsedResources :: "ResourceList \<Rightarrow> peeringInfo \<Rightarrow> peeringInfo" where
  "addUsedResources resources pi = pi\<lparr>usedQuota := add_used resources (usedQuota pi)\<rparr>"

definition addShadowPod :: "Description \<Rightarrow> peeringInfo \<Rightarrow> peeringInfo" where
  "addShadowPod spd pi = addUsedResources (quota spd)
     (pi\<lparr>shadowPods := put (nn_String (namespacedName spd)) spd (shadowPods pi)\<rparr>)"

definition terminateShadowPod :: "Description \<Rightarrow> peeringInfo \<Rightarrow> peeringInfo" where
  "terminateShadowPod spd pi =
     (let spd' = terminate spd in
      subUsedResources (quota spd')
        (pi\<lparr>shadowPods := put (nn_String (namespacedName spd')) spd' (shadowPods pi)\<rparr>))"

definition removeShadowPod :: "Description \<Rightarrow> peeringInfo \<Rightarrow> peeringInfo" where
  "removeShadowPod spd pi =
     pi\<lparr>shadowPods := del (nn_String (namespacedName spd)) (shadowPods pi)\<rparr>"

definition updateQuotas :: "ResourceList \<Rightarrow> peeringInfo \<Rightarrow> peeringInfo" where
  "updateQuotas newQuota pi = pi\<lparr>totalQuota := newQuota\<rparr>"

definition alignQuotaUpdates :: "ResourceList \<Rightarrow> peeringInfo \<Rightarrow> peeringInfo" where
  "alignQuotaUpdates resources pi = updateQuotas resources pi"

section \<open>Creation and deletion\<close>

text \<open>The answer of the API server to a \<open>Get\<close>.\<close>

datatype get_result = Found | NotFound | GetError string

definition checkShadowPodExistence :: "(NamespacedName \<Rightarrow> get_result) \<Rightarrow> NamespacedName \<Rightarrow>
    sp_error option" where
  "checkShadowPodExistence getSP nsname =
     (case getSP nsname of
        NotFound \<Rightarrow> None
      | GetError e \<Rightarrow> Some (ClientError e)
      | Found \<Rightarrow> Some StillExists)"

definition sp_nsname :: "ShadowPod \<Rightarrow> NamespacedName" where
  "sp_nsname sp = \<lparr>nn_Namespace = sp_Namespace sp, nn_Name = sp_Name sp\<rparr>"

definition getOrCreateShadowPodDescription :: "k8s_lib \<Rightarrow> (NamespacedName \<Rightarrow> get_result) \<Rightarrow>
    ShadowPod \<Rightarrow> LimitsEnforcement \<Rightarrow> peeringInfo \<Rightarrow> clock \<Rightarrow>
    (sp_error + Description) \<times> peeringInfo \<times> clock" where
  "getOrCreateShadowPodDescription k8s getSP sp enf pi c =
     (let nsname = sp_nsname sp in
      case getQuotaFromShadowPod k8s sp enf of
        Inl e \<Rightarrow> (Inl e, pi, c)
      | Inr spQuota \<Rightarrow>
          (let create = (\<lambda>pi. let (spd, c') = createShadowPodDescription (sp_Name sp)
                 (sp_Namespace sp) (sp_UID sp) spQuota c in (Inr spd, pi, c'))
           in case map_of (shadowPods pi) (nn_String nsname) of
                None \<Rightarrow> create pi
              | Some spd \<Rightarrow>
                  if running spd then (Inl (AlreadyRunning (sp_Name sp)), pi, c)
                  else (case checkShadowPodExistence getSP nsname of
                          Some e \<Rightarrow> (Inl e, pi, c)
                        | None \<Rightarrow> create (removeShadowPod spd pi))))"

definition getShadowPodDescription :: "ShadowPod \<Rightarrow> peeringInfo \<Rightarrow> sp_error + Description" where
  "getShadowPodDescription sp pi =
     (case map_of (shadowPods pi) (nn_String (sp_nsname sp)) of
        None \<Rightarrow> Inl (NotFoundInCache (sp_Name sp))
      | Some spd \<Rightarrow> if uid spd \<noteq> sp_UID sp then Inl (UIDMismatch (sp_Name sp)) else Inr spd)"

fun check_loop :: "ResourceList \<Rightarrow> ResourceList \<Rightarrow> sp_error option" where
  "check_loop free [] = None"
| "check_loop free ((key, val) # q) =
     (case map_of free key of
        Some f \<Rightarrow> if f < val then Some (QuotaExceeded key f val) else check_loop free q
      | None \<Rightarrow> Some (QuotaLimitNotFound key))"

definition checkResources :: "Description \<Rightarrow> peeringInfo \<Rightarrow> sp_error option" where
  "checkResources spd pi = check_loop (getFreeQuota pi) (quota spd)"

definition testAndUpdateCreation :: "k8s_lib \<Rightarrow> (NamespacedName \<Rightarrow> get_result) \<Rightarrow> ShadowPod \<Rightarrow>
    LimitsEnforcement \<Rightarrow> bool \<Rightarrow> peeringInfo \<Rightarrow> clock \<Rightarrow> sp_error option \<times> peeringInfo \<times> clock" where
  "testAndUpdateCreation k8s getSP sp enf dryRun pi c =
     (case getOrCreateShadowPodDescription k8s getSP sp enf pi c of
        (Inl e, pi1, c1) \<Rightarrow> (Some e, pi1, c1)
      | (Inr spd, pi1, c1) \<Rightarrow>
          (case checkResources spd pi1 of
             Some e \<Rightarrow> (Some e, pi1, c1)
           | None \<Rightarrow> (None, if dryRun then pi1 else addShadowPod spd pi1, c1)))"

definition updateDeletion :: "ShadowPod \<Rightarrow> bool \<Rightarrow> peeringInfo \<Rightarrow> sp_error option \<times> peeringInfo" where
  "updateDeletion sp dryRun pi =
     (case getShadowPodDescription sp pi of
        Inl e \<Rightarrow> (Some e, pi)
      | Inr spd \<Rightarrow> (None, if dryRun then pi else terminateShadowPod spd pi))"

end
