(* ===== verification/ShadowPodCache.thy ===== *)
theory ShadowPodCache
  imports ShadowPod
begin

text \<open>
  The cache of the shadow pod webhook (\<open>cache.go\<close>) and its handlers (\<open>webhook.go\<close>), with the check
  of an updated pod (\<open>pkg/utils/pod/pod.go\<close>) and the escaping of labels
  (\<open>pkg/utils/resource/labels.go\<close>). The \<open>sync.Map\<close> of the cache is a map from user names; a panic
  is the result \<open>None\<close>. The lists the API server returns, the decoded objects of a request and the
  answers to a \<open>Get\<close> are arguments.
\<close>

section \<open>The cache\<close>

record peeringCache =
  peeringInfos :: "(string, peeringInfo) gomap"
  ready :: bool

definition getOrCreatePeeringInfo :: "string \<Rightarrow> ResourceList \<Rightarrow> peeringCache \<Rightarrow>
    peeringInfo \<times> peeringCache" where
  "getOrCreatePeeringInfo user roQuota pc =
     (case map_of (peeringInfos pc) user of
        None \<Rightarrow>
          (let pi = createPeeringInfo user roQuota in
           (pi, pc\<lparr>peeringInfos := put user pi (peeringInfos pc)\<rparr>))
      | Some pi \<Rightarrow>
          (let pi' = alignQuotaUpdates roQuota pi in
           (pi', pc\<lparr>peeringInfos := put user pi' (peeringInfos pc)\<rparr>)))"

definition getPeeringInfo :: "string \<Rightarrow> peeringCache \<Rightarrow> peeringInfo option" where
  "getPeeringInfo user pc = map_of (peeringInfos pc) user"

text \<open>
  The error of \<open>getQuotaFromShadowPod\<close> is dropped; the nil pointer it comes with is then
  dereferenced.
\<close>

definition checkAndAddShadowPods :: "k8s_lib \<Rightarrow> ShadowPod \<Rightarrow> NamespacedName \<Rightarrow> peeringInfo \<Rightarrow> clock \<Rightarrow>
    (bool \<times> peeringInfo \<times> clock) option" where
  "checkAndAddShadowPods k8s sp nsname pi c =
     (case map_of (shadowPods pi) (nn_String nsname) of
        Some _ \<Rightarrow> Some (True, pi, c)
      | None \<Rightarrow>
          (case getQuotaFromShadowPod k8s sp NoLimitsEnforcement of
             Inl _ \<Rightarrow> None
           | Inr spQuota \<Rightarrow>
               (let (spd, c') = createShadowPodDescription (sp_Name sp) (sp_Namespace sp)
                      (sp_UID sp) spQuota c
                in Some (False, addShadowPod spd pi, c'))))"

fun alignExistingShadowPods :: "k8s_lib \<Rightarrow> ShadowPod list \<Rightarrow> peeringInfo \<Rightarrow> clock \<Rightarrow>
    (peeringInfo \<times> clock) option" where
  "alignExistingShadowPods k8s [] pi c = Some (pi, c)"
| "alignExistingShadowPods k8s (sp # sps) pi c =
     (case checkAndAddShadowPods k8s sp (sp_nsname sp) pi c of
        None \<Rightarrow> None
      | Some (_, pi', c') \<Rightarrow> alignExistingShadowPods k8s sps pi' c')"

fun alignTerminatingShadowPodDescriptions :: "string set \<Rightarrow> Description list \<Rightarrow> peeringInfo \<Rightarrow>
    clock \<Rightarrow> peeringInfo \<times> clock" where
  "alignTerminatingShadowPodDescriptions spMap [] pi c = (pi, c)"
| "alignTerminatingShadowPodDescriptions spMap (spd # spds) pi c =
     (if nn_String (namespacedName spd) \<in> spMap
      then alignTerminatingShadowPodDescriptions spMap spds pi c
      else if \<not> running spd
      then alignTerminatingShadowPodDescriptions spMap spds (removeShadowPod spd pi) c
      else (let (now, c') = time_Now c in
            if now - creationTimestamp spd > 30 * 1000000000
            then alignTerminatingShadowPodDescriptions spMap spds
              (removeShadowPod (terminate spd) (terminateShadowPod spd pi)) c'
            else alignTerminatingShadowPodDescriptions spMap spds pi c'))"

text \<open>
  The first loop of \<open>alignTerminatingOrNotExistingShadowPods\<close> does for every shadow pod of the
  cluster what \<open>alignExistingShadowPods\<close> does, and collects the names.
\<close>

definition alignTerminatingOrNotExistingShadowPods :: "k8s_lib \<Rightarrow> ShadowPod list \<Rightarrow> peeringInfo \<Rightarrow>
    clock \<Rightarrow> (peeringInfo \<times> clock) option" where
  "alignTerminatingOrNotExistingShadowPods k8s sps pi c =
     (case alignExistingShadowPods k8s sps pi c of
        None \<Rightarrow> None
      | Some (pi', c') \<Rightarrow>
          Some (alignTerminatingShadowPodDescriptions (set (map (nn_String \<circ> sp_nsname) sps))
            (map snd (shadowPods pi')) pi' c'))"

text \<open>\<open>EscapeLabel\<close>: a character outside \<open>[0-9A-Za-z_.-]\<close> becomes a dash.\<close>

definition label_char :: "char \<Rightarrow> bool" where
  "label_char ch \<longleftrightarrow> (let n = of_char ch :: nat in
     48 \<le> n \<and> n \<le> 57 \<or> 65 \<le> n \<and> n \<le> 90 \<or> 97 \<le> n \<and> n \<le> 122 \<or> ch = CHR ''_'' \<or>
     ch = CHR ''-'' \<or> ch = CHR ''.'')"

definition EscapeLabel :: "string \<Rightarrow> string" where
  "EscapeLabel val = map (\<lambda>ch. if label_char ch then ch else CHR ''-'') val"

text \<open>The answers of the API server: all quotas, and the shadow pods that carry a creator label.\<close>

definition CreatorLabelKey :: string where
  "CreatorLabelKey = ''liqo.io/creator-user''"

definition ListShadowPodsByCreator :: "(string \<times> string \<Rightarrow> string + ShadowPod list) \<Rightarrow> string \<Rightarrow>
    string + ShadowPod list" where
  "ListShadowPodsByCreator listSP creator = listSP (CreatorLabelKey, EscapeLabel creator)"

definition GetQuotaByUser :: "string + Quota list \<Rightarrow> string \<Rightarrow> string + Quota" where
  "GetQuotaByUser quotas user =
     (case quotas of
        Inl e \<Rightarrow> Inl e
      | Inr items \<Rightarrow>
          (case find (\<lambda>q. EscapeLabel (q_User q) = user) items of
             None \<Rightarrow> Inl ''not found''
           | Some q \<Rightarrow> Inr q))"

fun initialize_loop :: "k8s_lib \<Rightarrow> (string \<times> string \<Rightarrow> string + ShadowPod list) \<Rightarrow> Quota list \<Rightarrow>
    peeringCache \<Rightarrow> clock \<Rightarrow> (string option \<times> peeringCache \<times> clock) option" where
  "initialize_loop k8s listSP [] pc c = Some (None, pc, c)"
| "initialize_loop k8s listSP (q # qs) pc c =
     (let pi = createPeeringInfo (q_User q) (q_Resources q) in
      case ListShadowPodsByCreator listSP (q_User q) of
        Inl e \<Rightarrow> Some (Some e, pc, c)
      | Inr sps \<Rightarrow>
          (case alignExistingShadowPods k8s sps pi c of
             None \<Rightarrow> None
           | Some (pi', c') \<Rightarrow>
               initialize_loop k8s listSP qs
                 (pc\<lparr>peeringInfos := put (q_User q) pi' (peeringInfos pc)\<rparr>) c'))"

definition initializeCache :: "k8s_lib \<Rightarrow> string + Quota list \<Rightarrow>
    (string \<times> string \<Rightarrow> string + ShadowPod list) \<Rightarrow> peeringCache \<Rightarrow> clock \<Rightarrow>
    (string option \<times> peeringCache \<times> clock) option" where
  "initializeCache k8s quotas listSP pc c =
     (case quotas of
        Inl e \<Rightarrow> Some (Some e, pc, c)
      | Inr qs \<Rightarrow>
          (case initialize_loop k8s listSP qs pc c of
             Some (None, pc', c') \<Rightarrow> Some (None, pc'\<lparr>ready := True\<rparr>, c')
           | r \<Rightarrow> r))"

fun align_quotas_loop :: "k8s_lib \<Rightarrow> (string \<times> string \<Rightarrow> string + ShadowPod list) \<Rightarrow> Quota list \<Rightarrow>
    peeringCache \<Rightarrow> clock \<Rightarrow> (string option \<times> peeringCache \<times> clock) option" where
  "align_quotas_loop k8s listSP [] pc c = Some (None, pc, c)"
| "align_quotas_loop k8s listSP (q # qs) pc c =
     (case map_of (peeringInfos pc) (q_User q) of
        Some _ \<Rightarrow> align_quotas_loop k8s listSP qs pc c
      | None \<Rightarrow>
          (let newPI = createPeeringInfo (q_User q) (q_Resources q);
               pc1 = pc\<lparr>peeringInfos := put (q_User q) newPI (peeringInfos pc)\<rparr>
           in case ListShadowPodsByCreator listSP (q_User q) of
                Inl e \<Rightarrow> Some (Some e, pc1, c)
              | Inr sps \<Rightarrow>
                  (case alignExistingShadowPods k8s sps newPI c of
                     None \<Rightarrow> None
                   | Some (pi', c') \<Rightarrow>
                       align_quotas_loop k8s listSP qs
                         (pc1\<lparr>peeringInfos := put (q_User q) pi' (peeringInfos pc1)\<rparr>) c')))"

definition checkAlignmentQuotaPeeringInfo :: "k8s_lib \<Rightarrow> string + Quota list \<Rightarrow>
    (string \<times> string \<Rightarrow> string + ShadowPod list) \<Rightarrow> peeringCache \<Rightarrow> clock \<Rightarrow>
    (string option \<times> peeringCache \<times> clock) option" where
  "checkAlignmentQuotaPeeringInfo k8s quotas listSP pc c =
     (case quotas of
        Inl e \<Rightarrow> Some (Some e, pc, c)
      | Inr qs \<Rightarrow>
          (case align_quotas_loop k8s listSP qs pc c of
             Some (None, pc', c') \<Rightarrow>
               Some (None, pc'\<lparr>peeringInfos :=
                 filter (\<lambda>(user, _). user \<in> set (map q_User qs)) (peeringInfos pc')\<rparr>, c')
           | r \<Rightarrow> r))"

fun refresh_loop :: "k8s_lib \<Rightarrow> (string \<times> string \<Rightarrow> string + ShadowPod list) \<Rightarrow>
    (string, peeringInfo) gomap \<Rightarrow> clock \<Rightarrow> ((string, peeringInfo) gomap \<times> clock) option" where
  "refresh_loop k8s listSP [] c = Some ([], c)"
| "refresh_loop k8s listSP ((user, pi) # ps) c =
     (case ListShadowPodsByCreator listSP (userName pi) of
        Inl e \<Rightarrow> map_option (\<lambda>(ps', c'). ((user, pi) # ps', c')) (refresh_loop k8s listSP ps c)
      | Inr sps \<Rightarrow>
          (case alignTerminatingOrNotExistingShadowPods k8s sps pi c of
             None \<Rightarrow> None
           | Some (pi', c1) \<Rightarrow>
               map_option (\<lambda>(ps', c'). ((user, pi') # ps', c')) (refresh_loop k8s listSP ps c1)))"

text \<open>\<open>refreshCache\<close> logs the errors of its parts and never ends the polling.\<close>

definition refreshCache :: "k8s_lib \<Rightarrow> string + Quota list \<Rightarrow>
    (string \<times> string \<Rightarrow> string + ShadowPod list) \<Rightarrow> peeringCache \<Rightarrow> clock \<Rightarrow>
    (peeringCache \<times> clock) option" where
  "refreshCache k8s quotas listSP pc c =
     (if \<not> ready pc
      then map_option (\<lambda>(_, pc', c'). (pc', c')) (initializeCache k8s quotas listSP pc c)
      else (case refresh_loop k8s listSP (peeringInfos pc) c of
              None \<Rightarrow> None
            | Some (ps, c1) \<Rightarrow>
                map_option (\<lambda>(_, pc', c'). (pc', c'))
                  (checkAlignmentQuotaPeeringInfo k8s quotas listSP (pc\<lparr>peeringInfos := ps\<rparr>) c1)))"

section \<open>Requests and responses\<close>

datatype Operation = OpCreate | OpUpdate | OpDelete | OpOther string

text \<open>
  An admission request with its objects already decoded (a decoding error is \<open>Inl\<close>).
\<close>

record Request =
  r_Operation :: Operation
  r_Object :: "string + ShadowPod"
  r_OldObject :: "string + ShadowPod"
  r_Username :: string
  r_DryRun :: "bool option"

datatype Response =
    Errored nat string
  | Denied string
  | Allowed string
  | Patched ShadowPod

record Validator =
  PeeringCache :: peeringCache
  enableResourceValidation :: bool

definition NewValidator :: "bool \<Rightarrow> Validator" where
  "NewValidator enable =
     \<lparr>PeeringCache = \<lparr>peeringInfos = [], ready = False\<rparr>, enableResourceValidation = enable\<rparr>"

text \<open>What the validator sees of the cluster during one request.\<close>

record cluster_view =
  v_namespace :: "string \<Rightarrow> string + (string, string) gomap"
  v_quotas :: "string + Quota list"
  v_shadowpod :: "NamespacedName \<Rightarrow> get_result"

definition LiqoOriginClusterIDKey :: string where
  "LiqoOriginClusterIDKey = ''offloading.liqo.io/origin''"

definition RemoteClusterID :: string where
  "RemoteClusterID = ''liqo.io/remote-cluster-id''"

definition validateShadowPodClusterID :: "cluster_view \<Rightarrow> string \<Rightarrow> string \<Rightarrow> (nat \<times> string) option" where
  "validateShadowPodClusterID v ns spClusterID =
     (case v_namespace v ns of
        Inl e \<Rightarrow> Some (400, e)
      | Inr labels \<Rightarrow>
          if map_of labels RemoteClusterID \<noteq> Some spClusterID
          then Some (403, ''shadowpod Cluster ID label mismatch'')
          else None)"

text \<open>The text of an error of the accounting is left to a parameter of the handlers.\<close>

definition HandleCreate :: "k8s_lib \<Rightarrow> (sp_error \<Rightarrow> string) \<Rightarrow> cluster_view \<Rightarrow> Request \<Rightarrow> Validator \<Rightarrow>
    clock \<Rightarrow> (Response \<times> Validator \<times> clock) option" where
  "HandleCreate k8s msg v req spv c =
     (case r_Object req of
        Inl e \<Rightarrow> Some (Errored 500 (''failed decoding of ShadowPod: '' @ e), spv, c)
      | Inr sp \<Rightarrow>
          (case map_of (sp_Labels sp) LiqoOriginClusterIDKey of
             None \<Rightarrow> Some (Denied ''missing origin Cluster ID label'', spv, c)
           | Some clusterID \<Rightarrow>
               (case validateShadowPodClusterID v (sp_Namespace sp) clusterID of
                  Some (code, e) \<Rightarrow>
                    Some (if code = 400 then Errored code e else Denied e, spv, c)
                | None \<Rightarrow>
                    if \<not> enableResourceValidation spv then Some (Allowed [], spv, c)
                    else (case map_of (sp_Labels sp) CreatorLabelKey of
                       None \<Rightarrow> Some (Denied ''missing creator label'', spv, c)
                     | Some creatorName \<Rightarrow>
                         (case GetQuotaByUser (v_quotas v) creatorName of
                            Inl _ \<Rightarrow> Some (Denied ''failed getting quota'', spv, c)
                          | Inr q \<Rightarrow>
                              if q_Cordoned q = Some True
                              then Some (Denied ''user is cordoned'', spv, c)
                              else (let (pi, pc) = getOrCreatePeeringInfo creatorName
                                          (q_Resources q) (PeeringCache spv)
                                in case r_DryRun req of
                                     None \<Rightarrow> None
                                   | Some dryRun \<Rightarrow>
                                       (let (err, pi', c') = testAndUpdateCreation k8s
                                              (v_shadowpod v) sp (q_LimitsEnforcement q) dryRun pi c;
                                            pc' = pc\<lparr>peeringInfos :=
                                              put creatorName pi' (peeringInfos pc)\<rparr>;
                                            spv' = spv\<lparr>PeeringCache := pc'\<rparr>
                                        in Some (case err of None \<Rightarrow> Allowed []
                                                 | Some e \<Rightarrow> Denied (msg e), spv', c'))))))))"

text \<open>
  \<open>CheckShadowPodUpdate\<close>: the images, the deadline and the tolerations of \<open>previous\<close> are copied
  into \<open>updated\<close>; an index outside the containers of \<open>previous\<close> panics.
\<close>

fun copy_images :: "Container list \<Rightarrow> Container list \<Rightarrow> Container list option" where
  "copy_images previous [] = Some []"
| "copy_images [] (u # us) = None"
| "copy_images (p # ps) (u # us) =
     map_option (\<lambda>us'. u\<lparr>c_Image := c_Image p\<rparr> # us') (copy_images ps us)"

definition copy_images_slice :: "Container list option \<Rightarrow> Container list option \<Rightarrow>
    Container list option option" where
  "copy_images_slice previous updated =
     (case updated of
        None \<Rightarrow> Some None
      | Some us \<Rightarrow> map_option Some (copy_images (slice previous) us))"

text \<open>\<open>reflect.DeepEqual\<close>: maps are compared as sets of entries, a nil map differs from an empty one, and
  quantities are equal only if their representations are: \<open>1\<close> differs from \<open>1000m\<close>.\<close>

definition deep_equal_container :: "Container \<Rightarrow> Container \<Rightarrow> bool" where
  "deep_equal_container a b \<longleftrightarrow> c_Name a = c_Name b \<and> c_Image a = c_Image b \<and>
     set (c_Requests a) = set (c_Requests b) \<and> rel_option same_map (c_RequestsForm a) (c_RequestsForm b) \<and>
     set (c_Limits a) = set (c_Limits b) \<and> rel_option same_map (c_LimitsForm a) (c_LimitsForm b) \<and>
     c_rest a = c_rest b"

definition deep_equal_slice :: "Container list option \<Rightarrow> Container list option \<Rightarrow> bool" where
  "deep_equal_slice a b = rel_option (list_all2 deep_equal_container) a b"

definition deep_equal :: "PodSpec \<Rightarrow> PodSpec \<Rightarrow> bool" where
  "deep_equal a b \<longleftrightarrow> deep_equal_slice (Containers a) (Containers b) \<and>
     deep_equal_slice (InitContainers a) (InitContainers b) \<and>
     ActiveDeadlineSeconds a = ActiveDeadlineSeconds b \<and> Tolerations a = Tolerations b \<and>
     ps_rest a = ps_rest b"

definition CheckShadowPodUpdate :: "PodSpec \<Rightarrow> PodSpec \<Rightarrow> bool option" where
  "CheckShadowPodUpdate previous updated =
     (case copy_images_slice (Containers previous) (Containers updated) of
        None \<Rightarrow> None
      | Some cs \<Rightarrow>
          (case copy_images_slice (InitContainers previous) (InitContainers updated) of
             None \<Rightarrow> None
           | Some ics \<Rightarrow>
               Some (deep_equal previous
                 (updated\<lparr>Containers := cs, InitContainers := ics,
                    ActiveDeadlineSeconds := ActiveDeadlineSeconds previous,
                    Tolerations := Tolerations previous\<rparr>))))"

definition HandleUpdate :: "Request \<Rightarrow> Validator \<Rightarrow> clock \<Rightarrow> (Response \<times> Validator \<times> clock) option" where
  "HandleUpdate req spv c =
     (case r_Object req of
        Inl e \<Rightarrow> Some (Errored 500 (''failed decoding of ShadowPod: '' @ e), spv, c)
      | Inr sp \<Rightarrow>
          (case r_OldObject req of
             Inl e \<Rightarrow> Some (Errored 500 (''failed decoding of ShadowPod: '' @ e), spv, c)
           | Inr oldSp \<Rightarrow>
               (case map_of (sp_Labels sp) LiqoOriginClusterIDKey of
                  None \<Rightarrow> Some (Denied ''missing origin Cluster ID label'', spv, c)
                | Some clusterID \<Rightarrow>
                    (case map_of (sp_Labels oldSp) LiqoOriginClusterIDKey of
                       None \<Rightarrow> Some (Denied ''missing origin Cluster ID label'', spv, c)
                     | Some oldClusterID \<Rightarrow>
                         if clusterID \<noteq> oldClusterID
                         then Some (Denied ''shadopow Cluster ID label is changed'', spv, c)
                         else (case CheckShadowPodUpdate (sp_Pod sp) (sp_Pod oldSp) of
                                 None \<Rightarrow> None
                               | Some True \<Rightarrow> Some (Allowed [], spv, c)
                               | Some False \<Rightarrow> Some (Denied [], spv, c))))))"

text \<open>The verb \<open>%q\<close> on a label value, whose characters need no escape.\<close>

definition quote_q :: "string \<Rightarrow> string" where
  "quote_q s = ''\"'' @ s @ ''\"''"

definition HandleDelete :: "(sp_error \<Rightarrow> string) \<Rightarrow> Request \<Rightarrow> Validator \<Rightarrow> clock \<Rightarrow>
    (Response \<times> Validator \<times> clock) option" where
  "HandleDelete msg req spv c =
     (if \<not> enableResourceValidation spv then Some (Allowed [], spv, c)
      else (case r_OldObject req of
              Inl e \<Rightarrow> Some (Errored 500 (''failed decoding of ShadowPod: '' @ e), spv, c)
            | Inr sp \<Rightarrow>
                (case map_of (sp_Labels sp) CreatorLabelKey of
                   None \<Rightarrow> Some (Denied ''missing creator label'', spv, c)
                 | Some creatorName \<Rightarrow>
                     (case getPeeringInfo creatorName (PeeringCache spv) of
                        None \<Rightarrow> 
                          Some (Allowed (''Peering not found in cache for user '' @ quote_q creatorName), spv, c)
                      | Some pi \<Rightarrow>
                          (case r_DryRun req of
                             None \<Rightarrow> None
                           | Some dryRun \<Rightarrow>
                               (let (err, pi') = updateDeletion sp dryRun pi;
                                    pc = PeeringCache spv;
                                    spv' = spv\<lparr>PeeringCache := pc\<lparr>peeringInfos :=
                                      put creatorName pi' (peeringInfos pc)\<rparr>\<rparr>
                                in Some (case err of None \<Rightarrow> Allowed []
                                         | Some e \<Rightarrow> Allowed (msg e), spv', c)))))))"

definition Handle :: "k8s_lib \<Rightarrow> (sp_error \<Rightarrow> string) \<Rightarrow> cluster_view \<Rightarrow> Request \<Rightarrow> Validator \<Rightarrow> clock \<Rightarrow>
    (Response \<times> Validator \<times> clock) option" where
  "Handle k8s msg v req spv c =
     (if \<not> ready (PeeringCache spv) \<and> enableResourceValidation spv
      then Some (Errored 500 ''initialization in progress'', spv, c)
      else (case r_Operation req of
              OpCreate \<Rightarrow> HandleCreate k8s msg v req spv c
            | OpDelete \<Rightarrow> HandleDelete msg req spv c
            | OpUpdate \<Rightarrow> HandleUpdate req spv c
            | OpOther op \<Rightarrow> Some (Errored 400 (''unsupported operation '' @ op), spv, c)))"

section \<open>The mutating webhook\<close>

definition extractCreatorInfo :: "string \<Rightarrow> string option" where
  "extractCreatorInfo username =
     (let creatorName = EscapeLabel username in if creatorName = [] then None else Some creatorName)"

definition set_label :: "string \<Rightarrow> string \<Rightarrow> ShadowPod \<Rightarrow> ShadowPod" where
  "set_label key val sp = sp\<lparr>sp_Labels := put key val (sp_Labels sp)\<rparr>"

definition Mutator_HandleCreate :: "bool \<Rightarrow> Request \<Rightarrow> Response" where
  "Mutator_HandleCreate enable req =
     (if \<not> enable then Allowed []
      else (case r_Object req of
              Inl e \<Rightarrow> Errored 500 (''failed decoding of ShadowPod: '' @ e)
            | Inr sp \<Rightarrow>
                (case extractCreatorInfo (r_Username req) of
                   None \<Rightarrow> Denied ''missing creator name''
                 | Some creatorName \<Rightarrow> Patched (set_label CreatorLabelKey creatorName sp))))"

definition Mutator_HandleUpdate :: "bool \<Rightarrow> Request \<Rightarrow> Response" where
  "Mutator_HandleUpdate enable req =
     (if \<not> enable then Allowed []
      else (case r_OldObject req of
              Inl e \<Rightarrow> Errored 500 (''failed decoding of ShadowPod: '' @ e)
            | Inr oldSp \<Rightarrow>
                (case r_Object req of
                   Inl e \<Rightarrow> Errored 500 (''failed decoding of ShadowPod: '' @ e)
                 | Inr sp \<Rightarrow>
                     (case map_of (sp_Labels oldSp) CreatorLabelKey of
                        None \<Rightarrow> Denied ''missing creator name''
                      | Some oldCreatorName \<Rightarrow>
                          (case extractCreatorInfo (r_Username req) of
                             None \<Rightarrow> Denied ''missing creator name''
                           | Some creatorName \<Rightarrow>
                               if oldCreatorName \<noteq> creatorName
                               then Denied ''creator name cannot be modified''
                               else Patched (set_label CreatorLabelKey creatorName sp))))))"

definition Mutator_HandleDelete :: Response where
  "Mutator_HandleDelete = Allowed []"

definition Mutator_Handle :: "bool \<Rightarrow> Request \<Rightarrow> Response" where
  "Mutator_Handle enable req =
     (case r_Operation req of
        OpCreate \<Rightarrow> Mutator_HandleCreate enable req
      | OpDelete \<Rightarrow> Mutator_HandleDelete
      | OpUpdate \<Rightarrow> Mutator_HandleUpdate enable req
      | OpOther op \<Rightarrow> Errored 400 (''unsupported operation '' @ op))"

end
