(* ===== verification/ShadowPodSpec.thy ===== *)
theory ShadowPodSpec
  imports ShadowPodCache
begin

text \<open>
  What the accounting of the shadow pod webhook promises. The abstract view of a user's record is
  the sum of the quotas of its running shadow pods (\<open>running_sum\<close>); the invariant \<open>wf_pi\<close> says that
  the running total \<open>usedQuota\<close>, which the code updates incrementally, is that sum.
\<close>

named_theorems pi_simps \<open>effect of the methods of a record on its fields\<close>

section \<open>Incremental arithmetic on resource lists\<close>

lemma add_used_step:
  "(case map_of u k of Some p \<Rightarrow> put k (p + v) u | None \<Rightarrow> put k v u) = put k (get0 u k + v) u"
  for v :: int
  by (simp add: get0_def split: option.split)

lemma add_used_Nil [simp]: "add_used [] u = u"
  by (simp add: add_used_def)

lemma add_used_Cons [simp]: "add_used ((k, v) # q) u = add_used q (put k (get0 u k + v) u)"
  by (simp add: add_used_def add_used_step)

lemma get0_add_used: "wf_map q \<Longrightarrow> get0 (add_used q u) k = get0 u k + get0 q k"
  by (induction q arbitrary: u) (auto simp: gomap get0_Cons get0_absent)

lemma has_key_add_used: "has_key k (add_used q u) \<longleftrightarrow> has_key k u \<or> has_key k q"
proof (induction q arbitrary: u)
  case (Cons kv q)
  then show ?case by (cases kv) (simp add: has_key_Cons has_key_put disj_ac)
qed simp

lemma wf_map_add_used [simp]: "wf_map u \<Longrightarrow> wf_map (add_used q u)"
  by (induction q arbitrary: u) auto

lemma sub_used_Nil [simp]: "sub_used [] u = u"
  by (simp add: sub_used_def)

lemma sub_used_Cons [simp]:
  "sub_used ((k, v) # q) u = sub_used q (if has_key k u then put k (get0 u k - v) u else u)"
  by (auto simp: sub_used_def has_key_iff get0_def split: option.split)

lemma has_key_sub_used [simp]: "has_key k (sub_used q u) \<longleftrightarrow> has_key k u"
proof (induction q arbitrary: u)
  case (Cons kv q)
  then show ?case by (cases kv) (simp add: has_key_put, blast)
qed simp

lemma wf_map_sub_used [simp]: "wf_map u \<Longrightarrow> wf_map (sub_used q u)"
  by (induction q arbitrary: u) (simp_all add: split_paired_all)

lemma get0_sub_used:
  "wf_map q \<Longrightarrow> get0 (sub_used q u) k = get0 u k - (if has_key k u then get0 q k else 0)"
  by (induction q arbitrary: u) (auto simp: gomap get0_Cons get0_absent)

lemma generateQuotaPattern_get0 [simp]: "get0 (generateQuotaPattern q) k = 0"
proof -
  have "get0 (fold (\<lambda>(key, _). put key 0) q acc) k = (if has_key k q then 0 else get0 acc k)"
    for acc :: ResourceList
    by (induction q arbitrary: acc) (auto simp: gomap has_key_Cons)
  then show ?thesis by (simp add: generateQuotaPattern_def)
qed

lemma generateQuotaPattern_wf [simp]: "wf_map (generateQuotaPattern q)"
proof -
  have "wf_map (fold (\<lambda>(key, _). put key 0) q acc)" if "wf_map acc" for acc :: ResourceList
    using that by (induction q arbitrary: acc) auto
  then show ?thesis by (simp add: generateQuotaPattern_def)
qed

lemma getFreeQuota_lookup:
  assumes "wf_map (totalQuota pi)"
  shows "map_of (getFreeQuota pi) k =
    map_option (\<lambda>t. t - get0 (usedQuota pi) k) (map_of (totalQuota pi) k)"
proof -
  have "map_of (fold (\<lambda>(key, val). put key (val - get0 u key)) q acc) k =
      (case map_of q k of Some t \<Rightarrow> Some (t - get0 u k) | None \<Rightarrow> map_of acc k)"
    if "wf_map q" for q u acc :: ResourceList
    using that by (induction q arbitrary: acc) (auto simp: gomap has_key_iff split: option.splits)
  from this [OF assms] show ?thesis by (simp add: getFreeQuota_def split: option.split)
qed

section \<open>The invariant of a record\<close>

definition running_sum :: "peeringInfo \<Rightarrow> string \<Rightarrow> int" where
  "running_sum pi k = sum_values (\<lambda>d. if running d then get0 (quota d) k else 0) (shadowPods pi)"

definition wf_desc :: "string \<times> Description \<Rightarrow> bool" where
  "wf_desc e \<longleftrightarrow> fst e = nn_String (namespacedName (snd e)) \<and> wf_map (quota (snd e))"

definition wf_pi :: "peeringInfo \<Rightarrow> bool" where
  "wf_pi pi \<longleftrightarrow> wf_map (shadowPods pi) \<and> wf_map (usedQuota pi) \<and>
     (\<forall>e \<in> set (shadowPods pi). wf_desc e) \<and>
     (\<forall>e \<in> set (shadowPods pi). running (snd e) \<longrightarrow>
        (\<forall>k. has_key k (quota (snd e)) \<longrightarrow> has_key k (usedQuota pi))) \<and>
     (\<forall>k. get0 (usedQuota pi) k = running_sum pi k)"

lemma createPeeringInfo_wf: "wf_pi (createPeeringInfo user q)"
  by (simp add: wf_pi_def createPeeringInfo_def running_sum_def sum_values_def)

lemma wf_pi_lookup:
  assumes "wf_pi pi" and "map_of (shadowPods pi) key = Some d"
  shows "key = nn_String (namespacedName d)" and "wf_map (quota d)"
  using assms map_of_SomeD unfolding wf_pi_def wf_desc_def by fastforce+

lemma set_put_subset: "set (put k v m) \<subseteq> insert (k, v) (set m)"
  by (induction m) auto

lemma put_entries:
  assumes "wf_map m" and "e \<in> set (put k v m)"
  shows "e = (k, v) \<or> e \<in> set m \<and> fst e \<noteq> k"
proof -
  have "map_of (put k v m) (fst e) = Some (snd e)"
    using assms by (metis prod.collapse wf_map_mem wf_map_put)
  then show ?thesis using assms(1)
    by (cases e) (auto simp: gomap wf_map_mem split: if_splits)
qed

lemma running_sum_put:
  assumes "wf_map (shadowPods pi)"
  shows "running_sum (pi\<lparr>shadowPods := put key d (shadowPods pi)\<rparr>) k =
    running_sum pi k + (if running d then get0 (quota d) k else 0) -
    (case map_of (shadowPods pi) key of None \<Rightarrow> 0
     | Some d0 \<Rightarrow> if running d0 then get0 (quota d0) k else 0)"
  using sum_values_put [OF assms] by (simp add: running_sum_def)

lemma running_sum_cong: "shadowPods pi = shadowPods pi' \<Longrightarrow> running_sum pi = running_sum pi'"
  by (simp add: running_sum_def fun_eq_iff)

lemma running_sum_used [simp]: "running_sum (pi\<lparr>usedQuota := u\<rparr>) = running_sum pi"
  by (simp add: running_sum_def fun_eq_iff)

lemma running_sum_total [simp]: "running_sum (pi\<lparr>totalQuota := u\<rparr>) = running_sum pi"
  by (simp add: running_sum_def fun_eq_iff)

lemma updateQuotas_wf: "wf_pi pi \<Longrightarrow> wf_pi (updateQuotas q pi)"
  by (simp add: wf_pi_def updateQuotas_def)

text \<open>Adding a description whose name is free.\<close>

lemma addShadowPod_wf:
  assumes w: "wf_pi pi" and d: "running spd" "wf_map (quota spd)"
    and free: "map_of (shadowPods pi) (nn_String (namespacedName spd)) = None"
  shows "wf_pi (addShadowPod spd pi)"
proof -
  let ?key = "nn_String (namespacedName spd)"
  have m: "wf_map (shadowPods pi)" using w by (simp add: wf_pi_def)
  have s: "running_sum (addShadowPod spd pi) k = running_sum pi k + get0 (quota spd) k" for k
    using running_sum_put [OF m, of ?key spd k] d free
    by (simp add: addShadowPod_def addUsedResources_def)
  show ?thesis
    using w d put_entries [OF m, of _ ?key spd] s
    unfolding wf_pi_def
    by (auto simp: addShadowPod_def addUsedResources_def get0_add_used has_key_add_used wf_desc_def
        dest!: put_entries [OF m])
qed

text \<open>Terminating a running description that the record holds.\<close>

lemma terminateShadowPod_wf:
  assumes w: "wf_pi pi" and d: "running spd"
    and held: "map_of (shadowPods pi) (nn_String (namespacedName spd)) = Some spd"
  shows "wf_pi (terminateShadowPod spd pi)"
proof -
  let ?key = "nn_String (namespacedName spd)"
  have m: "wf_map (shadowPods pi)" using w by (simp add: wf_pi_def)
  have e: "(?key, spd) \<in> set (shadowPods pi)" using held by (rule map_of_SomeD)
  have q: "wf_map (quota spd)" using wf_pi_lookup [OF w held] by simp
  have k: "\<not> has_key k (usedQuota pi) \<Longrightarrow> \<not> has_key k (quota spd)" for k
    using w e d unfolding wf_pi_def by fastforce
  have s: "running_sum (terminateShadowPod spd pi) k = running_sum pi k - get0 (quota spd) k" for k
    using running_sum_put [OF m, of ?key "terminate spd" k] d held
    by (simp add: terminateShadowPod_def subUsedResources_def terminate_def)
  have u: "get0 (usedQuota (terminateShadowPod spd pi)) k = get0 (usedQuota pi) k - get0 (quota spd) k" for k
    using k [of k] by (auto simp: terminateShadowPod_def subUsedResources_def terminate_def
        get0_sub_used [OF q] get0_absent)
  show ?thesis
    using w s u q unfolding wf_pi_def
    by (auto simp: terminateShadowPod_def subUsedResources_def terminate_def wf_desc_def
        dest!: put_entries [OF m])
qed

text \<open>Removing a description that no longer runs, or that the record does not hold.\<close>

lemma removeShadowPod_wf:
  assumes w: "wf_pi pi"
    and off: "\<And>d. map_of (shadowPods pi) (nn_String (namespacedName spd)) = Some d \<Longrightarrow> \<not> running d"
  shows "wf_pi (removeShadowPod spd pi)"
proof -
  let ?key = "nn_String (namespacedName spd)"
  have m: "wf_map (shadowPods pi)" using w by (simp add: wf_pi_def)
  have "running_sum (removeShadowPod spd pi) k = running_sum pi k" for k
    using sum_values_del [OF m, of _ ?key] off
    by (auto simp: running_sum_def removeShadowPod_def split: option.split)
  then show ?thesis using w unfolding wf_pi_def
    by (auto simp: removeShadowPod_def AList.delete_eq)
qed

section \<open>What a shadow pod requests\<close>

text \<open>
  Documented behaviour of Kubernetes: \<open>quotav1.Max\<close> takes the larger quantity per resource, and
  \<open>Value\<close> rounds a quantity up to the next integer.
\<close>

definition Max_ok :: "k8s_lib \<Rightarrow> bool" where
  "Max_ok k8s \<longleftrightarrow> (\<forall>a b. wf_map a \<longrightarrow> wf_map b \<longrightarrow> wf_map (quota_Max k8s a b) \<and>
     (\<forall>k. map_of (quota_Max k8s a b) k =
        (case (map_of a k, map_of b k) of
           (Some x, Some y) \<Rightarrow> Some (max x y)
         | (Some x, None) \<Rightarrow> Some x
         | (None, r) \<Rightarrow> r)))"

definition Value_ok :: "k8s_lib \<Rightarrow> bool" where
  "Value_ok k8s \<longleftrightarrow> (\<forall>q \<ge> 0. q \<le> q_Value k8s q * 10 ^ 9 \<and> (q_Value k8s q - 1) * 10 ^ 9 < q)"

definition requests :: "Container list \<Rightarrow> (string \<times> quantity) list" where
  "requests cs = concat (map c_Requests cs)"

definition requested :: "string \<Rightarrow> Container list \<Rightarrow> int" where
  "requested k cs = sum_list (map (\<lambda>c. get0 (c_Requests c) k) cs)"

lemma requests_Nil [simp]: "requests [] = []"
  by (simp add: requests_def)

lemma has_key_requests: "has_key k (requests cs) \<longleftrightarrow> (\<exists>c \<in> set cs. has_key k (c_Requests c))"
  by (force simp: requests_def has_key_def)

lemma requests_loop_fold:
  "requests_loop upd enf c reqs cf mf acc = Inr (cf', mf', acc') \<Longrightarrow>
    acc' = fold (\<lambda>(k, v). upd k v) reqs acc"
  by (induction upd enf c reqs cf mf acc rule: requests_loop.induct)
    (auto simp: Let_def split: if_splits)

lemma containers_loop_fold:
  "containers_loop upd ns enf cs acc = Inr r \<Longrightarrow> r = fold (\<lambda>(k, v). upd k v) (requests cs) acc"
  by (induction cs arbitrary: acc)
    (auto simp: requests_def dest!: requests_loop_fold split: sum.splits if_splits)

lemma fold_sum_request: "fold (\<lambda>(k, v). sum_request k v) reqs acc = add_used reqs acc"
  by (induction reqs arbitrary: acc) (auto simp: sum_request_def add_used_step)

lemma add_used_append [simp]: "add_used (xs @ ys) u = add_used ys (add_used xs u)"
  by (simp add: add_used_def)

lemma get0_sum_requests:
  assumes "\<And>c. c \<in> set cs \<Longrightarrow> wf_map (c_Requests c)"
  shows "get0 (add_used (requests cs) u) k = get0 u k + requested k cs"
  using assms by (induction cs arbitrary: u) (auto simp: requests_def requested_def get0_add_used)

lemma fold_max_request_wf: "wf_map acc \<Longrightarrow> wf_map (fold (\<lambda>(k, v). max_request k8s k v) reqs acc)"
  by (induction reqs arbitrary: acc) (auto simp: max_request_def split: option.split)

lemma max_request_mono:
  "map_of acc k = Some x \<Longrightarrow>
    \<exists>y. map_of (max_request k8s k' v acc) k = Some y \<and> q_Value k8s x \<le> q_Value k8s y"
  by (auto simp: max_request_def gomap split: option.split)

lemma max_request_hit: "\<exists>y. map_of (max_request k8s k v acc) k = Some y \<and> q_Value k8s v \<le> q_Value k8s y"
  by (auto simp: max_request_def gomap split: option.split)

lemma fold_max_request_mono:
  "map_of acc k = Some x \<Longrightarrow>
    \<exists>y. map_of (fold (\<lambda>(k, v). max_request k8s k v) reqs acc) k = Some y \<and> q_Value k8s x \<le> q_Value k8s y"
proof (induction reqs arbitrary: acc x)
  case (Cons kv reqs)
  obtain k' v where kv: "kv = (k', v)" by force
  obtain y where y: "map_of (max_request k8s k' v acc) k = Some y" "q_Value k8s x \<le> q_Value k8s y"
    using max_request_mono [OF Cons.prems] by blast
  from Cons.IH [OF y(1)] y(2) kv show ?case by fastforce
qed simp

lemma fold_max_request_hit:
  "(k, v) \<in> set reqs \<Longrightarrow>
    \<exists>y. map_of (fold (\<lambda>(k, v). max_request k8s k v) reqs acc) k = Some y \<and> q_Value k8s v \<le> q_Value k8s y"
proof (induction reqs arbitrary: acc)
  case (Cons kv reqs)
  show ?case
  proof (cases "kv = (k, v)")
    case True
    obtain y where y: "map_of (max_request k8s k v acc) k = Some y" "q_Value k8s v \<le> q_Value k8s y"
      using max_request_hit by blast
    from fold_max_request_mono [OF y(1), of k8s reqs] y(2) True show ?thesis by fastforce
  next
    case False
    then show ?thesis using Cons by (cases kv) auto
  qed
qed simp

definition wf_pod :: "ShadowPod \<Rightarrow> bool" where
  "wf_pod sp \<longleftrightarrow> (\<forall>c \<in> set (slice (Containers (sp_Pod sp))) \<union> set (slice (InitContainers (sp_Pod sp))).
     wf_map (c_Requests c) \<and> wf_map (c_Limits c))"

lemma getQuotaFromShadowPod_result:
  assumes "getQuotaFromShadowPod k8s sp enf = Inr q"
  shows "q = quota_Max k8s (add_used (requests (slice (Containers (sp_Pod sp)))) [])
    (fold (\<lambda>(k, v). max_request k8s k v) (requests (slice (InitContainers (sp_Pod sp)))) [])"
  using assms unfolding getQuotaFromShadowPod_def
  by (auto simp: slice_def fold_sum_request dest!: containers_loop_fold split: option.splits sum.splits)

lemma getQuotaFromShadowPod_wf:
  "Max_ok k8s \<Longrightarrow> getQuotaFromShadowPod k8s sp enf = Inr q \<Longrightarrow> wf_map q"
  by (drule getQuotaFromShadowPod_result) (simp add: Max_ok_def fold_max_request_wf)

text \<open>Every container is paid for; an init container up to the rounding of \<open>Value\<close>.\<close>

lemma getQuotaFromShadowPod_containers:
  assumes mx: "Max_ok k8s" and p: "wf_pod sp" and q: "getQuotaFromShadowPod k8s sp enf = Inr q"
    and k: "\<exists>c \<in> set (slice (Containers (sp_Pod sp))). has_key k (c_Requests c)"
  shows "has_key k q" and "requested k (slice (Containers (sp_Pod sp))) \<le> get0 q k"
proof -
  let ?con = "add_used (requests (slice (Containers (sp_Pod sp)))) []"
  have "has_key k ?con"
    using k by (simp add: has_key_add_used has_key_requests)
  moreover have "get0 ?con k = requested k (slice (Containers (sp_Pod sp)))"
    using p get0_sum_requests [of "slice (Containers (sp_Pod sp))" "[]" k] by (simp add: wf_pod_def)
  ultimately have *: "map_of ?con k = Some (requested k (slice (Containers (sp_Pod sp))))"
    by (auto simp: has_key_iff get0_def)
  note q = getQuotaFromShadowPod_result [OF q]
  show "has_key k q" "requested k (slice (Containers (sp_Pod sp))) \<le> get0 q k"
    using mx * unfolding q Max_ok_def
    by (auto simp: has_key_iff get0_def fold_max_request_wf split: option.split)
qed

lemma getQuotaFromShadowPod_init:
  assumes mx: "Max_ok k8s" and q: "getQuotaFromShadowPod k8s sp enf = Inr q"
    and c: "c \<in> set (slice (InitContainers (sp_Pod sp)))" "(k, v) \<in> set (c_Requests c)"
  shows "\<exists>w \<le> get0 q k. q_Value k8s v \<le> q_Value k8s w"
proof -
  let ?init = "fold (\<lambda>(k, v). max_request k8s k v) (requests (slice (InitContainers (sp_Pod sp)))) []"
  have "(k, v) \<in> set (requests (slice (InitContainers (sp_Pod sp))))"
    using c by (auto simp: requests_def)
  from fold_max_request_hit [OF this] obtain w where
    w: "map_of ?init k = Some w" "q_Value k8s v \<le> q_Value k8s w" by blast
  have "w \<le> get0 q k"
    using mx w(1) unfolding getQuotaFromShadowPod_result [OF q] Max_ok_def
    by (auto simp: get0_def fold_max_request_wf split: option.split)
  with w(2) show ?thesis by blast
qed

section \<open>Creation and deletion\<close>

lemma check_loop_None:
  "check_loop free q = None \<longleftrightarrow> (\<forall>(k, v) \<in> set q. \<exists>f. map_of free k = Some f \<and> v \<le> f)"
  by (induction free q rule: check_loop.induct) (auto split: option.split)

text \<open>The pod's requests fit next to what is in use.\<close>

definition fits :: "ResourceList \<Rightarrow> peeringInfo \<Rightarrow> bool" where
  "fits q pi \<longleftrightarrow> (\<forall>k. has_key k q \<longrightarrow>
     has_key k (totalQuota pi) \<and> running_sum pi k + get0 q k \<le> get0 (totalQuota pi) k)"

lemma checkResources_fits:
  assumes w: "wf_pi pi" "wf_map (totalQuota pi)" and q: "wf_map (quota spd)"
  shows "checkResources spd pi = None \<longleftrightarrow> fits (quota spd) pi"
proof -
  have used: "get0 (usedQuota pi) k = running_sum pi k" for k using w by (simp add: wf_pi_def)
  have "(\<exists>f. map_of (getFreeQuota pi) k = Some f \<and> v \<le> f) \<longleftrightarrow>
      has_key k (totalQuota pi) \<and> running_sum pi k + v \<le> get0 (totalQuota pi) k" for k v
    by (auto simp: getFreeQuota_lookup [OF w(2)] used has_key_iff get0_def [of "totalQuota pi"])
  then show ?thesis unfolding checkResources_def check_loop_None fits_def all_entries [OF q]
    by simp
qed

text \<open>A name is free when no description has it, or only one that ended with its pod.\<close>

definition name_free :: "(NamespacedName \<Rightarrow> get_result) \<Rightarrow> ShadowPod \<Rightarrow> peeringInfo \<Rightarrow> bool" where
  "name_free getSP sp pi \<longleftrightarrow> (case map_of (shadowPods pi) (nn_String (sp_nsname sp)) of
     None \<Rightarrow> True | Some d \<Rightarrow> \<not> running d \<and> getSP (sp_nsname sp) = NotFound)"

definition new_description :: "ShadowPod \<Rightarrow> ResourceList \<Rightarrow> time \<Rightarrow> Description" where
  "new_description sp q now = \<lparr>namespacedName = sp_nsname sp, uid = sp_UID sp, quota = q,
     running = True, creationTimestamp = now\<rparr>"

lemma createShadowPodDescription_eq:
  "createShadowPodDescription (sp_Name sp) (sp_Namespace sp) (sp_UID sp) q c =
    (new_description sp q (shd c), stl c)"
  by (simp add: createShadowPodDescription_def time_Now_def new_description_def sp_nsname_def)

lemma new_description_sel [simp]:
  "namespacedName (new_description sp q now) = sp_nsname sp"
  "quota (new_description sp q now) = q" "running (new_description sp q now)"
  "uid (new_description sp q now) = sp_UID sp"
  "creationTimestamp (new_description sp q now) = now"
  by (simp_all add: new_description_def)

text \<open>The record once a stale description of the name is gone.\<close>

definition without :: "ShadowPod \<Rightarrow> peeringInfo \<Rightarrow> peeringInfo" where
  "without sp pi = pi\<lparr>shadowPods := del (nn_String (sp_nsname sp)) (shadowPods pi)\<rparr>"

lemma getOrCreate_cases:
  assumes w: "wf_pi pi"
  shows "getOrCreateShadowPodDescription k8s getSP sp enf pi c =
    (case getQuotaFromShadowPod k8s sp enf of
       Inl e \<Rightarrow> (Inl e, pi, c)
     | Inr q \<Rightarrow>
         if name_free getSP sp pi then (Inr (new_description sp q (shd c)), without sp pi, stl c)
         else (Inl (case map_of (shadowPods pi) (nn_String (sp_nsname sp)) of
             Some d \<Rightarrow> if running d then AlreadyRunning (sp_Name sp)
               else (case getSP (sp_nsname sp) of GetError e \<Rightarrow> ClientError e | _ \<Rightarrow> StillExists)), pi, c))"
proof (cases "map_of (shadowPods pi) (nn_String (sp_nsname sp))")
  case None
  then have "without sp pi = pi"
    by (simp add: without_def AList.delete_id map_of_eq_None_iff)
  with None show ?thesis
    by (simp add: getOrCreateShadowPodDescription_def name_free_def createShadowPodDescription_eq
        split: sum.split)
next
  case (Some d)
  have "removeShadowPod d pi = without sp pi"
    using wf_pi_lookup(1) [OF w Some] by (simp add: removeShadowPod_def without_def)
  with Some show ?thesis
    by (auto simp: getOrCreateShadowPodDescription_def name_free_def createShadowPodDescription_eq
        checkShadowPodExistence_def split: sum.split get_result.split)
qed

lemma without_wf:
  assumes "wf_pi pi" and "name_free getSP sp pi"
  shows "wf_pi (without sp pi)" and "running_sum (without sp pi) = running_sum pi"
proof -
  have *: "without sp pi = removeShadowPod (new_description sp [] 0) pi"
    by (simp add: without_def removeShadowPod_def)
  have m: "wf_map (shadowPods pi)" using assms by (simp add: wf_pi_def)
  have "running_sum (without sp pi) k = running_sum pi k" for k
    using assms(2) sum_values_del [OF m, of _ "nn_String (sp_nsname sp)"]
    by (auto simp: running_sum_def without_def name_free_def split: option.splits)
  then show "running_sum (without sp pi) = running_sum pi" by (rule ext)
  show "wf_pi (without sp pi)" unfolding *
    using assms(2) by (intro removeShadowPod_wf [OF assms(1)]) (auto simp: name_free_def)
qed

lemma without_sel [simp]:
  "totalQuota (without sp pi) = totalQuota pi" "usedQuota (without sp pi) = usedQuota pi"
  "userName (without sp pi) = userName pi"
  by (simp_all add: without_def)

lemma addShadowPod_sel [simp]:
  "totalQuota (addShadowPod spd pi) = totalQuota pi" "userName (addShadowPod spd pi) = userName pi"
  "shadowPods (addShadowPod spd pi) = put (nn_String (namespacedName spd)) spd (shadowPods pi)"
  by (simp_all add: addShadowPod_def addUsedResources_def)

lemma running_sum_addShadowPod:
  assumes "wf_pi pi" and "running spd"
    and "map_of (shadowPods pi) (nn_String (namespacedName spd)) = None"
  shows "running_sum (addShadowPod spd pi) k = running_sum pi k + get0 (quota spd) k"
  using running_sum_put [of pi "nn_String (namespacedName spd)" spd k] assms
  by (simp add: addShadowPod_def addUsedResources_def wf_pi_def)

text \<open>
  The answer to a creation: it is accepted exactly when the name is free and the requests fit, and
  then the record gains exactly that pod, unless the request is a dry run.
\<close>

definition accepts :: "k8s_lib \<Rightarrow> (NamespacedName \<Rightarrow> get_result) \<Rightarrow> ShadowPod \<Rightarrow> LimitsEnforcement \<Rightarrow>
    peeringInfo \<Rightarrow> ResourceList \<Rightarrow> bool" where
  "accepts k8s getSP sp enf pi q \<longleftrightarrow> getQuotaFromShadowPod k8s sp enf = Inr q \<and>
     name_free getSP sp pi \<and> fits q pi"

lemma fits_without: "running_sum (without sp pi) = running_sum pi \<Longrightarrow> fits q (without sp pi) = fits q pi"
  by (simp add: fits_def)

lemma without_free: "map_of (shadowPods (without sp pi)) (nn_String (sp_nsname sp)) = None"
  by (simp add: without_def gomap)

definition admitted :: "ShadowPod \<Rightarrow> ResourceList \<Rightarrow> time \<Rightarrow> peeringInfo \<Rightarrow> peeringInfo" where
  "admitted sp q now pi = addShadowPod (new_description sp q now) (without sp pi)"

lemma admitted_sel [simp]:
  "totalQuota (admitted sp q now pi) = totalQuota pi" "userName (admitted sp q now pi) = userName pi"
  by (simp_all add: admitted_def)

lemma admitted_lookup:
  "map_of (shadowPods (admitted sp q now pi)) key = (if key = nn_String (sp_nsname sp)
      then Some (new_description sp q now) else map_of (shadowPods pi) key)"
  by (simp add: admitted_def map_of_put map_of_del without_def)

lemma admitted_wf:
  assumes w: "wf_pi pi" and q: "wf_map q" and n: "name_free getSP sp pi"
  shows "wf_pi (admitted sp q now pi)"
    and "running_sum (admitted sp q now pi) k = running_sum pi k + get0 q k"
proof -
  note wo = without_wf [OF w n]
  show "wf_pi (admitted sp q now pi)" unfolding admitted_def
    by (rule addShadowPod_wf [OF wo(1)]) (simp_all add: q without_free)
  show "running_sum (admitted sp q now pi) k = running_sum pi k + get0 q k"
    using running_sum_addShadowPod [OF wo(1), of "new_description sp q now" k] wo(2)
    by (simp add: admitted_def without_free)
qed

lemma testAndUpdateCreation_accept:
  assumes w: "wf_pi pi" "wf_map (totalQuota pi)" and mx: "Max_ok k8s"
    and a: "accepts k8s getSP sp enf pi q"
  shows "testAndUpdateCreation k8s getSP sp enf dryRun pi c =
    (None, if dryRun then without sp pi
           else admitted sp q (shd c) pi, stl c)"
proof -
  have q: "getQuotaFromShadowPod k8s sp enf = Inr q" and n: "name_free getSP sp pi"
    and f: "fits q pi" using a by (auto simp: accepts_def)
  have "checkResources (new_description sp q (shd c)) (without sp pi) = None"
    using without_wf [OF w(1) n] w(2) f getQuotaFromShadowPod_wf [OF mx q]
    by (subst checkResources_fits) (auto simp: fits_without)
  with q n show ?thesis
    by (simp add: testAndUpdateCreation_def getOrCreate_cases [OF w(1)] admitted_def)
qed

lemma testAndUpdateCreation_refuse:
  assumes w: "wf_pi pi" "wf_map (totalQuota pi)" and mx: "Max_ok k8s"
    and a: "\<not> (\<exists>q. accepts k8s getSP sp enf pi q)"
  obtains e c' where "testAndUpdateCreation k8s getSP sp enf dryRun pi c =
      (Some e, if name_free getSP sp pi \<and> (\<exists>q. getQuotaFromShadowPod k8s sp enf = Inr q)
               then without sp pi else pi, c')"
proof (cases "getQuotaFromShadowPod k8s sp enf")
  case (Inl e)
  then show ?thesis using that
    by (simp add: testAndUpdateCreation_def getOrCreate_cases [OF w(1)])
next
  case (Inr q)
  show ?thesis
  proof (cases "name_free getSP sp pi")
    case False
    then show ?thesis using that Inr
      by (simp add: testAndUpdateCreation_def getOrCreate_cases [OF w(1)])
  next
    case True
    then have "\<not> fits q pi" using a Inr by (auto simp: accepts_def)
    then have "checkResources (new_description sp q (shd c)) (without sp pi) \<noteq> None"
      using without_wf [OF w(1) True] w(2) getQuotaFromShadowPod_wf [OF mx Inr]
      by (subst checkResources_fits) (auto simp: fits_without)
    then show ?thesis using that True Inr
      by (auto simp: testAndUpdateCreation_def getOrCreate_cases [OF w(1)])
  qed
qed

lemma testAndUpdateCreation_wf:
  assumes w: "wf_pi pi" "wf_map (totalQuota pi)" and mx: "Max_ok k8s"
    and r: "testAndUpdateCreation k8s getSP sp enf dryRun pi c = (err, pi', c')"
  shows "wf_pi pi'" and "totalQuota pi' = totalQuota pi"
proof -
  have "wf_pi pi' \<and> totalQuota pi' = totalQuota pi"
  proof (cases "\<exists>q. accepts k8s getSP sp enf pi q")
    case True
    then obtain q where a: "accepts k8s getSP sp enf pi q" by blast
    then have n: "name_free getSP sp pi" and q: "wf_map q"
      using getQuotaFromShadowPod_wf [OF mx] by (auto simp: accepts_def)
    have "pi' = (if dryRun then without sp pi else admitted sp q (shd c) pi)"
      using r testAndUpdateCreation_accept [OF w mx a, of dryRun c] by simp
    then show ?thesis
      using without_wf(1) [OF w(1) n] admitted_wf(1) [OF w(1) q n, of "shd c"] by simp
  next
    case False
    obtain e c1 where "testAndUpdateCreation k8s getSP sp enf dryRun pi c =
        (Some e, if name_free getSP sp pi \<and> (\<exists>q. getQuotaFromShadowPod k8s sp enf = Inr q)
                 then without sp pi else pi, c1)"
      by (rule testAndUpdateCreation_refuse [OF w mx False])
    then have "pi' = without sp pi \<and> name_free getSP sp pi \<or> pi' = pi"
      using r by (simp split: if_splits)
    then show ?thesis using without_wf(1) [OF w(1)] w(1) by auto
  qed
  then show "wf_pi pi'" "totalQuota pi' = totalQuota pi" by simp_all
qed

text \<open>A deletion keeps the invariant when the pod it names still runs in the record.\<close>

lemma terminateShadowPod_sel [simp]:
  "totalQuota (terminateShadowPod spd pi) = totalQuota pi"
  "userName (terminateShadowPod spd pi) = userName pi"
  "shadowPods (terminateShadowPod spd pi) =
    put (nn_String (namespacedName spd)) (terminate spd) (shadowPods pi)"
  by (simp_all add: terminateShadowPod_def subUsedResources_def terminate_def)

lemma getShadowPodDescription_held:
  assumes "wf_pi pi" and "getShadowPodDescription sp pi = Inr spd"
  shows "map_of (shadowPods pi) (nn_String (namespacedName spd)) = Some spd"
    and "nn_String (namespacedName spd) = nn_String (sp_nsname sp)"
proof -
  have m: "map_of (shadowPods pi) (nn_String (sp_nsname sp)) = Some spd"
    using assms(2) by (auto simp: getShadowPodDescription_def split: option.splits if_splits)
  with wf_pi_lookup(1) [OF assms(1) m]
  show "map_of (shadowPods pi) (nn_String (namespacedName spd)) = Some spd"
    and "nn_String (namespacedName spd) = nn_String (sp_nsname sp)" by simp_all
qed

lemma updateDeletion_wf:
  assumes w: "wf_pi pi"
    and live: "\<And>spd. getShadowPodDescription sp pi = Inr spd \<Longrightarrow> running spd"
  shows "wf_pi (snd (updateDeletion sp dryRun pi))"
    and "totalQuota (snd (updateDeletion sp dryRun pi)) = totalQuota pi"
  using getShadowPodDescription_held [OF w] terminateShadowPod_wf [OF w] live w
  by (auto simp: updateDeletion_def split: sum.split)

end
