(* ===== verification/ShadowPodReach.thy ===== *)
theory ShadowPodReach
  imports ShadowPodSpec
begin

text \<open>
  The periodic alignment of the shadow pod cache with the cluster, and the states a validator can
  reach: the invariant of the accounting through admission requests and refreshes.
\<close>

section \<open>Alignment of one record\<close>

abbreviation names :: "ShadowPod list \<Rightarrow> string set" where
  "names sps \<equiv> (nn_String \<circ> sp_nsname) ` set sps"

text \<open>With no enforcement only a pod without containers is an error.\<close>

lemma requests_loop_none:
  "\<exists>r. requests_loop upd NoLimitsEnforcement c reqs cf mf acc = Inr r"
  by (induction reqs arbitrary: cf mf acc)
    (auto simp: NoLimitsEnforcement_def HardLimitsEnforcement_def)

lemma containers_loop_none: "\<exists>r. containers_loop upd ns NoLimitsEnforcement cs acc = Inr r"
proof (induction cs arbitrary: acc)
  case (Cons c cs)
  obtain cf mf acc' where
    "requests_loop upd NoLimitsEnforcement c (c_Requests c) False False acc = Inr (cf, mf, acc')"
    using requests_loop_none by (metis prod_cases3)
  with Cons show ?case by simp
qed simp

lemma getQuotaFromShadowPod_none:
  assumes "Containers (sp_Pod sp) = Some cs"
  shows "\<exists>q. getQuotaFromShadowPod k8s sp NoLimitsEnforcement = Inr q"
proof -
  obtain r1 where "containers_loop sum_request RequestsNotSet NoLimitsEnforcement cs [] = Inr r1"
    using containers_loop_none by blast
  moreover obtain r2 where "containers_loop (max_request k8s) InitRequestsNotSet NoLimitsEnforcement
      (slice (InitContainers (sp_Pod sp))) [] = Inr r2"
    using containers_loop_none by blast
  ultimately show ?thesis using assms by (simp add: getQuotaFromShadowPod_def)
qed

lemma checkAndAddShadowPods_cases:
  "checkAndAddShadowPods k8s sp (sp_nsname sp) pi c =
    (if has_key (nn_String (sp_nsname sp)) (shadowPods pi) then Some (True, pi, c)
     else (case getQuotaFromShadowPod k8s sp NoLimitsEnforcement of
             Inl _ \<Rightarrow> None
           | Inr q \<Rightarrow> Some (False, addShadowPod (new_description sp q (shd c)) pi, stl c)))"
  by (auto simp: checkAndAddShadowPods_def has_key_iff createShadowPodDescription_eq
      split: option.split sum.split)

text \<open>
  \<open>aligned pi sps pi'\<close>: the record after every shadow pod of the cluster has been looked up. What was
  there is kept, and the names are those of before and of the cluster.
\<close>

definition aligned :: "peeringInfo \<Rightarrow> ShadowPod list \<Rightarrow> peeringInfo \<Rightarrow> bool" where
  "aligned pi sps pi' \<longleftrightarrow> wf_pi pi' \<and> totalQuota pi' = totalQuota pi \<and> userName pi' = userName pi \<and>
     (\<forall>key. has_key key (shadowPods pi') \<longleftrightarrow> has_key key (shadowPods pi) \<or> key \<in> names sps) \<and>
     (\<forall>key d. map_of (shadowPods pi) key = Some d \<longrightarrow> map_of (shadowPods pi') key = Some d)"

lemma aligned_trans: "aligned pi [sp] pi1 \<Longrightarrow> aligned pi1 sps pi2 \<Longrightarrow> aligned pi (sp # sps) pi2"
  unfolding aligned_def by simp

lemma checkAndAdd_aligned:
  assumes w: "wf_pi pi" and mx: "Max_ok k8s"
    and r: "checkAndAddShadowPods k8s sp (sp_nsname sp) pi c = Some (found, pi', c')"
  shows "aligned pi [sp] pi'"
proof (cases "has_key (nn_String (sp_nsname sp)) (shadowPods pi)")
  case True
  then show ?thesis using r w by (auto simp: checkAndAddShadowPods_cases aligned_def)
next
  case False
  then obtain q where q: "getQuotaFromShadowPod k8s sp NoLimitsEnforcement = Inr q"
    and pi': "pi' = addShadowPod (new_description sp q (shd c)) pi"
    using r by (auto simp: checkAndAddShadowPods_cases split: sum.splits)
  have "wf_pi pi'" unfolding pi'
    using False getQuotaFromShadowPod_wf [OF mx q]
    by (intro addShadowPod_wf [OF w]) (simp_all add: has_key_iff)
  then show ?thesis using False by (auto simp: aligned_def pi' has_key_put map_of_put has_key_iff)
qed

lemma alignExistingShadowPods_aligned:
  assumes mx: "Max_ok k8s"
  shows "wf_pi pi \<Longrightarrow> alignExistingShadowPods k8s sps pi c = Some (pi', c') \<Longrightarrow> aligned pi sps pi'"
proof (induction sps arbitrary: pi c)
  case Nil
  then show ?case by (simp add: aligned_def)
next
  case (Cons sp sps)
  then obtain found pi1 c1 where
    r: "checkAndAddShadowPods k8s sp (sp_nsname sp) pi c = Some (found, pi1, c1)"
      "alignExistingShadowPods k8s sps pi1 c1 = Some (pi', c')"
    by (auto split: option.splits)
  have a: "aligned pi [sp] pi1" by (rule checkAndAdd_aligned [OF Cons.prems(1) mx r(1)])
  then have "wf_pi pi1" by (simp add: aligned_def)
  from aligned_trans [OF a Cons.IH [OF this r(2)]] show ?case .
qed

lemma alignExistingShadowPods_clock:
  "alignExistingShadowPods k8s sps pi c = Some (pi', c') \<Longrightarrow> sset c' \<subseteq> sset c"
proof (induction sps arbitrary: pi c)
  case (Cons sp sps)
  then obtain found pi1 c1 where
    r: "checkAndAddShadowPods k8s sp (sp_nsname sp) pi c = Some (found, pi1, c1)"
      "alignExistingShadowPods k8s sps pi1 c1 = Some (pi', c')"
    by (auto split: option.splits)
  have "c1 = c \<or> c1 = stl c"
    using r(1) by (auto simp: checkAndAddShadowPods_cases split: if_splits sum.splits)
  then have "sset c1 \<subseteq> sset c" using stl_sset by auto
  with Cons.IH [OF r(2)] show ?case by blast
qed simp

lemma alignExistingShadowPods_total:
  "(\<And>sp. sp \<in> set sps \<Longrightarrow> Containers (sp_Pod sp) \<noteq> None) \<Longrightarrow>
    \<exists>r. alignExistingShadowPods k8s sps pi c = Some r"
proof (induction sps arbitrary: pi c)
  case (Cons sp sps)
  obtain cs where "Containers (sp_Pod sp) = Some cs" using Cons.prems [of sp] by auto
  from getQuotaFromShadowPod_none [OF this, of k8s]
  have "checkAndAddShadowPods k8s sp (sp_nsname sp) pi c \<noteq> None"
    by (auto simp: checkAndAddShadowPods_cases)
  then obtain f pi' c' where
    "checkAndAddShadowPods k8s sp (sp_nsname sp) pi c = Some (f, pi', c')" by auto
  then show ?case using Cons by simp
qed simp

section \<open>Descriptions whose pod is gone\<close>

abbreviation nm :: "Description \<Rightarrow> string" where
  "nm spd \<equiv> nn_String (namespacedName spd)"

text \<open>
  \<open>flushed S pi pi'\<close>: descriptions with a name in \<open>S\<close> may be gone, the others are as before.
\<close>

definition flushed :: "string set \<Rightarrow> peeringInfo \<Rightarrow> peeringInfo \<Rightarrow> bool" where
  "flushed S pi pi' \<longleftrightarrow> wf_pi pi' \<and> totalQuota pi' = totalQuota pi \<and> userName pi' = userName pi \<and>
     (\<forall>key. key \<notin> S \<longrightarrow> map_of (shadowPods pi') key = map_of (shadowPods pi) key) \<and>
     (\<forall>key. has_key key (shadowPods pi') \<longrightarrow> has_key key (shadowPods pi))"

lemma flushed_refl: "wf_pi pi \<Longrightarrow> flushed S pi pi"
  by (simp add: flushed_def)

lemma flushed_trans: "flushed S pi pi1 \<Longrightarrow> flushed S' pi1 pi2 \<Longrightarrow> flushed (S \<union> S') pi pi2"
  by (simp add: flushed_def)

lemma removeShadowPod_sel [simp]:
  "totalQuota (removeShadowPod spd pi) = totalQuota pi"
  "userName (removeShadowPod spd pi) = userName pi"
  "shadowPods (removeShadowPod spd pi) = del (nm spd) (shadowPods pi)"
  by (simp_all add: removeShadowPod_def)

lemma remove_flushed:
  assumes "wf_pi pi" and "map_of (shadowPods pi) (nm spd) = Some spd" and "\<not> running spd"
  shows "flushed {nm spd} pi (removeShadowPod spd pi)"
  using removeShadowPod_wf [OF assms(1), of spd] assms
  by (auto simp: flushed_def map_of_del has_key_del)

lemma terminate_sel [simp]: "nm (terminate spd) = nm spd" "\<not> running (terminate spd)"
  by (simp_all add: terminate_def)

lemma terminate_flushed:
  assumes w: "wf_pi pi" and h: "map_of (shadowPods pi) (nm spd) = Some spd" and r: "running spd"
  shows "flushed {nm spd} pi (removeShadowPod (terminate spd) (terminateShadowPod spd pi))"
proof -
  have "wf_pi (removeShadowPod (terminate spd) (terminateShadowPod spd pi))"
    by (rule removeShadowPod_wf [OF terminateShadowPod_wf [OF w r h]])
      (simp add: map_of_put terminate_def)
  then show ?thesis using h
    by (auto simp: flushed_def map_of_del has_key_del map_of_put has_key_put)
qed

text \<open>
  One round of the loop: the description is gone unless its pod exists, or it runs and is young.
\<close>

definition stale :: "clock \<Rightarrow> Description \<Rightarrow> bool" where
  "stale c spd \<longleftrightarrow> (\<forall>t \<in> sset c. 30 * 1000000000 < t - creationTimestamp spd)"

lemma stale_mono: "stale c spd \<Longrightarrow> sset c' \<subseteq> sset c \<Longrightarrow> stale c' spd"
  by (auto simp: stale_def)

lemma alignTerminating_step:
  assumes w: "wf_pi pi" and h: "map_of (shadowPods pi) (nm spd) = Some spd"
  obtains pi1 c1 where
    "alignTerminatingShadowPodDescriptions spMap (spd # spds) pi c =
      alignTerminatingShadowPodDescriptions spMap spds pi1 c1"
    and "flushed ({nm spd} - spMap) pi pi1" and "sset c1 \<subseteq> sset c"
    and "stale c spd \<Longrightarrow> nm spd \<notin> spMap \<Longrightarrow> \<not> has_key (nm spd) (shadowPods pi1)"
proof -
  have stl: "sset (stl c) \<subseteq> sset c" using stl_sset by auto
  consider "nm spd \<in> spMap" | "nm spd \<notin> spMap" "\<not> running spd"
    | "nm spd \<notin> spMap" "running spd" "30 * 1000000000 < shd c - creationTimestamp spd"
    | "nm spd \<notin> spMap" "running spd" "\<not> 30 * 1000000000 < shd c - creationTimestamp spd" by blast
  then show thesis
  proof cases
    case 1
    then show ?thesis using that [of pi c] w by (simp add: flushed_refl)
  next
    case 2
    then show ?thesis using that [of "removeShadowPod spd pi" c] remove_flushed [OF w h]
      by (simp add: has_key_del insert_Diff_if)
  next
    case 3
    then show ?thesis
      using that [of "removeShadowPod (terminate spd) (terminateShadowPod spd pi)" "stl c"]
        terminate_flushed [OF w h] stl
      by (simp add: has_key_del time_Now_def insert_Diff_if)
  next
    case 4
    then have "\<not> stale c spd" using shd_sset by (auto simp: stale_def)
    with 4 show ?thesis using that [of pi "stl c"] w stl by (simp add: flushed_refl time_Now_def)
  qed
qed

lemma alignTerminating_flushed:
  assumes "wf_pi pi" and "distinct (map nm spds)"
    and "\<And>spd. spd \<in> set spds \<Longrightarrow> map_of (shadowPods pi) (nm spd) = Some spd"
    and "alignTerminatingShadowPodDescriptions spMap spds pi c = (pi', c')"
  shows "flushed (nm ` set spds - spMap) pi pi' \<and> sset c' \<subseteq> sset c \<and>
    (\<forall>spd \<in> set spds. stale c spd \<longrightarrow> nm spd \<notin> spMap \<longrightarrow> \<not> has_key (nm spd) (shadowPods pi'))"
  using assms
proof (induction spds arbitrary: pi c)
  case Nil
  then show ?case by (simp add: flushed_refl)
next
  case (Cons spd spds)
  have h: "map_of (shadowPods pi) (nm spd) = Some spd" using Cons.prems(3) by simp
  obtain pi1 c1 where
    step: "alignTerminatingShadowPodDescriptions spMap (spd # spds) pi c =
        alignTerminatingShadowPodDescriptions spMap spds pi1 c1"
      "flushed ({nm spd} - spMap) pi pi1" "sset c1 \<subseteq> sset c"
      "stale c spd \<Longrightarrow> nm spd \<notin> spMap \<Longrightarrow> \<not> has_key (nm spd) (shadowPods pi1)"
    by (rule alignTerminating_step [OF Cons.prems(1) h, where spMap = spMap and spds = spds and c = c]) blast
  have keep: "map_of (shadowPods pi1) (nm d) = Some d" if "d \<in> set spds" for d
  proof -
    have "nm spd \<notin> nm ` set spds" using Cons.prems(2) by simp
    then have "nm d \<noteq> nm spd" using that by (metis image_eqI)
    then show ?thesis using step(2) Cons.prems(3) [of d] that by (simp add: flushed_def)
  qed
  have w1: "wf_pi pi1" using step(2) by (simp add: flushed_def)
  have r1: "alignTerminatingShadowPodDescriptions spMap spds pi1 c1 = (pi', c')"
    using step(1) Cons.prems(4) by simp
  have d: "distinct (map nm spds)" using Cons.prems(2) by simp
  note ih = Cons.IH [OF w1 d keep r1]
  have "flushed ({nm spd} - spMap \<union> (nm ` set spds - spMap)) pi pi'"
    using flushed_trans [OF step(2)] ih by blast
  moreover have "{nm spd} - spMap \<union> (nm ` set spds - spMap) = nm ` set (spd # spds) - spMap" by auto
  moreover have "\<not> has_key (nm d) (shadowPods pi')"
    if "d \<in> set (spd # spds)" "stale c d" "nm d \<notin> spMap" for d
  proof (cases "d \<in> set spds")
    case True
    then show ?thesis using ih stale_mono [OF that(2) step(3)] that(3) by blast
  next
    case False
    then have "\<not> has_key (nm d) (shadowPods pi1)" using that step(4) by simp
    then show ?thesis using ih unfolding flushed_def by blast
  qed
  moreover have "sset c' \<subseteq> sset c" using ih step(3) by blast
  ultimately show ?case by simp
qed

lemma wf_pi_names: "wf_pi pi \<Longrightarrow> map (nm \<circ> snd) (shadowPods pi) = map fst (shadowPods pi)"
  unfolding wf_pi_def wf_desc_def by simp

text \<open>
  The refresh of one record: every shadow pod of the cluster has a description, and the
  descriptions of the other names are gone once they are stale.
\<close>

lemma alignTerminatingOrNotExisting_correct:
  assumes w: "wf_pi pi" and mx: "Max_ok k8s"
    and r: "alignTerminatingOrNotExistingShadowPods k8s sps pi c = Some (pi', c')"
  shows "wf_pi pi' \<and> totalQuota pi' = totalQuota pi \<and> userName pi' = userName pi \<and>
    (\<forall>key \<in> names sps. has_key key (shadowPods pi')) \<and>
    (\<forall>key d. key \<notin> names sps \<longrightarrow> map_of (shadowPods pi) key = Some d \<longrightarrow> stale c d \<longrightarrow>
       \<not> has_key key (shadowPods pi')) \<and>
    (\<forall>key. has_key key (shadowPods pi') \<longrightarrow> has_key key (shadowPods pi) \<or> key \<in> names sps)"
proof -
  obtain pi1 c1 where e: "alignExistingShadowPods k8s sps pi c = Some (pi1, c1)"
    and t: "alignTerminatingShadowPodDescriptions (names sps) (map snd (shadowPods pi1)) pi1 c1 = (pi', c')"
    using r by (auto simp: alignTerminatingOrNotExistingShadowPods_def image_comp split: option.splits)
  note a = alignExistingShadowPods_aligned [OF mx w e]
  have w1: "wf_pi pi1" and m1: "wf_map (shadowPods pi1)"
    using a by (simp_all add: aligned_def wf_pi_def)
  have d: "distinct (map nm (map snd (shadowPods pi1)))"
    using wf_pi_names [OF w1] m1 by (simp add: wf_map_def del: map_eq_conv)
  have h: "map_of (shadowPods pi1) (nm spd) = Some spd" if "spd \<in> set (map snd (shadowPods pi1))" for spd
    using that w1 m1 by (auto simp: wf_pi_def wf_desc_def wf_map_mem)
  note f = alignTerminating_flushed [OF w1 d h t]
  have "\<not> has_key key (shadowPods pi')"
    if "key \<notin> names sps" "map_of (shadowPods pi) key = Some d" "stale c d" for key d
  proof -
    have m: "map_of (shadowPods pi1) key = Some d" using a that(2) by (simp add: aligned_def)
    then have "key = nm d" "d \<in> set (map snd (shadowPods pi1))"
      using wf_pi_lookup(1) [OF w1 m] map_of_SomeD [OF m] by force+
    moreover have "stale c1 d" using stale_mono [OF that(3) alignExistingShadowPods_clock [OF e]] .
    ultimately show ?thesis using f that(1) by blast
  qed
  moreover have "has_key key (shadowPods pi')" if "key \<in> names sps" for key
    using f a that by (simp add: flushed_def aligned_def has_key_iff)
  ultimately show ?thesis using f a by (simp add: flushed_def aligned_def)
qed

section \<open>The whole cache\<close>

definition wf_entry :: "string \<times> peeringInfo \<Rightarrow> bool" where
  "wf_entry e \<longleftrightarrow> wf_pi (snd e) \<and> wf_map (totalQuota (snd e)) \<and> userName (snd e) = fst e"

definition wf_cache :: "peeringCache \<Rightarrow> bool" where
  "wf_cache pc \<longleftrightarrow> wf_map (peeringInfos pc) \<and> (\<forall>e \<in> set (peeringInfos pc). wf_entry e)"

lemma wf_cache_put:
  "wf_cache pc \<Longrightarrow> wf_entry (user, pi) \<Longrightarrow>
    wf_cache (pc\<lparr>peeringInfos := put user pi (peeringInfos pc)\<rparr>)"
  using set_put_subset [of user pi "peeringInfos pc"] by (auto simp: wf_cache_def)

lemma wf_cache_lookup: "wf_cache pc \<Longrightarrow> map_of (peeringInfos pc) user = Some pi \<Longrightarrow> wf_entry (user, pi)"
  by (auto simp: wf_cache_def dest: map_of_SomeD)

lemma wf_cache_ready [simp]: "wf_cache (pc\<lparr>ready := b\<rparr>) = wf_cache pc"
  by (simp add: wf_cache_def)

lemma createPeeringInfo_sel [simp]:
  "userName (createPeeringInfo user q) = user" "totalQuota (createPeeringInfo user q) = q"
  "shadowPods (createPeeringInfo user q) = []"
  by (simp_all add: createPeeringInfo_def)

lemma create_entry: "wf_map q \<Longrightarrow> wf_entry (user, createPeeringInfo user q)"
  by (simp add: wf_entry_def createPeeringInfo_wf)

definition wf_quotas :: "string + Quota list \<Rightarrow> bool" where
  "wf_quotas quotas \<longleftrightarrow> (\<forall>qs. quotas = Inr qs \<longrightarrow> (\<forall>q \<in> set qs. wf_map (q_Resources q)))"

lemma aligned_entry:
  assumes "Max_ok k8s" and "wf_entry (user, pi)" and "alignExistingShadowPods k8s sps pi c = Some (pi', c')"
  shows "wf_entry (user, pi')"
  using alignExistingShadowPods_aligned [OF assms(1) _ assms(3)] assms(2)
  by (auto simp: wf_entry_def aligned_def)

lemma initialize_loop_wf:
  assumes "Max_ok k8s"
  shows "wf_cache pc \<Longrightarrow> \<forall>q \<in> set qs. wf_map (q_Resources q) \<Longrightarrow>
    initialize_loop k8s listSP qs pc c = Some (err, pc', c') \<Longrightarrow> wf_cache pc'"
proof (induction qs arbitrary: pc c)
  case (Cons q qs)
  show ?case
  proof (cases "ListShadowPodsByCreator listSP (q_User q)")
    case (Inl e)
    then show ?thesis using Cons.prems by simp
  next
    case (Inr sps)
    then obtain pi1 c1 where
      a: "alignExistingShadowPods k8s sps (createPeeringInfo (q_User q) (q_Resources q)) c = Some (pi1, c1)"
      and r: "initialize_loop k8s listSP qs (pc\<lparr>peeringInfos := put (q_User q) pi1 (peeringInfos pc)\<rparr>) c1
        = Some (err, pc', c')"
      using Cons.prems(3) by (auto split: option.splits)
    have "wf_entry (q_User q, pi1)"
      using aligned_entry [OF assms create_entry a] Cons.prems(2) by simp
    from Cons.IH [OF wf_cache_put [OF Cons.prems(1) this] _ r] Cons.prems(2) show ?thesis by simp
  qed
qed simp

lemma initializeCache_wf:
  assumes "Max_ok k8s" and "wf_cache pc" and "wf_quotas quotas"
    and "initializeCache k8s quotas listSP pc c = Some (err, pc', c')"
  shows "wf_cache pc'"
proof (cases quotas)
  case (Inr qs)
  with assms(4) obtain pc1 where "initialize_loop k8s listSP qs pc c = Some (err, pc1, c')"
    and "pc' = pc1 \<or> pc' = pc1\<lparr>ready := True\<rparr>"
    by (auto simp: initializeCache_def split: option.splits)
  moreover have "wf_cache pc1"
    using initialize_loop_wf [OF assms(1,2)] assms(3) Inr calculation(1) by (auto simp: wf_quotas_def)
  ultimately show ?thesis by auto
qed (use assms in \<open>auto simp: initializeCache_def\<close>)

lemma align_quotas_loop_wf:
  assumes "Max_ok k8s"
  shows "wf_cache pc \<Longrightarrow> \<forall>q \<in> set qs. wf_map (q_Resources q) \<Longrightarrow>
    align_quotas_loop k8s listSP qs pc c = Some (err, pc', c') \<Longrightarrow> wf_cache pc'"
proof (induction qs arbitrary: pc c)
  case (Cons q qs)
  let ?new = "createPeeringInfo (q_User q) (q_Resources q)"
  let ?pc1 = "pc\<lparr>peeringInfos := put (q_User q) ?new (peeringInfos pc)\<rparr>"
  have e: "wf_entry (q_User q, ?new)" using Cons.prems(2) by (simp add: create_entry)
  have w1: "wf_cache ?pc1" by (rule wf_cache_put [OF Cons.prems(1) e])
  show ?case
  proof (cases "map_of (peeringInfos pc) (q_User q)")
    case (Some x)
    then show ?thesis using Cons by simp
  next
    case new: None
    show ?thesis
    proof (cases "ListShadowPodsByCreator listSP (q_User q)")
      case (Inl e)
      then show ?thesis using Cons.prems new w1 by simp
    next
      case (Inr sps)
      then obtain pi1 c1 where a: "alignExistingShadowPods k8s sps ?new c = Some (pi1, c1)"
        and r: "align_quotas_loop k8s listSP qs (?pc1\<lparr>peeringInfos := put (q_User q) pi1 (peeringInfos ?pc1)\<rparr>)
            c1 = Some (err, pc', c')"
        using Cons.prems(3) new by (auto simp: Let_def split: option.splits)
      from Cons.IH [OF wf_cache_put [OF w1 aligned_entry [OF assms e a]] _ r] Cons.prems(2)
      show ?thesis by simp
    qed
  qed
qed simp

lemma checkAlignmentQuotaPeeringInfo_wf:
  assumes "Max_ok k8s" and "wf_cache pc" and "wf_quotas quotas"
    and "checkAlignmentQuotaPeeringInfo k8s quotas listSP pc c = Some (err, pc', c')"
  shows "wf_cache pc'"
proof (cases quotas)
  case (Inr qs)
  with assms(4) obtain pc1 where r: "align_quotas_loop k8s listSP qs pc c = Some (err, pc1, c')"
    and pc': "pc' = pc1 \<or> 
      pc' = pc1\<lparr>peeringInfos := filter (\<lambda>(user, _). user \<in> set (map q_User qs)) (peeringInfos pc1)\<rparr>"
    by (auto simp: checkAlignmentQuotaPeeringInfo_def split: option.splits)
  have "wf_cache pc1"
    using align_quotas_loop_wf [OF assms(1,2) _ r] assms(3) Inr by (simp add: wf_quotas_def)
  with pc' show ?thesis by (auto simp: wf_cache_def)
qed (use assms in \<open>auto simp: checkAlignmentQuotaPeeringInfo_def\<close>)

lemma refresh_loop_wf:
  assumes mx: "Max_ok k8s"
  shows "wf_map ps \<Longrightarrow> \<forall>e \<in> set ps. wf_entry e \<Longrightarrow> refresh_loop k8s listSP ps c = Some (ps', c') \<Longrightarrow>
    map fst ps' = map fst ps \<and> (\<forall>e \<in> set ps'. wf_entry e)"
proof (induction ps arbitrary: c ps')
  case (Cons e ps)
  obtain user pi where e: "e = (user, pi)" by force
  have we: "wf_entry (user, pi)" using Cons.prems(2) e by simp
  show ?case
  proof (cases "ListShadowPodsByCreator listSP (userName pi)")
    case (Inl err)
    with Cons.prems(3) e obtain ps1 where "refresh_loop k8s listSP ps c = Some (ps1, c')"
      "ps' = (user, pi) # ps1" by auto
    then show ?thesis using Cons.IH Cons.prems(1,2) e by simp
  next
    case (Inr sps)
    then obtain pi1 c1 ps1 where
      a: "alignTerminatingOrNotExistingShadowPods k8s sps pi c = Some (pi1, c1)"
      and r: "refresh_loop k8s listSP ps c1 = Some (ps1, c')" "ps' = (user, pi1) # ps1"
      using Cons.prems(3) e by (auto split: option.splits)
    have "wf_entry (user, pi1)"
      using alignTerminatingOrNotExisting_correct [OF _ mx a] we by (simp add: wf_entry_def)
    then show ?thesis using Cons.IH [OF _ _ r(1)] Cons.prems(1,2) e r(2) by simp
  qed
qed simp

lemma refreshCache_wf:
  assumes mx: "Max_ok k8s" and w: "wf_cache pc" and q: "wf_quotas quotas"
    and r: "refreshCache k8s quotas listSP pc c = Some (pc', c')"
  shows "wf_cache pc'"
proof (cases "ready pc")
  case False
  with r obtain err where "initializeCache k8s quotas listSP pc c = Some (err, pc', c')"
    by (auto simp: refreshCache_def)
  from initializeCache_wf [OF mx w q this] show ?thesis .
next
  case True
  with r obtain ps c1 err where l: "refresh_loop k8s listSP (peeringInfos pc) c = Some (ps, c1)"
    and a: "checkAlignmentQuotaPeeringInfo k8s quotas listSP (pc\<lparr>peeringInfos := ps\<rparr>) c1 = Some (err, pc', c')"
    by (auto simp: refreshCache_def split: option.splits)
  have "wf_cache (pc\<lparr>peeringInfos := ps\<rparr>)"
    using refresh_loop_wf [OF mx _ _ l] w by (simp add: wf_cache_def wf_map_def)
  from checkAlignmentQuotaPeeringInfo_wf [OF mx this q a] show ?thesis .
qed

section \<open>Requests\<close>

lemma updateQuotas_sel [simp]:
  "userName (updateQuotas q pi) = userName pi" "totalQuota (updateQuotas q pi) = q"
  "shadowPods (updateQuotas q pi) = shadowPods pi" "usedQuota (updateQuotas q pi) = usedQuota pi"
  by (simp_all add: updateQuotas_def)

lemma getOrCreatePeeringInfo_wf:
  assumes "wf_cache pc" and "wf_map q" and "getOrCreatePeeringInfo user q pc = (pi, pc')"
  shows "wf_entry (user, pi)" and "wf_cache pc'" and "ready pc' = ready pc"
proof -
  have e: "wf_entry (user, pi) \<and> pc' = pc\<lparr>peeringInfos := put user pi (peeringInfos pc)\<rparr>"
  proof (cases "map_of (peeringInfos pc) user")
    case None
    then show ?thesis using assms by (auto simp: getOrCreatePeeringInfo_def create_entry Let_def)
  next
    case (Some p)
    then show ?thesis using assms wf_cache_lookup [OF assms(1) Some]
      by (auto simp: getOrCreatePeeringInfo_def wf_entry_def alignQuotaUpdates_def updateQuotas_wf Let_def)
  qed
  then show "wf_entry (user, pi)" "wf_cache pc'" "ready pc' = ready pc"
    using wf_cache_put [OF assms(1)] by auto
qed

lemma testAndUpdateCreation_entry:
  assumes "Max_ok k8s" and "wf_entry (user, pi)"
    and r: "testAndUpdateCreation k8s getSP sp enf dryRun pi c = (err, pi', c')"
  shows "wf_entry (user, pi')"
proof -
  have w: "wf_pi pi" "wf_map (totalQuota pi)" using assms(2) by (simp_all add: wf_entry_def)
  have "userName pi' = userName pi"
  proof (cases "\<exists>q. accepts k8s getSP sp enf pi q")
    case True
    then obtain q where a: "accepts k8s getSP sp enf pi q" by blast
    show ?thesis using r testAndUpdateCreation_accept [OF w assms(1) a, of dryRun c] by auto
  next
    case False
    obtain e c1 where "testAndUpdateCreation k8s getSP sp enf dryRun pi c =
        (Some e, if name_free getSP sp pi \<and> (\<exists>q. getQuotaFromShadowPod k8s sp enf = Inr q)
                 then without sp pi else pi, c1)"
      by (rule testAndUpdateCreation_refuse [OF w assms(1) False])
    then show ?thesis using r by (auto split: if_splits)
  qed
  then show ?thesis
    using testAndUpdateCreation_wf [OF w assms(1) r] assms(2) by (simp add: wf_entry_def)
qed

lemma GetQuotaByUser_mem:
  "GetQuotaByUser quotas user = Inr q \<Longrightarrow> \<exists>qs. quotas = Inr qs \<and> q \<in> set qs \<and> EscapeLabel (q_User q) = user"
  by (auto simp: GetQuotaByUser_def find_Some_iff split: sum.splits option.splits)

text \<open>
  \<open>reaches_accounting\<close>: the guards of \<open>HandleCreate\<close> let the request through to the accounting, for
  the given pod, creator, quota and dry-run flag.
\<close>

definition reaches_accounting :: "cluster_view \<Rightarrow> Request \<Rightarrow> Validator \<Rightarrow> ShadowPod \<Rightarrow> string \<Rightarrow>
    Quota \<Rightarrow> bool \<Rightarrow> bool" where
  "reaches_accounting v req spv sp creator q dryRun \<longleftrightarrow> enableResourceValidation spv \<and>
     r_Object req = Inr sp \<and> r_DryRun req = Some dryRun \<and>
     map_of (sp_Labels sp) CreatorLabelKey = Some creator \<and>
     (\<exists>clusterID labels. map_of (sp_Labels sp) LiqoOriginClusterIDKey = Some clusterID \<and>
        v_namespace v (sp_Namespace sp) = Inr labels \<and> map_of labels RemoteClusterID = Some clusterID) \<and>
     GetQuotaByUser (v_quotas v) creator = Inr q \<and> q_Cordoned q \<noteq> Some True"

definition account_creation :: "k8s_lib \<Rightarrow> (sp_error \<Rightarrow> string) \<Rightarrow> cluster_view \<Rightarrow> Validator \<Rightarrow>
    ShadowPod \<Rightarrow> string \<Rightarrow> Quota \<Rightarrow> bool \<Rightarrow> clock \<Rightarrow> Response \<times> Validator \<times> clock" where
  "account_creation k8s msg v spv sp creator q dryRun c =
     (let (pi, pc) = getOrCreatePeeringInfo creator (q_Resources q) (PeeringCache spv);
          (err, pi', c') = testAndUpdateCreation k8s (v_shadowpod v) sp (q_LimitsEnforcement q) dryRun pi c
      in (case err of None \<Rightarrow> Allowed [] | Some e \<Rightarrow> Denied (msg e),
          spv\<lparr>PeeringCache := pc\<lparr>peeringInfos := put creator pi' (peeringInfos pc)\<rparr>\<rparr>, c'))"

lemma HandleCreate_accounting:
  "reaches_accounting v req spv sp creator q dryRun \<Longrightarrow>
    HandleCreate k8s msg v req spv c = Some (account_creation k8s msg v spv sp creator q dryRun c)"
  by (auto simp: reaches_accounting_def HandleCreate_def account_creation_def
      validateShadowPodClusterID_def Let_def split: prod.split)

lemma HandleCreate_early:
  assumes r: "HandleCreate k8s msg v req spv c = Some (resp, spv', c')"
    and en: "enableResourceValidation spv"
    and no: "\<nexists>sp creator q dryRun. reaches_accounting v req spv sp creator q dryRun"
  shows "spv' = spv \<and> resp \<noteq> Allowed []"
proof (cases "r_Object req")
  case (Inl e)
  then show ?thesis using r by (auto simp: HandleCreate_def)
next
  case sp: (Inr sp)
  show ?thesis
  proof (cases "map_of (sp_Labels sp) LiqoOriginClusterIDKey")
    case None
    then show ?thesis using r sp by (auto simp: HandleCreate_def)
  next
    case id: (Some clusterID)
    show ?thesis
    proof (cases "validateShadowPodClusterID v (sp_Namespace sp) clusterID")
      case (Some ce)
      then show ?thesis using r sp id
        by (cases ce) (auto simp: HandleCreate_def split: if_splits)
    next
      case val: None
      show ?thesis
      proof (cases "map_of (sp_Labels sp) CreatorLabelKey")
        case None
        then show ?thesis using r sp id val en by (auto simp: HandleCreate_def)
      next
        case cr: (Some creator)
        show ?thesis
        proof (cases "GetQuotaByUser (v_quotas v) creator")
          case (Inl e)
          then show ?thesis using r sp id val en cr by (auto simp: HandleCreate_def)
        next
          case q: (Inr q)
          have "q_Cordoned q = Some True \<or> r_DryRun req = None"
            using no sp id val en cr q
            by (auto simp: reaches_accounting_def validateShadowPodClusterID_def split: sum.splits if_splits)
          then show ?thesis using r sp id val en cr q
            by (auto simp: HandleCreate_def split: if_splits prod.splits)
        qed
      qed
    qed
  qed
qed

lemma HandleCreate_disabled:
  "HandleCreate k8s msg v req spv c = Some (resp, spv', c') \<Longrightarrow> \<not> enableResourceValidation spv \<Longrightarrow> spv' = spv"
  by (auto simp: HandleCreate_def split: sum.splits option.splits)

lemma account_creation_wf:
  assumes mx: "Max_ok k8s" and w: "wf_cache (PeeringCache spv)" and q: "wf_map (q_Resources q)"
  shows "wf_cache (PeeringCache (fst (snd (account_creation k8s msg v spv sp creator q dryRun c))))"
proof -
  obtain pi pc where g: "getOrCreatePeeringInfo creator (q_Resources q) (PeeringCache spv) = (pi, pc)"
    by force
  obtain err pi' c' where
    t: "testAndUpdateCreation k8s (v_shadowpod v) sp (q_LimitsEnforcement q) dryRun pi c = (err, pi', c')"
    by (metis prod_cases3)
  note gw = getOrCreatePeeringInfo_wf [OF w q g]
  from wf_cache_put [OF gw(2) testAndUpdateCreation_entry [OF mx gw(1) t]]
  show ?thesis by (simp add: account_creation_def g t)
qed

lemma HandleCreate_wf:
  assumes mx: "Max_ok k8s" and w: "wf_cache (PeeringCache spv)" and q: "wf_quotas (v_quotas v)"
    and r: "HandleCreate k8s msg v req spv c = Some (resp, spv', c')"
  shows "wf_cache (PeeringCache spv')"
proof (cases "\<exists>sp creator q dryRun. reaches_accounting v req spv sp creator q dryRun")
  case True
  then obtain sp creator qt dryRun where a: "reaches_accounting v req spv sp creator qt dryRun" by blast
  have "wf_map (q_Resources qt)"
    using a q GetQuotaByUser_mem [of "v_quotas v" creator qt]
    by (auto simp: reaches_accounting_def wf_quotas_def)
  from account_creation_wf [OF mx w this, of msg v sp creator dryRun c]
  show ?thesis using r HandleCreate_accounting [OF a, of k8s msg c] by simp
next
  case False
  then have "spv' = spv"
    using HandleCreate_early [OF r _ False] HandleCreate_disabled [OF r] by blast
  then show ?thesis using w by simp
qed

lemma HandleUpdate_state: "HandleUpdate req spv c = Some (resp, spv', c') \<Longrightarrow> spv' = spv \<and> c' = c"
  unfolding HandleUpdate_def by (auto split: sum.splits option.splits if_splits bool.splits)

text \<open>A deletion request for a pod whose description already ended is one that was answered before.\<close>

definition first_deletion :: "Request \<Rightarrow> Validator \<Rightarrow> bool" where
  "first_deletion req spv \<longleftrightarrow> r_DryRun req = Some True \<or> (\<forall>sp creator pi spd. r_OldObject req = Inr sp \<longrightarrow>
     map_of (sp_Labels sp) CreatorLabelKey = Some creator \<longrightarrow>
     getPeeringInfo creator (PeeringCache spv) = Some pi \<longrightarrow>
     getShadowPodDescription sp pi = Inr spd \<longrightarrow> running spd)"

lemma HandleDelete_state:
  assumes r: "HandleDelete msg req spv c = Some (resp, spv', c')" and ch: "spv' \<noteq> spv"
  shows "\<exists>sp creator pi dryRun. r_OldObject req = Inr sp \<and>
    map_of (sp_Labels sp) CreatorLabelKey = Some creator \<and>
    getPeeringInfo creator (PeeringCache spv) = Some pi \<and> r_DryRun req = Some dryRun \<and>
    spv' = spv\<lparr>PeeringCache := PeeringCache spv\<lparr>peeringInfos :=
      put creator (snd (updateDeletion sp dryRun pi)) (peeringInfos (PeeringCache spv))\<rparr>\<rparr>"
proof -
  obtain sp where sp: "r_OldObject req = Inr sp"
    using r ch by (cases "r_OldObject req") (auto simp: HandleDelete_def split: if_splits)
  obtain creator where cr: "map_of (sp_Labels sp) CreatorLabelKey = Some creator"
    using r ch sp by (cases "map_of (sp_Labels sp) CreatorLabelKey")
      (auto simp: HandleDelete_def split: if_splits)
  obtain pi where pi: "getPeeringInfo creator (PeeringCache spv) = Some pi"
    using r ch sp cr by (cases "getPeeringInfo creator (PeeringCache spv)")
      (auto simp: HandleDelete_def split: if_splits)
  obtain dryRun where d: "r_DryRun req = Some dryRun"
    using r ch sp cr pi by (cases "r_DryRun req") (auto simp: HandleDelete_def split: if_splits)
  show ?thesis using r ch sp cr pi d
    by (auto simp: HandleDelete_def Let_def split: if_splits prod.splits)
qed

lemma updateDeletion_userName: "userName (snd (updateDeletion sp dryRun pi)) = userName pi"
  by (simp add: updateDeletion_def split: sum.split)

lemma HandleDelete_wf:
  assumes w: "wf_cache (PeeringCache spv)" and f: "first_deletion req spv"
    and r: "HandleDelete msg req spv c = Some (resp, spv', c')"
  shows "wf_cache (PeeringCache spv')"
proof (cases "spv' = spv")
  case True
  then show ?thesis using w by simp
next
  case False
  then obtain sp creator pi dryRun where 2: "True" "r_OldObject req = Inr sp"
      "map_of (sp_Labels sp) CreatorLabelKey = Some creator"
      "getPeeringInfo creator (PeeringCache spv) = Some pi" "r_DryRun req = Some dryRun"
      "spv' = spv\<lparr>PeeringCache := PeeringCache spv\<lparr>peeringInfos :=
        put creator (snd (updateDeletion sp dryRun pi)) (peeringInfos (PeeringCache spv))\<rparr>\<rparr>"
    using HandleDelete_state [OF r] by blast
  have e: "wf_entry (creator, pi)" using wf_cache_lookup [OF w] 2(4) by (simp add: getPeeringInfo_def)
  have "wf_entry (creator, snd (updateDeletion sp dryRun pi))"
  proof (cases dryRun)
    case True
    then show ?thesis using e by (simp add: updateDeletion_def split: sum.split)
  next
    case False
    have "running spd" if "getShadowPodDescription sp pi = Inr spd" for spd
      using f 2(2-5) False that by (simp add: first_deletion_def)
    with e updateDeletion_wf [of pi sp dryRun] show ?thesis
      by (simp add: wf_entry_def updateDeletion_userName)
  qed
  from wf_cache_put [OF w this] 2(6) show ?thesis by simp
qed

section \<open>Reachable validators\<close>

inductive sp_step :: "k8s_lib \<Rightarrow> (sp_error \<Rightarrow> string) \<Rightarrow> Validator \<Rightarrow> Validator \<Rightarrow> bool"
  for k8s msg where
  admission: "sp_step k8s msg spv spv'"
    if "Handle k8s msg v req spv c = Some (resp, spv', c')" and "wf_quotas (v_quotas v)"
      and "r_Operation req = OpDelete \<Longrightarrow> first_deletion req spv"
| refresh: "sp_step k8s msg spv (spv\<lparr>PeeringCache := pc\<rparr>)"
    if "refreshCache k8s quotas listSP (PeeringCache spv) c = Some (pc, c')" and "wf_quotas quotas"

inductive sp_reachable :: "k8s_lib \<Rightarrow> (sp_error \<Rightarrow> string) \<Rightarrow> bool \<Rightarrow> Validator \<Rightarrow> bool"
  for k8s msg enable where
  start: "sp_reachable k8s msg enable (NewValidator enable)"
| more: "sp_reachable k8s msg enable spv \<Longrightarrow> sp_step k8s msg spv spv' \<Longrightarrow> sp_reachable k8s msg enable spv'"

lemma Handle_wf:
  assumes "Max_ok k8s" and "wf_cache (PeeringCache spv)" and "wf_quotas (v_quotas v)"
    and "r_Operation req = OpDelete \<Longrightarrow> first_deletion req spv"
    and "Handle k8s msg v req spv c = Some (resp, spv', c')"
  shows "wf_cache (PeeringCache spv')"
  using assms HandleCreate_wf [OF assms(1-3)] HandleDelete_wf [OF assms(2)]
    HandleUpdate_state [of req spv c resp spv' c']
  unfolding Handle_def by (auto split: if_splits Operation.splits)

lemma sp_step_wf:
  assumes "Max_ok k8s" and "sp_step k8s msg spv spv'" and "wf_cache (PeeringCache spv)"
  shows "wf_cache (PeeringCache spv')"
  using assms(2)
proof cases
  case admission
  then show ?thesis using Handle_wf [OF assms(1,3)] by blast
next
  case refresh
  then show ?thesis using refreshCache_wf [OF assms(1,3)] by auto
qed

lemma sp_reachable_wf:
  assumes "Max_ok k8s" and "sp_reachable k8s msg enable spv"
  shows "wf_cache (PeeringCache spv)"
  using assms(2)
proof induction
  case start
  then show ?case by (simp add: NewValidator_def wf_cache_def)
next
  case (more spv spv')
  then show ?case using sp_step_wf [OF assms(1)] by blast
qed

end
