(* ===== verification/ShadowPodProps.thy ===== *)
theory ShadowPodProps
  imports ShadowPodReach
begin

text \<open>
  The properties of the shadow pod webhook, with the concrete instances at which their hypotheses
  are shown to hold. \<open>ex_k8s\<close> implements the two Kubernetes functions.
\<close>

section \<open>Instances\<close>

definition ex_Max :: "ResourceList \<Rightarrow> ResourceList \<Rightarrow> ResourceList" where
  "ex_Max a b = fold (\<lambda>(k, y) m. case map_of a k of
     Some x \<Rightarrow> put k (max x y) m | None \<Rightarrow> put k y m) b a"

definition ex_k8s :: k8s_lib where
  "ex_k8s = \<lparr>q_Value = (\<lambda>q. (q + 999999999) div 1000000000), quota_Max = ex_Max\<rparr>"

lemma ex_Value_ok: "Value_ok ex_k8s"
proof -
  have "q \<le> (q + 999999999) div 1000000000 * 1000000000 \<and>
      ((q + 999999999) div 1000000000 - 1) * 1000000000 < q" for q :: int
  proof -
    have "0 \<le> (q + 999999999) mod 1000000000" and "(q + 999999999) mod 1000000000 < 1000000000"
      by simp_all
    then show ?thesis using div_mult_mod_eq [of "q + 999999999" 1000000000]
      by (simp only: left_diff_distrib) linarith
  qed
  then show ?thesis by (simp add: Value_ok_def ex_k8s_def)
qed

lemma ex_Max_ok: "Max_ok ex_k8s"
proof -
  let ?f = "\<lambda>a (k, y) m. case map_of a k of Some x \<Rightarrow> put k (max x y) m | None \<Rightarrow> put k y m"
  have w: "wf_map (fold (?f a) b m)" if "wf_map m" for a b m :: ResourceList
    using that by (induction b arbitrary: m) (auto split: option.split)
  have l: "map_of (fold (?f a) b m) k =
      (case map_of b k of None \<Rightarrow> map_of m k
       | Some y \<Rightarrow> Some (case map_of a k of None \<Rightarrow> y | Some x \<Rightarrow> max x y))"
    if "wf_map b" for a b m :: ResourceList and k
    using that
  proof (induction b arbitrary: m)
    case (Cons ky b)
    obtain k' y where ky: "ky = (k', y)" by force
    show ?case using Cons ky
      by (auto simp: map_of_put has_key_iff split: option.split)
  qed simp
  show ?thesis unfolding Max_ok_def ex_k8s_def
    using w l by (auto simp: ex_Max_def split: option.split)
qed

definition ex_msg :: "sp_error \<Rightarrow> string" where
  "ex_msg e = ''quota''"

abbreviation cores :: "int \<Rightarrow> quantity" where
  "cores n \<equiv> n * 1000000000"

definition ex_container :: "int \<Rightarrow> Container" where
  "ex_container n = \<lparr>c_Name = ''main'', c_Image = ''nginx'',
     c_Requests = [(''cpu'', n), (''memory'', 0)], c_RequestsForm = Some [(''cpu'', ''n''), (''memory'', ''0'')],
     c_Limits = [], c_LimitsForm = None, c_rest = []\<rparr>"

definition ex_pod :: "string \<Rightarrow> int \<Rightarrow> ShadowPod" where
  "ex_pod name n = \<lparr>sp_Name = name, sp_Namespace = ''ns'', sp_UID = name,
     sp_Labels = [(CreatorLabelKey, ''alice''), (LiqoOriginClusterIDKey, ''rome'')],
     sp_Pod = \<lparr>Containers = Some [ex_container n], InitContainers = None,
       ActiveDeadlineSeconds = None, Tolerations = None, ps_rest = []\<rparr>\<rparr>"

definition ex_quota :: Quota where
  "ex_quota = \<lparr>q_User = ''alice'', q_LimitsEnforcement = SoftLimitsEnforcement,
     q_Resources = [(''cpu'', cores 4), (''memory'', 0)], q_Cordoned = None\<rparr>"

definition ex_view :: cluster_view where
  "ex_view = \<lparr>v_namespace = (\<lambda>_. Inr [(RemoteClusterID, ''rome'')]), v_quotas = Inr [ex_quota],
     v_shadowpod = (\<lambda>_. NotFound)\<rparr>"

definition ex_create :: Request where
  "ex_create = \<lparr>r_Operation = OpCreate, r_Object = Inr (ex_pod ''a'' (cores 2)), r_OldObject = Inl [],
     r_Username = ''alice'', r_DryRun = Some False\<rparr>"

definition ex_ready :: Validator where
  "ex_ready = \<lparr>PeeringCache = \<lparr>peeringInfos = [(''alice'', \<lparr>userName = ''alice'', shadowPods = [],
       totalQuota = [(''cpu'', cores 4), (''memory'', 0)],
       usedQuota = [(''cpu'', 0), (''memory'', 0)]\<rparr>)], ready = True\<rparr>,
     enableResourceValidation = True\<rparr>"

lemmas ex_defs = ex_k8s_def ex_msg_def ex_container_def ex_pod_def ex_quota_def ex_view_def
  ex_create_def ex_ready_def

lemma ex_ready_reachable: "sp_reachable ex_k8s ex_msg True ex_ready"
proof -
  have "refreshCache ex_k8s (Inr [ex_quota]) (\<lambda>_. Inr []) (PeeringCache (NewValidator True)) (sconst 0) =
      Some (PeeringCache ex_ready, sconst 0)"
    by (simp add: refreshCache_def initializeCache_def NewValidator_def ListShadowPodsByCreator_def
        ex_ready_def ex_quota_def createPeeringInfo_def generateQuotaPattern_def Let_def)
  then have "sp_step ex_k8s ex_msg (NewValidator True) (NewValidator True\<lparr>PeeringCache := PeeringCache ex_ready\<rparr>)"
    by (rule sp_step.refresh) (simp add: wf_quotas_def ex_quota_def has_key_Cons)
  moreover have "NewValidator True\<lparr>PeeringCache := PeeringCache ex_ready\<rparr> = ex_ready"
    by (simp add: NewValidator_def ex_ready_def)
  ultimately show ?thesis using sp_reachable.start sp_reachable.more by metis
qed

lemma ex_reaches:
  "reaches_accounting ex_view ex_create ex_ready (ex_pod ''a'' (cores 2)) ''alice'' ex_quota False"
  by (simp add: reaches_accounting_def ex_defs LiqoOriginClusterIDKey_def CreatorLabelKey_def
      RemoteClusterID_def GetQuotaByUser_def EscapeLabel_def label_char_def)

lemmas quota_eval = getQuotaFromShadowPod_def slice_def sum_request_def max_request_def
  SoftLimitsEnforcement_def NoLimitsEnforcement_def HardLimitsEnforcement_def

lemma ex_pod_quota:
  "enf \<noteq> HardLimitsEnforcement \<Longrightarrow>
    getQuotaFromShadowPod ex_k8s (ex_pod name n) enf = Inr [(''cpu'', n), (''memory'', 0)]"
  by (auto simp: quota_eval ex_defs ex_Max_def)

section \<open>Accounting\<close>

text \<open>C11: In every state a validator reaches from its start, through any sequence of admission
  requests and refreshes in which no pod is deleted a second time, the used quota of a user is the
  sum of the quotas of the user's running shadow pods.\<close>

theorem used_quota_is_running_sum:
  assumes "Max_ok k8s" and "sp_reachable k8s msg enable spv"
    and "getPeeringInfo user (PeeringCache spv) = Some pi"
  shows "get0 (usedQuota pi) k = running_sum pi k \<and> userName pi = user"
  using wf_cache_lookup [OF sp_reachable_wf [OF assms(1,2)]] assms(3)
  by (simp add: getPeeringInfo_def wf_entry_def wf_pi_def)

theorem used_quota_is_running_sum_witness:
  "\<exists>pi. getPeeringInfo ''alice'' (PeeringCache ex_ready) = Some pi \<and>
    get0 (usedQuota pi) ''cpu'' = running_sum pi ''cpu'' \<and> userName pi = ''alice''"
proof -
  obtain pi where pi: "getPeeringInfo ''alice'' (PeeringCache ex_ready) = Some pi"
    by (simp add: getPeeringInfo_def ex_ready_def)
  show ?thesis using used_quota_is_running_sum [OF ex_Max_ok ex_ready_reachable pi, of "''cpu''"] pi by simp
qed

lemma account_creation_exact:
  assumes mx: "Max_ok k8s" and w: "wf_cache (PeeringCache spv)" and q: "wf_map (q_Resources q)"
    and r: "account_creation k8s msg v spv sp creator q dryRun c = (resp, spv', c')"
  defines "pi0 \<equiv> fst (getOrCreatePeeringInfo creator (q_Resources q) (PeeringCache spv))"
  shows "\<exists>pi'. getPeeringInfo creator (PeeringCache spv') = Some pi' \<and>
    (if \<exists>n. accepts k8s (v_shadowpod v) sp (q_LimitsEnforcement q) pi0 n
     then resp = Allowed [] \<and> (\<forall>n. accepts k8s (v_shadowpod v) sp (q_LimitsEnforcement q) pi0 n \<longrightarrow>
       running_sum pi' = (\<lambda>k. running_sum pi0 k + (if dryRun then 0 else get0 n k)))
     else resp \<noteq> Allowed [] \<and> running_sum pi' = running_sum pi0)"
proof -
  let ?enf = "q_LimitsEnforcement q" and ?get = "v_shadowpod v"
  obtain pc where g: "getOrCreatePeeringInfo creator (q_Resources q) (PeeringCache spv) = (pi0, pc)"
    by (cases "getOrCreatePeeringInfo creator (q_Resources q) (PeeringCache spv)") (simp add: pi0_def)
  have e: "wf_pi pi0" "wf_map (totalQuota pi0)"
    using getOrCreatePeeringInfo_wf(1) [OF w q g] by (simp_all add: wf_entry_def)
  obtain err pi' c1 where t: "testAndUpdateCreation k8s ?get sp ?enf dryRun pi0 c = (err, pi', c1)"
    by (metis prod_cases3)
  have res: "resp = (case err of None \<Rightarrow> Allowed [] | Some e \<Rightarrow> Denied (msg e))"
    and look: "getPeeringInfo creator (PeeringCache spv') = Some pi'"
    using r by (auto simp: account_creation_def g t getPeeringInfo_def map_of_put)
  show ?thesis
  proof (cases "\<exists>n. accepts k8s ?get sp ?enf pi0 n")
    case True
    then obtain n where a: "accepts k8s ?get sp ?enf pi0 n" by blast
    then have n: "name_free ?get sp pi0" and wn: "wf_map n"
      using getQuotaFromShadowPod_wf [OF mx] by (auto simp: accepts_def)
    have uniq: "accepts k8s ?get sp ?enf pi0 n' \<Longrightarrow> n' = n" for n' using a by (simp add: accepts_def)
    have "err = None" and "pi' = (if dryRun then without sp pi0 else admitted sp n (shd c) pi0)"
      using testAndUpdateCreation_accept [OF e mx a, of dryRun c] t by simp_all
    then have "resp = Allowed []"
      and "running_sum pi' k = running_sum pi0 k + (if dryRun then 0 else get0 n k)" for k
      using res without_wf(2) [OF e(1) n] admitted_wf(2) [OF e(1) wn n] by simp_all
    then have "running_sum pi' = (\<lambda>k. running_sum pi0 k + (if dryRun then 0 else get0 n k))" by blast
    then show ?thesis using True look uniq \<open>resp = Allowed []\<close> by auto
  next
    case False
    obtain x c2 where "testAndUpdateCreation k8s ?get sp ?enf dryRun pi0 c =
        (Some x, if name_free ?get sp pi0 \<and> (\<exists>q. getQuotaFromShadowPod k8s sp ?enf = Inr q)
                 then without sp pi0 else pi0, c2)"
      by (rule testAndUpdateCreation_refuse [OF e mx False])
    then have "err = Some x" and "pi' = without sp pi0 \<and> name_free ?get sp pi0 \<or> pi' = pi0"
      using t by (auto split: if_splits)
    then have "resp \<noteq> Allowed []" and "running_sum pi' = running_sum pi0"
      using res without_wf(2) [OF e(1)] by auto
    then show ?thesis using False look by simp
  qed
qed

text \<open>C14: A creation request that reaches the accounting is allowed exactly when its requests can be
  computed, its name is free, and every requested resource fits next to what the user's running
  shadow pods use; it then adds exactly those requests (nothing for a dry run), and a refused one
  adds nothing. The quota binds whatever the enforcement of limits: also for
  \<open>NoLimitsEnforcement\<close>, which the API documents as a quota that is not enforced; the enforcement
  decides only whether the requests can be computed.\<close>

theorem shadowpod_admission_exact:
  assumes "Max_ok k8s" and "sp_reachable k8s msg enable spv" and "wf_quotas (v_quotas v)"
    and "reaches_accounting v req spv sp creator q dryRun"
    and "HandleCreate k8s msg v req spv c = Some (resp, spv', c')"
  defines "pi0 \<equiv> fst (getOrCreatePeeringInfo creator (q_Resources q) (PeeringCache spv))"
  shows "\<exists>pi'. getPeeringInfo creator (PeeringCache spv') = Some pi' \<and>
    (if \<exists>n. accepts k8s (v_shadowpod v) sp (q_LimitsEnforcement q) pi0 n
     then resp = Allowed [] \<and> (\<forall>n. accepts k8s (v_shadowpod v) sp (q_LimitsEnforcement q) pi0 n \<longrightarrow>
       running_sum pi' = (\<lambda>k. running_sum pi0 k + (if dryRun then 0 else get0 n k)))
     else resp \<noteq> Allowed [] \<and> running_sum pi' = running_sum pi0)"
proof -
  have "wf_map (q_Resources q)"
    using assms(3,4) GetQuotaByUser_mem [of "v_quotas v" creator q]
    by (auto simp: reaches_accounting_def wf_quotas_def)
  moreover have "account_creation k8s msg v spv sp creator q dryRun c = (resp, spv', c')"
    using HandleCreate_accounting [OF assms(4), of k8s msg c] assms(5) by simp
  ultimately show ?thesis unfolding pi0_def
    by (rule account_creation_exact [OF assms(1) sp_reachable_wf [OF assms(1,2)]])
qed

lemma ex_pi0:
  "fst (getOrCreatePeeringInfo ''alice'' (q_Resources ex_quota) (PeeringCache ex_ready)) =
    \<lparr>userName = ''alice'', shadowPods = [], totalQuota = [(''cpu'', cores 4), (''memory'', 0)],
     usedQuota = [(''cpu'', 0), (''memory'', 0)]\<rparr>"
  by (simp add: getOrCreatePeeringInfo_def alignQuotaUpdates_def updateQuotas_def ex_defs Let_def)

lemma ex_accepts:
  "accepts ex_k8s (v_shadowpod ex_view) (ex_pod ''a'' (cores 2)) (q_LimitsEnforcement ex_quota)
    (fst (getOrCreatePeeringInfo ''alice'' (q_Resources ex_quota) (PeeringCache ex_ready)))
    [(''cpu'', cores 2), (''memory'', 0)]"
proof -
  have "q_LimitsEnforcement ex_quota \<noteq> HardLimitsEnforcement"
    by (simp add: ex_quota_def SoftLimitsEnforcement_def HardLimitsEnforcement_def)
  from ex_pod_quota [OF this] show ?thesis unfolding accepts_def ex_pi0
    by (simp add: name_free_def fits_def running_sum_def sum_values_def has_key_Cons get0_Cons)
qed

theorem shadowpod_admission_exact_witness:
  "\<exists>resp spv' c' pi'. HandleCreate ex_k8s ex_msg ex_view ex_create ex_ready (sconst 0) = Some (resp, spv', c') \<and>
    resp = Allowed [] \<and> getPeeringInfo ''alice'' (PeeringCache spv') = Some pi' \<and>
    running_sum pi' ''cpu'' = cores 2"
proof -
  obtain resp spv' c' where h: "HandleCreate ex_k8s ex_msg ex_view ex_create ex_ready (sconst 0) = Some (resp, spv', c')"
    using HandleCreate_accounting [OF ex_reaches] by (metis prod_cases3)
  have "wf_quotas (v_quotas ex_view)" by (simp add: wf_quotas_def ex_view_def ex_quota_def has_key_Cons)
  from shadowpod_admission_exact [OF ex_Max_ok ex_ready_reachable this ex_reaches h] ex_accepts
  obtain pi' where "getPeeringInfo ''alice'' (PeeringCache spv') = Some pi'" "resp = Allowed []"
    and "running_sum pi' = (\<lambda>k. running_sum (fst (getOrCreatePeeringInfo ''alice'' (q_Resources ex_quota)
      (PeeringCache ex_ready))) k + get0 [(''cpu'', cores 2), (''memory'', 0)] k)"
    by (auto split: if_splits)
  moreover have "running_sum (fst (getOrCreatePeeringInfo ''alice'' (q_Resources ex_quota)
      (PeeringCache ex_ready))) ''cpu'' = 0"
    by (simp add: ex_pi0 running_sum_def sum_values_def)
  ultimately show ?thesis using h by (simp add: get0_Cons)
qed

section \<open>Alignment with the cluster\<close>

text \<open>C24: A refresh of a user's record for shadow pods that all have containers never panics.
  If every description it held is older than 30 seconds at every reading of the clock, its
  descriptions afterwards are exactly those of the shadow pods in the cluster, and the used quota is
  their sum.\<close>

theorem shadowpod_refresh_converges:
  assumes "Max_ok k8s" and "wf_pi pi" and "\<forall>sp \<in> set sps. Containers (sp_Pod sp) \<noteq> None"
    and "\<forall>e \<in> set (shadowPods pi). stale c (snd e)"
  shows "\<exists>pi' c'. alignTerminatingOrNotExistingShadowPods k8s sps pi c = Some (pi', c') \<and>
    fst ` set (shadowPods pi') = names sps \<and> (\<forall>k. get0 (usedQuota pi') k = running_sum pi' k)"
proof -
  obtain r where "alignExistingShadowPods k8s sps pi c = Some r"
    using alignExistingShadowPods_total assms(3) by blast
  then obtain pi' c' where a: "alignTerminatingOrNotExistingShadowPods k8s sps pi c = Some (pi', c')"
    by (cases r) (simp add: alignTerminatingOrNotExistingShadowPods_def prod_eq_iff)
  note c = alignTerminatingOrNotExisting_correct [OF assms(2,1) a]
  have "has_key key (shadowPods pi') \<longleftrightarrow> key \<in> names sps" for key
  proof (cases "key \<in> names sps")
    case False
    have "\<not> has_key key (shadowPods pi')" if held: "has_key key (shadowPods pi)"
    proof -
      obtain d where d: "map_of (shadowPods pi) key = Some d" using held unfolding has_key_iff by blast
      then have "stale c d" using assms(4) map_of_SomeD [OF d] by fastforce
      then show ?thesis using c d False by blast
    qed
    then show ?thesis using c False by blast
  qed (use c in blast)
  then have "fst ` set (shadowPods pi') = names sps" by (auto simp: has_key_def)
  moreover have "get0 (usedQuota pi') k = running_sum pi' k" for k using c by (simp add: wf_pi_def)
  ultimately show ?thesis using a by blast
qed

theorem shadowpod_refresh_converges_witness:
  "\<exists>pi' c'. alignTerminatingOrNotExistingShadowPods ex_k8s [ex_pod ''a'' (cores 2)]
      (admitted (ex_pod ''b'' (cores 1)) [(''cpu'', cores 1)] 0 (createPeeringInfo ''alice'' []))
      (sconst (cores 31)) = Some (pi', c') \<and> fst ` set (shadowPods pi') = {''ns/a''}"
proof -
  let ?pi = "admitted (ex_pod ''b'' (cores 1)) [(''cpu'', cores 1)] 0 (createPeeringInfo ''alice'' [])"
  have "wf_pi ?pi"
    by (rule admitted_wf(1) [OF createPeeringInfo_wf, where getSP = "\<lambda>_. NotFound"])
      (simp_all add: name_free_def has_key_def)
  moreover have "\<forall>e \<in> set (shadowPods ?pi). stale (sconst (cores 31)) (snd e)"
    by (simp add: admitted_def without_def stale_def)
  ultimately show ?thesis
    using shadowpod_refresh_converges [OF ex_Max_ok, of ?pi "[ex_pod ''a'' (cores 2)]" "sconst (cores 31)"]
    by (auto simp: ex_pod_def sp_nsname_def nn_String_def)
qed

text \<open>C35: A deletion request for a pod whose description already ended takes the pod's quota away a
  second time: the used quota is then below what the user's running pods hold, by that quota.\<close>

theorem repeated_deletion_undercounts:
  assumes "wf_pi pi" and "getShadowPodDescription sp pi = Inr spd" and "running spd"
    and "has_key k (quota spd)"
  defines "pi2 \<equiv> snd (updateDeletion sp False (snd (updateDeletion sp False pi)))"
  shows "get0 (usedQuota pi2) k = running_sum pi2 k - get0 (quota spd) k"
proof -
  note h = getShadowPodDescription_held [OF assms(1,2)]
  let ?pi1 = "terminateShadowPod spd pi" and ?d = "terminate spd"
  have w1: "wf_pi ?pi1" by (rule terminateShadowPod_wf [OF assms(1,3) h(1)])
  have d1: "snd (updateDeletion sp False pi) = ?pi1" by (simp add: updateDeletion_def assms(2))
  have "uid spd = sp_UID sp"
    using assms(2) by (auto simp: getShadowPodDescription_def split: option.splits if_splits)
  then have g: "getShadowPodDescription sp ?pi1 = Inr ?d"
    by (simp add: getShadowPodDescription_def map_of_put h(2) [symmetric] terminate_def)
  then have pi2: "pi2 = terminateShadowPod ?d ?pi1"
    unfolding pi2_def d1 by (simp add: updateDeletion_def g)
  have m1: "wf_map (shadowPods ?pi1)" using w1 by (simp add: wf_pi_def)
  have m: "map_of (shadowPods ?pi1) (nm ?d) = Some ?d" by (simp add: map_of_put)
  have q: "quota (terminate spd) = quota spd" for spd by (simp add: terminate_def)
  have "has_key k (usedQuota pi)"
    using assms(1,3,4) map_of_SomeD [OF h(1)] unfolding wf_pi_def by fastforce
  then have k: "has_key k (usedQuota ?pi1)"
    by (simp add: terminateShadowPod_def subUsedResources_def terminate_def)
  have "running_sum pi2 k = running_sum ?pi1 k"
  proof -
    have "running_sum pi2 = running_sum (?pi1\<lparr>shadowPods := put (nm ?d) (terminate ?d) (shadowPods ?pi1)\<rparr>)"
      unfolding pi2 by (rule running_sum_cong) simp
    then show ?thesis using running_sum_put [OF m1, of "nm ?d" "terminate ?d" k] m
      by (simp del: terminateShadowPod_sel)
  qed
  moreover have "get0 (usedQuota pi2) k = get0 (usedQuota ?pi1) k - get0 (quota spd) k"
    using k wf_pi_lookup(2) [OF assms(1) h(1)]
    by (simp add: pi2 terminateShadowPod_def [of ?d] subUsedResources_def get0_sub_used q)
  moreover have "get0 (usedQuota ?pi1) k = running_sum ?pi1 k" using w1 by (simp add: wf_pi_def)
  ultimately show ?thesis by simp
qed

theorem repeated_deletion_undercounts_witness:
  "\<exists>pi sp. wf_pi pi \<and> running_sum (snd (updateDeletion sp False (snd (updateDeletion sp False pi)))) ''cpu'' = 0 \<and>
    get0 (usedQuota (snd (updateDeletion sp False (snd (updateDeletion sp False pi))))) ''cpu'' = - cores 2"
proof -
  let ?sp = "ex_pod ''a'' (cores 2)" and ?q = "[(''cpu'', cores 2)]"
  let ?pi = "admitted ?sp ?q 0 (createPeeringInfo ''alice'' [])"
  let ?pi2 = "snd (updateDeletion ?sp False (snd (updateDeletion ?sp False ?pi)))"
  have w: "wf_pi ?pi"
    by (rule admitted_wf(1) [OF createPeeringInfo_wf, where getSP = "\<lambda>_. NotFound"])
      (simp_all add: name_free_def has_key_def)
  have d: "getShadowPodDescription ?sp ?pi = Inr (new_description ?sp ?q 0)"
    by (simp add: getShadowPodDescription_def admitted_lookup)
  have "running_sum ?pi2 ''cpu'' = 0"
    by (simp add: updateDeletion_def getShadowPodDescription_def admitted_lookup terminateShadowPod_def
        subUsedResources_def map_of_put terminate_def new_description_def admitted_def without_def
        addShadowPod_def addUsedResources_def createPeeringInfo_def running_sum_def sum_values_def Let_def)
  moreover have "get0 (usedQuota ?pi2) ''cpu'' = running_sum ?pi2 ''cpu'' - cores 2"
    using repeated_deletion_undercounts [OF w d, of "''cpu''"] by (simp add: has_key_Cons get0_Cons)
  ultimately show ?thesis using w by (intro exI [of _ ?pi] exI [of _ ?sp]) simp
qed

section \<open>Requests of init containers\<close>

lemma one_unit:
  assumes "0 < x" "x \<le> 1000000000" "x \<le> cores v" "cores (v - 1) < x"
  shows "v = 1"
proof -
  have "0 < v" using assms(1,3) by linarith
  moreover have "v < 2" using assms(2,4) by (simp only: left_diff_distrib)
  ultimately show ?thesis by linarith
qed

text \<open>When two init containers request less than one unit of a resource, the first one counts, even
  if the second one requests more: the quota of the pod is below what it needs to start.\<close>

theorem init_container_undercounted:
  assumes "Max_ok k8s" and "Value_ok k8s" and "Containers (sp_Pod sp) = Some []"
    and "slice (InitContainers (sp_Pod sp)) = [c1, c2]"
    and "c_Requests c1 = [(k, x)]" and "c_Requests c2 = [(k, y)]"
    and "0 < x" and "x < y" and "y \<le> 1000000000"
  shows "\<exists>q. getQuotaFromShadowPod k8s sp NoLimitsEnforcement = Inr q \<and> get0 q k = x"
proof -
  obtain q where q: "getQuotaFromShadowPod k8s sp NoLimitsEnforcement = Inr q"
    using getQuotaFromShadowPod_none [OF assms(3)] by blast
  have "x \<le> q_Value k8s x * 1000000000" "(q_Value k8s x - 1) * 1000000000 < x"
    "y \<le> q_Value k8s y * 1000000000" "(q_Value k8s y - 1) * 1000000000 < y"
    using assms(2,7,8) unfolding Value_ok_def by simp_all
  then have "q_Value k8s x = 1" "q_Value k8s y = 1" using assms(7-9) by (auto intro!: one_unit)
  then have "fold (\<lambda>(k, v). max_request k8s k v) (requests [c1, c2]) [] = [(k, x)]"
    by (simp add: requests_def assms(5,6) max_request_def)
  moreover have "wf_map (quota_Max k8s [] [(k, x)])" "map_of (quota_Max k8s [] [(k, x)]) k = Some x"
    using assms(1) unfolding Max_ok_def by simp_all
  ultimately have "get0 q k = x"
    using getQuotaFromShadowPod_result [OF q] assms(3,4) by (simp add: slice_def [of "Some []"] get0_def)
  with q show ?thesis by blast
qed

definition ex_init :: ShadowPod where
  "ex_init = (ex_pod ''i'' 0)\<lparr>sp_Pod := \<lparr>Containers = Some [], InitContainers =
     Some [(ex_container 0)\<lparr>c_Requests := [(''cpu'', 100000000)]\<rparr>,
           (ex_container 0)\<lparr>c_Requests := [(''cpu'', 900000000)]\<rparr>],
     ActiveDeadlineSeconds = None, Tolerations = None, ps_rest = []\<rparr>\<rparr>"

theorem init_container_undercounted_witness:
  "\<exists>q. getQuotaFromShadowPod ex_k8s ex_init NoLimitsEnforcement = Inr q \<and> get0 q ''cpu'' = 100000000"
  by (rule init_container_undercounted [OF ex_Max_ok ex_Value_ok,
        where ?c1.0 = "(ex_container 0)\<lparr>c_Requests := [(''cpu'', 100000000)]\<rparr>"
          and ?c2.0 = "(ex_container 0)\<lparr>c_Requests := [(''cpu'', 900000000)]\<rparr>" and y = 900000000])
    (simp_all add: ex_init_def slice_def)

section \<open>Updates\<close>

text \<open>The part of a pod that an update must leave alone.\<close>

definition freeze_container :: "Container \<Rightarrow> Container" where
  "freeze_container c = c\<lparr>c_Image := []\<rparr>"

definition freeze :: "PodSpec \<Rightarrow> PodSpec" where
  "freeze p = p\<lparr>Containers := map_option (map freeze_container) (Containers p),
     InitContainers := map_option (map freeze_container) (InitContainers p),
     ActiveDeadlineSeconds := None, Tolerations := None\<rparr>"

lemma copy_images_None: "copy_images ps us = None \<longleftrightarrow> length ps < length us"
  by (induction ps us rule: copy_images.induct) auto

lemma copy_images_freeze:
  "copy_images ps us = Some us' \<Longrightarrow> list_all2 deep_equal_container ps us' \<longleftrightarrow>
    list_all2 deep_equal_container (map freeze_container ps) (map freeze_container us)"
  by (induction ps us arbitrary: us' rule: copy_images.induct)
    (auto simp: deep_equal_container_def freeze_container_def list_all2_Cons2)

lemma copy_images_slice_None:
  "copy_images_slice p u = None \<longleftrightarrow> length (slice p) < length (slice u)"
  by (auto simp: copy_images_slice_def slice_def copy_images_None split: option.split)

lemma copy_images_slice_freeze:
  "copy_images_slice p u = Some u' \<Longrightarrow> deep_equal_slice p u' \<longleftrightarrow>
    deep_equal_slice (map_option (map freeze_container) p) (map_option (map freeze_container) u)"
  using copy_images_freeze [of "slice p"]
  by (cases p; cases u) (auto simp: copy_images_slice_def deep_equal_slice_def slice_def
      elim: copy_images.elims)

text \<open>C30: The check of an update panics exactly when the previous pod has more containers, or more
  init containers, than the new one; otherwise it answers whether the two agree apart from the
  images, the deadline and the tolerations, for any order of the requests and limits, in the sense of
  \<open>reflect.DeepEqual\<close>: the representation of quantities counts. An update may thus replace or remove
  tolerations, although the comment of the function promises that it can only add some.\<close>

theorem shadowpod_update_exact:
  "CheckShadowPodUpdate new old =
    (if length (slice (Containers new)) < length (slice (Containers old)) \<or>
        length (slice (InitContainers new)) < length (slice (InitContainers old))
     then None else Some (deep_equal (freeze new) (freeze old)))"
proof (cases "copy_images_slice (Containers new) (Containers old)")
  case None
  then show ?thesis using copy_images_slice_None [of "Containers new" "Containers old"]
    by (simp add: CheckShadowPodUpdate_def)
next
  case cs: (Some cs)
  show ?thesis
  proof (cases "copy_images_slice (InitContainers new) (InitContainers old)")
    case None
    then show ?thesis using cs copy_images_slice_None [of "InitContainers new" "InitContainers old"]
      by (simp add: CheckShadowPodUpdate_def)
  next
    case (Some ics)
    have "\<not> length (slice (Containers new)) < length (slice (Containers old))"
      "\<not> length (slice (InitContainers new)) < length (slice (InitContainers old))"
      using cs Some by (simp_all flip: copy_images_slice_None)
    then show ?thesis
      using cs Some copy_images_slice_freeze [OF cs] copy_images_slice_freeze [OF Some]
      by (simp add: CheckShadowPodUpdate_def deep_equal_def freeze_def)
  qed
qed

section \<open>Users whose name is not a label value\<close>

lemma refresh_ready_users:
  assumes "ready pc" and "\<And>key. \<exists>sps. listSP key = Inr sps"
    and "refreshCache k8s (Inr qs) listSP pc c = Some (pc', c')"
  shows "fst ` set (peeringInfos pc') \<subseteq> q_User ` set qs"
proof -
  obtain ps c1 err where
    a: "checkAlignmentQuotaPeeringInfo k8s (Inr qs) listSP (pc\<lparr>peeringInfos := ps\<rparr>) c1 = Some (err, pc', c')"
    using assms(1,3) by (auto simp: refreshCache_def split: option.splits)
  have noerr: "err = None" if "align_quotas_loop k8s listSP qs pc c = Some (err, pc', c')" for qs pc c err pc' c'
    using that
  proof (induction qs arbitrary: pc c)
    case (Cons q qs)
    obtain sps where "ListShadowPodsByCreator listSP (q_User q) = Inr sps"
      using assms(2) by (auto simp: ListShadowPodsByCreator_def)
    then show ?case using Cons by (auto simp: Let_def split: option.splits)
  qed simp
  show ?thesis using a
    by (auto simp: checkAlignmentQuotaPeeringInfo_def dest!: noerr split: option.splits)
qed

text \<open>The cache files a user under the raw name of the quota, the webhook under the escaped name.
  When escaping changes the name of a user and no quota has the escaped name, every refresh drops the record
  the webhook accounts in, although the quota exists: the next creation starts from an empty
  record.\<close>

theorem escaped_user_forgotten:
  assumes "ready pc" and "\<And>key. \<exists>sps. listSP key = Inr sps"
    and "refreshCache k8s (Inr qs) listSP pc c = Some (pc', c')"
    and "q \<in> set qs" and "EscapeLabel (q_User q) \<notin> q_User ` set qs"
  shows "\<exists>q'. GetQuotaByUser (Inr qs) (EscapeLabel (q_User q)) = Inr q' \<and>
    getPeeringInfo (EscapeLabel (q_User q)) pc' = None \<and>
    running_sum (fst (getOrCreatePeeringInfo (EscapeLabel (q_User q)) (q_Resources q') pc')) = (\<lambda>k. 0)"
proof -
  let ?u = "EscapeLabel (q_User q)"
  obtain q' where q': "find (\<lambda>q. EscapeLabel (q_User q) = ?u) qs = Some q'"
    using assms(4) by (metis (mono_tags, lifting) find_None_iff not_None_eq)
  have none: "map_of (peeringInfos pc') ?u = None"
    using refresh_ready_users [OF assms(1-3)] assms(5) by (auto simp: map_of_eq_None_iff)
  then have "running_sum (fst (getOrCreatePeeringInfo ?u (q_Resources q') pc')) = (\<lambda>k. 0)"
    by (simp add: getOrCreatePeeringInfo_def running_sum_def sum_values_def Let_def fun_eq_iff)
  with none q' show ?thesis by (simp add: GetQuotaByUser_def getPeeringInfo_def)
qed

theorem escaped_user_forgotten_witness:
  "\<exists>pc' c'. refreshCache ex_k8s (Inr [ex_quota\<lparr>q_User := ''bob@lab''\<rparr>]) (\<lambda>_. Inr [])
      \<lparr>peeringInfos = [(''bob-lab'', admitted (ex_pod ''a'' (cores 2)) [(''cpu'', cores 2)] 0
         (createPeeringInfo ''bob-lab'' []))], ready = True\<rparr> (sconst 0) = Some (pc', c') \<and>
    getPeeringInfo ''bob-lab'' pc' = None"
proof -
  let ?pc = "\<lparr>peeringInfos = [(''bob-lab'', admitted (ex_pod ''a'' (cores 2)) [(''cpu'', cores 2)] 0
         (createPeeringInfo ''bob-lab'' []))], ready = True\<rparr>"
  have esc: "EscapeLabel ''bob@lab'' = ''bob-lab''" by (simp add: EscapeLabel_def label_char_def)
  obtain pc' c' where r: "refreshCache ex_k8s (Inr [ex_quota\<lparr>q_User := ''bob@lab''\<rparr>]) (\<lambda>_. Inr []) ?pc (sconst 0) =
      Some (pc', c')"
    by (simp add: refreshCache_def ListShadowPodsByCreator_def Let_def prod_eq_iff
        alignTerminatingOrNotExistingShadowPods_def checkAlignmentQuotaPeeringInfo_def split: prod.split)
  have "getPeeringInfo ''bob-lab'' pc' = None"
    using escaped_user_forgotten [OF _ _ r, of "ex_quota\<lparr>q_User := ''bob@lab''\<rparr>"]
    by (auto simp: esc)
  with r show ?thesis by blast
qed

section \<open>The creator label\<close>

lemma EscapeLabel_chars: "\<forall>ch \<in> set (EscapeLabel s). label_char ch"
  by (auto simp: EscapeLabel_def label_char_def)

lemma EscapeLabel_idem: "EscapeLabel (EscapeLabel s) = EscapeLabel s"
  by (simp add: EscapeLabel_def label_char_def)

text \<open>With resource validation on, an object the mutating webhook patches carries the escaped
  name of the requesting user as its creator label, in label characters only; an update is patched
  only when the old object names the same creator.\<close>

theorem creator_label_enforced:
  assumes "Mutator_Handle True req = Patched sp'"
  shows "map_of (sp_Labels sp') CreatorLabelKey = Some (EscapeLabel (r_Username req)) \<and>
    set (EscapeLabel (r_Username req)) \<subseteq> Collect label_char \<and> EscapeLabel (r_Username req) \<noteq> [] \<and>
    (\<forall>old. r_Operation req = OpUpdate \<longrightarrow> r_OldObject req = Inr old \<longrightarrow>
       map_of (sp_Labels old) CreatorLabelKey = Some (EscapeLabel (r_Username req)))"
  using assms EscapeLabel_chars [of "r_Username req"]
  by (auto simp: Mutator_Handle_def Mutator_HandleCreate_def Mutator_HandleUpdate_def
      Mutator_HandleDelete_def extractCreatorInfo_def set_label_def map_of_put Let_def
      split: Operation.splits sum.splits option.splits if_splits)

theorem creator_label_enforced_witness:
  "\<exists>sp'. Mutator_Handle True ex_create = Patched sp' \<and>
    map_of (sp_Labels sp') CreatorLabelKey = Some (EscapeLabel ''alice'')"
proof -
  obtain sp' where "Mutator_Handle True ex_create = Patched sp'"
    by (simp add: Mutator_Handle_def Mutator_HandleCreate_def ex_create_def extractCreatorInfo_def
        EscapeLabel_def)
  with creator_label_enforced [OF this] show ?thesis by (simp add: ex_create_def)
qed

end
