(* ===== verification/FirewallApi.thy ===== *)
theory FirewallApi
  imports GoNet GoMap
begin

text \<open>
  The types of a firewall configuration (\<open>apis/networking/v1beta1/firewall\<close>). An enumeration that Go
  writes as a string type has one constructor per constant and one for any other text. A pointer or
  a slice that may be nil is an option where the code looks at that.
\<close>

datatype TableFamily = TableFamilyINet | TableFamilyIPv4 | TableFamilyIPv6 | TableFamilyARP
  | TableFamilyNetdev | TableFamilyBridge | TableFamilyOther string

datatype ChainType = ChainTypeFilter | ChainTypeRoute | ChainTypeNAT | ChainTypeOther string

datatype ChainPolicy = ChainPolicyDrop | ChainPolicyAccept | ChainPolicyOther string

datatype ChainHook = ChainHookPrerouting | ChainHookInput | ChainHookForward | ChainHookOutput
  | ChainHookPostrouting | ChainHookIngress | ChainHookOther string

type_synonym ChainPriority = "32 word"

datatype MatchOperation = MatchOperationEq | MatchOperationNeq | MatchOperationOther string

datatype MatchPosition = MatchPositionSrc | MatchPositionDst | MatchPositionOther string

datatype MatchDevPosition = MatchDevPositionIn | MatchDevPositionOut | MatchDevPositionOther string

datatype L4Proto = L4ProtoTCP | L4ProtoUDP | L4ProtoOther string

record MatchIP =
  ip_Value :: string
  ip_Position :: MatchPosition

record MatchPort =
  port_Value :: string
  port_Position :: MatchPosition

record MatchDev =
  dev_Value :: string
  dev_Position :: MatchDevPosition
  dev_Wildcard :: bool

record MatchProto =
  proto_Value :: L4Proto

record Match =
  m_Op :: MatchOperation
  m_IP :: "MatchIP option"
  m_Port :: "MatchPort option"
  m_Proto :: "MatchProto option"
  m_Dev :: "MatchDev option"

datatype FilterAction = ActionCtMark | ActionSetMetaMarkFromCtMark | ActionTCPMssClamp
  | ActionAccept | ActionDrop | ActionReject | ActionNotrack | ActionSetMetaMark
  | ActionOther string

record FilterRule =
  fr_Name :: "string option"
  fr_Counter :: bool
  fr_Match :: "Match list"
  fr_Action :: FilterAction
  fr_Value :: "string option"

datatype NatType = NatTypeDestination | NatTypeSource | NatTypeMasquerade | NatTypeOther string

record NatRule =
  nr_Name :: "string option"
  nr_Match :: "Match list"
  nr_NatType :: NatType
  nr_To :: "string option"

record RouteRule =
  rr_Name :: "string option"

record RulesSet =
  NatRules :: "NatRule list option"
  FilterRules :: "FilterRule list option"
  RouteRules :: "RouteRule list option"

record Chain =
  ch_Name :: "string option"
  ch_Rules :: RulesSet
  ch_Type :: ChainType
  ch_Policy :: "ChainPolicy option"
  ch_Hook :: "ChainHook option"
  ch_Priority :: "ChainPriority option"

record Table =
  t_Name :: "string option"
  t_Chains :: "Chain list"
  t_Family :: "TableFamily option"

record FirewallConfiguration =
  fc_UID :: string
  fc_Labels :: "(string, string) gomap"
  fc_Table :: Table

definition elems :: "'a list option \<Rightarrow> 'a list" where
  "elems s = (case s of None \<Rightarrow> [] | Some xs \<Rightarrow> xs)"

datatype IPValueType = IPValueTypeIP | IPValueTypeSubnet | IPValueTypeVoid | IPValueTypeRange

datatype PortValueType = PortValueTypePort | PortValueTypeRange | PortValueTypeVoid

end
