(* ===== verification/FirewallForge.thy ===== *)
theory FirewallForge
  imports FirewallApi
begin

text \<open>
  From the rules of a configuration to nftables expressions (\<open>pkg/firewall/utils\<close>): values of
  matches (\<open>common.go\<close>), matches (\<open>match.go\<close>), filter rules (\<open>filterule.go\<close>) and NAT rules
  (\<open>natrule.go\<close>). The expressions of the nftables library are data. A function that appends to
  \<open>rule.Exprs\<close> returns the expressions it appends.
\<close>

section \<open>Expressions\<close>

datatype CmpOp = CmpOpEq | CmpOpNeq | CmpOpLte | CmpOpGte

datatype PayloadBase = PayloadBaseNetworkHeader | PayloadBaseTransportHeader

datatype MetaKey = MetaKeyMARK | MetaKeyL4PROTO | MetaKeyIIFNAME | MetaKeyOIFNAME

datatype VerdictKind = VerdictAccept | VerdictDrop

datatype NATType = NATTypeSourceNAT | NATTypeDestNAT

datatype NftFamily = FamilyUnspecified | FamilyINet | FamilyIPv4 | FamilyIPv6 | FamilyARP
  | FamilyNetdev | FamilyBridge

text \<open>
  The fields in the order of the library's structures: registers are numbers, \<open>Meta\<close> and \<open>Ct\<close> carry
  their \<open>SourceRegister\<close> flag.
\<close>

datatype nft_expr =
    Payload nat PayloadBase nat nat
  | Bitwise nat nat nat bytes bytes
  | Cmp CmpOp nat bytes
  | Range CmpOp nat bytes bytes
  | Meta MetaKey bool nat
  | CtMark bool nat
  | Immediate nat bytes
  | RtTCPMSS nat
  | ByteorderHton nat nat nat nat
  | ExthdrTcpopt nat nat nat nat
  | Verdict VerdictKind
  | Reject
  | Notrack
  | Counter nat nat
  | NAT NATType nat nat bool NftFamily
  | Masq

datatype rule_error =
    InvalidIPValue string
  | InvalidIP string
  | InvalidIPRange
  | InvalidPortValue string
  | InvalidMatchOp
  | InvalidPosition
  | InvalidProto
  | InvalidValueType
  | ValueRequired
  | ValueNotInt string
  | ValueOutOfRange int
  | InvalidNatType

type_synonym 'a rule_res = "(rule_error, 'a) res"

section \<open>Values of matches\<close>

definition GetIPValueRange :: "string \<Rightarrow> (128 word \<times> 128 word) option" where
  "GetIPValueRange s =
     (case splitOn (CHR ''-'') s of
        [p1, p2] \<Rightarrow>
          (case ParseIP (TrimSpace p1) of
             None \<Rightarrow> None
           | Some startIP \<Rightarrow>
               (case ParseIP (TrimSpace p2) of
                  None \<Rightarrow> None
                | Some endIP \<Rightarrow> Some (startIP, endIP)))
      | _ \<Rightarrow> None)"

definition GetIPValueTypeRange :: "string \<Rightarrow> IPValueType option" where
  "GetIPValueTypeRange s = (case GetIPValueRange s of None \<Rightarrow> None | Some _ \<Rightarrow> Some IPValueTypeRange)"

definition GetIPValueType :: "string option \<Rightarrow> IPValueType rule_res" where
  "GetIPValueType value =
     (case value of
        None \<Rightarrow> Ok IPValueTypeVoid
      | Some v \<Rightarrow>
          if v = [] then Ok IPValueTypeVoid
          else if ParseCIDR v \<noteq> None then Ok IPValueTypeSubnet
          else if ParseIP v \<noteq> None then Ok IPValueTypeIP
          else if GetIPValueTypeRange v \<noteq> None then Ok IPValueTypeRange
          else Err (InvalidIPValue v))"

definition ParsePortRange :: "string \<Rightarrow> (16 word \<times> 16 word) option" where
  "ParsePortRange value =
     (case splitOn (CHR ''-'') value of
        [p1, p2] \<Rightarrow>
          (case ParseUint p1 16 of
             None \<Rightarrow> None
           | Some s \<Rightarrow>
               (case ParseUint p2 16 of
                  None \<Rightarrow> None
                | Some e \<Rightarrow> Some (word_of_nat s, word_of_nat e)))
      | _ \<Rightarrow> None)"

definition GetPortValueType :: "string option \<Rightarrow> PortValueType rule_res" where
  "GetPortValueType value =
     (case value of
        None \<Rightarrow> Ok PortValueTypeVoid
      | Some v \<Rightarrow>
          if ParsePortRange v \<noteq> None then Ok PortValueTypeRange
          else if Atoi v \<noteq> None then Ok PortValueTypePort
          else Err (InvalidPortValue v))"

section \<open>Matches\<close>

definition getMatchCmpOp :: "Match \<Rightarrow> CmpOp rule_res" where
  "getMatchCmpOp m =
     (case m_Op m of
        MatchOperationEq \<Rightarrow> Ok CmpOpEq
      | MatchOperationNeq \<Rightarrow> Ok CmpOpNeq
      | MatchOperationOther _ \<Rightarrow> Err InvalidMatchOp)"

text \<open>
  The error branches of the following functions format \<open>m.Dev.Position\<close>, which panics when the match
  has no device.
\<close>

definition position_error :: "Match \<Rightarrow> 'a rule_res" where
  "position_error m = res_bind (deref (m_Dev m)) (\<lambda>_. Err InvalidPosition)"

definition getMatchIPPositionOffset :: "Match \<Rightarrow> MatchIP \<Rightarrow> nat rule_res" where
  "getMatchIPPositionOffset m mIP =
     (case ip_Position mIP of
        MatchPositionSrc \<Rightarrow> Ok 12
      | MatchPositionDst \<Rightarrow> Ok 16
      | MatchPositionOther _ \<Rightarrow> position_error m)"

definition getMatchPortPositionOffset :: "Match \<Rightarrow> MatchPort \<Rightarrow> nat rule_res" where
  "getMatchPortPositionOffset m mPort =
     (case port_Position mPort of
        MatchPositionSrc \<Rightarrow> Ok 0
      | MatchPositionDst \<Rightarrow> Ok 2
      | MatchPositionOther _ \<Rightarrow> position_error m)"

definition getMatchProtoValue :: "Match \<Rightarrow> MatchProto \<Rightarrow> 8 word rule_res" where
  "getMatchProtoValue m mProto =
     (case proto_Value mProto of
        L4ProtoTCP \<Rightarrow> Ok 6
      | L4ProtoUDP \<Rightarrow> Ok 17
      | L4ProtoOther _ \<Rightarrow> position_error m)"

definition getMatchDevMetaKey :: "MatchDev \<Rightarrow> MetaKey rule_res" where
  "getMatchDevMetaKey mDev =
     (case dev_Position mDev of
        MatchDevPositionIn \<Rightarrow> Ok MetaKeyIIFNAME
      | MatchDevPositionOut \<Rightarrow> Ok MetaKeyOIFNAME
      | MatchDevPositionOther _ \<Rightarrow> Err InvalidPosition)"

definition str_bytes :: "string \<Rightarrow> bytes" where
  "str_bytes s = map of_char s"

definition ifname :: "string \<Rightarrow> bytes" where
  "ifname n = take 16 (str_bytes n @ [0] @ replicate 16 0)"

text \<open>The bytes of an address that may be nil: a nil slice is empty.\<close>

definition to4_bytes :: "128 word \<Rightarrow> bytes" where
  "to4_bytes ip = (case To4 ip of None \<Rightarrow> [] | Some w \<Rightarrow> be_bytes 4 w)"

definition applyMatchIPSingleIP :: "Match \<Rightarrow> MatchIP \<Rightarrow> CmpOp \<Rightarrow> nft_expr list rule_res" where
  "applyMatchIPSingleIP m mIP op =
     res_bind (getMatchIPPositionOffset m mIP) (\<lambda>posOffset.
       Ok [Payload 1 PayloadBaseNetworkHeader posOffset 4,
           Cmp op 1 (case ParseIP (ip_Value mIP) of None \<Rightarrow> [] | Some ip \<Rightarrow> to4_bytes ip)])"

definition applyMatchIPPoolSubnet :: "Match \<Rightarrow> MatchIP \<Rightarrow> CmpOp \<Rightarrow> nft_expr list rule_res" where
  "applyMatchIPPoolSubnet m mIP op =
     res_bind (getMatchIPPositionOffset m mIP) (\<lambda>posOffset.
       case ParseCIDR (ip_Value mIP) of
         None \<Rightarrow> Err (InvalidIP (ip_Value mIP))
       | Some (ip, subnet) \<Rightarrow>
           Ok [Payload 1 PayloadBaseNetworkHeader posOffset 4,
               Bitwise 1 1 4 (net_Mask subnet) [0, 0, 0, 0],
               Cmp op 1 (to4_bytes ip)])"

definition applyMatchIPRange :: "Match \<Rightarrow> MatchIP \<Rightarrow> CmpOp \<Rightarrow> nft_expr list rule_res" where
  "applyMatchIPRange m mIP op =
     res_bind (getMatchIPPositionOffset m mIP) (\<lambda>posOffset.
       case GetIPValueRange (ip_Value mIP) of
         None \<Rightarrow> Err (InvalidIP (ip_Value mIP))
       | Some (startIP, endIP) \<Rightarrow>
           (case (To4 startIP, To4 endIP) of
              (Some s, Some e) \<Rightarrow>
                Ok [Payload 1 PayloadBaseNetworkHeader posOffset 4,
                    Range op 1 (be_bytes 4 s) (be_bytes 4 e)]
            | _ \<Rightarrow> Err InvalidIPRange))"

definition applyMatchIP :: "Match \<Rightarrow> MatchIP \<Rightarrow> CmpOp \<Rightarrow> nft_expr list rule_res" where
  "applyMatchIP m mIP op =
     res_bind (GetIPValueType (Some (ip_Value mIP))) (\<lambda>vt.
       case vt of
         IPValueTypeIP \<Rightarrow> applyMatchIPSingleIP m mIP op
       | IPValueTypeSubnet \<Rightarrow> applyMatchIPPoolSubnet m mIP op
       | IPValueTypeRange \<Rightarrow> applyMatchIPRange m mIP op
       | IPValueTypeVoid \<Rightarrow> Err InvalidValueType)"

definition applyMatchPortSinglePort :: "Match \<Rightarrow> MatchPort \<Rightarrow> CmpOp \<Rightarrow> nft_expr list rule_res" where
  "applyMatchPortSinglePort m mPort op =
     res_bind (getMatchPortPositionOffset m mPort) (\<lambda>posOffset.
       case Atoi (port_Value mPort) of
         None \<Rightarrow> Err (ValueNotInt (port_Value mPort))
       | Some p \<Rightarrow>
           Ok [Payload 1 PayloadBaseTransportHeader posOffset 2,
               Cmp op 1 (be_bytes 2 (word_of_int p :: 16 word))])"

definition applyMatchPortRange :: "Match \<Rightarrow> MatchPort \<Rightarrow> nft_expr list rule_res" where
  "applyMatchPortRange m mPort =
     res_bind (getMatchPortPositionOffset m mPort) (\<lambda>posOffset.
       case ParsePortRange (port_Value mPort) of
         None \<Rightarrow> Err (InvalidPortValue (port_Value mPort))
       | Some (startport, endport) \<Rightarrow>
           Ok [Payload 1 PayloadBaseTransportHeader posOffset 2,
               Cmp CmpOpGte 1 (be_bytes 2 startport),
               Cmp CmpOpLte 1 (be_bytes 2 endport)])"

definition applyMatchPort :: "Match \<Rightarrow> MatchPort \<Rightarrow> CmpOp \<Rightarrow> nft_expr list rule_res" where
  "applyMatchPort m mPort op =
     res_bind (GetPortValueType (Some (port_Value mPort))) (\<lambda>vt.
       case vt of
         PortValueTypePort \<Rightarrow> applyMatchPortSinglePort m mPort op
       | PortValueTypeRange \<Rightarrow> applyMatchPortRange m mPort
       | PortValueTypeVoid \<Rightarrow> Err InvalidValueType)"

definition applyMatchProto :: "Match \<Rightarrow> MatchProto \<Rightarrow> nft_expr list rule_res" where
  "applyMatchProto m mProto =
     (case getMatchProtoValue m mProto of
        Panic \<Rightarrow> Panic
      | Err _ \<Rightarrow> Err InvalidProto
      | Ok p \<Rightarrow> Ok [Meta MetaKeyL4PROTO False 1, Cmp CmpOpEq 1 [p]])"

definition applyMatchDev :: "MatchDev \<Rightarrow> CmpOp \<Rightarrow> nft_expr list rule_res" where
  "applyMatchDev mDev op =
     res_bind (getMatchDevMetaKey mDev) (\<lambda>metakey.
       Ok [Meta metakey False 1,
           Cmp op 1 (if dev_Wildcard mDev then str_bytes (dev_Value mDev) else ifname (dev_Value mDev))])"

text \<open>An optional part of a match appends nothing when it is absent.\<close>

definition opt_apply :: "'m option \<Rightarrow> ('m \<Rightarrow> nft_expr list rule_res) \<Rightarrow> nft_expr list rule_res" where
  "opt_apply p f = (case p of None \<Rightarrow> Ok [] | Some x \<Rightarrow> f x)"

definition applyMatch :: "Match \<Rightarrow> nft_expr list rule_res" where
  "applyMatch m =
     res_bind (getMatchCmpOp m) (\<lambda>op.
     res_bind (opt_apply (m_Proto m) (applyMatchProto m)) (\<lambda>e1.
     res_bind (opt_apply (m_Dev m) (\<lambda>d. applyMatchDev d op)) (\<lambda>e2.
     res_bind (opt_apply (m_IP m) (\<lambda>i. applyMatchIP m i op)) (\<lambda>e3.
     res_bind (opt_apply (m_Port m) (\<lambda>p. applyMatchPort m p op)) (\<lambda>e4.
       Ok (e1 @ e2 @ e3 @ e4))))))"

fun applyMatches :: "Match list \<Rightarrow> nft_expr list rule_res" where
  "applyMatches [] = Ok []"
| "applyMatches (m # ms) =
     res_bind (applyMatch m) (\<lambda>es. res_bind (applyMatches ms) (\<lambda>es'. Ok (es @ es')))"

section \<open>Filter rules\<close>

text \<open>\<open>NativeEndian.PutUint32\<close> on the little-endian machines the code is built for.\<close>

definition native_uint32 :: "32 word \<Rightarrow> bytes" where
  "native_uint32 w = rev (be_bytes 4 w)"

definition mark_value :: "string option \<Rightarrow> 32 word rule_res" where
  "mark_value value =
     (case value of
        None \<Rightarrow> Err ValueRequired
      | Some v \<Rightarrow>
          (case Atoi v of
             None \<Rightarrow> Err (ValueNotInt v)
           | Some n \<Rightarrow> if n < 0 \<or> n > 2 ^ 32 - 1 then Err (ValueOutOfRange n) else Ok (word_of_int n)))"

definition applyCtMarkAction :: "string option \<Rightarrow> nft_expr list rule_res" where
  "applyCtMarkAction value =
     res_bind (mark_value value) (\<lambda>w. Ok [Immediate 1 (native_uint32 w), CtMark True 1])"

definition applySetMetaMarkFromCtMarkAction :: "nft_expr list" where
  "applySetMetaMarkFromCtMarkAction = [CtMark False 1, Meta MetaKeyMARK True 1]"

definition applyTCPMssClampAction :: "string option \<Rightarrow> nft_expr list rule_res" where
  "applyTCPMssClampAction value =
     res_bind (case value of
                 None \<Rightarrow> Ok 0
               | Some v \<Rightarrow> (case Atoi v of None \<Rightarrow> Err (ValueNotInt v) | Some n \<Rightarrow> Ok n)) (\<lambda>sz.
       Ok ([Payload 1 PayloadBaseTransportHeader 13 1, Bitwise 1 1 1 [0x02] [0x00],
            Cmp CmpOpNeq 1 [0x00]] @
           (if sz = 0 then [RtTCPMSS 1, ByteorderHton 1 1 2 2]
            else [Immediate 1 [word_of_int (sz div 256), word_of_int sz]]) @
           [ExthdrTcpopt 1 2 2 2]))"

definition applyAcceptAction :: "nft_expr list" where
  "applyAcceptAction = [Verdict VerdictAccept]"

definition applyDropAction :: "nft_expr list" where
  "applyDropAction = [Verdict VerdictDrop]"

definition applyRejectAction :: "nft_expr list" where
  "applyRejectAction = [Reject]"

definition applyNotrackAction :: "nft_expr list" where
  "applyNotrackAction = [Notrack]"

definition applySetMetaMarkAction :: "string option \<Rightarrow> nft_expr list rule_res" where
  "applySetMetaMarkAction value =
     res_bind (mark_value value) (\<lambda>w. Ok [Immediate 1 (native_uint32 w), Meta MetaKeyMARK True 1])"

definition applyCounter :: "nft_expr list" where
  "applyCounter = [Counter 1 1]"

definition applyFilterAction :: "FilterRule \<Rightarrow> nft_expr list rule_res" where
  "applyFilterAction fr =
     (case fr_Action fr of
        ActionCtMark \<Rightarrow> applyCtMarkAction (fr_Value fr)
      | ActionSetMetaMarkFromCtMark \<Rightarrow> Ok applySetMetaMarkFromCtMarkAction
      | ActionTCPMssClamp \<Rightarrow> applyTCPMssClampAction (fr_Value fr)
      | ActionAccept \<Rightarrow> Ok applyAcceptAction
      | ActionDrop \<Rightarrow> Ok applyDropAction
      | ActionReject \<Rightarrow> Ok applyRejectAction
      | ActionNotrack \<Rightarrow> Ok applyNotrackAction
      | ActionSetMetaMark \<Rightarrow> applySetMetaMarkAction (fr_Value fr)
      | ActionOther _ \<Rightarrow> Ok [])"

text \<open>The name of a rule is the comment in its user data.\<close>

record forged =
  f_Comment :: string
  f_Exprs :: "nft_expr list"

definition forgeFilterRule :: "FilterRule \<Rightarrow> forged rule_res" where
  "forgeFilterRule fr =
     res_bind (deref (fr_Name fr)) (\<lambda>name.
     res_bind (applyMatches (fr_Match fr)) (\<lambda>ms.
     res_bind (applyFilterAction fr) (\<lambda>acts.
       Ok \<lparr>f_Comment = name, f_Exprs = ms @ (if fr_Counter fr then applyCounter else []) @ acts\<rparr>)))"

section \<open>NAT rules\<close>

definition getNatRuleType :: "NatRule \<Rightarrow> NATType rule_res" where
  "getNatRuleType nr =
     (case nr_NatType nr of
        NatTypeDestination \<Rightarrow> Ok NATTypeDestNAT
      | NatTypeSource \<Rightarrow> Ok NATTypeSourceNAT
      | NatTypeMasquerade \<Rightarrow> Ok NATTypeSourceNAT
      | NatTypeOther _ \<Rightarrow> Err InvalidNatType)"

definition applyNatIP :: "NftFamily \<Rightarrow> string option \<Rightarrow> NATType \<Rightarrow> nft_expr list rule_res" where
  "applyNatIP fam ip natType =
     (case ip of
        None \<Rightarrow> Err ValueRequired
      | Some s \<Rightarrow>
          (case ParseIP s of
             None \<Rightarrow> Err (InvalidIP s)
           | Some a \<Rightarrow> Ok [Immediate 1 (to4_bytes a), NAT natType 1 1 False fam]))"

definition applyNatVoid :: "nft_expr list rule_res" where
  "applyNatVoid = Ok [Masq]"

definition applyNatSubnet :: "NftFamily \<Rightarrow> string option \<Rightarrow> NATType \<Rightarrow> nft_expr list rule_res" where
  "applyNatSubnet fam ip natType =
     (case ip of
        None \<Rightarrow> Err ValueRequired
      | Some s \<Rightarrow>
          (case ParseCIDR s of
             None \<Rightarrow> Err (InvalidIP s)
           | Some (_, subnet) \<Rightarrow>
               (let msk = be_uint32 (net_Mask subnet);
                    start = be_uint32 (net_IP subnet);
                    lastIP = be_bytes 4 ((start AND msk) OR (msk XOR 0xFFFFFFFF))
                in Ok [Immediate 1 (net_IP subnet), Immediate 2 lastIP, NAT natType 1 2 True fam])))"

definition applyNatRule :: "NftFamily \<Rightarrow> NatRule \<Rightarrow> nft_expr list rule_res" where
  "applyNatRule fam nr =
     res_bind (GetIPValueType (nr_To nr)) (\<lambda>ipType.
     res_bind (getNatRuleType nr) (\<lambda>natType.
       case ipType of
         IPValueTypeIP \<Rightarrow> applyNatIP fam (nr_To nr) natType
       | IPValueTypeSubnet \<Rightarrow> applyNatSubnet fam (nr_To nr) natType
       | IPValueTypeVoid \<Rightarrow> applyNatVoid
       | IPValueTypeRange \<Rightarrow> Ok []))"

definition forgeNatRule :: "NftFamily \<Rightarrow> NatRule \<Rightarrow> forged rule_res" where
  "forgeNatRule fam nr =
     res_bind (deref (nr_Name nr)) (\<lambda>name.
     res_bind (applyMatches (nr_Match nr)) (\<lambda>ms.
     res_bind (applyNatRule fam nr) (\<lambda>nat.
       Ok \<lparr>f_Comment = name, f_Exprs = ms @ nat\<rparr>)))"

section \<open>Comparing rules\<close>

definition unstable :: "nft_expr \<Rightarrow> bool" where
  "unstable e \<longleftrightarrow> (case e of Counter _ _ \<Rightarrow> True | RtTCPMSS _ \<Rightarrow> True | ByteorderHton _ _ _ _ \<Rightarrow> True | _ \<Rightarrow> False)"

definition filterUnstableExprs :: "nft_expr list \<Rightarrow> nft_expr list" where
  "filterUnstableExprs es = filter (\<lambda>e. \<not> unstable e) es"

text \<open>
  \<open>expr.Marshal\<close> belongs to the nftables library and is an argument: \<open>None\<close> is its error. The inner
  loop stops at the first expression of the new rule that has the same bytes.
\<close>

fun find_equal :: "(nft_expr \<Rightarrow> bytes option) \<Rightarrow> bytes \<Rightarrow> nft_expr list \<Rightarrow> bool" where
  "find_equal marshal bs [] = False"
| "find_equal marshal bs (e # es) =
     (case marshal e of None \<Rightarrow> False | Some bs' \<Rightarrow> if bs = bs' then True else find_equal marshal bs es)"

fun find_all_equal :: "(nft_expr \<Rightarrow> bytes option) \<Rightarrow> nft_expr list \<Rightarrow> nft_expr list \<Rightarrow> bool" where
  "find_all_equal marshal [] new = True"
| "find_all_equal marshal (e # es) new =
     (case marshal e of
        None \<Rightarrow> False
      | Some bs \<Rightarrow> if find_equal marshal bs new then find_all_equal marshal es new else False)"

definition compareRuleExpressions :: "(nft_expr \<Rightarrow> bytes option) \<Rightarrow> nft_expr list \<Rightarrow> nft_expr list \<Rightarrow> bool" where
  "compareRuleExpressions marshal current new =
     (let currentExprs = filterUnstableExprs current; newExprs = filterUnstableExprs new in
      if length currentExprs \<noteq> length newExprs then False
      else find_all_equal marshal currentExprs newExprs)"

end
