(* ===== verification/FirewallNft.thy ===== *)
theory FirewallNft
  imports FirewallForge
begin

text \<open>
  The firewall controller (\<open>pkg/firewall\<close>): chains (\<open>chain.go\<close>), rules (\<open>rule.go\<close>), tables
  (\<open>table.go\<close>) and the reconciliation (\<open>firewallconfiguration_controller.go\<close>). The connection of the
  nftables library queues the changes until \<open>Flush\<close>; what the kernel answers to the queries and does
  at a flush is the argument \<open>lib\<close>, over kernel states of any type.
\<close>

section \<open>The connection\<close>

text \<open>The constants of the library; the last constructor stands for every other number or text.\<close>

datatype NftHook = HookPrerouting | HookInput | HookForward | HookOutput | HookPostrouting
  | HookIngress | HookOther nat

datatype NftChainType = TypeFilter | TypeRoute | TypeNAT | TypeOther string

datatype NftPolicy = PolicyDrop | PolicyAccept | PolicyOther nat

record nft_table =
  nt_Name :: string
  nt_Family :: NftFamily

record nft_chain =
  nc_Table :: nft_table
  nc_Name :: string
  nc_Hooknum :: "NftHook option"
  nc_Priority :: "ChainPriority option"
  nc_Type :: NftChainType
  nc_Policy :: "NftPolicy option"

text \<open>A rule as read from the kernel: its handle, the comment in its user data, its expressions.\<close>

record nft_rule =
  r_Handle :: nat
  r_Comment :: "string option"
  r_Exprs :: "nft_expr list"

datatype command =
    AddTable nft_table
  | DelTable nft_table
  | AddChain nft_chain
  | DelChain nft_chain
  | AddRule nft_chain forged
  | DelRule nft_chain nft_rule

record 'k nft_lib =
  lib_ListChains :: "'k \<Rightarrow> NftFamily \<Rightarrow> string + nft_chain list"
  lib_GetRules :: "'k \<Rightarrow> nft_chain \<Rightarrow> string + nft_rule list"
  lib_Flush :: "'k \<Rightarrow> command list \<Rightarrow> string + 'k"
  lib_Marshal :: "nft_expr \<Rightarrow> bytes option"

record 'k Conn =
  c_Kernel :: 'k
  c_Queue :: "command list"

datatype fw_error = ConnError string | RuleError rule_error

text \<open>
  A method that uses the connection panics, returns an error, or returns a value; what it has queued
  before an error stays queued.
\<close>

datatype ('k, 'a) fw_res = FwPanic | FwErr fw_error "'k Conn" | FwOk 'a "'k Conn"

fun fw_bind :: "('k, 'a) fw_res \<Rightarrow> ('a \<Rightarrow> 'k Conn \<Rightarrow> ('k, 'b) fw_res) \<Rightarrow> ('k, 'b) fw_res" where
  "fw_bind FwPanic f = FwPanic"
| "fw_bind (FwErr e conn) f = FwErr e conn"
| "fw_bind (FwOk x conn) f = f x conn"

fun lift :: "(fw_error, 'a) res \<Rightarrow> 'k Conn \<Rightarrow> ('k, 'a) fw_res" where
  "lift Panic conn = FwPanic"
| "lift (Err e) conn = FwErr e conn"
| "lift (Ok x) conn = FwOk x conn"

definition queue :: "command \<Rightarrow> 'k Conn \<Rightarrow> 'k Conn" where
  "queue cmd conn = conn\<lparr>c_Queue := c_Queue conn @ [cmd]\<rparr>"

text \<open>\<open>Flush\<close> sends the queue and forgets it, also when the kernel refuses it.\<close>

definition Flush :: "'k nft_lib \<Rightarrow> 'k Conn \<Rightarrow> ('k, unit) fw_res" where
  "Flush lib conn =
     (case lib_Flush lib (c_Kernel conn) (c_Queue conn) of
        Inl e \<Rightarrow> FwErr (ConnError e) (conn\<lparr>c_Queue := []\<rparr>)
      | Inr k \<Rightarrow> FwOk () (conn\<lparr>c_Kernel := k, c_Queue := []\<rparr>))"

section \<open>Chains\<close>

definition setChainName :: "string \<Rightarrow> nft_chain \<Rightarrow> nft_chain" where
  "setChainName name c = c\<lparr>nc_Name := name\<rparr>"

definition setHooknum :: "ChainHook \<Rightarrow> nft_chain \<Rightarrow> nft_chain" where
  "setHooknum h c =
     (case h of
        ChainHookPrerouting \<Rightarrow> c\<lparr>nc_Hooknum := Some HookPrerouting\<rparr>
      | ChainHookInput \<Rightarrow> c\<lparr>nc_Hooknum := Some HookInput\<rparr>
      | ChainHookForward \<Rightarrow> c\<lparr>nc_Hooknum := Some HookForward\<rparr>
      | ChainHookOutput \<Rightarrow> c\<lparr>nc_Hooknum := Some HookOutput\<rparr>
      | ChainHookPostrouting \<Rightarrow> c\<lparr>nc_Hooknum := Some HookPostrouting\<rparr>
      | ChainHookIngress \<Rightarrow> c\<lparr>nc_Hooknum := Some HookIngress\<rparr>
      | ChainHookOther _ \<Rightarrow> c)"

definition getHooknum :: "NftHook \<Rightarrow> ChainHook" where
  "getHooknum h =
     (case h of
        HookPrerouting \<Rightarrow> ChainHookPrerouting
      | HookInput \<Rightarrow> ChainHookInput
      | HookForward \<Rightarrow> ChainHookForward
      | HookOutput \<Rightarrow> ChainHookOutput
      | HookPostrouting \<Rightarrow> ChainHookPostrouting
      | HookIngress \<Rightarrow> ChainHookIngress
      | HookOther _ \<Rightarrow> ChainHookOther [])"

definition setPriority :: "ChainPriority \<Rightarrow> nft_chain \<Rightarrow> nft_chain" where
  "setPriority p c = c\<lparr>nc_Priority := Some p\<rparr>"

definition setType :: "ChainType \<Rightarrow> nft_chain \<Rightarrow> nft_chain" where
  "setType t c =
     (case t of
        ChainTypeFilter \<Rightarrow> c\<lparr>nc_Type := TypeFilter\<rparr>
      | ChainTypeRoute \<Rightarrow> c\<lparr>nc_Type := TypeRoute\<rparr>
      | ChainTypeNAT \<Rightarrow> c\<lparr>nc_Type := TypeNAT\<rparr>
      | ChainTypeOther _ \<Rightarrow> c)"

definition getType :: "NftChainType \<Rightarrow> ChainType" where
  "getType t =
     (case t of
        TypeFilter \<Rightarrow> ChainTypeFilter
      | TypeRoute \<Rightarrow> ChainTypeRoute
      | TypeNAT \<Rightarrow> ChainTypeNAT
      | TypeOther _ \<Rightarrow> ChainTypeOther [])"

definition setPolicy :: "ChainPolicy \<Rightarrow> nft_chain \<Rightarrow> nft_chain" where
  "setPolicy p c =
     (case p of
        ChainPolicyDrop \<Rightarrow> c\<lparr>nc_Policy := Some PolicyDrop\<rparr>
      | ChainPolicyAccept \<Rightarrow> c\<lparr>nc_Policy := Some PolicyAccept\<rparr>
      | ChainPolicyOther _ \<Rightarrow> c)"

definition getPolicy :: "NftPolicy \<Rightarrow> ChainPolicy" where
  "getPolicy p =
     (case p of
        PolicyDrop \<Rightarrow> ChainPolicyDrop
      | PolicyAccept \<Rightarrow> ChainPolicyAccept
      | PolicyOther _ \<Rightarrow> ChainPolicyOther [])"

text \<open>\<open>isChainModified\<close> dereferences the hook, priority and policy of the chain in the kernel.\<close>

definition ptr_differs :: "'a option \<Rightarrow> 'b option \<Rightarrow> ('b \<Rightarrow> 'a) \<Rightarrow> (fw_error, bool) res" where
  "ptr_differs want have f =
     (case want of
        None \<Rightarrow> Ok False
      | Some w \<Rightarrow> res_bind (deref have) (\<lambda>h. Ok (w \<noteq> f h)))"

definition isChainModified :: "nft_chain \<Rightarrow> Chain \<Rightarrow> (fw_error, bool) res" where
  "isChainModified nftChain chain =
     (if ch_Type chain \<noteq> ChainTypeOther [] \<and> ch_Type chain \<noteq> getType (nc_Type nftChain) then Ok True
      else res_bind (ptr_differs (ch_Hook chain) (nc_Hooknum nftChain) getHooknum) (\<lambda>b1.
        if b1 then Ok True
        else res_bind (ptr_differs (ch_Priority chain) (nc_Priority nftChain) id) (\<lambda>b2.
          if b2 then Ok True
          else ptr_differs (ch_Policy chain) (nc_Policy nftChain) getPolicy)))"

text \<open>The chain of the configuration with the same name comes with its index.\<close>

fun isChainOutdated :: "nft_chain \<Rightarrow> Chain list \<Rightarrow> (fw_error, bool \<times> Chain option) res" where
  "isChainOutdated nftChain [] = Ok (True, None)"
| "isChainOutdated nftChain (ch # chs) =
     (if ch_Name ch \<noteq> Some (nc_Name nftChain) then isChainOutdated nftChain chs
      else res_bind (isChainModified nftChain ch) (\<lambda>modified. Ok (modified, Some ch)))"

section \<open>Rules\<close>

text \<open>The wrappers behind the interface \<open>Rule\<close>.\<close>

datatype Rule = FilterRuleWrapper FilterRule | NatRuleWrapper NatRule | RouteRuleWrapper RouteRule

fun GetName :: "Rule \<Rightarrow> string option" where
  "GetName (FilterRuleWrapper r) = fr_Name r"
| "GetName (NatRuleWrapper r) = nr_Name r"
| "GetName (RouteRuleWrapper r) = rr_Name r"

fun SetName :: "string \<Rightarrow> Rule \<Rightarrow> Rule" where
  "SetName n (FilterRuleWrapper r) = FilterRuleWrapper (r\<lparr>fr_Name := Some n\<rparr>)"
| "SetName n (NatRuleWrapper r) = NatRuleWrapper (r\<lparr>nr_Name := Some n\<rparr>)"
| "SetName n (RouteRuleWrapper r) = RouteRuleWrapper (r\<lparr>rr_Name := Some n\<rparr>)"

fun forge :: "NftFamily \<Rightarrow> Rule \<Rightarrow> forged option rule_res" where
  "forge fam (FilterRuleWrapper r) = res_bind (forgeFilterRule r) (\<lambda>f. Ok (Some f))"
| "forge fam (NatRuleWrapper r) = res_bind (forgeNatRule fam r) (\<lambda>f. Ok (Some f))"
| "forge fam (RouteRuleWrapper r) = Ok None"

definition Rule_Add :: "nft_chain \<Rightarrow> Rule \<Rightarrow> 'k Conn \<Rightarrow> ('k, unit) fw_res" where
  "Rule_Add nftchain rule conn =
     (case forge (nt_Family (nc_Table nftchain)) rule of
        Panic \<Rightarrow> FwPanic
      | Err e \<Rightarrow> FwErr (RuleError e) conn
      | Ok None \<Rightarrow> FwOk () conn
      | Ok (Some f) \<Rightarrow> FwOk () (queue (AddRule nftchain f) conn))"

definition Rule_Equal :: "(nft_expr \<Rightarrow> bytes option) \<Rightarrow> NftFamily \<Rightarrow> Rule \<Rightarrow> nft_rule \<Rightarrow> (fw_error, bool) res" where
  "Rule_Equal marshal fam rule currentrule =
     (case forge fam rule of
        Panic \<Rightarrow> Panic
      | Err _ \<Rightarrow> Ok False
      | Ok None \<Rightarrow> Ok True
      | Ok (Some f) \<Rightarrow> Ok (compareRuleExpressions marshal (r_Exprs currentrule) (f_Exprs f)))"

definition FromChainToRulesArray :: "Chain \<Rightarrow> Rule list" where
  "FromChainToRulesArray chain =
     (case ch_Type chain of
        ChainTypeFilter \<Rightarrow> map FilterRuleWrapper (elems (FilterRules (ch_Rules chain)))
      | ChainTypeNAT \<Rightarrow> map NatRuleWrapper (elems (NatRules (ch_Rules chain)))
      | ChainTypeRoute \<Rightarrow> map RouteRuleWrapper (elems (RouteRules (ch_Rules chain)))
      | ChainTypeOther _ \<Rightarrow> [])"

definition isNotrackRule :: "Rule \<Rightarrow> bool" where
  "isNotrackRule rule =
     (case rule of FilterRuleWrapper r \<Rightarrow> fr_Action r = ActionNotrack | _ \<Rightarrow> False)"

fun existRule :: "nft_rule list \<Rightarrow> Rule \<Rightarrow> bool" where
  "existRule [] rule = False"
| "existRule (r # rs) rule =
     (case r_Comment r of
        None \<Rightarrow> existRule rs rule
      | Some name \<Rightarrow> if GetName rule = Some name then True else existRule rs rule)"

fun isRuleOutdated :: "(nft_expr \<Rightarrow> bytes option) \<Rightarrow> NftFamily \<Rightarrow> nft_rule \<Rightarrow> Rule list \<Rightarrow>
    (fw_error, bool) res" where
  "isRuleOutdated marshal fam nftrule [] = Ok True"
| "isRuleOutdated marshal fam nftrule (rule # rules) =
     (case r_Comment nftrule of
        None \<Rightarrow> Ok True
      | Some name \<Rightarrow>
          if GetName rule \<noteq> Some name then isRuleOutdated marshal fam nftrule rules
          else res_bind (Rule_Equal marshal fam rule nftrule) (\<lambda>eq. Ok (\<not> eq)))"

fun add_rules_loop :: "nft_rule list \<Rightarrow> nft_chain \<Rightarrow> Rule list \<Rightarrow> bool \<Rightarrow> 'k Conn \<Rightarrow> ('k, bool) fw_res" where
  "add_rules_loop nftrules nftchain [] notrack conn = FwOk notrack conn"
| "add_rules_loop nftrules nftchain (rule # rules) notrack conn =
     (if existRule nftrules rule then add_rules_loop nftrules nftchain rules notrack conn
      else fw_bind (Rule_Add nftchain rule conn) (\<lambda>_ conn'.
        add_rules_loop nftrules nftchain rules (notrack \<or> isNotrackRule rule) conn'))"

definition addRules :: "'k nft_lib \<Rightarrow> Chain \<Rightarrow> nft_chain \<Rightarrow> 'k Conn \<Rightarrow> ('k, bool) fw_res" where
  "addRules lib chain nftchain conn =
     (case lib_GetRules lib (c_Kernel conn) nftchain of
        Inl e \<Rightarrow> FwErr (ConnError e) conn
      | Inr nftrules \<Rightarrow> add_rules_loop nftrules nftchain (FromChainToRulesArray chain) False conn)"

fun clean_rules_loop :: "'k nft_lib \<Rightarrow> nft_chain \<Rightarrow> Rule list \<Rightarrow> nft_rule list \<Rightarrow> 'k Conn \<Rightarrow>
    ('k, unit) fw_res" where
  "clean_rules_loop lib nftChain rules [] conn = FwOk () conn"
| "clean_rules_loop lib nftChain rules (r # rs) conn =
     fw_bind (lift (isRuleOutdated (lib_Marshal lib) (nt_Family (nc_Table nftChain)) r rules) conn)
       (\<lambda>outdated conn'. clean_rules_loop lib nftChain rules rs
          (if outdated then queue (DelRule nftChain r) conn' else conn'))"

definition cleanChain :: "'k nft_lib \<Rightarrow> Chain \<Rightarrow> nft_chain \<Rightarrow> 'k Conn \<Rightarrow> ('k, unit) fw_res" where
  "cleanChain lib chain nftChain conn =
     (case lib_GetRules lib (c_Kernel conn) nftChain of
        Inl e \<Rightarrow> FwErr (ConnError e) conn
      | Inr nftRules \<Rightarrow> clean_rules_loop lib nftChain (FromChainToRulesArray chain) nftRules conn)"

section \<open>Tables\<close>

definition getTableFamily :: "TableFamily \<Rightarrow> NftFamily" where
  "getTableFamily family =
     (case family of
        TableFamilyIPv4 \<Rightarrow> FamilyIPv4
      | TableFamilyIPv6 \<Rightarrow> FamilyIPv6
      | TableFamilyINet \<Rightarrow> FamilyINet
      | TableFamilyARP \<Rightarrow> FamilyARP
      | TableFamilyBridge \<Rightarrow> FamilyBridge
      | TableFamilyNetdev \<Rightarrow> FamilyNetdev
      | TableFamilyOther _ \<Rightarrow> FamilyUnspecified)"

definition setTableName :: "string \<Rightarrow> nft_table \<Rightarrow> nft_table" where
  "setTableName name t = t\<lparr>nt_Name := name\<rparr>"

definition setTableFamily :: "TableFamily \<Rightarrow> nft_table \<Rightarrow> nft_table" where
  "setTableFamily family t =
     (case family of
        TableFamilyIPv4 \<Rightarrow> t\<lparr>nt_Family := FamilyIPv4\<rparr>
      | TableFamilyIPv6 \<Rightarrow> t\<lparr>nt_Family := FamilyIPv6\<rparr>
      | TableFamilyINet \<Rightarrow> t\<lparr>nt_Family := FamilyINet\<rparr>
      | TableFamilyARP \<Rightarrow> t\<lparr>nt_Family := FamilyARP\<rparr>
      | TableFamilyBridge \<Rightarrow> t\<lparr>nt_Family := FamilyBridge\<rparr>
      | TableFamilyNetdev \<Rightarrow> t\<lparr>nt_Family := FamilyNetdev\<rparr>
      | TableFamilyOther _ \<Rightarrow> t)"

definition empty_table :: nft_table where
  "empty_table = \<lparr>nt_Name = [], nt_Family = FamilyUnspecified\<rparr>"

definition addTable :: "Table \<Rightarrow> 'k Conn \<Rightarrow> ('k, nft_table) fw_res" where
  "addTable table conn =
     (case (t_Name table, t_Family table) of
        (Some name, Some family) \<Rightarrow>
          (let nftTable = setTableFamily family (setTableName name empty_table)
           in FwOk nftTable (queue (AddTable nftTable) conn))
      | _ \<Rightarrow> FwPanic)"

definition delTable :: "Table \<Rightarrow> 'k Conn \<Rightarrow> ('k, unit) fw_res" where
  "delTable table conn =
     (case t_Name table of
        None \<Rightarrow> FwPanic
      | Some name \<Rightarrow> FwOk () (queue (DelTable (setTableName name empty_table)) conn))"

fun clean_chains_loop :: "'k nft_lib \<Rightarrow> Table \<Rightarrow> nft_chain list \<Rightarrow> 'k Conn \<Rightarrow> ('k, unit) fw_res" where
  "clean_chains_loop lib table [] conn = FwOk () conn"
| "clean_chains_loop lib table (nc # ncs) conn =
     (case t_Name table of
        None \<Rightarrow> FwPanic
      | Some name \<Rightarrow>
          if nt_Name (nc_Table nc) \<noteq> name then clean_chains_loop lib table ncs conn
          else fw_bind (lift (isChainOutdated nc (t_Chains table)) conn) (\<lambda>(outdated, ch) conn'.
            if outdated then clean_chains_loop lib table ncs (queue (DelChain nc) conn')
            else (case ch of
                    None \<Rightarrow> FwPanic
                  | Some chain \<Rightarrow>
                      fw_bind (cleanChain lib chain nc conn') (\<lambda>_ conn''.
                        clean_chains_loop lib table ncs conn''))))"

definition cleanTable :: "'k nft_lib \<Rightarrow> Table \<Rightarrow> 'k Conn \<Rightarrow> ('k, unit) fw_res" where
  "cleanTable lib table conn =
     (case t_Family table of
        None \<Rightarrow> FwPanic
      | Some family \<Rightarrow>
          (case lib_ListChains lib (c_Kernel conn) (getTableFamily family) of
             Inl e \<Rightarrow> FwErr (ConnError e) conn
           | Inr nftChains \<Rightarrow> clean_chains_loop lib table nftChains conn))"

section \<open>Adding chains\<close>

fun get_chain_loop :: "nft_table \<Rightarrow> Chain \<Rightarrow> nft_chain list \<Rightarrow> (fw_error, nft_chain option) res" where
  "get_chain_loop table chain [] = Ok None"
| "get_chain_loop table chain (nc # ncs) =
     (if nt_Name (nc_Table nc) \<noteq> nt_Name table then get_chain_loop table chain ncs
      else res_bind (deref (ch_Name chain)) (\<lambda>name.
        if nc_Name nc = name then Ok (Some nc) else get_chain_loop table chain ncs))"

definition getChain :: "'k nft_lib \<Rightarrow> nft_table \<Rightarrow> Chain \<Rightarrow> 'k Conn \<Rightarrow> (fw_error, nft_chain option) res" where
  "getChain lib table chain conn =
     (case lib_ListChains lib (c_Kernel conn) (nt_Family table) of
        Inl e \<Rightarrow> Err (ConnError e)
      | Inr chainlist \<Rightarrow> get_chain_loop table chain chainlist)"

definition opt_set :: "('a \<Rightarrow> nft_chain \<Rightarrow> nft_chain) \<Rightarrow> 'a option \<Rightarrow> nft_chain \<Rightarrow> nft_chain" where
  "opt_set f p c = (case p of None \<Rightarrow> c | Some x \<Rightarrow> f x c)"

definition new_chain :: "nft_table \<Rightarrow> Chain \<Rightarrow> ChainHook \<Rightarrow> nft_chain" where
  "new_chain table chain hook =
     opt_set setPolicy (ch_Policy chain)
       ((if ch_Type chain \<noteq> ChainTypeOther [] then setType (ch_Type chain) else id)
         (opt_set setPriority (ch_Priority chain)
           (setHooknum hook
             (opt_set setChainName (ch_Name chain)
               \<lparr>nc_Table = table, nc_Name = [], nc_Hooknum = None, nc_Priority = None,
                nc_Type = TypeOther [], nc_Policy = None\<rparr>))))"

definition addChain :: "'k nft_lib \<Rightarrow> Chain \<Rightarrow> nft_table \<Rightarrow> 'k Conn \<Rightarrow> ('k, nft_chain) fw_res" where
  "addChain lib chain table conn =
     fw_bind (lift (getChain lib table chain conn) conn) (\<lambda>found conn'.
       case found of
         Some nc \<Rightarrow> FwOk nc conn'
       | None \<Rightarrow>
           (case ch_Hook chain of
              None \<Rightarrow> FwPanic
            | Some hook \<Rightarrow>
                (let nc = new_chain table chain hook in FwOk nc (queue (AddChain nc) conn'))))"

fun add_chains_loop :: "'k nft_lib \<Rightarrow> nft_table \<Rightarrow> Chain list \<Rightarrow> bool \<Rightarrow> 'k Conn \<Rightarrow> ('k, bool) fw_res" where
  "add_chains_loop lib table [] notrack conn = FwOk notrack conn"
| "add_chains_loop lib table (chain # chs) notrack conn =
     fw_bind (addChain lib chain table conn) (\<lambda>nftchain conn1.
     fw_bind (addRules lib chain nftchain conn1) (\<lambda>applied conn2.
       add_chains_loop lib table chs (notrack \<or> applied) conn2))"

definition addChains :: "'k nft_lib \<Rightarrow> Chain list \<Rightarrow> nft_table \<Rightarrow> 'k Conn \<Rightarrow> ('k, bool) fw_res" where
  "addChains lib chs table conn = add_chains_loop lib table chs False conn"

end
