(* ===== verification/FirewallReconcile.thy ===== *)
theory FirewallReconcile
  imports FirewallNft
begin

text \<open>
  The reconciliation of a firewall configuration (\<open>firewallconfiguration_controller.go\<close>,
  \<open>finalizer.go\<close>) and the eviction of tracked connections (\<open>conntrack.go\<close>). The answers of the API
  server and of the conntrack client are arguments.
\<close>

section \<open>Tracked connections\<close>

record Tuple =
  tp_SourceAddress :: addr
  tp_DestinationAddress :: addr
  tp_Protocol :: "8 word"
  tp_SourcePort :: "16 word"
  tp_DestinationPort :: "16 word"

record Flow =
  TupleOrig :: Tuple
  TupleReply :: Tuple

definition notrackRules :: "Table \<Rightarrow> FilterRule list" where
  "notrackRules table =
     concat (map (\<lambda>ch. filter (\<lambda>r. fr_Action r = ActionNotrack) (elems (FilterRules (ch_Rules ch))))
       (t_Chains table))"

definition portInRange :: "16 word \<Rightarrow> 16 word \<Rightarrow> 16 word \<Rightarrow> bool" where
  "portInRange port start fin \<longleftrightarrow> start \<le> port \<and> port \<le> fin"

definition parsePortRange :: "string \<Rightarrow> (16 word \<times> 16 word) option" where
  "parsePortRange value =
     (if CHR ''-'' \<in> set value then
        (case (ParseUint (takeWhile (\<lambda>c. c \<noteq> CHR ''-'') value) 16,
               ParseUint (tl (dropWhile (\<lambda>c. c \<noteq> CHR ''-'') value)) 16) of
           (Some s, Some e) \<Rightarrow> if s > e then None else Some (word_of_nat s, word_of_nat e)
         | _ \<Rightarrow> None)
      else (case ParseUint value 16 of
              None \<Rightarrow> None
            | Some s \<Rightarrow> Some (word_of_nat s, word_of_nat s)))"

definition matchIP :: "Tuple \<Rightarrow> MatchIP \<Rightarrow> bool" where
  "matchIP tuple ip =
     (let prefix = (case ParsePrefix (ip_Value ip) of
            Some p \<Rightarrow> Some p
          | None \<Rightarrow>
              (case ParseAddr (ip_Value ip) of
                 None \<Rightarrow> None
               | Some a \<Rightarrow> Some (Prefix a (BitLen a))))
      in case prefix of
           None \<Rightarrow> False
         | Some p \<Rightarrow>
             (case ip_Position ip of
                MatchPositionSrc \<Rightarrow> Contains p (tp_SourceAddress tuple)
              | MatchPositionDst \<Rightarrow> Contains p (tp_DestinationAddress tuple)
              | MatchPositionOther _ \<Rightarrow> False))"

definition matchPort :: "Tuple \<Rightarrow> MatchPort \<Rightarrow> bool" where
  "matchPort tuple port =
     (case parsePortRange (port_Value port) of
        None \<Rightarrow> False
      | Some (start, fin) \<Rightarrow>
          (case port_Position port of
             MatchPositionSrc \<Rightarrow> portInRange (tp_SourcePort tuple) start fin
           | MatchPositionDst \<Rightarrow> portInRange (tp_DestinationPort tuple) start fin
           | MatchPositionOther _ \<Rightarrow> False))"

definition matchProto :: "Tuple \<Rightarrow> MatchProto \<Rightarrow> bool" where
  "matchProto tuple proto =
     (case proto_Value proto of
        L4ProtoTCP \<Rightarrow> tp_Protocol tuple = 6
      | L4ProtoUDP \<Rightarrow> tp_Protocol tuple = 17
      | L4ProtoOther _ \<Rightarrow> False)"

definition opt_holds :: "'m option \<Rightarrow> ('m \<Rightarrow> bool) \<Rightarrow> bool" where
  "opt_holds p f = (case p of None \<Rightarrow> True | Some x \<Rightarrow> f x)"

definition matchSatisfiesRule :: "Match \<Rightarrow> Tuple \<Rightarrow> bool" where
  "matchSatisfiesRule m tuple =
     (let matched = opt_holds (m_IP m) (matchIP tuple) \<and> opt_holds (m_Port m) (matchPort tuple) \<and>
            opt_holds (m_Proto m) (matchProto tuple)
      in if m_Op m = MatchOperationNeq then \<not> matched else matched)"

definition tupleMatchesRule :: "Tuple \<Rightarrow> FilterRule \<Rightarrow> bool" where
  "tupleMatchesRule tuple rule = list_all (\<lambda>m. matchSatisfiesRule m tuple) (fr_Match rule)"

definition ruleMatchesFlow :: "FilterRule \<Rightarrow> Flow \<Rightarrow> bool" where
  "ruleMatchesFlow rule flow \<longleftrightarrow>
     tupleMatchesRule (TupleOrig flow) rule \<or> tupleMatchesRule (TupleReply flow) rule"

definition flowMatchesNotrackRules :: "Flow \<Rightarrow> FilterRule list \<Rightarrow> bool" where
  "flowMatchesNotrackRules flow rules = list_ex (\<lambda>r. ruleMatchesFlow r flow) rules"

text \<open>
  The client: the dump, the answer to each deletion, and whether the context has been cancelled when
  the loop looks at a flow. The result is the list of deleted flows and the error.
\<close>

record conntrack_client =
  ct_Dump :: "string + Flow list"
  ct_Delete :: "Flow \<Rightarrow> string option"
  ct_Cancelled :: "Flow \<Rightarrow> string option"

fun flush_loop :: "conntrack_client \<Rightarrow> FilterRule list \<Rightarrow> Flow list \<Rightarrow> Flow list \<Rightarrow>
    Flow list \<times> string option" where
  "flush_loop ct rules [] deleted = (deleted, None)"
| "flush_loop ct rules (f # fs) deleted =
     (case ct_Cancelled ct f of
        Some e \<Rightarrow> (deleted, Some e)
      | None \<Rightarrow>
          if \<not> flowMatchesNotrackRules f rules then flush_loop ct rules fs deleted
          else (case ct_Delete ct f of
                  Some e \<Rightarrow> (deleted, Some e)
                | None \<Rightarrow> flush_loop ct rules fs (deleted @ [f])))"

definition flushConntrackForNotrackRules :: "conntrack_client option \<Rightarrow> Table \<Rightarrow>
    Flow list \<times> string option" where
  "flushConntrackForNotrackRules client table =
     (case client of
        None \<Rightarrow> ([], None)
      | Some ct \<Rightarrow>
          (let rules = notrackRules table in
           if rules = [] then ([], None)
           else (case ct_Dump ct of
                   Inl e \<Rightarrow> ([], Some e)
                 | Inr flows \<Rightarrow> flush_loop ct rules flows [])))"

section \<open>Reconciliation\<close>

text \<open>
  The resource with what the controller reads of its metadata. The answers of the API server to the
  \<open>Get\<close> (\<open>None\<close> is not found) and to the two updates of the finalizer (\<open>None\<close> is success) are
  arguments.
\<close>

record fw_object =
  fo_Table :: Table
  fo_Deleting :: bool
  fo_Finalizer :: bool

record fw_client =
  cl_Get :: "string + fw_object option"
  cl_AddFinalizer :: "string option"
  cl_RemoveFinalizer :: "string option"

text \<open>What a reconciliation did to the finalizer, and the flows it evicted.\<close>

datatype finalizer_update = FinalizerKept | FinalizerAdded | FinalizerRemoved

type_synonym 'k reconciled = "('k, finalizer_update \<times> Flow list) fw_res"

definition applyTable :: "'k nft_lib \<Rightarrow> conntrack_client option \<Rightarrow> Table \<Rightarrow> 'k Conn \<Rightarrow> 'k reconciled" where
  "applyTable lib client table conn =
     fw_bind (cleanTable lib table conn) (\<lambda>_ conn1.
     fw_bind (Flush lib conn1) (\<lambda>_ conn2.
     fw_bind (addTable table conn2) (\<lambda>nftTable conn3.
     fw_bind (addChains lib (t_Chains table) nftTable conn3) (\<lambda>notrackApplied conn4.
     fw_bind (Flush lib conn4) (\<lambda>_ conn5.
       if notrackApplied then
         (case flushConntrackForNotrackRules client table of
            (_, Some e) \<Rightarrow> FwErr (ConnError e) conn5
          | (deleted, None) \<Rightarrow> FwOk (FinalizerKept, deleted) conn5)
       else FwOk (FinalizerKept, []) conn5)))))"

definition Reconcile :: "'k nft_lib \<Rightarrow> conntrack_client option \<Rightarrow> bool \<Rightarrow> fw_client \<Rightarrow> 'k Conn \<Rightarrow>
    'k reconciled" where
  "Reconcile lib client enableFinalizer cl conn =
     (case cl_Get cl of
        Inl e \<Rightarrow> FwErr (ConnError e) conn
      | Inr None \<Rightarrow> FwOk (FinalizerKept, []) conn
      | Inr (Some fwcfg) \<Rightarrow>
          if \<not> fo_Deleting fwcfg \<and> enableFinalizer \<and> \<not> fo_Finalizer fwcfg then
            (case cl_AddFinalizer cl of
               Some e \<Rightarrow> FwErr (ConnError e) conn
             | None \<Rightarrow> FwOk (FinalizerAdded, []) conn)
          else if fo_Deleting fwcfg \<and> enableFinalizer then
            (if fo_Finalizer fwcfg then
               fw_bind (delTable (fo_Table fwcfg) conn) (\<lambda>_ conn1.
               fw_bind (Flush lib conn1) (\<lambda>_ conn2.
                 case cl_RemoveFinalizer cl of
                   Some e \<Rightarrow> FwErr (ConnError e) conn2
                 | None \<Rightarrow> FwOk (FinalizerRemoved, []) conn2))
             else FwOk (FinalizerKept, []) conn)
          else applyTable lib client (fo_Table fwcfg) conn)"

end
