(* ===== verification/FirewallForgeSpec.thy ===== *)
theory FirewallForgeSpec
  imports FirewallReconcile
begin

text \<open>
  What the forged expressions mean. The nftables machine is an argument \<open>nft_step\<close>: the effect of one
  expression on the register, \<open>None\<close> when the rule does not match. \<open>step_ok\<close> states its documented
  behaviour for the expressions of a match, on the header fields of an IPv4 packet.
\<close>

record packet =
  pk_src :: "32 word"
  pk_dst :: "32 word"
  pk_proto :: "8 word"
  pk_sport :: "16 word"
  pk_dport :: "16 word"
  pk_iif :: bytes
  pk_oif :: bytes

definition tuple_of :: "packet \<Rightarrow> Tuple" where
  "tuple_of p = \<lparr>tp_SourceAddress = V4 (pk_src p), tp_DestinationAddress = V4 (pk_dst p),
     tp_Protocol = pk_proto p, tp_SourcePort = pk_sport p, tp_DestinationPort = pk_dport p\<rparr>"

type_synonym nft_machine = "packet \<Rightarrow> nft_expr \<Rightarrow> bytes \<Rightarrow> bytes option"

fun cmp_bytes :: "CmpOp \<Rightarrow> bytes \<Rightarrow> bytes \<Rightarrow> bool" where
  "cmp_bytes CmpOpEq a b \<longleftrightarrow> a = b"
| "cmp_bytes CmpOpNeq a b \<longleftrightarrow> a \<noteq> b"
| "cmp_bytes CmpOpLte a b \<longleftrightarrow> be_val a \<le> be_val b"
| "cmp_bytes CmpOpGte a b \<longleftrightarrow> be_val b \<le> be_val a"

definition step_ok :: "nft_machine \<Rightarrow> bool" where
  "step_ok nft_step \<longleftrightarrow> (\<forall>p r.
     nft_step p (Payload 1 PayloadBaseNetworkHeader 12 4) r = Some (be_bytes 4 (pk_src p)) \<and>
     nft_step p (Payload 1 PayloadBaseNetworkHeader 16 4) r = Some (be_bytes 4 (pk_dst p)) \<and>
     nft_step p (Payload 1 PayloadBaseTransportHeader 0 2) r = Some (be_bytes 2 (pk_sport p)) \<and>
     nft_step p (Payload 1 PayloadBaseTransportHeader 2 2) r = Some (be_bytes 2 (pk_dport p)) \<and>
     nft_step p (Meta MetaKeyL4PROTO False 1) r = Some [pk_proto p] \<and>
     nft_step p (Meta MetaKeyIIFNAME False 1) r = Some (pk_iif p) \<and>
     nft_step p (Meta MetaKeyOIFNAME False 1) r = Some (pk_oif p) \<and>
     (\<forall>n m x. nft_step p (Bitwise 1 1 n m x) r = Some (map2 (XOR) (map2 (AND) r m) x)) \<and>
     (\<forall>op d. nft_step p (Cmp op 1 d) r = (if cmp_bytes op (take (length d) r) d then Some r else None)) \<and>
     (\<forall>a b. nft_step p (Range CmpOpEq 1 a b) r =
        (if be_val a \<le> be_val r \<and> be_val r \<le> be_val b then Some r else None)))"

fun passes :: "nft_machine \<Rightarrow> packet \<Rightarrow> nft_expr list \<Rightarrow> bytes \<Rightarrow> bool" where
  "passes nft_step p [] r = True"
| "passes nft_step p (e # es) r =
     (case nft_step p e r of None \<Rightarrow> False | Some r' \<Rightarrow> passes nft_step p es r')"

section \<open>Bytes\<close>

lemma map2_xor_zeros: "length bs = n \<Longrightarrow> map2 (XOR) bs (replicate n 0) = bs" for bs :: bytes
  by (induction bs arbitrary: n) auto

lemma be_val_16: "be_val (be_bytes 2 w) = unat w" for w :: "16 word"
proof -
  have "unat w < 2 ^ 16" using unsigned_less [of w, where ?'a = nat] by simp
  then show ?thesis by (simp add: be_val_be_bytes)
qed

lemma be_val_32: "be_val (be_bytes 4 w) = unat w" for w :: "32 word"
proof -
  have "unat w < 2 ^ 32" using unsigned_less [of w, where ?'a = nat] by simp
  then show ?thesis by (simp add: be_val_be_bytes)
qed

lemma be_bytes_4_inject: "be_bytes 4 v = be_bytes 4 w \<longleftrightarrow> v = w" for v w :: "32 word"
  using be_bytes_inject [of 4 v w] by auto

lemma be_bytes_2_inject: "be_bytes 2 v = be_bytes 2 w \<longleftrightarrow> v = w" for v w :: "16 word"
  using be_bytes_inject [of 2 v w] by auto

section \<open>Text of addresses and ports\<close>

lemma ParseAddr_V4_noslash: "ParseAddr v = Some (V4 w) \<Longrightarrow> CHR ''/'' \<notin> set v"
  using ParseAddr_V4_chars by (fastforce simp: is_digit_def)

lemma Atoi_ParseUint:
  assumes "ParseUint v 16 = Some n"
  shows "Atoi v = Some (int n)" and "n < 65536" and "CHR ''-'' \<notin> set v"
proof -
  have d: "v \<noteq> []" "list_all is_digit v" "n = dec_val v" "n < 65536"
    using assms by (auto simp: ParseUint_def split: if_splits)
  have "c \<noteq> CHR ''-'' \<and> c \<noteq> CHR ''+''" if "c \<in> set v" for c
    using that d(2) by (auto simp: list_all_iff is_digit_def)
  with d(1) have h: "hd v \<noteq> CHR ''-''" "hd v \<noteq> CHR ''+''" "CHR ''-'' \<notin> set v"
    by (metis hd_in_set)+
  then show "Atoi v = Some (int n)"
    using d by (cases v) (simp_all add: Atoi_def Let_def)
  show "n < 65536" "CHR ''-'' \<notin> set v" using d h by simp_all
qed

section \<open>Running the expressions of a match\<close>

lemma step_ok_eqs:
  assumes "step_ok nft_step"
  shows "nft_step p (Payload 1 PayloadBaseNetworkHeader 12 4) r = Some (be_bytes 4 (pk_src p))"
    and "nft_step p (Payload 1 PayloadBaseNetworkHeader 16 4) r = Some (be_bytes 4 (pk_dst p))"
    and "nft_step p (Payload 1 PayloadBaseTransportHeader 0 2) r = Some (be_bytes 2 (pk_sport p))"
    and "nft_step p (Payload 1 PayloadBaseTransportHeader 2 2) r = Some (be_bytes 2 (pk_dport p))"
    and "nft_step p (Meta MetaKeyL4PROTO False 1) r = Some [pk_proto p]"
    and "nft_step p (Bitwise 1 1 n m x) r = Some (map2 (XOR) (map2 (AND) r m) x)"
    and "nft_step p (Cmp op 1 d) r = (if cmp_bytes op (take (length d) r) d then Some r else None)"
  using assms unfolding step_ok_def by blast+

lemma passes_append_const:
  assumes "\<And>r. passes nft_step p es r = b" and "\<And>r. passes nft_step p es' r = b'"
  shows "passes nft_step p (es @ es') r = (b \<and> b')"
proof -
  have "passes nft_step p (es @ es') r \<longleftrightarrow> passes nft_step p es r \<and> b'" for r
    using assms(2) by (induction es arbitrary: r) (auto split: option.splits)
  then show ?thesis using assms(1) by simp
qed

text \<open>The field of the packet that a position names.\<close>

definition pos_addr :: "MatchIP \<Rightarrow> packet \<Rightarrow> 32 word" where
  "pos_addr i p = (if ip_Position i = MatchPositionSrc then pk_src p else pk_dst p)"

definition pos_port :: "MatchPort \<Rightarrow> packet \<Rightarrow> 16 word" where
  "pos_port q p = (if port_Position q = MatchPositionSrc then pk_sport p else pk_dport p)"

lemma position_error_not_Ok [simp]: "position_error m \<noteq> Ok x"
  by (cases "m_Dev m") (simp_all add: position_error_def)

lemma load_addr:
  assumes "step_ok nft_step" and "getMatchIPPositionOffset m i = Ok off"
  shows "nft_step p (Payload 1 PayloadBaseNetworkHeader off 4) r = Some (be_bytes 4 (pos_addr i p))"
  using assms(2) step_ok_eqs(1,2) [OF assms(1)]
  by (cases "ip_Position i") (auto simp: getMatchIPPositionOffset_def pos_addr_def)

lemma load_port:
  assumes "step_ok nft_step" and "getMatchPortPositionOffset m q = Ok off"
  shows "nft_step p (Payload 1 PayloadBaseTransportHeader off 2) r = Some (be_bytes 2 (pos_port q p))"
  using assms(2) step_ok_eqs(3,4) [OF assms(1)]
  by (cases "port_Position q") (auto simp: getMatchPortPositionOffset_def pos_port_def)

text \<open>Masking the loaded address keeps its network part.\<close>

lemma masked_bytes:
  "map2 (XOR) (map2 (AND) (be_bytes 4 a) (be_bytes 4 (prefix_mask n :: 32 word))) [0, 0, 0, 0] =
     be_bytes 4 (push_bit (32 - n) (drop_bit (32 - n) a))" for a :: "32 word"
proof -
  have "a AND prefix_mask n = push_bit (32 - n) (drop_bit (32 - n) a)"
    by (rule bit_word_eqI) (auto simp: prefix_mask_def bit_simps)
  moreover have "[0, 0, 0, 0] = replicate 4 (0 :: 8 word)" by (simp add: eval_nat_numeral)
  ultimately show ?thesis by (simp add: map2_and_be_bytes map2_xor_zeros)
qed

lemma subnet_passes:
  assumes ok: "step_ok nft_step" and v: "ParseCIDR (ip_Value i) = Some (As16 (V4 w), ip_net (V4 w) n)"
    and es: "applyMatchIPPoolSubnet m i CmpOpEq = Ok es"
  shows "passes nft_step p es r \<longleftrightarrow> mask_addr n (V4 (pos_addr i p)) = V4 w"
proof -
  obtain off where off: "getMatchIPPositionOffset m i = Ok off"
    using es by (cases "getMatchIPPositionOffset m i") (simp_all add: applyMatchIPPoolSubnet_def)
  then have "es = [Payload 1 PayloadBaseNetworkHeader off 4,
      Bitwise 1 1 4 (be_bytes 4 (prefix_mask n :: 32 word)) [0, 0, 0, 0], Cmp CmpOpEq 1 (be_bytes 4 w)]"
    using es v by (simp add: applyMatchIPPoolSubnet_def to4_bytes_def del: As16.simps)
  then show ?thesis
    by (simp add: load_addr [OF ok off] step_ok_eqs(6,7) [OF ok] masked_bytes be_bytes_4_inject
        del: One_nat_def)
qed

lemma single_passes:
  assumes ok: "step_ok nft_step" and v: "ParseIP (ip_Value i) = Some (As16 (V4 w))"
    and es: "applyMatchIPSingleIP m i CmpOpEq = Ok es"
  shows "passes nft_step p es r \<longleftrightarrow> pos_addr i p = w"
proof -
  obtain off where off: "getMatchIPPositionOffset m i = Ok off"
    using es by (cases "getMatchIPPositionOffset m i") (simp_all add: applyMatchIPSingleIP_def)
  then have "es = [Payload 1 PayloadBaseNetworkHeader off 4, Cmp CmpOpEq 1 (be_bytes 4 w)]"
    using es v by (simp add: applyMatchIPSingleIP_def to4_bytes_def del: As16.simps)
  then show ?thesis
    by (simp add: load_addr [OF ok off] step_ok_eqs(7) [OF ok] be_bytes_4_inject del: One_nat_def)
qed

section \<open>The expressions agree with the conntrack matcher\<close>

text \<open>
  Values both sides understand: an IPv4 address or an IPv4 subnet without host bits, and a port or a
  range of ports.
\<close>

definition plain_ip :: "MatchIP \<Rightarrow> bool" where
  "plain_ip i = (case ParsePrefix (ip_Value i) of
       Some (Prefix (V4 w) n) \<Rightarrow> mask_addr n (V4 w) = V4 w
     | Some _ \<Rightarrow> False
     | None \<Rightarrow> (case ParseAddr (ip_Value i) of Some (V4 w) \<Rightarrow> True | _ \<Rightarrow> False))"

definition plain_match :: "Match \<Rightarrow> bool" where
  "plain_match m \<longleftrightarrow> m_Op m = MatchOperationEq \<and> m_Dev m = None \<and> opt_holds (m_IP m) plain_ip \<and>
     opt_holds (m_Port m) (\<lambda>q. parsePortRange (port_Value q) \<noteq> None)"

lemma matchIP_prefix:
  assumes "ParsePrefix (ip_Value i) = Some (Prefix (V4 w) n)" and "mask_addr n (V4 w) = V4 w"
    and "getMatchIPPositionOffset m i = Ok off"
  shows "matchIP (tuple_of p) i \<longleftrightarrow> mask_addr n (V4 (pos_addr i p)) = V4 w"
proof -
  have "Valid (Prefix (V4 w) n)" using assms(1) by (rule ParsePrefix_Valid)
  then have "Contains (Prefix (V4 w) n) (V4 a) \<longleftrightarrow> mask_addr n (V4 a) = V4 w" for a
    using mask_addr_eq_iff [of "V4 w" "V4 a" n] assms(2) by (auto simp: Contains_iff)
  then show ?thesis using assms(1,3)
    by (cases "ip_Position i")
      (simp_all add: matchIP_def tuple_of_def pos_addr_def getMatchIPPositionOffset_def)
qed

lemma matchIP_addr:
  assumes "ParsePrefix (ip_Value i) = None" and "ParseAddr (ip_Value i) = Some (V4 w)"
    and "getMatchIPPositionOffset m i = Ok off"
  shows "matchIP (tuple_of p) i \<longleftrightarrow> pos_addr i p = w"
proof -
  have "Contains (Prefix (V4 w) 32) (V4 a) \<longleftrightarrow> a = w" for a
    using mask_addr_eq_iff [of "V4 w" "V4 a" 32] by (auto simp: Contains_iff Valid_def)
  then show ?thesis using assms
    by (cases "ip_Position i")
      (simp_all add: matchIP_def tuple_of_def pos_addr_def getMatchIPPositionOffset_def)
qed

lemma ParseCIDR_noslash: "CHR ''/'' \<notin> set v \<Longrightarrow> ParseCIDR v = None"
proof -
  assume "CHR ''/'' \<notin> set v"
  then have "dropWhile (\<lambda>c. c \<noteq> CHR ''/'') v = []" by (induction v) auto
  then show ?thesis unfolding ParseCIDR_def by (simp only: list.case)
qed

lemma ParseAddr_Nil: "ParseAddr [] = None"
  by (simp add: ParseAddr_def)

lemma applyMatchIP_single:
  assumes "ParseAddr (ip_Value i) = Some (V4 w)"
  shows "applyMatchIP m i op = applyMatchIPSingleIP m i op"
proof -
  have "ip_Value i \<noteq> []" using assms ParseAddr_Nil by force
  moreover have "ParseCIDR (ip_Value i) = None"
    using ParseCIDR_noslash [OF ParseAddr_V4_noslash [OF assms]] .
  ultimately show ?thesis using assms by (simp add: applyMatchIP_def GetIPValueType_def ParseIP_def)
qed

lemma applyMatchIP_subnet:
  assumes "ParseCIDR (ip_Value i) = Some x"
  shows "applyMatchIP m i op = applyMatchIPPoolSubnet m i op"
proof -
  have "ip_Value i \<noteq> []" using assms ParseCIDR_noslash [of "[]"] by force
  then show ?thesis using assms by (simp add: applyMatchIP_def GetIPValueType_def)
qed

lemma applyMatchIP_agrees:
  assumes ok: "step_ok nft_step" and plain: "plain_ip i" and es: "applyMatchIP m i CmpOpEq = Ok es"
  shows "passes nft_step p es r \<longleftrightarrow> matchIP (tuple_of p) i"
proof (cases "ParsePrefix (ip_Value i)")
  case None
  then obtain w where w: "ParseAddr (ip_Value i) = Some (V4 w)"
    using plain by (auto simp: plain_ip_def split: option.splits addr.splits)
  have v: "ParseIP (ip_Value i) = Some (As16 (V4 w))" using w by (simp add: ParseIP_def)
  have e: "applyMatchIPSingleIP m i CmpOpEq = Ok es" using es applyMatchIP_single [OF w] by simp
  then obtain off where "getMatchIPPositionOffset m i = Ok off"
    by (cases "getMatchIPPositionOffset m i") (simp_all add: applyMatchIPSingleIP_def)
  then show ?thesis using single_passes [OF ok v e] matchIP_addr [OF None w] by simp
next
  case (Some q)
  obtain w n where q: "q = Prefix (V4 w) n" "mask_addr n (V4 w) = V4 w"
    using plain Some by (cases q) (auto simp: plain_ip_def split: addr.splits)
  note v = ParsePrefix_ParseCIDR [OF Some [unfolded q(1)]]
  have e: "applyMatchIPPoolSubnet m i CmpOpEq = Ok es" using es applyMatchIP_subnet [OF v] by simp
  then obtain off where "getMatchIPPositionOffset m i = Ok off"
    by (cases "getMatchIPPositionOffset m i") (simp_all add: applyMatchIPPoolSubnet_def)
  then show ?thesis
    using subnet_passes [OF ok v e] matchIP_prefix [OF Some [unfolded q(1)] q(2)] by simp
qed

lemma splitOn_cut:
  assumes "c \<notin> set y"
  shows "c \<notin> set x \<Longrightarrow> splitOn c (x @ c # y) = [x, y]" and "splitOn c y = [y]"
proof -
  show y: "splitOn c y = [y]" using assms by (induction y) auto
  show "splitOn c (x @ c # y) = [x, y]" if "c \<notin> set x" using that y by (induction x) auto
qed

text \<open>A range the conntrack matcher reads is the range of the rule; a single port is a number.\<close>

lemma parsePortRange_Some:
  assumes "parsePortRange v = Some (a, b)"
  shows "ParsePortRange v = Some (a, b) \<or> (ParsePortRange v = None \<and> b = a \<and> Atoi v = Some (int (unat a)))"
proof (cases "CHR ''-'' \<in> set v")
  case True
  define x y where "x = takeWhile (\<lambda>c. c \<noteq> CHR ''-'') v" and "y = tl (dropWhile (\<lambda>c. c \<noteq> CHR ''-'') v)"
  obtain s e where se: "ParseUint x 16 = Some s" "ParseUint y 16 = Some e"
      "a = word_of_nat s" "b = word_of_nat e"
    using assms True by (auto simp: parsePortRange_def x_def y_def split: option.splits if_splits)
  have "v = x @ CHR ''-'' # y"
    using True unfolding x_def y_def by (induction v) auto
  then have "splitOn (CHR ''-'') v = [x, y]"
    using Atoi_ParseUint(3) [OF se(1)] Atoi_ParseUint(3) [OF se(2)] splitOn_cut(1) by simp
  then show ?thesis using se by (simp add: ParsePortRange_def)
next
  case False
  then obtain s where s: "ParseUint v 16 = Some s" "a = word_of_nat s" "b = word_of_nat s"
    using assms by (auto simp: parsePortRange_def split: option.splits)
  have "ParsePortRange v = None" using splitOn_cut(2) [OF False] by (simp add: ParsePortRange_def)
  moreover have "unat a = s"
    using Atoi_ParseUint(2) [OF s(1)] s(2) by (simp add: unsigned_of_nat take_bit_nat_eq_self)
  ultimately show ?thesis using Atoi_ParseUint(1) [OF s(1)] s(2,3) by simp
qed

lemma matchPort_range:
  assumes "parsePortRange (port_Value q) = Some (a, b)" and "getMatchPortPositionOffset m q = Ok off"
  shows "matchPort (tuple_of p) q \<longleftrightarrow> a \<le> pos_port q p \<and> pos_port q p \<le> b"
  using assms by (cases "port_Position q")
    (simp_all add: matchPort_def tuple_of_def pos_port_def portInRange_def getMatchPortPositionOffset_def)

lemma range_passes:
  assumes ok: "step_ok nft_step" and v: "ParsePortRange (port_Value q) = Some (a, b)"
    and off: "getMatchPortPositionOffset m q = Ok off" and es: "applyMatchPortRange m q = Ok es"
  shows "passes nft_step p es r \<longleftrightarrow> a \<le> pos_port q p \<and> pos_port q p \<le> b"
proof -
  have "es = [Payload 1 PayloadBaseTransportHeader off 2, Cmp CmpOpGte 1 (be_bytes 2 a),
      Cmp CmpOpLte 1 (be_bytes 2 b)]"
    using es off v by (simp add: applyMatchPortRange_def)
  then show ?thesis
    by (simp add: load_port [OF ok off] step_ok_eqs(7) [OF ok] be_val_16 word_le_nat_alt
        del: One_nat_def)
qed

lemma port_passes:
  assumes ok: "step_ok nft_step" and v: "Atoi (port_Value q) = Some (int (unat a))"
    and off: "getMatchPortPositionOffset m q = Ok off" and es: "applyMatchPortSinglePort m q CmpOpEq = Ok es"
  shows "passes nft_step p es r \<longleftrightarrow> pos_port q p = a"
proof -
  have "es = [Payload 1 PayloadBaseTransportHeader off 2, Cmp CmpOpEq 1 (be_bytes 2 a)]"
    using es off v by (simp add: applyMatchPortSinglePort_def)
  then show ?thesis
    by (simp add: load_port [OF ok off] step_ok_eqs(7) [OF ok] be_bytes_2_inject del: One_nat_def)
qed

lemma applyMatchPort_agrees:
  assumes ok: "step_ok nft_step" and plain: "parsePortRange (port_Value q) = Some (a, b)"
    and es: "applyMatchPort m q CmpOpEq = Ok es"
  shows "passes nft_step p es r \<longleftrightarrow> matchPort (tuple_of p) q"
  using parsePortRange_Some [OF plain]
proof (elim disjE conjE)
  assume v: "ParsePortRange (port_Value q) = Some (a, b)"
  then have e: "applyMatchPortRange m q = Ok es"
    using es by (simp add: applyMatchPort_def GetPortValueType_def)
  then obtain off where "getMatchPortPositionOffset m q = Ok off"
    by (cases "getMatchPortPositionOffset m q") (simp_all add: applyMatchPortRange_def)
  then show ?thesis using range_passes [OF ok v _ e] matchPort_range [OF plain] by simp
next
  assume v: "ParsePortRange (port_Value q) = None" "Atoi (port_Value q) = Some (int (unat a))" "b = a"
  then have e: "applyMatchPortSinglePort m q CmpOpEq = Ok es"
    using es by (simp add: applyMatchPort_def GetPortValueType_def)
  then obtain off where off: "getMatchPortPositionOffset m q = Ok off"
    by (cases "getMatchPortPositionOffset m q") (simp_all add: applyMatchPortSinglePort_def)
  show ?thesis using port_passes [OF ok v(2) off e] matchPort_range [OF plain off] v(3) by auto
qed

lemma applyMatchProto_agrees:
  assumes ok: "step_ok nft_step" and es: "applyMatchProto m q = Ok es"
  shows "passes nft_step p es r \<longleftrightarrow> matchProto (tuple_of p) q"
proof (cases "proto_Value q")
  case (L4ProtoOther x)
  then show ?thesis using es by (auto simp: applyMatchProto_def getMatchProtoValue_def split: res.splits)
qed (use es in \<open>auto simp: applyMatchProto_def getMatchProtoValue_def matchProto_def tuple_of_def
  step_ok_eqs(5,7) [OF ok] simp del: One_nat_def split: if_splits\<close>)

lemma opt_apply_agrees:
  assumes "opt_apply x f = Ok es"
    and "\<And>y es r. x = Some y \<Longrightarrow> f y = Ok es \<Longrightarrow> passes nft_step p es r = g y"
  shows "passes nft_step p es r = opt_holds x g"
  using assms by (cases x) (auto simp: opt_apply_def opt_holds_def)

lemma applyMatch_agrees:
  assumes ok: "step_ok nft_step" and plain: "plain_match m" and es: "applyMatch m = Ok es"
  shows "passes nft_step p es r \<longleftrightarrow> matchSatisfiesRule m (tuple_of p)"
proof -
  have op: "getMatchCmpOp m = Ok CmpOpEq" and dev: "m_Dev m = None"
    using plain by (simp_all add: plain_match_def getMatchCmpOp_def)
  obtain e1 e3 e4 where e1: "opt_apply (m_Proto m) (applyMatchProto m) = Ok e1"
    and e3: "opt_apply (m_IP m) (\<lambda>i. applyMatchIP m i CmpOpEq) = Ok e3"
    and e4: "opt_apply (m_Port m) (\<lambda>q. applyMatchPort m q CmpOpEq) = Ok e4"
    and all: "es = e1 @ e3 @ e4"
    using es unfolding applyMatch_def op dev
    by (auto simp: opt_apply_def [of None] res_bind_Ok)
  have "passes nft_step p e1 r = opt_holds (m_Proto m) (matchProto (tuple_of p))" for r
    by (rule opt_apply_agrees [OF e1]) (rule applyMatchProto_agrees [OF ok])
  moreover have "passes nft_step p e3 r = opt_holds (m_IP m) (matchIP (tuple_of p))" for r
    using plain by (intro opt_apply_agrees [OF e3] applyMatchIP_agrees [OF ok])
      (simp_all add: plain_match_def opt_holds_def)
  moreover have "passes nft_step p e4 r = opt_holds (m_Port m) (matchPort (tuple_of p))" for r
  proof (rule opt_apply_agrees [OF e4])
    fix q es' r' assume q: "m_Port m = Some q" "applyMatchPort m q CmpOpEq = Ok es'"
    then obtain a b where "parsePortRange (port_Value q) = Some (a, b)"
      using plain by (auto simp: plain_match_def opt_holds_def)
    then show "passes nft_step p es' r' = matchPort (tuple_of p) q"
      using applyMatchPort_agrees [OF ok _ q(2)] by blast
  qed
  ultimately have "passes nft_step p es r \<longleftrightarrow> opt_holds (m_Proto m) (matchProto (tuple_of p)) \<and>
      opt_holds (m_IP m) (matchIP (tuple_of p)) \<and> opt_holds (m_Port m) (matchPort (tuple_of p))"
    unfolding all by (intro passes_append_const)
  then show ?thesis using plain by (auto simp: matchSatisfiesRule_def plain_match_def)
qed

lemma applyMatches_agree:
  assumes "step_ok nft_step" and "list_all plain_match ms" and "applyMatches ms = Ok es"
  shows "passes nft_step p es r \<longleftrightarrow> list_all (\<lambda>m. matchSatisfiesRule m (tuple_of p)) ms"
  using assms(2,3)
proof (induction ms arbitrary: es r)
  case (Cons m ms)
  obtain e1 e2 where e: "applyMatch m = Ok e1" "applyMatches ms = Ok e2" "es = e1 @ e2"
    using Cons.prems(2) by (auto simp: res_bind_Ok)
  have "passes nft_step p e1 r = matchSatisfiesRule m (tuple_of p)" for r
    using applyMatch_agrees [OF assms(1) _ e(1)] Cons.prems(1) by simp
  moreover have "passes nft_step p e2 r = list_all (\<lambda>m. matchSatisfiesRule m (tuple_of p)) ms" for r
    using Cons.IH [OF _ e(2)] Cons.prems(1) by simp
  ultimately show ?case unfolding e(3) list.pred_inject by (intro passes_append_const)
qed simp

end
