(* ===== verification/FirewallWebhook.thy ===== *)
theory FirewallWebhook
  imports FirewallNft "HOL-Library.Stream"
begin

text \<open>
  The webhooks of firewall configurations (\<open>pkg/webhooks/firewallconfiguration\<close>): the checks of
  tables (\<open>table.go\<close>), chains (\<open>chain.go\<close>), rules (\<open>rule.go\<close>, \<open>natrule.go\<close>, \<open>filterrule.go\<close>) and
  the two handlers (\<open>firewallconfiguration.go\<close>). The list of configurations in the cluster, the decoded
  objects and the random names of \<open>uuid.NewString\<close> are arguments.
\<close>

datatype wh_error =
    ChainNameNil
  | ChainNameDuplicated string
  | TableNameNil
  | TableNameImmutable
  | ListFailed string
  | TableNameUsed string
  | CombinationNotAllowed
  | ManyRulesSets
  | WrongRulesSet ChainType
  | RuleNameVoid
  | RuleNameDuplicated string
  | NatMissingTo string
  | NatUnexpectedTo string
  | NatIncompatible string ChainHook
  | HookInvalid
  | FilterIPValue wh_error
  | BadIPValue
  | IPInvalid string
  | RangeInvalid string
  | MssClampNeedsTCP
  | ChainError string wh_error
  | ForgeChainErrorNil

type_synonym wh_res = "(wh_error, unit) res"

text \<open>Run the checks of a slice one after the other.\<close>

fun check_all :: "('a \<Rightarrow> wh_res) \<Rightarrow> 'a list \<Rightarrow> wh_res" where
  "check_all f [] = Ok ()"
| "check_all f (x # xs) = res_bind (f x) (\<lambda>_. check_all f xs)"

section \<open>Tables\<close>

fun unique_chain_loop :: "string set \<Rightarrow> Chain list \<Rightarrow> wh_res" where
  "unique_chain_loop seen [] = Ok ()"
| "unique_chain_loop seen (ch # chs) =
     (case ch_Name ch of
        None \<Rightarrow> Err ChainNameNil
      | Some name \<Rightarrow>
          if name \<in> seen then Err (ChainNameDuplicated name)
          else unique_chain_loop (insert name seen) chs)"

definition checkUniqueChainName :: "Chain list \<Rightarrow> wh_res" where
  "checkUniqueChainName chs = unique_chain_loop {} chs"

definition checkImmutableTableName :: "FirewallConfiguration \<Rightarrow> FirewallConfiguration \<Rightarrow> wh_res" where
  "checkImmutableTableName fwcfg oldFwcfg =
     (case (t_Name (fc_Table fwcfg), t_Name (fc_Table oldFwcfg)) of
        (Some n, Some old) \<Rightarrow> if old \<noteq> n then Err TableNameImmutable else Ok ()
      | _ \<Rightarrow> Err TableNameNil)"

text \<open>\<open>maps.Equal\<close> on label maps compares their entries.\<close>

definition labels_equal :: "(string, string) gomap \<Rightarrow> (string, string) gomap \<Rightarrow> bool" where
  "labels_equal a b \<longleftrightarrow> set a = set b"

definition check_other_table :: "FirewallConfiguration \<Rightarrow> string \<Rightarrow> FirewallConfiguration \<Rightarrow> wh_res" where
  "check_other_table current name item =
     (if fc_UID item = fc_UID current then Ok ()
      else (case t_Name (fc_Table item) of
              None \<Rightarrow> Err TableNameNil
            | Some n \<Rightarrow>
                if n = name \<and> labels_equal (fc_Labels current) (fc_Labels item)
                then Err (TableNameUsed name) else Ok ()))"

definition checkUniqueTableName :: "string + FirewallConfiguration list \<Rightarrow> FirewallConfiguration \<Rightarrow> wh_res" where
  "checkUniqueTableName items current =
     (case t_Name (fc_Table current) of
        None \<Rightarrow> Err TableNameNil
      | Some name \<Rightarrow>
          (case items of
             Inl e \<Rightarrow> Err (ListFailed e)
           | Inr is \<Rightarrow> check_all (check_other_table current name) is))"

section \<open>Chains\<close>

definition forgeChainError :: "Chain \<Rightarrow> wh_error \<Rightarrow> wh_error" where
  "forgeChainError chain err =
     (case ch_Name chain of None \<Rightarrow> ForgeChainErrorNil | Some n \<Rightarrow> ChainError n err)"

fun in_chain :: "Chain \<Rightarrow> wh_res \<Rightarrow> wh_res" where
  "in_chain chain (Err e) = Err (forgeChainError chain e)"
| "in_chain chain r = r"

definition allowedTableFamilyChainTypeHook :: "TableFamily \<Rightarrow> ChainType \<Rightarrow> ChainHook \<Rightarrow> bool" where
  "allowedTableFamilyChainTypeHook family chainType hook =
     (if family = TableFamilyINet \<or> family = TableFamilyIPv4 \<or> family = TableFamilyIPv6 then
        (case chainType of
           ChainTypeFilter \<Rightarrow>
             (case hook of
                ChainHookIngress \<Rightarrow> family = TableFamilyINet
              | ChainHookForward \<Rightarrow> family = TableFamilyIPv4
              | _ \<Rightarrow> True)
         | ChainTypeNAT \<Rightarrow>
             (case hook of
                ChainHookPrerouting \<Rightarrow> True
              | ChainHookInput \<Rightarrow> True
              | ChainHookOutput \<Rightarrow> True
              | ChainHookPostrouting \<Rightarrow> True
              | _ \<Rightarrow> False)
         | ChainTypeRoute \<Rightarrow> (case hook of ChainHookOutput \<Rightarrow> True | _ \<Rightarrow> False)
         | ChainTypeOther _ \<Rightarrow> False)
      else (case family of
        TableFamilyARP \<Rightarrow>
          (case chainType of
             ChainTypeFilter \<Rightarrow> (case hook of ChainHookInput \<Rightarrow> True | ChainHookOutput \<Rightarrow> True | _ \<Rightarrow> False)
           | _ \<Rightarrow> False)
      | TableFamilyBridge \<Rightarrow>
          (case chainType of
             ChainTypeFilter \<Rightarrow> (case hook of ChainHookIngress \<Rightarrow> False | _ \<Rightarrow> True)
           | _ \<Rightarrow> False)
      | TableFamilyNetdev \<Rightarrow>
          (case chainType of
             ChainTypeFilter \<Rightarrow> (case hook of ChainHookIngress \<Rightarrow> True | _ \<Rightarrow> False)
           | _ \<Rightarrow> False)
      | _ \<Rightarrow> False))"

definition checkAllowedTableFamilyChainTypeHook :: "TableFamily \<Rightarrow> Chain \<Rightarrow> wh_res" where
  "checkAllowedTableFamilyChainTypeHook family chain =
     res_bind (deref (ch_Hook chain)) (\<lambda>hook.
       if \<not> allowedTableFamilyChainTypeHook family (ch_Type chain) hook
       then res_bind (deref (ch_Name chain)) (\<lambda>_. Err CombinationNotAllowed)
       else Ok ())"

definition totalDefinedRulesSets :: "RulesSet \<Rightarrow> nat" where
  "totalDefinedRulesSets rules =
     (if NatRules rules \<noteq> None then 1 else 0) + (if FilterRules rules \<noteq> None then 1 else 0) +
     (if RouteRules rules \<noteq> None then 1 else 0)"

definition checkTotalDefinedRulesSets :: "RulesSet \<Rightarrow> wh_res" where
  "checkTotalDefinedRulesSets rules =
     (if totalDefinedRulesSets rules > 1 then Err ManyRulesSets else Ok ())"

definition allowedChainType :: "ChainType \<Rightarrow> RulesSet \<Rightarrow> wh_res" where
  "allowedChainType chaintype rules =
     (if NatRules rules \<noteq> None \<and> chaintype \<noteq> ChainTypeNAT then Err (WrongRulesSet ChainTypeNAT)
      else if FilterRules rules \<noteq> None \<and> chaintype \<noteq> ChainTypeFilter then Err (WrongRulesSet ChainTypeFilter)
      else if RouteRules rules \<noteq> None \<and> chaintype \<noteq> ChainTypeRoute then Err (WrongRulesSet ChainTypeRoute)
      else Ok ())"

definition checkChain :: "TableFamily \<Rightarrow> Chain \<Rightarrow> wh_res" where
  "checkChain family chain =
     res_bind (in_chain chain (checkAllowedTableFamilyChainTypeHook family chain)) (\<lambda>_.
     res_bind (in_chain chain (checkTotalDefinedRulesSets (ch_Rules chain))) (\<lambda>_.
       in_chain chain (allowedChainType (ch_Type chain) (ch_Rules chain))))"

section \<open>Rules\<close>

definition void_name :: "string option \<Rightarrow> bool" where
  "void_name n \<longleftrightarrow> n = None \<or> n = Some []"

definition checkVoidRuleName :: "Rule list \<Rightarrow> wh_res" where
  "checkVoidRuleName rules =
     check_all (\<lambda>r. if void_name (GetName r) then Err RuleNameVoid else Ok ()) rules"

fun unique_rule_loop :: "string set \<Rightarrow> Rule list \<Rightarrow> wh_res" where
  "unique_rule_loop seen [] = Ok ()"
| "unique_rule_loop seen (r # rs) =
     (case GetName r of
        None \<Rightarrow> Err RuleNameVoid
      | Some name \<Rightarrow>
          if name \<in> seen then Err (RuleNameDuplicated name)
          else unique_rule_loop (insert name seen) rs)"

definition checkUniqueRuleNames :: "Rule list \<Rightarrow> wh_res" where
  "checkUniqueRuleNames rules = unique_rule_loop {} rules"

definition checkRulesInChain :: "Chain \<Rightarrow> wh_res" where
  "checkRulesInChain chain =
     (let rules = FromChainToRulesArray chain in
      res_bind (in_chain chain (checkVoidRuleName rules)) (\<lambda>_.
        in_chain chain (checkUniqueRuleNames rules)))"

text \<open>
  \<open>generateRuleNames\<close> names the rules without a name, in place.
\<close>

fun name_rules :: "('r \<Rightarrow> string option) \<Rightarrow> (string \<Rightarrow> 'r \<Rightarrow> 'r) \<Rightarrow> 'r list \<Rightarrow> string stream \<Rightarrow>
    'r list \<times> string stream" where
  "name_rules getName setName [] uuids = ([], uuids)"
| "name_rules getName setName (r # rs) uuids =
     (if void_name (getName r) then
        (let (rs', uuids') = name_rules getName setName rs (stl uuids)
         in (setName (shd uuids) r # rs', uuids'))
      else (let (rs', uuids') = name_rules getName setName rs uuids in (r # rs', uuids')))"

definition name_slice :: "('r \<Rightarrow> string option) \<Rightarrow> (string \<Rightarrow> 'r \<Rightarrow> 'r) \<Rightarrow> 'r list option \<Rightarrow>
    string stream \<Rightarrow> 'r list option \<times> string stream" where
  "name_slice getName setName s uuids =
     (case s of
        None \<Rightarrow> (None, uuids)
      | Some rs \<Rightarrow> (let (rs', uuids') = name_rules getName setName rs uuids in (Some rs', uuids')))"

definition name_chain :: "Chain \<Rightarrow> string stream \<Rightarrow> Chain \<times> string stream" where
  "name_chain chain uuids =
     (let rules = ch_Rules chain in
      case ch_Type chain of
        ChainTypeFilter \<Rightarrow>
          (let (rs, us) = name_slice fr_Name (\<lambda>n r. r\<lparr>fr_Name := Some n\<rparr>) (FilterRules rules) uuids
           in (chain\<lparr>ch_Rules := rules\<lparr>FilterRules := rs\<rparr>\<rparr>, us))
      | ChainTypeNAT \<Rightarrow>
          (let (rs, us) = name_slice nr_Name (\<lambda>n r. r\<lparr>nr_Name := Some n\<rparr>) (NatRules rules) uuids
           in (chain\<lparr>ch_Rules := rules\<lparr>NatRules := rs\<rparr>\<rparr>, us))
      | ChainTypeRoute \<Rightarrow>
          (let (rs, us) = name_slice rr_Name (\<lambda>n r. r\<lparr>rr_Name := Some n\<rparr>) (RouteRules rules) uuids
           in (chain\<lparr>ch_Rules := rules\<lparr>RouteRules := rs\<rparr>\<rparr>, us))
      | ChainTypeOther _ \<Rightarrow> (chain, uuids))"

fun generateRuleNames :: "Chain list \<Rightarrow> string stream \<Rightarrow> Chain list \<times> string stream" where
  "generateRuleNames [] uuids = ([], uuids)"
| "generateRuleNames (ch # chs) uuids =
     (let (ch', us) = name_chain ch uuids; (chs', us') = generateRuleNames chs us in (ch' # chs', us'))"

section \<open>NAT rules\<close>

definition checkNatRuleTo :: "NatRule \<Rightarrow> wh_res" where
  "checkNatRuleTo natrule =
     (case nr_NatType natrule of
        NatTypeDestination \<Rightarrow>
          if nr_To natrule = None then res_bind (deref (nr_Name natrule)) (\<lambda>n. Err (NatMissingTo n)) else Ok ()
      | NatTypeSource \<Rightarrow>
          if nr_To natrule = None then res_bind (deref (nr_Name natrule)) (\<lambda>n. Err (NatMissingTo n)) else Ok ()
      | NatTypeMasquerade \<Rightarrow>
          if nr_To natrule \<noteq> None then res_bind (deref (nr_Name natrule)) (\<lambda>n. Err (NatUnexpectedTo n)) else Ok ()
      | NatTypeOther _ \<Rightarrow> Ok ())"

definition nat_incompatible :: "ChainHook \<Rightarrow> NatRule \<Rightarrow> wh_res" where
  "nat_incompatible hook rule = res_bind (deref (nr_Name rule)) (\<lambda>n. Err (NatIncompatible n hook))"

definition checkNatRuleChainHook :: "ChainHook \<Rightarrow> NatRule \<Rightarrow> wh_res" where
  "checkNatRuleChainHook hook rule =
     (case hook of
        ChainHookPostrouting \<Rightarrow>
          (case nr_NatType rule of NatTypeDestination \<Rightarrow> nat_incompatible hook rule | _ \<Rightarrow> Ok ())
      | ChainHookPrerouting \<Rightarrow>
          (case nr_NatType rule of
             NatTypeSource \<Rightarrow> nat_incompatible hook rule
           | NatTypeMasquerade \<Rightarrow> nat_incompatible hook rule
           | _ \<Rightarrow> Ok ())
      | ChainHookInput \<Rightarrow>
          (case nr_NatType rule of NatTypeDestination \<Rightarrow> nat_incompatible hook rule | _ \<Rightarrow> Ok ())
      | ChainHookOutput \<Rightarrow>
          (case nr_NatType rule of
             NatTypeSource \<Rightarrow> nat_incompatible hook rule
           | NatTypeMasquerade \<Rightarrow> nat_incompatible hook rule
           | _ \<Rightarrow> Ok ())
      | _ \<Rightarrow> Err HookInvalid)"

definition checkNatRulesInChain :: "Chain \<Rightarrow> wh_res" where
  "checkNatRulesInChain chain =
     check_all (\<lambda>r. res_bind (deref (ch_Hook chain)) (\<lambda>hook.
         res_bind (checkNatRuleChainHook hook r) (\<lambda>_. checkNatRuleTo r)))
       (elems (NatRules (ch_Rules chain)))"

section \<open>Filter rules\<close>

definition checkGranularRangeIP :: "MatchIP \<Rightarrow> wh_res" where
  "checkGranularRangeIP mIP =
     (case GetIPValueRange (ip_Value mIP) of
        None \<Rightarrow> Err BadIPValue
      | Some (addr1, addr2) \<Rightarrow> if addr2 < addr1 then Err (RangeInvalid (ip_Value mIP)) else Ok ())"

definition checkFilterRuleIPValue :: "MatchIP \<Rightarrow> wh_res" where
  "checkFilterRuleIPValue mIP =
     (case GetIPValueType (Some (ip_Value mIP)) of
        Panic \<Rightarrow> Panic
      | Err _ \<Rightarrow> Err BadIPValue
      | Ok vt \<Rightarrow>
          (case vt of
             IPValueTypeIP \<Rightarrow> if ParseIP (ip_Value mIP) = None then Err (IPInvalid (ip_Value mIP)) else Ok ()
           | IPValueTypeSubnet \<Rightarrow> if ParseCIDR (ip_Value mIP) = None then Err (IPInvalid (ip_Value mIP)) else Ok ()
           | IPValueTypeRange \<Rightarrow>
               (case checkGranularRangeIP mIP of
                  Panic \<Rightarrow> Panic
                | Err _ \<Rightarrow> Err (RangeInvalid (ip_Value mIP))
                | Ok _ \<Rightarrow> Ok ())
           | IPValueTypeVoid \<Rightarrow> Err BadIPValue))"

text \<open>\<open>r.Match[i].Proto.Value\<close> panics when a match has no protocol.\<close>

fun checkFilterRuleTCPMssClamp :: "Match list \<Rightarrow> wh_res" where
  "checkFilterRuleTCPMssClamp [] = Err MssClampNeedsTCP"
| "checkFilterRuleTCPMssClamp (m # ms) =
     res_bind (deref (m_Proto m)) (\<lambda>proto.
       if proto_Value proto = L4ProtoTCP \<and> m_Op m = MatchOperationEq then Ok ()
       else checkFilterRuleTCPMssClamp ms)"

definition check_match_ip :: "Match \<Rightarrow> wh_res" where
  "check_match_ip m =
     (case m_IP m of
        None \<Rightarrow> Ok ()
      | Some mIP \<Rightarrow>
          (case checkFilterRuleIPValue mIP of Err e \<Rightarrow> Err (FilterIPValue e) | r \<Rightarrow> r))"

definition checkFilterRule :: "FilterRule \<Rightarrow> wh_res" where
  "checkFilterRule r =
     res_bind (check_all check_match_ip (fr_Match r)) (\<lambda>_.
       case fr_Action r of
         ActionTCPMssClamp \<Rightarrow> checkFilterRuleTCPMssClamp (fr_Match r)
       | _ \<Rightarrow> Ok ())"

definition checkFilterRules :: "FilterRule list \<Rightarrow> wh_res" where
  "checkFilterRules rules = check_all checkFilterRule rules"

section \<open>Handlers\<close>

record fw_request =
  q_Object :: "string + FirewallConfiguration"
  q_OldObject :: "string + FirewallConfiguration"
  q_IsUpdate :: bool

datatype fw_response =
    FwAllowed
  | FwDenied wh_error
  | FwErrored nat string
  | FwPatched FirewallConfiguration

definition check_chain_full :: "TableFamily option \<Rightarrow> Chain \<Rightarrow> wh_res" where
  "check_chain_full family chain =
     res_bind (deref family) (\<lambda>fam.
     res_bind (checkChain fam chain) (\<lambda>_.
     res_bind (checkRulesInChain chain) (\<lambda>_.
       case ch_Type chain of
         ChainTypeNAT \<Rightarrow> in_chain chain (checkNatRulesInChain chain)
       | ChainTypeFilter \<Rightarrow> in_chain chain (checkFilterRules (elems (FilterRules (ch_Rules chain))))
       | _ \<Rightarrow> Ok ())))"

definition check_configuration :: "string + FirewallConfiguration list \<Rightarrow> FirewallConfiguration option \<Rightarrow>
    FirewallConfiguration \<Rightarrow> wh_res" where
  "check_configuration items old cfg =
     res_bind (case old of None \<Rightarrow> Ok () | Some oldCfg \<Rightarrow> checkImmutableTableName cfg oldCfg) (\<lambda>_.
     res_bind (checkUniqueTableName items cfg) (\<lambda>_.
     res_bind (checkUniqueChainName (t_Chains (fc_Table cfg))) (\<lambda>_.
       check_all (check_chain_full (t_Family (fc_Table cfg))) (t_Chains (fc_Table cfg)))))"

definition validate_Handle :: "string + FirewallConfiguration list \<Rightarrow> fw_request \<Rightarrow> fw_response option" where
  "validate_Handle items req =
     (case q_Object req of
        Inl e \<Rightarrow> Some (FwErrored 400 e)
      | Inr cfg \<Rightarrow>
          (case (if q_IsUpdate req then map_sum id Some (q_OldObject req) else Inr None) of
             Inl e \<Rightarrow> Some (FwErrored 400 e)
           | Inr old \<Rightarrow>
               (case check_configuration items old cfg of
                  Panic \<Rightarrow> None
                | Err e \<Rightarrow> Some (FwDenied e)
                | Ok _ \<Rightarrow> Some FwAllowed)))"

definition mutate_Handle :: "string stream \<Rightarrow> fw_request \<Rightarrow> fw_response" where
  "mutate_Handle uuids req =
     (case q_Object req of
        Inl e \<Rightarrow> FwErrored 400 e
      | Inr cfg \<Rightarrow>
          FwPatched (cfg\<lparr>fc_Table := (fc_Table cfg)\<lparr>t_Chains :=
            fst (generateRuleNames (t_Chains (fc_Table cfg)) uuids)\<rparr>\<rparr>))"

end
