(* ===== verification/FirewallWebhookSpec.thy ===== *)
theory FirewallWebhookSpec
  imports FirewallWebhook
begin

text \<open>
  What the firewall webhook accepts, as one predicate on configurations (\<open>valid_configuration\<close>), and
  the names the mutating webhook gives.
\<close>

section \<open>Checks as predicates\<close>

named_theorems wh_ok \<open>when a check of the webhook passes\<close>

lemma res_bind_unit [wh_ok]: "res_bind r (\<lambda>_. s) = Ok () \<longleftrightarrow> r = Ok () \<and> s = Ok ()" for r s :: wh_res
  by (cases r) auto

lemma check_all_Ok [wh_ok]: "check_all f xs = Ok () \<longleftrightarrow> (\<forall>x \<in> set xs. f x = Ok ())"
  by (induction xs) (auto simp: res_bind_unit)

lemma in_chain_Ok [wh_ok]: "in_chain ch r = Ok () \<longleftrightarrow> r = Ok ()"
  by (cases r) auto

lemma unique_chain_loop_Ok:
  "unique_chain_loop seen chs = Ok () \<longleftrightarrow>
    (\<exists>ns. map ch_Name chs = map Some ns \<and> distinct ns \<and> set ns \<inter> seen = {})"
proof (induction seen chs rule: unique_chain_loop.induct)
  case (2 seen ch chs)
  show ?case
  proof (cases "ch_Name ch")
    case None
    then show ?thesis by (auto simp: Cons_eq_map_conv)
  next
    case (Some n)
    have "(\<exists>ns. map ch_Name (ch # chs) = map Some ns \<and> distinct ns \<and> set ns \<inter> seen = {}) \<longleftrightarrow>
        n \<notin> seen \<and> (\<exists>ns. map ch_Name chs = map Some ns \<and> distinct ns \<and> set ns \<inter> insert n seen = {})"
      using Some by (fastforce simp: Cons_eq_map_conv)
    then show ?thesis using 2 Some by simp
  qed
qed simp

lemma unique_rule_loop_Ok:
  "unique_rule_loop seen rs = Ok () \<longleftrightarrow>
    (\<exists>ns. map GetName rs = map Some ns \<and> distinct ns \<and> set ns \<inter> seen = {})"
proof (induction seen rs rule: unique_rule_loop.induct)
  case (2 seen r rs)
  show ?case
  proof (cases "GetName r")
    case None
    then show ?thesis by (auto simp: Cons_eq_map_conv)
  next
    case (Some n)
    have "(\<exists>ns. map GetName (r # rs) = map Some ns \<and> distinct ns \<and> set ns \<inter> seen = {}) \<longleftrightarrow>
        n \<notin> seen \<and> (\<exists>ns. map GetName rs = map Some ns \<and> distinct ns \<and> set ns \<inter> insert n seen = {})"
      using Some by (fastforce simp: Cons_eq_map_conv)
    then show ?thesis using 2 Some by simp
  qed
qed simp

section \<open>Valid configurations\<close>

text \<open>Every element has a name, and no two have the same.\<close>

definition named_apart :: "('a \<Rightarrow> string option) \<Rightarrow> 'a list \<Rightarrow> bool" where
  "named_apart f xs \<longleftrightarrow> (\<exists>ns. map f xs = map Some ns \<and> distinct ns)"

definition ip_value_ok :: "string \<Rightarrow> bool" where
  "ip_value_ok v \<longleftrightarrow> v \<noteq> [] \<and> (ParseCIDR v \<noteq> None \<or> ParseIP v \<noteq> None \<or>
     (\<exists>a b. GetIPValueRange v = Some (a, b) \<and> a \<le> b))"

text \<open>A match on TCP comes before any match without a protocol.\<close>

definition mss_ok :: "Match list \<Rightarrow> bool" where
  "mss_ok ms \<longleftrightarrow> (\<exists>ms1 m ms2. ms = ms1 @ m # ms2 \<and> m_Proto m = Some \<lparr>proto_Value = L4ProtoTCP\<rparr> \<and>
     m_Op m = MatchOperationEq \<and> (\<forall>m' \<in> set ms1. m_Proto m' \<noteq> None))"

definition filter_rule_ok :: "FilterRule \<Rightarrow> bool" where
  "filter_rule_ok r \<longleftrightarrow> (\<forall>m \<in> set (fr_Match r). \<forall>i. m_IP m = Some i \<longrightarrow> ip_value_ok (ip_Value i)) \<and>
     (fr_Action r = ActionTCPMssClamp \<longrightarrow> mss_ok (fr_Match r))"

text \<open>Source NAT belongs to postrouting and input, destination NAT to prerouting and output.\<close>

definition nat_rule_ok :: "ChainHook \<Rightarrow> NatRule \<Rightarrow> bool" where
  "nat_rule_ok hook r \<longleftrightarrow>
     (case nr_NatType r of
        NatTypeDestination \<Rightarrow> hook \<in> {ChainHookPrerouting, ChainHookOutput} \<and> nr_To r \<noteq> None
      | NatTypeSource \<Rightarrow> hook \<in> {ChainHookPostrouting, ChainHookInput} \<and> nr_To r \<noteq> None
      | NatTypeMasquerade \<Rightarrow> hook \<in> {ChainHookPostrouting, ChainHookInput} \<and> nr_To r = None
      | NatTypeOther _ \<Rightarrow> hook \<in> {ChainHookPrerouting, ChainHookOutput, ChainHookPostrouting, ChainHookInput})"

text \<open>The combinations of family, chain type and hook, as a table.\<close>

definition hooks_of :: "TableFamily \<Rightarrow> ChainType \<Rightarrow> ChainHook set" where
  "hooks_of family ct =
     (case ct of
        ChainTypeFilter \<Rightarrow>
          (case family of
             TableFamilyINet \<Rightarrow> - {ChainHookForward}
           | TableFamilyIPv4 \<Rightarrow> - {ChainHookIngress}
           | TableFamilyIPv6 \<Rightarrow> - {ChainHookIngress, ChainHookForward}
           | TableFamilyARP \<Rightarrow> {ChainHookInput, ChainHookOutput}
           | TableFamilyBridge \<Rightarrow> - {ChainHookIngress}
           | TableFamilyNetdev \<Rightarrow> {ChainHookIngress}
           | TableFamilyOther _ \<Rightarrow> {})
      | ChainTypeNAT \<Rightarrow>
          (if family \<in> {TableFamilyINet, TableFamilyIPv4, TableFamilyIPv6}
           then {ChainHookPrerouting, ChainHookInput, ChainHookOutput, ChainHookPostrouting} else {})
      | ChainTypeRoute \<Rightarrow>
          (if family \<in> {TableFamilyINet, TableFamilyIPv4, TableFamilyIPv6} then {ChainHookOutput} else {})
      | ChainTypeOther _ \<Rightarrow> {})"

definition rules_sets_ok :: "Chain \<Rightarrow> bool" where
  "rules_sets_ok ch \<longleftrightarrow> (NatRules (ch_Rules ch) \<noteq> None \<longrightarrow> ch_Type ch = ChainTypeNAT) \<and>
     (FilterRules (ch_Rules ch) \<noteq> None \<longrightarrow> ch_Type ch = ChainTypeFilter) \<and>
     (RouteRules (ch_Rules ch) \<noteq> None \<longrightarrow> ch_Type ch = ChainTypeRoute)"

definition chain_ok :: "TableFamily \<Rightarrow> Chain \<Rightarrow> bool" where
  "chain_ok family ch \<longleftrightarrow> (\<exists>hook. ch_Hook ch = Some hook \<and> hook \<in> hooks_of family (ch_Type ch) \<and>
     rules_sets_ok ch \<and> named_apart GetName (FromChainToRulesArray ch) \<and>
     (\<forall>r \<in> set (FromChainToRulesArray ch). GetName r \<noteq> Some []) \<and>
     (ch_Type ch = ChainTypeFilter \<longrightarrow> (\<forall>r \<in> set (elems (FilterRules (ch_Rules ch))). filter_rule_ok r)) \<and>
     (ch_Type ch = ChainTypeNAT \<longrightarrow> (\<forall>r \<in> set (elems (NatRules (ch_Rules ch))). nat_rule_ok hook r)))"

definition table_name_free :: "FirewallConfiguration list \<Rightarrow> FirewallConfiguration \<Rightarrow> bool" where
  "table_name_free items cfg \<longleftrightarrow> (\<forall>item \<in> set items. fc_UID item \<noteq> fc_UID cfg \<longrightarrow>
     t_Name (fc_Table item) \<noteq> None \<and>
     \<not> (t_Name (fc_Table item) = t_Name (fc_Table cfg) \<and> set (fc_Labels cfg) = set (fc_Labels item)))"

definition valid_configuration :: "FirewallConfiguration list \<Rightarrow> FirewallConfiguration \<Rightarrow> bool" where
  "valid_configuration items cfg \<longleftrightarrow> t_Name (fc_Table cfg) \<noteq> None \<and> table_name_free items cfg \<and>
     named_apart ch_Name (t_Chains (fc_Table cfg)) \<and>
     (\<forall>ch \<in> set (t_Chains (fc_Table cfg)). \<exists>family. t_Family (fc_Table cfg) = Some family \<and> chain_ok family ch)"

section \<open>The checks decide these predicates\<close>

lemma hooks_of_allowed: "allowedTableFamilyChainTypeHook family ct hook \<longleftrightarrow> hook \<in> hooks_of family ct"
  by (cases family; cases ct; cases hook) (simp_all add: allowedTableFamilyChainTypeHook_def hooks_of_def)

lemma checkUniqueChainName_Ok [wh_ok]: "checkUniqueChainName chs = Ok () \<longleftrightarrow> named_apart ch_Name chs"
  by (simp add: checkUniqueChainName_def unique_chain_loop_Ok named_apart_def)

lemma checkUniqueRuleNames_Ok [wh_ok]: "checkUniqueRuleNames rs = Ok () \<longleftrightarrow> named_apart GetName rs"
  by (simp add: checkUniqueRuleNames_def unique_rule_loop_Ok named_apart_def)

lemma named_apart_not_None:
  assumes "named_apart f xs"
  shows "\<forall>x \<in> set xs. f x \<noteq> None"
proof
  fix x
  assume "x \<in> set xs"
  obtain ns where "map f xs = map Some ns" using assms by (auto simp: named_apart_def)
  then have "f x \<in> Some ` set ns" using \<open>x \<in> set xs\<close> by (metis imageI set_map)
  then show "f x \<noteq> None" by auto
qed

lemma checkRulesInChain_Ok [wh_ok]:
  "checkRulesInChain ch = Ok () \<longleftrightarrow> named_apart GetName (FromChainToRulesArray ch) \<and>
    (\<forall>r \<in> set (FromChainToRulesArray ch). GetName r \<noteq> Some [])"
proof -
  have "checkRulesInChain ch = Ok () \<longleftrightarrow>
      (\<forall>r \<in> set (FromChainToRulesArray ch). \<not> void_name (GetName r)) \<and>
      named_apart GetName (FromChainToRulesArray ch)"
    by (simp add: checkRulesInChain_def Let_def wh_ok checkVoidRuleName_def)
  then show ?thesis
    using named_apart_not_None [of GetName "FromChainToRulesArray ch"] unfolding void_name_def by blast
qed

lemma checkTotal_Ok: "checkTotalDefinedRulesSets rs = Ok () \<and> allowedChainType ct rs = Ok () \<longleftrightarrow>
    (NatRules rs \<noteq> None \<longrightarrow> ct = ChainTypeNAT) \<and> (FilterRules rs \<noteq> None \<longrightarrow> ct = ChainTypeFilter) \<and>
    (RouteRules rs \<noteq> None \<longrightarrow> ct = ChainTypeRoute)"
  by (auto simp: checkTotalDefinedRulesSets_def totalDefinedRulesSets_def allowedChainType_def)

lemma checkAllowed_Ok [wh_ok]: "checkAllowedTableFamilyChainTypeHook family ch = Ok () \<longleftrightarrow>
    (\<exists>hook. ch_Hook ch = Some hook \<and> hook \<in> hooks_of family (ch_Type ch))"
  by (cases "ch_Hook ch"; cases "ch_Name ch")
    (auto simp: checkAllowedTableFamilyChainTypeHook_def hooks_of_allowed)

lemma checkChain_Ok [wh_ok]: "checkChain family ch = Ok () \<longleftrightarrow>
    (\<exists>hook. ch_Hook ch = Some hook \<and> hook \<in> hooks_of family (ch_Type ch)) \<and> rules_sets_ok ch"
  using checkTotal_Ok [of "ch_Rules ch" "ch_Type ch"]
  by (auto simp: checkChain_def wh_ok rules_sets_ok_def)

lemma nat_incompatible_not_Ok [simp]: "nat_incompatible hook r \<noteq> Ok ()"
  by (cases "nr_Name r") (simp_all add: nat_incompatible_def)

lemma bind_Err_not_Ok [simp]: "res_bind (deref p) (\<lambda>n. Err (f n)) \<noteq> Ok ()"
  by (cases p) simp_all

lemma nat_checks_Ok [wh_ok]:
  "res_bind (checkNatRuleChainHook hook r) (\<lambda>_. checkNatRuleTo r) = Ok () \<longleftrightarrow> nat_rule_ok hook r"
  by (cases "nr_NatType r"; cases hook)
    (auto simp: res_bind_unit checkNatRuleChainHook_def checkNatRuleTo_def nat_rule_ok_def)

lemma checkNatRulesInChain_Ok [wh_ok]:
  "ch_Hook ch = Some hook \<Longrightarrow>
    checkNatRulesInChain ch = Ok () \<longleftrightarrow> (\<forall>r \<in> set (elems (NatRules (ch_Rules ch))). nat_rule_ok hook r)"
  by (simp add: checkNatRulesInChain_def check_all_Ok nat_checks_Ok)

lemma checkFilterRuleIPValue_Ok [wh_ok]: "checkFilterRuleIPValue i = Ok () \<longleftrightarrow> ip_value_ok (ip_Value i)"
proof (cases "GetIPValueRange (ip_Value i)")
  case None
  then show ?thesis
    by (auto simp: checkFilterRuleIPValue_def GetIPValueType_def ip_value_ok_def GetIPValueTypeRange_def)
next
  case (Some ab)
  then show ?thesis
    by (cases ab) (auto simp: checkFilterRuleIPValue_def GetIPValueType_def ip_value_ok_def
        GetIPValueTypeRange_def checkGranularRangeIP_def)
qed

lemma mss_ok_Cons:
  "mss_ok (m # ms) \<longleftrightarrow>
    m_Proto m = Some \<lparr>proto_Value = L4ProtoTCP\<rparr> \<and> m_Op m = MatchOperationEq \<or> m_Proto m \<noteq> None \<and> mss_ok ms"
  (is "_ \<longleftrightarrow> ?tcp \<or> ?later")
proof
  assume "mss_ok (m # ms)"
  then obtain ms1 x ms2 where x: "m # ms = ms1 @ x # ms2" "m_Proto x = Some \<lparr>proto_Value = L4ProtoTCP\<rparr>"
      "m_Op x = MatchOperationEq" "\<forall>m' \<in> set ms1. m_Proto m' \<noteq> None"
    unfolding mss_ok_def by blast
  then show "?tcp \<or> ?later"
  proof (cases ms1)
    case Nil
    then show ?thesis using x by simp
  next
    case (Cons a ms1')
    then have "m_Proto m \<noteq> None" "mss_ok ms" using x unfolding mss_ok_def by auto
    then show ?thesis by simp
  qed
next
  assume "?tcp \<or> ?later"
  then show "mss_ok (m # ms)"
  proof
    assume ?tcp
    then show ?thesis unfolding mss_ok_def by (intro exI [of _ "[]"]) simp
  next
    assume l: ?later
    then obtain ms1 x ms2 where "ms = ms1 @ x # ms2" "m_Proto x = Some \<lparr>proto_Value = L4ProtoTCP\<rparr>"
        "m_Op x = MatchOperationEq" "\<forall>m' \<in> set ms1. m_Proto m' \<noteq> None"
      unfolding mss_ok_def by blast
    then show ?thesis using l unfolding mss_ok_def
      by (intro exI [of _ "m # ms1"] exI [of _ x] exI [of _ ms2]) simp
  qed
qed

lemma checkFilterRuleTCPMssClamp_Ok [wh_ok]: "checkFilterRuleTCPMssClamp ms = Ok () \<longleftrightarrow> mss_ok ms"
proof (induction ms)
  case Nil
  then show ?case by (simp add: mss_ok_def)
next
  case (Cons m ms)
  then show ?case unfolding mss_ok_Cons by (cases "m_Proto m") auto
qed

lemma checkFilterRules_Ok [wh_ok]: "checkFilterRules rs = Ok () \<longleftrightarrow> (\<forall>r \<in> set rs. filter_rule_ok r)"
proof -
  have "check_match_ip m = Ok () \<longleftrightarrow> (\<forall>i. m_IP m = Some i \<longrightarrow> ip_value_ok (ip_Value i))" for m
  proof (cases "m_IP m")
    case (Some i)
    then show ?thesis using checkFilterRuleIPValue_Ok [of i]
      by (cases "checkFilterRuleIPValue i") (simp_all add: check_match_ip_def)
  qed (simp add: check_match_ip_def)
  then have "checkFilterRule r = Ok () \<longleftrightarrow> filter_rule_ok r" for r
    by (simp add: checkFilterRule_def filter_rule_ok_def wh_ok split: FilterAction.split)
  then show ?thesis by (simp add: checkFilterRules_def check_all_Ok)
qed

lemma check_chain_full_Ok [wh_ok]:
  "check_chain_full fam ch = Ok () \<longleftrightarrow> (\<exists>family. fam = Some family \<and> chain_ok family ch)"
proof (cases fam)
  case None
  then show ?thesis by (simp add: check_chain_full_def)
next
  case (Some family)
  show ?thesis
  proof (cases "ch_Hook ch")
    case None
    then show ?thesis using Some by (simp add: check_chain_full_def wh_ok chain_ok_def)
  next
    case (Some hook)
    then show ?thesis using \<open>fam = Some family\<close>
      by (cases "ch_Type ch") (auto simp: check_chain_full_def wh_ok chain_ok_def)
  qed
qed

lemma checkUniqueTableName_Ok [wh_ok]:
  "checkUniqueTableName items cfg = Ok () \<longleftrightarrow>
    t_Name (fc_Table cfg) \<noteq> None \<and> (\<exists>is. items = Inr is \<and> table_name_free is cfg)"
proof -
  have "check_other_table cfg name item = Ok () \<longleftrightarrow> (fc_UID item \<noteq> fc_UID cfg \<longrightarrow>
      t_Name (fc_Table item) \<noteq> None \<and>
      \<not> (t_Name (fc_Table item) = Some name \<and> set (fc_Labels cfg) = set (fc_Labels item)))" for name item
    by (auto simp: check_other_table_def labels_equal_def split: option.split)
  then show ?thesis
    by (auto simp: checkUniqueTableName_def check_all_Ok table_name_free_def split: option.split sum.split)
qed

lemma check_configuration_Ok:
  "check_configuration items old cfg = Ok () \<longleftrightarrow>
    (\<forall>oldCfg. old = Some oldCfg \<longrightarrow> t_Name (fc_Table oldCfg) = t_Name (fc_Table cfg)) \<and>
    (\<exists>is. items = Inr is \<and> valid_configuration is cfg)"
proof -
  have "checkImmutableTableName cfg oldCfg = Ok () \<longleftrightarrow>
      t_Name (fc_Table cfg) \<noteq> None \<and> t_Name (fc_Table oldCfg) = t_Name (fc_Table cfg)" for oldCfg
    by (auto simp: checkImmutableTableName_def split: option.split)
  then show ?thesis
    by (cases old) (auto simp: check_configuration_def wh_ok valid_configuration_def)
qed

section \<open>Generated names\<close>

text \<open>The names of the rules after the mutating webhook: kept where given, random where void.\<close>

fun named_by :: "string option list \<Rightarrow> string stream \<Rightarrow> string option list" where
  "named_by [] us = []"
| "named_by (n # ns) us = (if void_name n then Some (shd us) # named_by ns (stl us) else n # named_by ns us)"

lemma name_rules_named_by:
  assumes "\<And>n r. getName (setName n r) = Some n"
  shows "map getName (fst (name_rules getName setName rs us)) = named_by (map getName rs) us"
  by (induction rs arbitrary: us) (simp_all add: assms split_beta Let_def)

lemma name_chain_names:
  "map GetName (FromChainToRulesArray (fst (name_chain ch us))) =
    named_by (map GetName (FromChainToRulesArray ch)) us"
proof (cases "ch_Type ch")
  case ChainTypeFilter
  then show ?thesis
    using name_rules_named_by [of fr_Name "\<lambda>n r. r\<lparr>fr_Name := Some n\<rparr>" "elems (FilterRules (ch_Rules ch))" us]
    by (cases "FilterRules (ch_Rules ch)")
      (simp_all add: name_chain_def name_slice_def FromChainToRulesArray_def elems_def split_beta Let_def comp_def)
next
  case ChainTypeNAT
  then show ?thesis
    using name_rules_named_by [of nr_Name "\<lambda>n r. r\<lparr>nr_Name := Some n\<rparr>" "elems (NatRules (ch_Rules ch))" us]
    by (cases "NatRules (ch_Rules ch)")
      (simp_all add: name_chain_def name_slice_def FromChainToRulesArray_def elems_def split_beta Let_def comp_def)
next
  case ChainTypeRoute
  then show ?thesis
    using name_rules_named_by [of rr_Name "\<lambda>n r. r\<lparr>rr_Name := Some n\<rparr>" "elems (RouteRules (ch_Rules ch))" us]
    by (cases "RouteRules (ch_Rules ch)")
      (simp_all add: name_chain_def name_slice_def FromChainToRulesArray_def elems_def split_beta Let_def comp_def)
next
  case (ChainTypeOther s)
  then show ?thesis by (simp add: name_chain_def FromChainToRulesArray_def)
qed

end
