(* ===== verification/FirewallKernel.thy ===== *)
theory FirewallKernel
  imports FirewallWebhookSpec FirewallReconcile GoMap
begin

text \<open>
  What the controller relies on in nftables. A ruleset maps a table and a name to a chain and its rules;
  a chain without hook, priority or policy is a regular one, which other rules may jump to.
  \<open>exec\<close> is the documented effect of the commands the controller sends, \<open>None\<close> where the kernel
  refuses them or where nothing is said: only base chains are added and deleted. \<open>kernel_ok\<close> states that the library reports the ruleset of
  the kernel (\<open>view\<close>) and that a flush executes the queue. \<open>ruleset_lib\<close> is such a library.
\<close>

section \<open>Rulesets\<close>

type_synonym chain_key = "nft_table \<times> string"

record ruleset =
  rs_At :: "(chain_key, nft_chain \<times> nft_rule list) gomap"
  rs_Next :: nat

definition key_of :: "nft_chain \<Rightarrow> chain_key" where
  "key_of c = (nc_Table c, nc_Name c)"

definition base_chain :: "nft_chain \<Rightarrow> bool" where
  "base_chain c \<longleftrightarrow> nc_Hooknum c \<noteq> None \<and> nc_Priority c \<noteq> None \<and> nc_Policy c \<noteq> None"

abbreviation chain_at :: "ruleset \<Rightarrow> chain_key \<Rightarrow> (nft_chain \<times> nft_rule list) option" where
  "chain_at v key \<equiv> map_of (rs_At v) key"

definition rules_at :: "ruleset \<Rightarrow> chain_key \<Rightarrow> nft_rule list" where
  "rules_at v key = (case chain_at v key of None \<Rightarrow> [] | Some (_, rs) \<Rightarrow> rs)"

definition entry_ok :: "nat \<Rightarrow> chain_key \<Rightarrow> nft_chain \<times> nft_rule list \<Rightarrow> bool" where
  "entry_ok n key e \<longleftrightarrow> key_of (fst e) = key \<and> distinct (map r_Handle (snd e)) \<and>
     (\<forall>r \<in> set (snd e). r_Handle r < n)"

definition wf_ruleset :: "ruleset \<Rightarrow> bool" where
  "wf_ruleset v \<longleftrightarrow> wf_map (rs_At v) \<and>
     (\<forall>key e. chain_at v key = Some e \<longrightarrow> entry_ok (rs_Next v) key e)"

text \<open>A table that holds base chains only.\<close>

definition own_table :: "nft_table \<Rightarrow> ruleset \<Rightarrow> bool" where
  "own_table T v \<longleftrightarrow> (\<forall>n c rs. chain_at v (T, n) = Some (c, rs) \<longrightarrow> base_chain c)"

section \<open>Commands\<close>

fun exec1 :: "command \<Rightarrow> ruleset \<Rightarrow> ruleset option" where
  "exec1 (AddTable t) v = Some v"
| "exec1 (DelTable t) v = None"
| "exec1 (AddChain c) v =
     (if base_chain c \<and> chain_at v (key_of c) = None
      then Some (v\<lparr>rs_At := put (key_of c) (c, []) (rs_At v)\<rparr>) else None)"
| "exec1 (DelChain c) v =
     (case chain_at v (key_of c) of
        None \<Rightarrow> None
      | Some (c', rs) \<Rightarrow> if base_chain c' then Some (v\<lparr>rs_At := del (key_of c) (rs_At v)\<rparr>) else None)"
| "exec1 (AddRule c f) v =
     (case chain_at v (key_of c) of
        None \<Rightarrow> None
      | Some (c', rs) \<Rightarrow>
          Some (v\<lparr>rs_At := put (key_of c) (c', rs @ [\<lparr>r_Handle = rs_Next v,
                  r_Comment = Some (f_Comment f), r_Exprs = f_Exprs f\<rparr>]) (rs_At v),
                  rs_Next := Suc (rs_Next v)\<rparr>))"
| "exec1 (DelRule c r) v =
     (case chain_at v (key_of c) of
        None \<Rightarrow> None
      | Some (c', rs) \<Rightarrow>
          if r_Handle r \<in> r_Handle ` set rs
          then Some (v\<lparr>rs_At := put (key_of c) (c', filter (\<lambda>x. r_Handle x \<noteq> r_Handle r) rs) (rs_At v)\<rparr>)
          else None)"

fun exec :: "command list \<Rightarrow> ruleset \<Rightarrow> ruleset option" where
  "exec [] v = Some v"
| "exec (cmd # cmds) v = (case exec1 cmd v of None \<Rightarrow> None | Some v' \<Rightarrow> exec cmds v')"

lemma exec_append: "exec (xs @ ys) v = (case exec xs v of None \<Rightarrow> None | Some v' \<Rightarrow> exec ys v')"
  by (induction xs arbitrary: v) (auto split: option.splits)

section \<open>The library\<close>

text \<open>A rule read back has the comment and the expressions it was added with, but for those
  \<open>filterUnstableExprs\<close> drops.\<close>

definition read_as :: "nft_rule \<Rightarrow> nft_rule \<Rightarrow> bool" where
  "read_as r r' \<longleftrightarrow> r_Handle r' = r_Handle r \<and> r_Comment r' = r_Comment r \<and>
     filterUnstableExprs (r_Exprs r') = filterUnstableExprs (r_Exprs r)"

definition kernel_ok :: "'k nft_lib \<Rightarrow> ('k \<Rightarrow> ruleset) \<Rightarrow> bool" where
  "kernel_ok lib view \<longleftrightarrow> (\<forall>k. wf_ruleset (view k) \<longrightarrow>
     (\<forall>family. family \<noteq> FamilyUnspecified \<longrightarrow>
        (\<exists>cs. lib_ListChains lib k family = Inr cs \<and> distinct (map key_of cs) \<and>
           (\<forall>c. c \<in> set cs \<longleftrightarrow> nt_Family (nc_Table c) = family \<and>
              (\<exists>rs. chain_at (view k) (key_of c) = Some (c, rs))))) \<and>
     (\<forall>c. \<exists>rs. lib_GetRules lib k c = Inr rs \<and> list_all2 read_as (rules_at (view k) (key_of c)) rs) \<and>
     (\<forall>cmds v. exec cmds (view k) = Some v \<longrightarrow> (\<exists>k'. lib_Flush lib k cmds = Inr k' \<and> view k' = v)))"

definition ruleset_lib :: "(nft_expr \<Rightarrow> bytes option) \<Rightarrow> ruleset nft_lib" where
  "ruleset_lib marshal =
     \<lparr>lib_ListChains = (\<lambda>v family. Inr (filter (\<lambda>c. nt_Family (nc_Table c) = family) (map (fst \<circ> snd) (rs_At v)))),
      lib_GetRules = (\<lambda>v c. Inr (rules_at v (key_of c))),
      lib_Flush = (\<lambda>v cmds. case exec cmds v of None \<Rightarrow> Inl ''refused'' | Some v' \<Rightarrow> Inr v'),
      lib_Marshal = marshal\<rparr>"

lemma key_of_entry: "wf_ruleset v \<Longrightarrow> chain_at v key = Some (c, rs) \<Longrightarrow> key_of c = key"
  unfolding wf_ruleset_def entry_ok_def by fastforce

lemma listed_chains:
  assumes wf: "wf_ruleset v"
  shows "distinct (map key_of (map (fst \<circ> snd) (rs_At v)))"
    and "c \<in> set (map (fst \<circ> snd) (rs_At v)) \<longleftrightarrow> (\<exists>rs. chain_at v (key_of c) = Some (c, rs))"
proof -
  have m: "wf_map (rs_At v)" using wf by (simp add: wf_ruleset_def)
  have ent: "key_of c = key" if "(key, c, rs) \<in> set (rs_At v)" for key c rs
    using key_of_entry [OF wf] that wf_map_mem [OF m] by blast
  then have "map (key_of \<circ> (fst \<circ> snd)) (rs_At v) = map fst (rs_At v)" by auto
  then show "distinct (map key_of (map (fst \<circ> snd) (rs_At v)))"
    using m by (simp only: map_map wf_map_def)
  have "(\<exists>rs. chain_at v (key_of c) = Some (c, rs)) \<longleftrightarrow> (\<exists>rs. (key_of c, c, rs) \<in> set (rs_At v))"
    using wf_map_mem [OF m] by simp
  also have "\<dots> \<longleftrightarrow> (\<exists>key rs. (key, c, rs) \<in> set (rs_At v))" using ent by blast
  also have "\<dots> \<longleftrightarrow> c \<in> set (map (fst \<circ> snd) (rs_At v))" by (force simp: image_iff)
  finally show "c \<in> set (map (fst \<circ> snd) (rs_At v)) \<longleftrightarrow> (\<exists>rs. chain_at v (key_of c) = Some (c, rs))" by simp
qed

lemma ruleset_lib_ok: "kernel_ok (ruleset_lib marshal) (\<lambda>v. v)"
proof -
  have "list_all2 read_as rs rs" for rs by (rule list.rel_refl) (simp add: read_as_def)
  then show ?thesis
    unfolding kernel_ok_def ruleset_lib_def nft_lib.simps sum.inject ex_simps simp_thms
    by (intro allI impI conjI)
      (simp_all add: distinct_map_filter listed_chains conj_commute del: map_map set_map distinct_map)
qed

end
