(* ===== verification/FirewallClean.thy ===== *)
theory FirewallClean
  imports FirewallKernel
begin

text \<open>
  The first half of a reconciliation, \<open>cleanTable\<close>: which commands it queues for the chains the kernel
  lists, and the ruleset after they are executed.
\<close>

section \<open>Outdated chains and rules\<close>

definition kept_rule :: "(nft_expr \<Rightarrow> bytes option) \<Rightarrow> NftFamily \<Rightarrow> Rule list \<Rightarrow> nft_rule \<Rightarrow> bool" where
  "kept_rule marshal fam rules r \<longleftrightarrow> isRuleOutdated marshal fam r rules = Ok False"

definition forges :: "NftFamily \<Rightarrow> Rule \<Rightarrow> bool" where
  "forges fam rule \<longleftrightarrow> (\<exists>f. forge fam rule = Ok f)"

lemma ptr_differs_Ok: "p \<noteq> None \<Longrightarrow> \<exists>b. ptr_differs want p f = Ok b"
  by (auto simp: ptr_differs_def split: option.splits)

lemma isChainModified_base:
  assumes "base_chain c"
  shows "\<exists>b. isChainModified c ch = Ok b"
proof -
  obtain b1 b2 b3 where "ptr_differs (ch_Hook ch) (nc_Hooknum c) getHooknum = Ok b1"
    "ptr_differs (ch_Priority ch) (nc_Priority c) id = Ok b2"
    "ptr_differs (ch_Policy ch) (nc_Policy c) getPolicy = Ok b3"
    using assms ptr_differs_Ok unfolding base_chain_def by metis
  then show ?thesis by (simp add: isChainModified_def ex_bool_eq)
qed

lemma isChainOutdated_base:
  assumes "base_chain c"
  shows "isChainOutdated c chs = Ok (True, None) \<or> (\<exists>b ch. isChainOutdated c chs = Ok (b, Some ch))"
proof (induction chs)
  case (Cons ch chs)
  then show ?case using isChainModified_base [OF assms, of ch] by auto
qed simp

lemma isChainOutdated_current:
  "isChainOutdated c chs = Ok (False, Some ch) \<Longrightarrow>
     ch \<in> set chs \<and> ch_Name ch = Some (nc_Name c) \<and> isChainModified c ch = Ok False"
  by (induction chs) (auto simp: res_bind_Ok split: if_splits)

lemma Rule_Equal_Ok: "forges fam rule \<Longrightarrow> \<exists>b. Rule_Equal marshal fam rule r = Ok b"
  by (auto simp: forges_def Rule_Equal_def split: option.splits)

lemma isRuleOutdated_Ok:
  assumes "\<forall>rule \<in> set rules. forges fam rule"
  shows "\<exists>b. isRuleOutdated marshal fam r rules = Ok b"
  using assms
proof (induction rules)
  case (Cons rule rules)
  then obtain b where "Rule_Equal marshal fam rule r = Ok b" using Rule_Equal_Ok by force
  then show ?case using Cons by (cases "r_Comment r") (simp_all add: ex_bool_eq)
qed (simp add: ex_bool_eq)

lemma kept_rule_named:
  assumes "kept_rule marshal fam rules r"
  shows "\<exists>rule \<in> set rules. \<exists>n. r_Comment r = Some n \<and> GetName rule = Some n \<and>
    Rule_Equal marshal fam rule r = Ok True"
  using assms unfolding kept_rule_def
  by (induction rules) (auto simp: res_bind_Ok split: option.splits if_splits)

lemma Rule_Equal_read: "read_as r r' \<Longrightarrow> Rule_Equal marshal fam rule r' = Rule_Equal marshal fam rule r"
  by (auto simp: Rule_Equal_def read_as_def compareRuleExpressions_def split: res.splits option.splits)

lemma kept_rule_read: "read_as r r' \<Longrightarrow> kept_rule marshal fam rules r' = kept_rule marshal fam rules r"
proof -
  assume "read_as r r'"
  then have "isRuleOutdated marshal fam r' rules = isRuleOutdated marshal fam r rules"
  proof (induction rules)
    case (Cons rule rules)
    then show ?case using Rule_Equal_read [OF Cons.prems]
      by (cases "r_Comment r") (simp_all add: read_as_def)
  qed simp
  then show ?thesis by (simp add: kept_rule_def)
qed

section \<open>The queue\<close>

definition sends :: "('k, 'a) fw_res \<Rightarrow> 'k Conn \<Rightarrow> 'a \<Rightarrow> command list \<Rightarrow> bool" where
  "sends res conn x cmds \<longleftrightarrow> res = FwOk x (conn\<lparr>c_Queue := c_Queue conn @ cmds\<rparr>)"

lemma sends_bind:
  assumes "sends r conn x cmds" and "sends (f x (conn\<lparr>c_Queue := c_Queue conn @ cmds\<rparr>))
      (conn\<lparr>c_Queue := c_Queue conn @ cmds\<rparr>) y cmds'"
  shows "sends (fw_bind r f) conn y (cmds @ cmds')"
  using assms by (simp add: sends_def)

definition rule_dels :: "'k nft_lib \<Rightarrow> nft_chain \<Rightarrow> Rule list \<Rightarrow> nft_rule list \<Rightarrow> command list" where
  "rule_dels lib c rules rs =
     map (DelRule c) (filter (\<lambda>r. \<not> kept_rule (lib_Marshal lib) (nt_Family (nc_Table c)) rules r) rs)"

lemma clean_rules_loop_sends:
  assumes "\<forall>rule \<in> set rules. forges (nt_Family (nc_Table c)) rule"
  shows "sends (clean_rules_loop lib c rules rs conn) conn () (rule_dels lib c rules rs)"
proof (induction rs arbitrary: conn)
  case (Cons r rs)
  obtain b where b: "isRuleOutdated (lib_Marshal lib) (nt_Family (nc_Table c)) r rules = Ok b"
    using isRuleOutdated_Ok [OF assms] by blast
  then show ?case
    using Cons [of "if b then queue (DelRule c r) conn else conn"]
    by (cases b) (simp_all add: sends_def rule_dels_def kept_rule_def queue_def)
qed (simp add: sends_def rule_dels_def)

definition chain_dels :: "'k nft_lib \<Rightarrow> Chain list \<Rightarrow> (nft_chain \<Rightarrow> nft_rule list) \<Rightarrow> nft_chain \<Rightarrow> command list" where
  "chain_dels lib chs read c =
     (case isChainOutdated c chs of
        Ok (False, Some ch) \<Rightarrow> rule_dels lib c (FromChainToRulesArray ch) (read c)
      | _ \<Rightarrow> [DelChain c])"

lemma clean_chains_loop_sends:
  assumes name: "t_Name table = Some nm"
    and base: "\<forall>c \<in> set cs. nt_Name (nc_Table c) = nm \<longrightarrow> base_chain c"
    and forge: "\<forall>c \<in> set cs. \<forall>ch \<in> set (t_Chains table). \<forall>rule \<in> set (FromChainToRulesArray ch).
      forges (nt_Family (nc_Table c)) rule"
    and read: "\<forall>c. lib_GetRules lib (c_Kernel conn) c = Inr (read c)"
  shows "sends (clean_chains_loop lib table cs conn) conn ()
    (concat (map (\<lambda>c. if nt_Name (nc_Table c) = nm then chain_dels lib (t_Chains table) read c else []) cs))"
  using base forge read
proof (induction cs arbitrary: conn)
  case (Cons c cs)
  let ?q = "\<lambda>cmds. conn\<lparr>c_Queue := c_Queue conn @ cmds\<rparr>"
  have ih: "sends (clean_chains_loop lib table cs (?q cmds)) (?q cmds) ()
      (concat (map (\<lambda>c. if nt_Name (nc_Table c) = nm then chain_dels lib (t_Chains table) read c else []) cs))" for cmds
    using Cons.prems by (intro Cons.IH) simp_all
  show ?case
  proof (cases "nt_Name (nc_Table c) = nm")
    case False
    then show ?thesis using ih [of "[]"] name by simp
  next
    case True
    consider ch where "isChainOutdated c (t_Chains table) = Ok (False, Some ch)"
      | x where "isChainOutdated c (t_Chains table) = Ok (True, x)"
      using isChainOutdated_base [of c] Cons.prems(1) True by fastforce
    then show ?thesis
    proof cases
      case (1 ch)
      then have "\<forall>rule \<in> set (FromChainToRulesArray ch). forges (nt_Family (nc_Table c)) rule"
        using isChainOutdated_current [OF 1] bspec [OF Cons.prems(2), of c] by fastforce
      then have "sends (cleanChain lib ch c conn) conn () (chain_dels lib (t_Chains table) read c)"
        using clean_rules_loop_sends 1 Cons.prems(3) by (simp add: cleanChain_def chain_dels_def)
      from sends_bind [OF this, of "\<lambda>_. clean_chains_loop lib table cs"] ih
      show ?thesis using 1 True name by simp
    next
      case (2 x)
      then show ?thesis
        using True name ih [of "[DelChain c]"] by (simp add: queue_def sends_def chain_dels_def)
    qed
  qed
qed (simp add: sends_def)

section \<open>Executing the deletions\<close>

lemma entry_ok_mono: "entry_ok n key e \<Longrightarrow> n \<le> m \<Longrightarrow> entry_ok m key e"
  unfolding entry_ok_def by fastforce

lemma wf_ruleset_map: "wf_ruleset v \<Longrightarrow> wf_map (rs_At v)"
  unfolding wf_ruleset_def by blast

lemma wf_ruleset_entry: "wf_ruleset v \<Longrightarrow> chain_at v key = Some e \<Longrightarrow> entry_ok (rs_Next v) key e"
  unfolding wf_ruleset_def by blast

lemma wf_rulesetI:
  "wf_map (rs_At v) \<Longrightarrow> (\<And>key e. chain_at v key = Some e \<Longrightarrow> entry_ok (rs_Next v) key e) \<Longrightarrow> wf_ruleset v"
  unfolding wf_ruleset_def by blast

lemma wf_put_entry:
  assumes "wf_ruleset v" and "rs_Next v \<le> n" and "entry_ok n key e"
  shows "wf_ruleset (v\<lparr>rs_At := put key e (rs_At v), rs_Next := n\<rparr>)"
proof (rule wf_rulesetI)
  fix key' e'
  assume "chain_at (v\<lparr>rs_At := put key e (rs_At v), rs_Next := n\<rparr>) key' = Some e'"
  then have "key' = key \<and> e' = e \<or> chain_at v key' = Some e'" by (auto simp: map_of_put split: if_splits)
  then have "entry_ok n key' e'"
    using assms(3) entry_ok_mono [OF wf_ruleset_entry [OF assms(1)] assms(2)] by blast
  then show "entry_ok (rs_Next (v\<lparr>rs_At := put key e (rs_At v), rs_Next := n\<rparr>)) key' e'" by simp
qed (simp add: wf_ruleset_map [OF assms(1)])

lemma wf_del_entry:
  assumes "wf_ruleset v"
  shows "wf_ruleset (v\<lparr>rs_At := del key (rs_At v)\<rparr>)"
proof (rule wf_rulesetI)
  fix key' e'
  assume "chain_at (v\<lparr>rs_At := del key (rs_At v)\<rparr>) key' = Some e'"
  then have "chain_at v key' = Some e'" by (simp add: map_of_del split: if_splits)
  then show "entry_ok (rs_Next (v\<lparr>rs_At := del key (rs_At v)\<rparr>)) key' e'"
    using wf_ruleset_entry [OF assms] by simp
qed (simp add: wf_ruleset_map [OF assms])

lemma exec1_wf:
  assumes wf: "wf_ruleset v" and ex: "exec1 cmd v = Some v'"
  shows "wf_ruleset v'"
proof (cases cmd)
  case (AddChain c)
  then have v': "v' = v\<lparr>rs_At := put (key_of c) (c, []) (rs_At v), rs_Next := rs_Next v\<rparr>"
    using ex by (simp_all split: if_splits)
  show ?thesis unfolding v' by (intro wf_put_entry [OF wf]) (simp_all add: entry_ok_def)
next
  case (DelChain c)
  then have v': "v' = v\<lparr>rs_At := del (key_of c) (rs_At v)\<rparr>" using ex by (simp split: option.splits prod.splits if_splits)
  show ?thesis unfolding v' using wf by (rule wf_del_entry)
next
  case (AddRule c f)
  then obtain c' rs where e: "chain_at v (key_of c) = Some (c', rs)"
    and v': "v' = v\<lparr>rs_At := put (key_of c) (c', rs @ [\<lparr>r_Handle = rs_Next v,
        r_Comment = Some (f_Comment f), r_Exprs = f_Exprs f\<rparr>]) (rs_At v), rs_Next := Suc (rs_Next v)\<rparr>"
    using ex by (auto split: option.splits prod.splits)
  have "entry_ok (rs_Next v) (key_of c) (c', rs)" using wf e by (rule wf_ruleset_entry)
  then show ?thesis unfolding v' by (intro wf_put_entry [OF wf]) (auto simp: entry_ok_def)
next
  case (DelRule c r)
  then obtain c' rs where e: "chain_at v (key_of c) = Some (c', rs)"
    and v': "v' = v\<lparr>rs_At := put (key_of c) (c', filter (\<lambda>x. r_Handle x \<noteq> r_Handle r) rs) (rs_At v),
        rs_Next := rs_Next v\<rparr>"
    using ex by (auto split: option.splits prod.splits if_splits)
  have "entry_ok (rs_Next v) (key_of c) (c', rs)" using wf e by (rule wf_ruleset_entry)
  then show ?thesis unfolding v'
    by (intro wf_put_entry [OF wf]) (simp_all add: entry_ok_def distinct_map_filter)
qed (use wf ex in simp_all)

lemma exec_wf: "wf_ruleset v \<Longrightarrow> exec cmds v = Some v' \<Longrightarrow> wf_ruleset v'"
  by (induction cmds arbitrary: v) (auto split: option.splits dest: exec1_wf)

text \<open>After a run the lookups are those of \<open>look\<close>.\<close>

definition runs_to :: "command list \<Rightarrow> ruleset \<Rightarrow> (chain_key \<Rightarrow> (nft_chain \<times> nft_rule list) option) \<Rightarrow> bool" where
  "runs_to cmds v look \<longleftrightarrow> (\<exists>v'. exec cmds v = Some v' \<and> map_of (rs_At v') = look)"

lemma runs_to_append:
  assumes "runs_to xs v look" and "\<And>v'. exec xs v = Some v' \<Longrightarrow> map_of (rs_At v') = look \<Longrightarrow> runs_to ys v' look'"
  shows "runs_to (xs @ ys) v look'"
  using assms by (auto simp: runs_to_def exec_append)

lemma image_filter_neq: "f ` set (filter (\<lambda>x. f x \<noteq> y) xs) = f ` set xs - {y}"
  by (induction xs) auto

lemma exec_DelRules:
  assumes "chain_at v (key_of c) = Some (c', rs)" and "distinct (map r_Handle ds)"
    and "r_Handle ` set ds \<subseteq> r_Handle ` set rs"
  shows "runs_to (map (DelRule c) ds) v
    ((map_of (rs_At v))(key_of c \<mapsto> (c', filter (\<lambda>r. r_Handle r \<notin> r_Handle ` set ds) rs)))"
  using assms
proof (induction ds arbitrary: v rs)
  case Nil
  then show ?case by (simp add: runs_to_def fun_upd_idem)
next
  case (Cons d ds)
  let ?rs = "filter (\<lambda>x. r_Handle x \<noteq> r_Handle d) rs"
  let ?v = "v\<lparr>rs_At := put (key_of c) (c', ?rs) (rs_At v)\<rparr>"
  have "r_Handle d \<in> r_Handle ` set rs" using Cons.prems(3) by simp
  then have e: "exec1 (DelRule c d) v = Some ?v" by (simp only: exec1.simps Cons.prems(1) option.case prod.case if_True)
  have "r_Handle ` set ds \<subseteq> r_Handle ` set rs" "r_Handle d \<notin> r_Handle ` set ds"
    using Cons.prems(2,3) by simp_all
  then have "r_Handle ` set ds \<subseteq> r_Handle ` set ?rs"
    by (simp only: image_filter_neq subset_Diff_insert Diff_empty simp_thms)
  then have ih: "runs_to (map (DelRule c) ds) ?v
      ((map_of (rs_At ?v))(key_of c \<mapsto> (c', filter (\<lambda>r. r_Handle r \<notin> r_Handle ` set ds) ?rs)))"
    using Cons.prems(2) by (intro Cons.IH) (simp_all add: map_of_put)
  have f: "filter (\<lambda>r. r_Handle r \<notin> r_Handle ` set ds) ?rs = filter (\<lambda>r. r_Handle r \<notin> r_Handle ` set (d # ds)) rs"
    by (simp add: conj_commute)
  have m: "(map_of (rs_At ?v))(key_of c \<mapsto> x) = (map_of (rs_At v))(key_of c \<mapsto> x)" for x
    by (rule ext) (simp add: map_of_put)
  show ?case using ih unfolding f m runs_to_def list.map exec.simps e by (simp only: option.case)
qed

text \<open>Deleting the outdated rules, as they were read, leaves the rules that are kept.\<close>

lemma read_outdated:
  assumes "list_all2 read_as rs rs'" and "distinct (map r_Handle rs)"
  shows "filter (\<lambda>r. r_Handle r \<notin> r_Handle ` set (filter (\<lambda>r. \<not> kept_rule marshal fam rules r) rs')) rs =
     filter (kept_rule marshal fam rules) rs"
    and "r_Handle ` set (filter (\<lambda>r. \<not> kept_rule marshal fam rules r) rs') \<subseteq> r_Handle ` set rs"
    and "distinct (map r_Handle (filter (\<lambda>r. \<not> kept_rule marshal fam rules r) rs'))"
proof -
  have h: "map r_Handle rs' = map r_Handle rs"
    using assms(1) by (induction rule: list_all2_induct) (auto simp: read_as_def)
  then show "distinct (map r_Handle (filter (\<lambda>r. \<not> kept_rule marshal fam rules r) rs'))"
    using assms(2) by (simp add: distinct_map_filter)
  have "r_Handle ` set rs' = r_Handle ` set rs" using h by (metis set_map)
  then show "r_Handle ` set (filter (\<lambda>r. \<not> kept_rule marshal fam rules r) rs') \<subseteq> r_Handle ` set rs"
    by auto
  have f: "map r_Handle (filter (\<lambda>r. \<not> kept_rule marshal fam rules r) rs') =
      map r_Handle (filter (\<lambda>r. \<not> kept_rule marshal fam rules r) rs)"
    using assms(1)
  proof (induction rule: list_all2_induct)
    case (Cons r rs r' rs')
    then show ?case using kept_rule_read [OF Cons(1)] by (simp add: read_as_def)
  qed simp
  then have "r_Handle ` set (filter (\<lambda>r. \<not> kept_rule marshal fam rules r) rs') =
      r_Handle ` set (filter (\<lambda>r. \<not> kept_rule marshal fam rules r) rs)" by (metis set_map)
  then show "filter (\<lambda>r. r_Handle r \<notin> r_Handle ` set (filter (\<lambda>r. \<not> kept_rule marshal fam rules r) rs')) rs =
     filter (kept_rule marshal fam rules) rs"
    using assms(2) by (intro filter_cong refl) (auto dest: distinct_map [THEN iffD1] inj_onD)
qed

section \<open>The ruleset after cleaning\<close>

definition cleaned :: "(nft_expr \<Rightarrow> bytes option) \<Rightarrow> nft_table \<Rightarrow> Chain list \<Rightarrow>
    (chain_key \<Rightarrow> (nft_chain \<times> nft_rule list) option) \<Rightarrow> chain_key \<Rightarrow> (nft_chain \<times> nft_rule list) option" where
  "cleaned marshal T chs look key =
     (case look key of
        None \<Rightarrow> None
      | Some (c, rs) \<Rightarrow>
          if fst key \<noteq> T then Some (c, rs)
          else (case isChainOutdated c chs of
                  Ok (False, Some ch) \<Rightarrow>
                    Some (c, filter (kept_rule marshal (nt_Family T) (FromChainToRulesArray ch)) rs)
                | _ \<Rightarrow> None))"

lemma cleaned_cong: "look key = look' key \<Longrightarrow> cleaned marshal T chs look key = cleaned marshal T chs look' key"
  by (simp add: cleaned_def)

lemma chain_dels_runs:
  assumes wf: "wf_ruleset v" and at: "chain_at v (key_of c) = Some (c, rs)"
    and read: "list_all2 read_as rs (read c)" and base: "base_chain c"
  shows "runs_to (chain_dels lib chs read c) v
    ((map_of (rs_At v))(key_of c := cleaned (lib_Marshal lib) (nc_Table c) chs (map_of (rs_At v)) (key_of c)))"
proof -
  have fst: "fst (key_of c) = nc_Table c" by (simp add: key_of_def)
  consider ch where "isChainOutdated c chs = Ok (False, Some ch)"
    | x where "isChainOutdated c chs = Ok (True, x)"
    using isChainOutdated_base [OF base, of chs] by fastforce
  then show ?thesis
  proof cases
    case (1 ch)
    have d: "distinct (map r_Handle rs)" using wf_ruleset_entry [OF wf at] by (simp add: entry_ok_def)
    note r = read_outdated [OF read d, of "lib_Marshal lib" "nt_Family (nc_Table c)" "FromChainToRulesArray ch"]
    have "cleaned (lib_Marshal lib) (nc_Table c) chs (map_of (rs_At v)) (key_of c) =
        Some (c, filter (kept_rule (lib_Marshal lib) (nt_Family (nc_Table c)) (FromChainToRulesArray ch)) rs)"
      using 1 at fst by (simp add: cleaned_def)
    then show ?thesis
      using exec_DelRules [OF at r(3,2)] 1 unfolding r(1) by (simp only: chain_dels_def rule_dels_def res.case prod.case bool.case option.case)
  next
    case (2 x)
    then have "cleaned (lib_Marshal lib) (nc_Table c) chs (map_of (rs_At v)) (key_of c) = None"
      using at fst by (simp add: cleaned_def)
    moreover have "chain_dels lib chs read c = [DelChain c]" using 2 by (simp add: chain_dels_def)
    moreover have "map_of (del (key_of c) (rs_At v)) = (map_of (rs_At v))(key_of c := None)"
      by (rule ext) (simp add: map_of_del)
    ultimately show ?thesis using at base by (simp add: runs_to_def)
  qed
qed

lemma clean_runs:
  assumes "distinct (map key_of cs)" and "wf_ruleset v"
    and "\<forall>c \<in> set cs. nt_Family (nc_Table c) = nt_Family T \<and> (nc_Table c = T \<longrightarrow> base_chain c) \<and>
      (\<exists>rs. chain_at v (key_of c) = Some (c, rs) \<and> list_all2 read_as rs (read c))"
  shows "runs_to (concat (map (\<lambda>c. if nt_Name (nc_Table c) = nt_Name T then chain_dels lib chs read c else []) cs)) v
    (\<lambda>key. if key \<in> key_of ` set cs then cleaned (lib_Marshal lib) T chs (map_of (rs_At v)) key else chain_at v key)"
  using assms
proof (induction cs arbitrary: v)
  case (Cons c cs)
  let ?cl = "cleaned (lib_Marshal lib) T chs"
  obtain rs where c: "chain_at v (key_of c) = Some (c, rs)" "list_all2 read_as rs (read c)"
      "nt_Family (nc_Table c) = nt_Family T" "nc_Table c = T \<longrightarrow> base_chain c"
    using Cons.prems(3) by auto
  have T: "nc_Table c = T \<longleftrightarrow> nt_Name (nc_Table c) = nt_Name T" using c(3) by (cases T; cases "nc_Table c") simp
  have first: "runs_to (if nt_Name (nc_Table c) = nt_Name T then chain_dels lib chs read c else []) v
      ((map_of (rs_At v))(key_of c := ?cl (map_of (rs_At v)) (key_of c)))"
  proof (cases "nc_Table c = T")
    case True
    then show ?thesis using chain_dels_runs [where read = read, OF Cons.prems(2) c(1,2)] c(4) by simp
  next
    case False
    then have "?cl (map_of (rs_At v)) (key_of c) = chain_at v (key_of c)"
      using c(1) by (simp add: cleaned_def key_of_def)
    then show ?thesis using False T by (simp add: runs_to_def)
  qed
  show ?case unfolding list.map concat.simps
  proof (rule runs_to_append [OF first])
    fix v'
    assume ex: "exec (if nt_Name (nc_Table c) = nt_Name T then chain_dels lib chs read c else []) v = Some v'"
      and look: "map_of (rs_At v') = (map_of (rs_At v))(key_of c := ?cl (map_of (rs_At v)) (key_of c))"
    have new: "key_of c \<notin> key_of ` set cs" using Cons.prems(1) by simp
    then have same: "chain_at v' (key_of c') = chain_at v (key_of c')" if "c' \<in> set cs" for c'
      using that look by (auto simp: image_iff)
    have "runs_to (concat (map (\<lambda>c. if nt_Name (nc_Table c) = nt_Name T then chain_dels lib chs read c else []) cs)) v'
        (\<lambda>key. if key \<in> key_of ` set cs then ?cl (map_of (rs_At v')) key else chain_at v' key)"
      using Cons.prems exec_wf [OF _ ex] same by (intro Cons.IH) auto
    moreover have "(\<lambda>key. if key \<in> key_of ` set cs then ?cl (map_of (rs_At v')) key else chain_at v' key) =
        (\<lambda>key. if key \<in> key_of ` set (c # cs) then ?cl (map_of (rs_At v)) key else chain_at v key)"
    proof (rule ext)
      fix key
      have "?cl (map_of (rs_At v')) key = ?cl (map_of (rs_At v)) key" if "key \<noteq> key_of c"
        using that look by (intro cleaned_cong) simp
      then show "(if key \<in> key_of ` set cs then ?cl (map_of (rs_At v')) key else chain_at v' key) =
          (if key \<in> key_of ` set (c # cs) then ?cl (map_of (rs_At v)) key else chain_at v key)"
        using new look by (cases "key = key_of c") auto
    qed
    ultimately show "runs_to (concat (map (\<lambda>c. if nt_Name (nc_Table c) = nt_Name T then chain_dels lib chs read c else []) cs)) v'
        (\<lambda>key. if key \<in> key_of ` set (c # cs) then ?cl (map_of (rs_At v)) key else chain_at v key)"
      by simp
  qed
qed (simp add: runs_to_def)

text \<open>The table of the kernel that a table of the configuration stands for.\<close>

definition kernel_table :: "Table \<Rightarrow> nft_table option" where
  "kernel_table table =
     (case (t_Name table, t_Family table) of
        (Some nm, Some family) \<Rightarrow> Some \<lparr>nt_Name = nm, nt_Family = getTableFamily family\<rparr>
      | _ \<Rightarrow> None)"

definition table_forges :: "Table \<Rightarrow> nft_table \<Rightarrow> bool" where
  "table_forges table T \<longleftrightarrow> kernel_table table = Some T \<and> nt_Family T \<noteq> FamilyUnspecified \<and>
     (\<forall>ch \<in> set (t_Chains table). \<forall>rule \<in> set (FromChainToRulesArray ch). forges (nt_Family T) rule)"

lemma Flush_runs:
  assumes "kernel_ok lib view" and "wf_ruleset (view (c_Kernel conn))"
    and "runs_to (c_Queue conn) (view (c_Kernel conn)) look"
  shows "\<exists>k. Flush lib conn = FwOk () (conn\<lparr>c_Kernel := k, c_Queue := []\<rparr>) \<and> wf_ruleset (view k) \<and>
    map_of (rs_At (view k)) = look"
proof -
  obtain v where v: "exec (c_Queue conn) (view (c_Kernel conn)) = Some v" "map_of (rs_At v) = look"
    using assms(3) by (auto simp: runs_to_def)
  obtain k where "lib_Flush lib (c_Kernel conn) (c_Queue conn) = Inr k" "view k = v"
    using assms(1,2) v(1) unfolding kernel_ok_def by blast
  then show ?thesis using v exec_wf [OF assms(2) v(1)] by (auto simp: Flush_def)
qed

lemma kernel_lists:
  assumes "kernel_ok lib view" and "wf_ruleset (view k)" and "family \<noteq> FamilyUnspecified"
  shows "\<exists>cs. lib_ListChains lib k family = Inr cs \<and> distinct (map key_of cs) \<and>
    (\<forall>c. c \<in> set cs \<longleftrightarrow> nt_Family (nc_Table c) = family \<and> (\<exists>rs. chain_at (view k) (key_of c) = Some (c, rs)))"
  using assms unfolding kernel_ok_def by blast

lemma kernel_reads:
  assumes "kernel_ok lib view" and "wf_ruleset (view k)"
  shows "\<exists>read. \<forall>c. lib_GetRules lib k c = Inr (read c) \<and> list_all2 read_as (rules_at (view k) (key_of c)) (read c)"
  using assms unfolding kernel_ok_def by metis

lemma cleaned_unlisted:
  assumes wf: "wf_ruleset v" and "\<forall>c. c \<in> set cs \<longleftrightarrow> nt_Family (nc_Table c) = nt_Family T \<and>
      (\<exists>rs. chain_at v (key_of c) = Some (c, rs))" and "key \<notin> key_of ` set cs"
  shows "cleaned marshal T chs (map_of (rs_At v)) key = chain_at v key"
proof (cases "chain_at v key")
  case (Some e)
  obtain c rs where e: "e = (c, rs)" by fastforce
  then have "key_of c = key" using key_of_entry [OF wf] Some by blast
  then have "fst key \<noteq> T" using assms(2,3) Some e by (auto simp: key_of_def)
  then show ?thesis using Some e by (simp add: cleaned_def)
qed (simp add: cleaned_def)

lemma cleanTable_runs:
  assumes ok: "kernel_ok lib view" and wf: "wf_ruleset (view (c_Kernel conn))" and own: "own_table T (view (c_Kernel conn))"
    and tf: "table_forges table T"
  shows "\<exists>cmds. sends (cleanTable lib table conn) conn () cmds \<and>
    runs_to cmds (view (c_Kernel conn))
      (cleaned (lib_Marshal lib) T (t_Chains table) (map_of (rs_At (view (c_Kernel conn)))))"
proof -
  obtain family where t: "t_Name table = Some (nt_Name T)" "t_Family table = Some family"
      "getTableFamily family = nt_Family T" and T: "nt_Family T \<noteq> FamilyUnspecified"
    using tf by (auto simp: table_forges_def kernel_table_def split: option.splits)
  obtain cs where cs: "lib_ListChains lib (c_Kernel conn) (nt_Family T) = Inr cs" "distinct (map key_of cs)"
    and mem: "\<And>c. c \<in> set cs \<longleftrightarrow> nt_Family (nc_Table c) = nt_Family T \<and>
      (\<exists>rs. chain_at (view (c_Kernel conn)) (key_of c) = Some (c, rs))"
    using kernel_lists [OF ok wf T] by blast
  obtain read where read: "\<And>c. lib_GetRules lib (c_Kernel conn) c = Inr (read c)"
    "\<And>c. list_all2 read_as (rules_at (view (c_Kernel conn)) (key_of c)) (read c)"
    using kernel_reads [OF ok wf] by blast
  let ?look = "map_of (rs_At (view (c_Kernel conn)))" and ?cl = "cleaned (lib_Marshal lib) T (t_Chains table)"
  let ?cmds = "concat (map (\<lambda>c. if nt_Name (nc_Table c) = nt_Name T then chain_dels lib (t_Chains table) read c else []) cs)"
  have base: "base_chain c" if "c \<in> set cs" "nt_Name (nc_Table c) = nt_Name T" for c
  proof -
    have "nc_Table c = T" using that mem by simp
    then show ?thesis using that(1) mem own unfolding own_table_def key_of_def by blast
  qed
  have "sends (cleanTable lib table conn) conn () ?cmds"
  proof -
    have "\<forall>c \<in> set cs. nt_Name (nc_Table c) = nt_Name T \<longrightarrow> base_chain c" using base by simp
    moreover have "\<forall>c \<in> set cs. \<forall>ch \<in> set (t_Chains table). \<forall>rule \<in> set (FromChainToRulesArray ch).
        forges (nt_Family (nc_Table c)) rule"
      using mem tf by (simp add: table_forges_def)
    ultimately have "sends (clean_chains_loop lib table cs conn) conn () ?cmds"
      using read(1) by (intro clean_chains_loop_sends [OF t(1)]) simp_all
    then show ?thesis using t cs(1) by (simp add: cleanTable_def)
  qed
  moreover have "\<forall>c \<in> set cs. nt_Family (nc_Table c) = nt_Family T \<and> (nc_Table c = T \<longrightarrow> base_chain c) \<and>
      (\<exists>rs. ?look (key_of c) = Some (c, rs) \<and> list_all2 read_as rs (read c))"
  proof
    fix c assume "c \<in> set cs"
    then show "nt_Family (nc_Table c) = nt_Family T \<and> (nc_Table c = T \<longrightarrow> base_chain c) \<and>
        (\<exists>rs. ?look (key_of c) = Some (c, rs) \<and> list_all2 read_as rs (read c))"
      using mem [of c] read(2) [of c] base [of c] by (auto simp: rules_at_def)
  qed
  from clean_runs [OF cs(2) wf this, of lib "t_Chains table"]
  have "runs_to ?cmds (view (c_Kernel conn)) (\<lambda>key. if key \<in> key_of ` set cs then ?cl ?look key else ?look key)" .
  moreover have "(\<lambda>key. if key \<in> key_of ` set cs then ?cl ?look key else ?look key) = ?cl ?look"
    using cleaned_unlisted [OF wf, of cs T] mem by (intro ext) simp
  ultimately show ?thesis by metis
qed

end
