(* ===== verification/FirewallSync.thy ===== *)
theory FirewallSync
  imports FirewallClean
begin

text \<open>
  The second half of a reconciliation, \<open>addChains\<close>, and the ruleset a whole reconciliation leaves
  (\<open>converged\<close>).
\<close>

section \<open>Adding rules\<close>

definition new_rules :: "NftFamily \<Rightarrow> nft_rule list \<Rightarrow> Rule list \<Rightarrow> forged list" where
  "new_rules fam nftrules rules =
     concat (map (\<lambda>rule. if existRule nftrules rule then []
       else (case forge fam rule of Ok (Some f) \<Rightarrow> [f] | _ \<Rightarrow> [])) rules)"

lemma existRule_iff:
  "existRule nftrules rule \<longleftrightarrow> (\<exists>r \<in> set nftrules. r_Comment r \<noteq> None \<and> r_Comment r = GetName rule)"
  by (induction nftrules) (auto split: option.splits)

lemma existRule_read:
  assumes "list_all2 read_as rs rs'"
  shows "existRule rs' rule = existRule rs rule"
  using assms
proof (induction rule: list_all2_induct)
  case (Cons r rs r' rs')
  then show ?case by (cases "r_Comment r") (simp_all add: read_as_def)
qed simp

lemma add_rules_loop_sends:
  assumes "\<forall>rule \<in> set rules. forges (nt_Family (nc_Table c)) rule"
  shows "\<exists>b. sends (add_rules_loop nftrules c rules notrack conn) conn b
    (map (AddRule c) (new_rules (nt_Family (nc_Table c)) nftrules rules))"
  using assms
proof (induction rules arbitrary: notrack conn)
  case (Cons rule rules)
  obtain f where f: "forge (nt_Family (nc_Table c)) rule = Ok f" using Cons.prems by (auto simp: forges_def)
  show ?case
  proof (cases "existRule nftrules rule")
    case True
    then show ?thesis using Cons by (simp add: new_rules_def)
  next
    case False
    let ?conn = "case f of None \<Rightarrow> conn | Some x \<Rightarrow> queue (AddRule c x) conn"
    obtain b where "sends (add_rules_loop nftrules c rules (notrack \<or> isNotrackRule rule) ?conn) ?conn b
        (map (AddRule c) (new_rules (nt_Family (nc_Table c)) nftrules rules))"
      using Cons by fastforce
    then show ?thesis using False f
      by (cases f) (auto simp: sends_def new_rules_def Rule_Add_def queue_def)
  qed
qed (simp add: sends_def new_rules_def)

definition content :: "nft_rule \<Rightarrow> string option \<times> nft_expr list" where
  "content r = (r_Comment r, r_Exprs r)"

definition holds_rules :: "nft_rule list \<Rightarrow> forged list \<Rightarrow> bool" where
  "holds_rules rs fs \<longleftrightarrow> map content rs = map (\<lambda>f. (Some (f_Comment f), f_Exprs f)) fs"

lemma exec_AddRules:
  assumes "chain_at v (key_of c) = Some (c', rs)"
  shows "\<exists>news. holds_rules news fs \<and>
    runs_to (map (AddRule c) fs) v ((map_of (rs_At v))(key_of c \<mapsto> (c', rs @ news)))"
  using assms
proof (induction fs arbitrary: v rs)
  case Nil
  then show ?case by (intro exI [of _ "[]"]) (simp add: runs_to_def fun_upd_idem holds_rules_def)
next
  case (Cons f fs)
  let ?r = "\<lparr>r_Handle = rs_Next v, r_Comment = Some (f_Comment f), r_Exprs = f_Exprs f\<rparr>"
  let ?v = "v\<lparr>rs_At := put (key_of c) (c', rs @ [?r]) (rs_At v), rs_Next := Suc (rs_Next v)\<rparr>"
  have "chain_at ?v (key_of c) = Some (c', rs @ [?r])" by (simp add: map_of_put)
  from Cons.IH [OF this] obtain news where news: "holds_rules news fs"
    and run: "runs_to (map (AddRule c) fs) ?v ((map_of (rs_At ?v))(key_of c \<mapsto> (c', (rs @ [?r]) @ news)))"
    by blast
  have "(map_of (rs_At ?v))(key_of c \<mapsto> x) = (map_of (rs_At v))(key_of c \<mapsto> x)" for x
    by (rule ext) (simp add: map_of_put)
  moreover have "exec1 (AddRule c f) v = Some ?v" using Cons.prems by simp
  ultimately have "runs_to (map (AddRule c) (f # fs)) v ((map_of (rs_At v))(key_of c \<mapsto> (c', rs @ ?r # news)))"
    using run by (simp add: runs_to_def)
  moreover have "holds_rules (?r # news) (f # fs)" using news by (simp add: holds_rules_def content_def)
  ultimately show ?case by blast
qed

section \<open>Adding chains\<close>

text \<open>A chain whose attributes are all given, with values of the API.\<close>

definition chain_complete :: "Chain \<Rightarrow> bool" where
  "chain_complete ch \<longleftrightarrow> ch_Type ch \<in> {ChainTypeFilter, ChainTypeRoute, ChainTypeNAT} \<and>
     (case ch_Hook ch of None \<Rightarrow> False | Some (ChainHookOther _) \<Rightarrow> False | Some _ \<Rightarrow> True) \<and>
     ch_Priority ch \<noteq> None \<and> ch_Policy ch \<in> {Some ChainPolicyDrop, Some ChainPolicyAccept}"

definition made_chain :: "nft_table \<Rightarrow> Chain \<Rightarrow> nft_chain" where
  "made_chain T ch = new_chain T ch (the (ch_Hook ch))"

lemma setHooknum_round:
  "(\<forall>x. hook \<noteq> ChainHookOther x) \<Longrightarrow> \<exists>h. setHooknum hook = (\<lambda>c. c\<lparr>nc_Hooknum := Some h\<rparr>) \<and> getHooknum h = hook"
  by (rule exI [of _ "the (nc_Hooknum (setHooknum hook undefined))"], cases hook)
    (simp_all add: fun_eq_iff setHooknum_def getHooknum_def)

lemma setPolicy_round:
  "(\<forall>x. pol \<noteq> ChainPolicyOther x) \<Longrightarrow> \<exists>p. setPolicy pol = (\<lambda>c. c\<lparr>nc_Policy := Some p\<rparr>) \<and> getPolicy p = pol"
  by (rule exI [of _ "the (nc_Policy (setPolicy pol undefined))"], cases pol)
    (simp_all add: fun_eq_iff setPolicy_def getPolicy_def)

lemma setType_round:
  "(\<forall>x. ct \<noteq> ChainTypeOther x) \<Longrightarrow> \<exists>t. setType ct = (\<lambda>c. c\<lparr>nc_Type := t\<rparr>) \<and> getType t = ct"
  by (rule exI [of _ "nc_Type (setType ct undefined)"], cases ct)
    (simp_all add: fun_eq_iff setType_def getType_def)

lemma made_chain_current:
  assumes "chain_complete ch" and "ch_Name ch = Some n"
  shows "key_of (made_chain T ch) = (T, n)" and "base_chain (made_chain T ch)"
    and "isChainModified (made_chain T ch) ch = Ok False"
proof -
  obtain hook prio pol where a: "ch_Hook ch = Some hook" "ch_Priority ch = Some prio" "ch_Policy ch = Some pol"
    using assms by (auto simp: chain_complete_def split: option.splits)
  have e: "\<forall>x. hook \<noteq> ChainHookOther x" "\<forall>x. pol \<noteq> ChainPolicyOther x" "\<forall>x. ch_Type ch \<noteq> ChainTypeOther x"
    using assms a by (auto simp: chain_complete_def)
  obtain h p t where h: "setHooknum hook = (\<lambda>c. c\<lparr>nc_Hooknum := Some h\<rparr>)" "getHooknum h = hook"
    and p: "setPolicy pol = (\<lambda>c. c\<lparr>nc_Policy := Some p\<rparr>)" "getPolicy p = pol"
    and t: "setType (ch_Type ch) = (\<lambda>c. c\<lparr>nc_Type := t\<rparr>)" "getType t = ch_Type ch"
    using setHooknum_round [OF e(1)] setPolicy_round [OF e(2)] setType_round [OF e(3)] by blast
  have m: "made_chain T ch = \<lparr>nc_Table = T, nc_Name = n, nc_Hooknum = Some h, nc_Priority = Some prio,
      nc_Type = t, nc_Policy = Some p\<rparr>"
    using a assms(2) h p t e(3)
    by (simp add: made_chain_def new_chain_def opt_set_def setChainName_def setPriority_def)
  show "key_of (made_chain T ch) = (T, n)" "base_chain (made_chain T ch)"
    "isChainModified (made_chain T ch) ch = Ok False"
    using h p t a e(3) by (simp_all add: m key_of_def base_chain_def isChainModified_def ptr_differs_def)
qed

lemma get_chain_loop_find:
  "ch_Name ch = Some n \<Longrightarrow>
    get_chain_loop T ch cs = Ok (find (\<lambda>c. nt_Name (nc_Table c) = nt_Name T \<and> nc_Name c = n) cs)"
  by (induction cs) auto

lemma get_chain_loop_at:
  assumes wf: "wf_ruleset v" and name: "ch_Name ch = Some n"
    and mem: "\<And>c. c \<in> set cs \<longleftrightarrow> nt_Family (nc_Table c) = nt_Family T \<and> (\<exists>rs. chain_at v (key_of c) = Some (c, rs))"
  shows "get_chain_loop T ch cs = Ok (map_option fst (chain_at v (T, n)))"
proof -
  let ?P = "\<lambda>c. nt_Name (nc_Table c) = nt_Name T \<and> nc_Name c = n"
  have key: "?P c \<longleftrightarrow> key_of c = (T, n)" if "c \<in> set cs" for c
    using that mem [of c] by (cases T; cases "nc_Table c") (auto simp: key_of_def)
  have "find ?P cs = map_option fst (chain_at v (T, n))"
  proof (cases "find ?P cs")
    case None
    then have no: "\<forall>c \<in> set cs. \<not> ?P c" by (auto simp: find_None_iff)
    have "chain_at v (T, n) = None"
    proof (rule ccontr)
      assume "chain_at v (T, n) \<noteq> None"
      then obtain c rs where c: "chain_at v (T, n) = Some (c, rs)" by auto
      then have k: "key_of c = (T, n)" using key_of_entry [OF wf] by blast
      then have "c \<in> set cs" using mem [of c] c by (auto simp: key_of_def)
      then show False using no key k by blast
    qed
    then show ?thesis using None by simp
  next
    case (Some c)
    then have "c \<in> set cs" "?P c" by (auto simp: find_Some_iff)
    then show ?thesis using Some key mem [of c] by force
  qed
  then show ?thesis using get_chain_loop_find [OF name] by simp
qed

text \<open>The commands for one chain: the chain, if the kernel does not have it, and its new rules.\<close>

definition chain_adds :: "ruleset \<Rightarrow> nft_table \<Rightarrow> Chain \<Rightarrow> string \<Rightarrow> command list" where
  "chain_adds v T ch n =
     (let new = new_rules (nt_Family T) (rules_at v (T, n)) (FromChainToRulesArray ch) in
      case chain_at v (T, n) of
        None \<Rightarrow> AddChain (made_chain T ch) # map (AddRule (made_chain T ch)) new
      | Some (c, _) \<Rightarrow> map (AddRule c) new)"

lemma new_rules_read: "list_all2 read_as rs rs' \<Longrightarrow> new_rules fam rs' rules = new_rules fam rs rules"
  by (simp add: new_rules_def existRule_read)

lemma one_chain_sends:
  assumes ok: "kernel_ok lib view" and wf: "wf_ruleset (view (c_Kernel conn))"
    and T: "nt_Family T \<noteq> FamilyUnspecified" and name: "ch_Name ch = Some n" and full: "chain_complete ch"
    and forge: "\<forall>rule \<in> set (FromChainToRulesArray ch). forges (nt_Family T) rule"
  shows "\<exists>b. sends (fw_bind (addChain lib ch T conn) (\<lambda>nc conn1. addRules lib ch nc conn1)) conn b
    (chain_adds (view (c_Kernel conn)) T ch n)"
proof -
  let ?v = "view (c_Kernel conn)"
  obtain cs where cs: "lib_ListChains lib (c_Kernel conn) (nt_Family T) = Inr cs"
    and mem: "\<And>c. c \<in> set cs \<longleftrightarrow> nt_Family (nc_Table c) = nt_Family T \<and> (\<exists>rs. chain_at ?v (key_of c) = Some (c, rs))"
    using kernel_lists [OF ok wf T] by blast
  have get: "getChain lib T ch conn = Ok (map_option fst (chain_at ?v (T, n)))"
    using get_chain_loop_at [OF wf name mem] cs by (simp add: getChain_def)
  have rules: "\<exists>b. sends (addRules lib ch c conn') conn' b
      (map (AddRule c) (new_rules (nt_Family T) (rules_at ?v (T, n)) (FromChainToRulesArray ch)))"
    if c: "key_of c = (T, n)" and k: "c_Kernel conn' = c_Kernel conn" for c conn'
  proof -
    obtain rs where rs: "lib_GetRules lib (c_Kernel conn) c = Inr rs" "list_all2 read_as (rules_at ?v (T, n)) rs"
      using kernel_reads [OF ok wf] c by metis
    have "nc_Table c = T" using c by (simp add: key_of_def)
    then show ?thesis
      using add_rules_loop_sends [of "FromChainToRulesArray ch" c rs False conn'] forge rs k
      by (simp add: addRules_def new_rules_read)
  qed
  obtain hook where hook: "ch_Hook ch = Some hook" using full by (auto simp: chain_complete_def split: option.splits)
  note made = made_chain_current(1) [OF full name, of T]
  show ?thesis
  proof (cases "chain_at ?v (T, n)")
    case None
    obtain b where "sends (addRules lib ch (made_chain T ch) (queue (AddChain (made_chain T ch)) conn))
        (queue (AddChain (made_chain T ch)) conn) b
        (map (AddRule (made_chain T ch)) (new_rules (nt_Family T) (rules_at ?v (T, n)) (FromChainToRulesArray ch)))"
      using rules [OF made, of "queue (AddChain (made_chain T ch)) conn"] by (auto simp: queue_def)
    then show ?thesis using None get hook
      by (auto simp: addChain_def chain_adds_def made_chain_def sends_def queue_def Let_def)
  next
    case (Some e)
    obtain c rs where e: "e = (c, rs)" by fastforce
    then have "key_of c = (T, n)" using key_of_entry [OF wf] Some by blast
    then show ?thesis using rules [of c conn] Some e get by (simp add: addChain_def chain_adds_def)
  qed
qed

definition chain_in :: "ruleset \<Rightarrow> nft_table \<Rightarrow> Chain \<Rightarrow> string \<Rightarrow> nft_chain" where
  "chain_in v T ch n = (case chain_at v (T, n) of None \<Rightarrow> made_chain T ch | Some (c, _) \<Rightarrow> c)"

lemma chain_adds_runs:
  assumes wf0: "wf_ruleset v0" and same: "chain_at v (T, n) = chain_at v0 (T, n)"
    and name: "ch_Name ch = Some n" and full: "chain_complete ch"
  shows "\<exists>news. holds_rules news (new_rules (nt_Family T) (rules_at v0 (T, n)) (FromChainToRulesArray ch)) \<and>
    runs_to (chain_adds v0 T ch n) v
      ((map_of (rs_At v))((T, n) \<mapsto> (chain_in v0 T ch n, rules_at v0 (T, n) @ news)))"
proof (cases "chain_at v0 (T, n)")
  case None
  note made = made_chain_current [OF full name, of T]
  let ?v = "v\<lparr>rs_At := put (T, n) (made_chain T ch, []) (rs_At v)\<rparr>"
  have "chain_at ?v (key_of (made_chain T ch)) = Some (made_chain T ch, [])"
    using made(1) by (simp add: map_of_put)
  from exec_AddRules [OF this, of "new_rules (nt_Family T) (rules_at v0 (T, n)) (FromChainToRulesArray ch)"]
  obtain news where news: "holds_rules news (new_rules (nt_Family T) (rules_at v0 (T, n)) (FromChainToRulesArray ch))"
    and run: "runs_to (map (AddRule (made_chain T ch)) (new_rules (nt_Family T) (rules_at v0 (T, n)) (FromChainToRulesArray ch)))
      ?v ((map_of (rs_At ?v))((T, n) \<mapsto> (made_chain T ch, news)))"
    unfolding made(1) append_Nil by blast
  have "(map_of (rs_At ?v))((T, n) \<mapsto> x) = (map_of (rs_At v))((T, n) \<mapsto> x)" for x
    by (rule ext) (simp add: map_of_put)
  moreover have "exec1 (AddChain (made_chain T ch)) v = Some ?v"
    using same None made(1,2) by simp
  ultimately have "runs_to (chain_adds v0 T ch n) v ((map_of (rs_At v))((T, n) \<mapsto> (made_chain T ch, news)))"
    using run None by (simp add: chain_adds_def runs_to_def)
  then show ?thesis using news None by (auto simp: chain_in_def rules_at_def)
next
  case (Some e)
  obtain c rs where e: "e = (c, rs)" by fastforce
  then have k: "key_of c = (T, n)" using key_of_entry [OF wf0] Some by blast
  have "chain_at v (key_of c) = Some (c, rs)" using Some e same k by simp
  from exec_AddRules [OF this, of "new_rules (nt_Family T) (rules_at v0 (T, n)) (FromChainToRulesArray ch)"]
  show ?thesis using Some e k by (simp add: chain_adds_def chain_in_def rules_at_def)
qed

text \<open>
  What \<open>addChains\<close> makes of a ruleset: each chain of the configuration holds the rules it held and its
  new ones, and everything else is as before.
\<close>

definition added :: "ruleset \<Rightarrow> nft_table \<Rightarrow> Chain list \<Rightarrow> (chain_key \<Rightarrow> (nft_chain \<times> nft_rule list) option) \<Rightarrow>
    (chain_key \<Rightarrow> (nft_chain \<times> nft_rule list) option) \<Rightarrow> bool" where
  "added v T chs before look \<longleftrightarrow>
     (\<forall>ch \<in> set chs. \<forall>n. ch_Name ch = Some n \<longrightarrow>
        (\<exists>news. holds_rules news (new_rules (nt_Family T) (rules_at v (T, n)) (FromChainToRulesArray ch)) \<and>
           look (T, n) = Some (chain_in v T ch n, rules_at v (T, n) @ news))) \<and>
     (\<forall>key. (fst key \<noteq> T \<or> Some (snd key) \<notin> ch_Name ` set chs) \<longrightarrow> look key = before key)"

lemma added_Cons:
  assumes "holds_rules news (new_rules (nt_Family T) (rules_at v (T, n)) (FromChainToRulesArray ch))"
    and "ch_Name ch = Some n" and "Some n \<notin> ch_Name ` set chs"
    and "added v T chs (before((T, n) \<mapsto> (chain_in v T ch n, rules_at v (T, n) @ news))) look"
  shows "added v T (ch # chs) before look"
proof -
  have "look (T, n) = Some (chain_in v T ch n, rules_at v (T, n) @ news)"
    using assms(3,4) by (simp add: added_def)
  then show ?thesis using assms unfolding added_def by auto
qed

lemma fw_bind_assoc: "fw_bind (fw_bind r f) g = fw_bind r (\<lambda>x conn. fw_bind (f x conn) g)"
  by (cases r) simp_all

lemma named_apart_Cons:
  assumes "named_apart f (x # xs)"
  shows "\<exists>n. f x = Some n \<and> Some n \<notin> f ` set xs \<and> named_apart f xs"
proof -
  obtain n ns where n: "f x = Some n" "map f xs = map Some ns" "n \<notin> set ns" "distinct ns"
    using assms by (auto simp: named_apart_def Cons_eq_map_conv)
  have "f ` set xs = Some ` set ns" using n(2) by (metis set_map)
  then show ?thesis using n by (auto simp: named_apart_def)
qed

lemma add_chains_loop_sends:
  assumes ok: "kernel_ok lib view" and wf: "wf_ruleset (view (c_Kernel conn))"
    and T: "nt_Family T \<noteq> FamilyUnspecified" and named: "named_apart ch_Name chs"
    and full: "\<forall>ch \<in> set chs. chain_complete ch \<and> (\<forall>rule \<in> set (FromChainToRulesArray ch). forges (nt_Family T) rule)"
    and same: "\<forall>ch \<in> set chs. \<forall>n. ch_Name ch = Some n \<longrightarrow> chain_at v (T, n) = chain_at (view (c_Kernel conn)) (T, n)"
  shows "\<exists>b cmds look. sends (add_chains_loop lib T chs notrack conn) conn b cmds \<and> runs_to cmds v look \<and>
    added (view (c_Kernel conn)) T chs (map_of (rs_At v)) look"
  using wf named full same
proof (induction chs arbitrary: conn v notrack)
  case Nil
  then show ?case by (intro exI [of _ notrack] exI [of _ "[]"]) (simp add: sends_def runs_to_def added_def)
next
  case (Cons ch chs)
  let ?v0 = "view (c_Kernel conn)"
  obtain n where name: "ch_Name ch = Some n" and fresh: "Some n \<notin> ch_Name ` set chs" and named: "named_apart ch_Name chs"
    using named_apart_Cons [OF Cons.prems(2)] by blast
  obtain b where one: "sends (fw_bind (addChain lib ch T conn) (\<lambda>nc conn1. addRules lib ch nc conn1)) conn b (chain_adds ?v0 T ch n)"
    using one_chain_sends [OF ok Cons.prems(1) T name] Cons.prems(3) by auto
  obtain news where news: "holds_rules news (new_rules (nt_Family T) (rules_at ?v0 (T, n)) (FromChainToRulesArray ch))"
    and run: "runs_to (chain_adds ?v0 T ch n) v
      ((map_of (rs_At v))((T, n) \<mapsto> (chain_in ?v0 T ch n, rules_at ?v0 (T, n) @ news)))"
    using chain_adds_runs [OF Cons.prems(1) _ name, of v T] Cons.prems(3,4) name by auto
  obtain v' where v': "exec (chain_adds ?v0 T ch n) v = Some v'"
      "map_of (rs_At v') = (map_of (rs_At v))((T, n) \<mapsto> (chain_in ?v0 T ch n, rules_at ?v0 (T, n) @ news))"
    using run by (auto simp: runs_to_def)
  let ?conn = "conn\<lparr>c_Queue := c_Queue conn @ chain_adds ?v0 T ch n\<rparr>"
  have "\<forall>ch' \<in> set chs. \<forall>m. ch_Name ch' = Some m \<longrightarrow> chain_at v' (T, m) = chain_at ?v0 (T, m)"
    using Cons.prems(4) v'(2) fresh by (auto simp: image_iff)
  then have "\<exists>b' cmds look. sends (add_chains_loop lib T chs (notrack \<or> b) ?conn) ?conn b' cmds \<and>
      runs_to cmds v' look \<and> added (view (c_Kernel ?conn)) T chs (map_of (rs_At v')) look"
    using Cons.prems(1,3) named by (intro Cons.IH) simp_all
  then obtain b' cmds look where rest: "sends (add_chains_loop lib T chs (notrack \<or> b) ?conn) ?conn b' cmds"
      "runs_to cmds v' look" "added ?v0 T chs (map_of (rs_At v')) look" by auto
  have "sends (add_chains_loop lib T (ch # chs) notrack conn) conn b' (chain_adds ?v0 T ch n @ cmds)"
    using sends_bind [OF one, of "\<lambda>applied. add_chains_loop lib T chs (notrack \<or> applied)", OF rest(1)]
    by (simp add: fw_bind_assoc)
  moreover have "runs_to (chain_adds ?v0 T ch n @ cmds) v look"
    using rest(2) v'(1) by (simp add: runs_to_def exec_append)
  moreover have "added ?v0 T (ch # chs) (map_of (rs_At v)) look"
    using added_Cons [OF news name fresh] rest(3) v'(2) by simp
  ultimately show ?case by blast
qed

section \<open>Convergence\<close>

text \<open>
  A chain holds only rules of the configuration, each with the expressions of its rule up to the
  comparison the code makes, and every rule of the configuration that has expressions.
\<close>

definition rules_installed :: "(nft_expr \<Rightarrow> bytes option) \<Rightarrow> NftFamily \<Rightarrow> Rule list \<Rightarrow> nft_rule list \<Rightarrow> bool" where
  "rules_installed marshal fam rules rs \<longleftrightarrow>
     (\<forall>r \<in> set rs. \<exists>rule \<in> set rules. \<exists>n. r_Comment r = Some n \<and> GetName rule = Some n \<and>
        Rule_Equal marshal fam rule r = Ok True) \<and>
     (\<forall>rule \<in> set rules. forge fam rule \<noteq> Ok None \<longrightarrow> (\<exists>r \<in> set rs. r_Comment r = GetName rule))"

definition converged :: "(nft_expr \<Rightarrow> bytes option) \<Rightarrow> nft_table \<Rightarrow> Chain list \<Rightarrow>
    (chain_key \<Rightarrow> (nft_chain \<times> nft_rule list) option) \<Rightarrow> bool" where
  "converged marshal T chs look \<longleftrightarrow>
     (\<forall>n c rs. look (T, n) = Some (c, rs) \<longrightarrow> (\<exists>ch \<in> set chs. ch_Name ch = Some n \<and>
        isChainModified c ch = Ok False \<and>
        rules_installed marshal (nt_Family T) (FromChainToRulesArray ch) rs)) \<and>
     (\<forall>ch \<in> set chs. \<exists>n. ch_Name ch = Some n \<and> look (T, n) \<noteq> None)"

definition table_ready :: "Table \<Rightarrow> nft_table \<Rightarrow> bool" where
  "table_ready table T \<longleftrightarrow> table_forges table T \<and> named_apart ch_Name (t_Chains table) \<and>
     (\<forall>ch \<in> set (t_Chains table). chain_complete ch)"

lemma compare_same_set:
  assumes "\<forall>e. marshal e \<noteq> None" and "set es = set es'"
    and "length (filterUnstableExprs es) = length (filterUnstableExprs es')"
  shows "compareRuleExpressions marshal es es'"
proof -
  have "find_equal marshal bs es \<longleftrightarrow> (\<exists>e \<in> set es. marshal e = Some bs)" for bs es
  proof (induction es)
    case (Cons e es)
    obtain x where "marshal e = Some x" using assms(1) by blast
    then show ?case using Cons by auto
  qed simp
  then have "set es \<subseteq> set es' \<Longrightarrow> find_all_equal marshal es es'" for es es'
    using assms(1) by (induction es) (auto split: option.splits)
  moreover have "set (filterUnstableExprs es) \<subseteq> set (filterUnstableExprs es')"
    using assms(2) by (auto simp: filterUnstableExprs_def)
  ultimately show ?thesis using assms(3) by (simp add: compareRuleExpressions_def)
qed

lemma compare_refl: "\<forall>e. marshal e \<noteq> None \<Longrightarrow> compareRuleExpressions marshal es es"
  by (simp add: compare_same_set)

lemma forge_comment: "forge fam rule = Ok (Some f) \<Longrightarrow> GetName rule = Some (f_Comment f)"
  by (cases rule) (auto simp: res_bind_Ok forgeFilterRule_def forgeNatRule_def deref_def split: option.splits)

lemma new_rules_mem:
  "f \<in> set (new_rules fam old rules) \<longleftrightarrow>
     (\<exists>rule \<in> set rules. \<not> existRule old rule \<and> forge fam rule = Ok (Some f))"
  by (induction rules) (auto simp: new_rules_def split: res.splits option.splits)

lemma holds_rules_mem:
  assumes "holds_rules rs fs"
  shows "r \<in> set rs \<Longrightarrow> \<exists>f \<in> set fs. r_Comment r = Some (f_Comment f) \<and> r_Exprs r = f_Exprs f"
    and "f \<in> set fs \<Longrightarrow> \<exists>r \<in> set rs. r_Comment r = Some (f_Comment f)"
proof -
  have e: "content ` set rs = (\<lambda>f. (Some (f_Comment f), f_Exprs f)) ` set fs"
    using assms unfolding holds_rules_def by (metis set_map)
  show "\<exists>f \<in> set fs. r_Comment r = Some (f_Comment f) \<and> r_Exprs r = f_Exprs f" if "r \<in> set rs"
    using imageI [OF that, of content] unfolding e by (auto simp: content_def)
  show "\<exists>r \<in> set rs. r_Comment r = Some (f_Comment f)" if "f \<in> set fs"
    using imageI [OF that, of "\<lambda>f. (Some (f_Comment f), f_Exprs f)"] unfolding e [symmetric] by (auto simp: content_def)
qed

lemma installed_after_add:
  assumes marshal: "\<forall>e. marshal e \<noteq> None" and forge: "\<forall>rule \<in> set rules. forges fam rule"
    and kept: "\<forall>r \<in> set old. kept_rule marshal fam rules r" and news: "holds_rules news (new_rules fam old rules)"
  shows "rules_installed marshal fam rules (old @ news)"
  unfolding rules_installed_def
proof (intro conjI ballI impI)
  fix r assume "r \<in> set (old @ news)"
  then consider "r \<in> set old" | "r \<in> set news" by auto
  then show "\<exists>rule \<in> set rules. \<exists>n. r_Comment r = Some n \<and> GetName rule = Some n \<and> Rule_Equal marshal fam rule r = Ok True"
  proof cases
    case 1
    then show ?thesis using kept kept_rule_named by blast
  next
    case 2
    then obtain f where f: "f \<in> set (new_rules fam old rules)" "r_Comment r = Some (f_Comment f)" "r_Exprs r = f_Exprs f"
      using holds_rules_mem(1) [OF news] by blast
    then obtain rule where r: "rule \<in> set rules" "forge fam rule = Ok (Some f)" by (auto simp: new_rules_mem)
    have "Rule_Equal marshal fam rule r = Ok True"
      using r(2) f(3) compare_refl [OF marshal] by (simp add: Rule_Equal_def)
    then show ?thesis using r f(2) forge_comment [OF r(2)] by blast
  qed
next
  fix rule assume r: "rule \<in> set rules" "forge fam rule \<noteq> Ok None"
  then obtain f where f: "forge fam rule = Ok (Some f)" using forge by (force simp: forges_def)
  show "\<exists>r \<in> set (old @ news). r_Comment r = GetName rule"
  proof (cases "existRule old rule")
    case True
    then show ?thesis by (auto simp: existRule_iff)
  next
    case False
    then have "f \<in> set (new_rules fam old rules)" using r f by (auto simp: new_rules_mem)
    then show ?thesis using holds_rules_mem(2) [OF news] forge_comment [OF f] by auto
  qed
qed

lemma named_apart_eq:
  assumes "named_apart f xs" and "x \<in> set xs" and "y \<in> set xs" and "f x = f y"
  shows "x = y"
proof -
  obtain ns where "map f xs = map Some ns" "distinct ns" using assms(1) by (auto simp: named_apart_def)
  then have "distinct (map f xs)" by (metis distinct_map inj_Some inj_on_subset subset_UNIV)
  then show ?thesis using assms(2-4) by (auto simp: distinct_map inj_on_def)
qed

lemma cleaned_entry:
  assumes "wf_ruleset v" and "cleaned marshal T chs (map_of (rs_At v)) (T, n) = Some (c, old)"
  shows "\<exists>ch \<in> set chs. ch_Name ch = Some n \<and> isChainModified c ch = Ok False \<and>
    (\<forall>r \<in> set old. kept_rule marshal (nt_Family T) (FromChainToRulesArray ch) r)"
proof -
  obtain ch rs where ch: "chain_at v (T, n) = Some (c, rs)" "isChainOutdated c chs = Ok (False, Some ch)"
      "old = filter (kept_rule marshal (nt_Family T) (FromChainToRulesArray ch)) rs"
    using assms(2) by (auto simp: cleaned_def split: option.splits res.splits bool.splits prod.splits)
  have "nc_Name c = n" using key_of_entry [OF assms(1) ch(1)] by (simp add: key_of_def)
  then show ?thesis using isChainOutdated_current [OF ch(2)] ch(3) by auto
qed

lemma chain_converges:
  assumes wf: "wf_ruleset v" and clean: "map_of (rs_At v') = cleaned marshal T chs (map_of (rs_At v))"
    and named: "named_apart ch_Name chs" and ch: "ch \<in> set chs" "ch_Name ch = Some n" and full: "chain_complete ch"
  shows "isChainModified (chain_in v' T ch n) ch = Ok False"
    and "\<forall>r \<in> set (rules_at v' (T, n)). kept_rule marshal (nt_Family T) (FromChainToRulesArray ch) r"
proof -
  have "isChainModified (chain_in v' T ch n) ch = Ok False \<and>
      (\<forall>r \<in> set (rules_at v' (T, n)). kept_rule marshal (nt_Family T) (FromChainToRulesArray ch) r)"
  proof (cases "chain_at v' (T, n)")
    case None
    then show ?thesis using made_chain_current(3) [OF full ch(2)] by (simp add: chain_in_def rules_at_def)
  next
    case (Some e)
    obtain c old where e: "e = (c, old)" by fastforce
    then obtain ch' where ch': "ch' \<in> set chs" "ch_Name ch' = Some n" "isChainModified c ch' = Ok False"
        "\<forall>r \<in> set old. kept_rule marshal (nt_Family T) (FromChainToRulesArray ch') r"
      using cleaned_entry [OF wf, of marshal T chs n c old] Some clean by auto
    then have "ch' = ch" using named_apart_eq [OF named] ch by simp
    then show ?thesis using ch' Some e by (simp add: chain_in_def rules_at_def)
  qed
  then show "isChainModified (chain_in v' T ch n) ch = Ok False"
    "\<forall>r \<in> set (rules_at v' (T, n)). kept_rule marshal (nt_Family T) (FromChainToRulesArray ch) r" by auto
qed

lemma added_converges:
  assumes wf: "wf_ruleset v" and clean: "map_of (rs_At v') = cleaned marshal T chs (map_of (rs_At v))"
    and add: "added v' T chs (map_of (rs_At v')) look" and named: "named_apart ch_Name chs"
    and full: "\<forall>ch \<in> set chs. chain_complete ch \<and> (\<forall>rule \<in> set (FromChainToRulesArray ch). forges (nt_Family T) rule)"
    and marshal: "\<forall>e. marshal e \<noteq> None"
  shows "converged marshal T chs look" and "fst key \<noteq> T \<Longrightarrow> look key = chain_at v key"
proof -
  have look: "\<exists>news. holds_rules news (new_rules (nt_Family T) (rules_at v' (T, n)) (FromChainToRulesArray ch)) \<and>
      look (T, n) = Some (chain_in v' T ch n, rules_at v' (T, n) @ news)" if "ch \<in> set chs" "ch_Name ch = Some n" for ch n
    using add that unfolding added_def by blast
  have other: "look key = cleaned marshal T chs (map_of (rs_At v)) key"
    if "fst key \<noteq> T \<or> Some (snd key) \<notin> ch_Name ` set chs" for key
    using add that unfolding added_def clean by blast
  show "converged marshal T chs look"
    unfolding converged_def
  proof (intro conjI allI impI ballI)
    fix n c rs assume at: "look (T, n) = Some (c, rs)"
    have "\<exists>ch \<in> set chs. ch_Name ch = Some n"
    proof (rule ccontr)
      assume no: "\<not> ?thesis"
      then have "look (T, n) = cleaned marshal T chs (map_of (rs_At v)) (T, n)"
        by (intro other) (auto simp: image_iff)
      then show False using cleaned_entry [OF wf, of marshal T chs n c rs] at no by auto
    qed
    then obtain ch where ch: "ch \<in> set chs" "ch_Name ch = Some n" by blast
    then show "\<exists>ch \<in> set chs. ch_Name ch = Some n \<and> isChainModified c ch = Ok False \<and>
        rules_installed marshal (nt_Family T) (FromChainToRulesArray ch) rs"
      using look [OF ch] at chain_converges [OF wf clean named ch] installed_after_add [OF marshal] full by fastforce
  next
    fix ch assume ch: "ch \<in> set chs"
    then obtain n where "ch_Name ch = Some n" using named_apart_not_None [OF named] by auto
    then show "\<exists>n. ch_Name ch = Some n \<and> look (T, n) \<noteq> None" using look [OF ch] by auto
  qed
  show "look key = chain_at v key" if "fst key \<noteq> T"
    using other [of key] that by (auto simp: cleaned_def split: option.splits)
qed

lemma addTable_sends:
  assumes "kernel_table table = Some T"
  shows "sends (addTable table conn) conn T [AddTable T]"
proof -
  obtain nm family where t: "t_Name table = Some nm" "t_Family table = Some family"
      "T = \<lparr>nt_Name = nm, nt_Family = getTableFamily family\<rparr>"
    using assms by (auto simp: kernel_table_def split: option.splits)
  then have "setTableFamily family (setTableName nm empty_table) = T"
    by (cases family) (simp_all add: setTableFamily_def setTableName_def empty_table_def getTableFamily_def)
  then show ?thesis using t by (simp add: addTable_def sends_def queue_def Let_def)
qed

text \<open>One application of a table: clean, flush, add, flush.\<close>

abbreviation idle :: "'k \<Rightarrow> 'k Conn" where
  "idle k \<equiv> \<lparr>c_Kernel = k, c_Queue = []\<rparr>"

lemma Flush_queue:
  assumes "kernel_ok lib view" and "wf_ruleset (view k)" and "runs_to cmds (view k) look"
  shows "\<exists>k'. Flush lib \<lparr>c_Kernel = k, c_Queue = cmds\<rparr> = FwOk () (idle k') \<and> wf_ruleset (view k') \<and>
    map_of (rs_At (view k')) = look"
  using Flush_runs [of lib view "\<lparr>c_Kernel = k, c_Queue = cmds\<rparr>" look] assms by simp

lemma clean_flush:
  assumes ok: "kernel_ok lib view" and wf: "wf_ruleset (view k)" and own: "own_table T (view k)"
    and tf: "table_forges table T"
  shows "\<exists>k'. fw_bind (cleanTable lib table (idle k)) (\<lambda>_. Flush lib) = FwOk () (idle k') \<and> wf_ruleset (view k') \<and>
    map_of (rs_At (view k')) = cleaned (lib_Marshal lib) T (t_Chains table) (map_of (rs_At (view k)))"
proof -
  have "\<exists>cmds. sends (cleanTable lib table (idle k)) (idle k) () cmds \<and>
      runs_to cmds (view k) (cleaned (lib_Marshal lib) T (t_Chains table) (map_of (rs_At (view k))))"
    using cleanTable_runs [OF ok _ _ tf, of "idle k"] wf own by simp
  then obtain cmds where c: "cleanTable lib table (idle k) = FwOk () \<lparr>c_Kernel = k, c_Queue = cmds\<rparr>"
    and run: "runs_to cmds (view k) (cleaned (lib_Marshal lib) T (t_Chains table) (map_of (rs_At (view k))))"
    by (auto simp: sends_def)
  show ?thesis using Flush_queue [OF ok wf run] c by simp
qed

lemma add_flush:
  assumes ok: "kernel_ok lib view" and wf: "wf_ruleset (view k)" and ready: "table_ready table T"
  shows "\<exists>b k'. fw_bind (addTable table (idle k)) (\<lambda>t c. fw_bind (addChains lib (t_Chains table) t c)
      (\<lambda>b c. fw_bind (Flush lib c) (\<lambda>_ c. FwOk b c))) = FwOk b (idle k') \<and> wf_ruleset (view k') \<and>
    added (view k) T (t_Chains table) (map_of (rs_At (view k))) (map_of (rs_At (view k')))"
proof -
  have kt: "kernel_table table = Some T" and T: "nt_Family T \<noteq> FamilyUnspecified"
    and named: "named_apart ch_Name (t_Chains table)"
    and full: "\<forall>ch \<in> set (t_Chains table). chain_complete ch \<and>
      (\<forall>rule \<in> set (FromChainToRulesArray ch). forges (nt_Family T) rule)"
    using ready unfolding table_ready_def table_forges_def by blast+
  let ?conn = "\<lparr>c_Kernel = k, c_Queue = [AddTable T]\<rparr>"
  have t: "addTable table (idle k) = FwOk T ?conn"
    using addTable_sends [OF kt, of "idle k"] by (simp add: sends_def)
  have "\<exists>b cmds look. sends (add_chains_loop lib T (t_Chains table) False ?conn) ?conn b cmds \<and>
      runs_to cmds (view k) look \<and> added (view (c_Kernel ?conn)) T (t_Chains table) (map_of (rs_At (view k))) look"
    using wf by (intro add_chains_loop_sends [OF ok _ T named full]) simp_all
  then obtain b cmds look where a: "addChains lib (t_Chains table) T ?conn = FwOk b \<lparr>c_Kernel = k, c_Queue = AddTable T # cmds\<rparr>"
    and run: "runs_to cmds (view k) look" and add: "added (view k) T (t_Chains table) (map_of (rs_At (view k))) look"
    by (auto simp: sends_def addChains_def)
  have "runs_to (AddTable T # cmds) (view k) look" using run by (simp add: runs_to_def)
  from Flush_queue [OF ok wf this] show ?thesis using t a add by auto
qed

lemma applyTable_runs:
  assumes ok: "kernel_ok lib view" and wf: "wf_ruleset (view k)" and own: "own_table T (view k)"
    and ready: "table_ready table T" and flows: "snd (flushConntrackForNotrackRules client table) = None"
  shows "\<exists>deleted k1 k2. applyTable lib client table (idle k) = FwOk (FinalizerKept, deleted) (idle k2) \<and>
    wf_ruleset (view k2) \<and>
    map_of (rs_At (view k1)) = cleaned (lib_Marshal lib) T (t_Chains table) (map_of (rs_At (view k))) \<and>
    added (view k1) T (t_Chains table) (map_of (rs_At (view k1))) (map_of (rs_At (view k2)))"
proof -
  have tf: "table_forges table T" using ready by (simp add: table_ready_def)
  obtain k1 where k1: "fw_bind (cleanTable lib table (idle k)) (\<lambda>_. Flush lib) = FwOk () (idle k1)" "wf_ruleset (view k1)"
      "map_of (rs_At (view k1)) = cleaned (lib_Marshal lib) T (t_Chains table) (map_of (rs_At (view k)))"
    using clean_flush [OF ok wf own tf] by blast
  obtain b k2 where k2: "fw_bind (addTable table (idle k1)) (\<lambda>t c. fw_bind (addChains lib (t_Chains table) t c)
      (\<lambda>b c. fw_bind (Flush lib c) (\<lambda>_ c. FwOk b c))) = FwOk b (idle k2)" "wf_ruleset (view k2)"
      "added (view k1) T (t_Chains table) (map_of (rs_At (view k1))) (map_of (rs_At (view k2)))"
    using add_flush [OF ok k1(2) ready] by blast
  obtain deleted where d: "flushConntrackForNotrackRules client table = (deleted, None)"
    using flows by (cases "flushConntrackForNotrackRules client table") simp
  have "applyTable lib client table (idle k) =
      fw_bind (fw_bind (cleanTable lib table (idle k)) (\<lambda>_. Flush lib)) (\<lambda>_ conn2.
      fw_bind (fw_bind (addTable table conn2) (\<lambda>t c. fw_bind (addChains lib (t_Chains table) t c)
        (\<lambda>b c. fw_bind (Flush lib c) (\<lambda>_ c. FwOk b c)))) (\<lambda>b conn5.
        if b then FwOk (FinalizerKept, deleted) conn5 else FwOk (FinalizerKept, []) conn5))"
    unfolding applyTable_def fw_bind_assoc d fw_bind.simps prod.case option.case by (rule refl)
  then have "applyTable lib client table (idle k) = FwOk (FinalizerKept, if b then deleted else []) (idle k2)"
    unfolding k1(1) fw_bind.simps k2(1) by simp
  then show ?thesis using k1(3) k2(2,3) by (intro exI conjI)
qed

text \<open>A chain without a hook, a priority or a policy differs from every complete chain of the
  configuration; the comparison itself panics on it when the type agrees.\<close>

lemma unmodified_base: "isChainModified c ch = Ok False \<Longrightarrow> chain_complete ch \<Longrightarrow> base_chain c"
  by (auto simp: isChainModified_def ptr_differs_def base_chain_def chain_complete_def res_bind_Ok
      split: if_splits option.splits)

lemma converged_own_table:
  assumes "converged marshal T chs (map_of (rs_At v))" and "\<forall>ch \<in> set chs. chain_complete ch"
  shows "own_table T v"
  unfolding own_table_def
proof (intro allI impI)
  fix n c rs assume "chain_at v (T, n) = Some (c, rs)"
  then obtain ch where "ch \<in> set chs" "isChainModified c ch = Ok False"
    using assms(1) unfolding converged_def by blast
  then show "base_chain c" using assms(2) unmodified_base by blast
qed

lemma regular_chain_panics:
  assumes "ch_Name ch = Some (nc_Name c)" and "getType (nc_Type c) = ch_Type ch" and "nc_Hooknum c = None"
    and "ch_Hook ch = Some hook"
  shows "isChainOutdated c (ch # chs) = Panic"
  using assms by (simp add: isChainModified_def ptr_differs_def)

section \<open>A second reconciliation changes nothing\<close>

lemma find_named:
  assumes "named_apart f xs" and "x \<in> set xs" and "f x = Some n"
  shows "find (\<lambda>y. f y = Some n) xs = Some x"
  using assms(1,2)
proof (induction xs)
  case (Cons a xs)
  obtain m where m: "f a = Some m" "Some m \<notin> f ` set xs" "named_apart f xs"
    using named_apart_Cons [OF Cons.prems(1)] by blast
  show ?case
  proof (cases "x = a")
    case False
    then have "x \<in> set xs" using Cons.prems(2) by simp
    then have "m \<noteq> n" using m(2) assms(3) by (metis imageI)
    then show ?thesis using Cons.IH [OF m(3) \<open>x \<in> set xs\<close>] m(1) by simp
  qed (use assms(3) in simp)
qed simp

lemma isChainOutdated_find:
  "isChainOutdated c chs = (case find (\<lambda>ch. ch_Name ch = Some (nc_Name c)) chs of
     None \<Rightarrow> Ok (True, None) | Some ch \<Rightarrow> res_bind (isChainModified c ch) (\<lambda>b. Ok (b, Some ch)))"
  by (induction chs) simp_all

lemma isRuleOutdated_find:
  "r_Comment r = Some n \<Longrightarrow> isRuleOutdated marshal fam r rules = (case find (\<lambda>rule. GetName rule = Some n) rules of
     None \<Rightarrow> Ok True | Some rule \<Rightarrow> res_bind (Rule_Equal marshal fam rule r) (\<lambda>eq. Ok (\<not> eq)))"
  by (induction rules) simp_all

lemma isChainOutdated_named:
  assumes "named_apart ch_Name chs" and "ch \<in> set chs" and "ch_Name ch = Some (nc_Name c)"
  shows "isChainOutdated c chs = res_bind (isChainModified c ch) (\<lambda>b. Ok (b, Some ch))"
  using find_named [OF assms] by (simp add: isChainOutdated_find)

lemma kept_rule_equal:
  assumes "named_apart GetName rules" and "rule \<in> set rules" and "GetName rule = Some n" and "r_Comment r = Some n"
    and "Rule_Equal marshal fam rule r = Ok True"
  shows "kept_rule marshal fam rules r"
  using find_named [OF assms(1-3)] assms(5) by (simp add: kept_rule_def isRuleOutdated_find [OF assms(4)])

lemma cleaned_converged:
  assumes wf: "wf_ruleset v" and conv: "converged marshal T chs (map_of (rs_At v))" and named: "named_apart ch_Name chs"
    and rules: "\<forall>ch \<in> set chs. named_apart GetName (FromChainToRulesArray ch)"
  shows "cleaned marshal T chs (map_of (rs_At v)) = map_of (rs_At v)"
proof (rule ext)
  fix key
  show "cleaned marshal T chs (map_of (rs_At v)) key = chain_at v key"
  proof (cases "chain_at v key")
    case (Some e)
    obtain c rs where e: "e = (c, rs)" by fastforce
    show ?thesis
    proof (cases "fst key = T")
      case True
      then obtain n where key: "key = (T, n)" by (cases key) simp
      then obtain ch where ch: "ch \<in> set chs" "ch_Name ch = Some n" "isChainModified c ch = Ok False"
          "rules_installed marshal (nt_Family T) (FromChainToRulesArray ch) rs"
        using conv Some e unfolding converged_def by blast
      have "nc_Name c = n" using key_of_entry [OF wf] Some e key by (fastforce simp: key_of_def)
      then have o: "isChainOutdated c chs = Ok (False, Some ch)"
        using isChainOutdated_named [OF named ch(1)] ch(2,3) by simp
      have "\<forall>r \<in> set rs. kept_rule marshal (nt_Family T) (FromChainToRulesArray ch) r"
        using ch(1,4) rules kept_rule_equal unfolding rules_installed_def by blast
      then show ?thesis using Some e True o by (simp add: cleaned_def)
    qed (use Some e in \<open>simp add: cleaned_def\<close>)
  qed (simp add: cleaned_def)
qed

lemma added_converged:
  assumes conv: "converged marshal T chs (map_of (rs_At v))" and named: "named_apart ch_Name chs"
    and add: "added v T chs (map_of (rs_At v)) look"
  shows "look = map_of (rs_At v)"
proof (rule ext)
  fix key
  show "look key = chain_at v key"
  proof (cases "fst key = T \<and> Some (snd key) \<in> ch_Name ` set chs")
    case True
    then obtain n ch where ch: "key = (T, n)" "ch \<in> set chs" "ch_Name ch = Some n" by (cases key) (auto simp: image_iff)
    then obtain c rs where at: "chain_at v (T, n) = Some (c, rs)" using conv unfolding converged_def by fastforce
    then obtain ch' where "ch' \<in> set chs" "ch_Name ch' = Some n"
        "rules_installed marshal (nt_Family T) (FromChainToRulesArray ch') rs"
      using conv unfolding converged_def by blast
    then have inst: "rules_installed marshal (nt_Family T) (FromChainToRulesArray ch) rs"
      using named_apart_eq [OF named, of ch' ch] ch by simp
    have "existRule rs rule" if "rule \<in> set (FromChainToRulesArray ch)" "forge (nt_Family T) rule = Ok (Some f)" for rule f
      using inst that forge_comment [OF that(2)] unfolding existRule_iff rules_installed_def by fastforce
    then have "\<forall>f. f \<notin> set (new_rules (nt_Family T) rs (FromChainToRulesArray ch))"
      unfolding new_rules_mem by blast
    then have "new_rules (nt_Family T) rs (FromChainToRulesArray ch) = []"
      by (metis list.set_intros(1) list.exhaust)
    then show ?thesis using add ch at by (fastforce simp: added_def chain_in_def rules_at_def holds_rules_def)
  next
    case False
    then show ?thesis using add unfolding added_def by blast
  qed
qed

end
