(* ===== verification/FirewallProps.thy ===== *)
theory FirewallProps
  imports FirewallForgeSpec FirewallSync
begin

text \<open>
  The properties of the firewall: what the webhooks admit, what the forged rules mean, what a
  reconciliation leaves in the kernel, and the flows it evicts; with the instances at which their
  hypotheses hold.
\<close>

section \<open>Instances\<close>

definition ip_match :: "string \<Rightarrow> MatchPosition \<Rightarrow> Match" where
  "ip_match v pos = \<lparr>m_Op = MatchOperationEq, m_IP = Some \<lparr>ip_Value = v, ip_Position = pos\<rparr>,
     m_Port = None, m_Proto = None, m_Dev = None\<rparr>"

definition filter_rule :: "string option \<Rightarrow> FilterAction \<Rightarrow> Match list \<Rightarrow> FilterRule" where
  "filter_rule name act ms = \<lparr>fr_Name = name, fr_Counter = False, fr_Match = ms, fr_Action = act, fr_Value = None\<rparr>"

definition ex_chain :: "FilterRule list \<Rightarrow> Chain" where
  "ex_chain rs = \<lparr>ch_Name = Some ''pre'', ch_Rules = \<lparr>NatRules = None, FilterRules = Some rs, RouteRules = None\<rparr>,
     ch_Type = ChainTypeFilter, ch_Policy = Some ChainPolicyAccept, ch_Hook = Some ChainHookPrerouting,
     ch_Priority = Some 0\<rparr>"

definition ex_table :: "Chain list \<Rightarrow> Table" where
  "ex_table chs = \<lparr>t_Name = Some ''liqo'', t_Chains = chs, t_Family = Some TableFamilyIPv4\<rparr>"

definition ex_config :: "Chain list \<Rightarrow> FirewallConfiguration" where
  "ex_config chs = \<lparr>fc_UID = ''u1'', fc_Labels = [], fc_Table = ex_table chs\<rparr>"

lemmas ex_fw_defs = ip_match_def filter_rule_def ex_chain_def ex_table_def ex_config_def

section \<open>The webhooks\<close>

text \<open>C15: The validating webhook allows a request exactly when the object decodes, the other
  configurations can be listed, the configuration is valid among them, and, for an update, the old
  object decodes and has the same table name. \<open>valid_configuration\<close> is the specification: the table
  has a name no other configuration with the same labels uses, chain names are given and distinct,
  and in every chain the hook fits the family and the type, only the rules of its type are set, rule
  names are given, not empty and distinct, addresses of filter rules are well-formed, MSS clamping has a
  TCP match before any match without a protocol, and NAT rules fit the hook and have a target when
  they need one.\<close>

theorem webhook_admits_valid:
  "validate_Handle items req = Some FwAllowed \<longleftrightarrow>
    (\<exists>cfg is. q_Object req = Inr cfg \<and> items = Inr is \<and> valid_configuration is cfg \<and>
       (if q_IsUpdate req then \<exists>old. q_OldObject req = Inr old \<and> t_Name (fc_Table old) = t_Name (fc_Table cfg)
        else True))"
proof (cases "q_Object req")
  case (Inr cfg)
  show ?thesis
  proof (cases "q_IsUpdate req")
    case True
    show ?thesis
    proof (cases "q_OldObject req")
      case (Inr old)
      then show ?thesis
        using \<open>q_Object req = Inr cfg\<close> True check_configuration_Ok [of items "Some old" cfg]
        by (auto simp: validate_Handle_def split: res.splits)
    qed (use Inr True in \<open>simp add: validate_Handle_def\<close>)
  next
    case False
    show ?thesis
      using Inr False check_configuration_Ok [of items None cfg]
      by (auto simp: validate_Handle_def split: res.splits)
  qed
qed (simp add: validate_Handle_def)

definition fresh_uuids :: "string stream \<Rightarrow> string set \<Rightarrow> bool" where
  "fresh_uuids us names \<longleftrightarrow> inj (snth us) \<and> [] \<notin> sset us \<and> sset us \<inter> names = {}"

lemma fresh_uuids_stl:
  assumes "fresh_uuids us names"
  shows "fresh_uuids (stl us) names" and "shd us \<notin> sset (stl us)"
proof -
  have i: "inj (snth us)" using assms by (simp add: fresh_uuids_def)
  have "stl us !! i = us !! Suc i" for i by simp
  then have "inj (snth (stl us))" using i unfolding inj_def by (metis nat.inject)
  moreover have "sset (stl us) \<subseteq> sset us" by (cases us) auto
  ultimately show "fresh_uuids (stl us) names" using assms unfolding fresh_uuids_def by blast
  have "us !! 0 \<noteq> us !! Suc j" for j using i unfolding inj_def by (metis nat.distinct(1))
  then show "shd us \<notin> sset (stl us)" by (auto simp: sset_range)
qed

lemma named_by_apart:
  assumes "fresh_uuids us names" and "set ns \<subseteq> {None} \<union> Some ` names"
    and "distinct (filter (\<lambda>n. \<not> void_name n) ns)"
  shows "\<exists>ms. named_by ns us = map Some ms \<and> distinct ms \<and> [] \<notin> set ms \<and>
    set ms \<subseteq> sset us \<union> {m. Some m \<in> set ns \<and> m \<noteq> []}"
  using assms
proof (induction ns us rule: named_by.induct)
  case (2 n ns us)
  show ?case
  proof (cases "void_name n")
    case True
    note f = fresh_uuids_stl [OF 2(3)]
    obtain ms where ms: "named_by ns (stl us) = map Some ms" "distinct ms" "[] \<notin> set ms"
        "set ms \<subseteq> sset (stl us) \<union> {m. Some m \<in> set ns \<and> m \<noteq> []}"
      using 2(1) [OF True f(1)] 2(4,5) True by auto
    have s: "shd us \<in> sset us" "sset (stl us) \<subseteq> sset us" by (cases us; auto)+
    have "shd us \<noteq> []" "shd us \<notin> set ms"
      using 2(3) s f(2) ms(4) 2(4) by (auto simp: fresh_uuids_def)
    then show ?thesis using ms True s by (intro exI [of _ "shd us # ms"]) auto
  next
    case False
    then obtain m where m: "n = Some m" "m \<noteq> []" by (cases n) (auto simp: void_name_def)
    obtain ms where ms: "named_by ns us = map Some ms" "distinct ms" "[] \<notin> set ms"
        "set ms \<subseteq> sset us \<union> {m. Some m \<in> set ns \<and> m \<noteq> []}"
      using 2(2) [OF False 2(3)] 2(4,5) False by auto
    have "m \<in> names" using 2(4) m by auto
    then have "m \<notin> sset us" using 2(3) by (auto simp: fresh_uuids_def)
    moreover have "\<not> (Some m \<in> set ns)" using 2(5) m False by (auto simp: void_name_def)
    ultimately have "m \<notin> set ms" using ms(4) by auto
    then show ?thesis using ms m False by (intro exI [of _ "m # ms"]) auto
  qed
qed simp

lemma name_rules_rest: "\<exists>k. snd (name_rules getName setName rs us) = sdrop k us"
proof (induction rs arbitrary: us)
  case Nil
  show ?case by (rule exI [of _ 0]) simp
next
  case (Cons r rs)
  obtain k where "snd (name_rules getName setName rs (stl us)) = sdrop k (stl us)" using Cons by blast
  then have "snd (name_rules getName setName rs (stl us)) = sdrop (Suc k) us" by simp
  then have "\<exists>k. snd (name_rules getName setName rs (stl us)) = sdrop k us" by blast
  then show ?case using Cons [of us] by (cases "void_name (getName r)") (simp_all add: split_beta Let_def)
qed

lemma name_slice_rest: "\<exists>k. snd (name_slice getName setName rs us) = sdrop k us"
  using name_rules_rest [of getName setName _ us]
  by (cases rs) (auto simp: name_slice_def split_beta Let_def intro: exI [of _ 0])

lemma name_chain_rest: "\<exists>k. snd (name_chain ch us) = sdrop k us"
  by (cases "ch_Type ch")
    (auto simp: name_chain_def split_beta Let_def name_slice_rest intro: exI [of _ 0])

lemma fresh_uuids_sdrop: "fresh_uuids us names \<Longrightarrow> fresh_uuids (sdrop k us) names"
  by (induction k arbitrary: us) (auto dest: fresh_uuids_stl)

lemma list_all2_mem2: "list_all2 P xs ys \<Longrightarrow> y \<in> set ys \<Longrightarrow> \<exists>x \<in> set xs. P x y"
  by (induction rule: list_all2_induct) auto

lemma generateRuleNames_chains:
  assumes "fresh_uuids us names"
  shows "list_all2 (\<lambda>ch ch'. \<exists>us'. fresh_uuids us' names \<and> ch' = fst (name_chain ch us')) chs
    (fst (generateRuleNames chs us))"
  using assms
proof (induction chs arbitrary: us)
  case (Cons ch chs)
  obtain k where "snd (name_chain ch us) = sdrop k us" using name_chain_rest by blast
  then have "fresh_uuids (snd (name_chain ch us)) names" using fresh_uuids_sdrop [OF Cons.prems] by simp
  then show ?case using Cons by (auto simp: split_beta Let_def)
qed simp

definition rule_names :: "Chain \<Rightarrow> string option list" where
  "rule_names ch = map GetName (FromChainToRulesArray ch)"

lemma name_chain_checks:
  assumes "fresh_uuids us names" and "set (rule_names ch) \<subseteq> {None} \<union> Some ` names"
    and "distinct (filter (\<lambda>n. \<not> void_name n) (rule_names ch))"
  shows "checkRulesInChain (fst (name_chain ch us)) = Ok ()"
proof -
  obtain ms where ms: "rule_names (fst (name_chain ch us)) = map Some ms" "distinct ms" "[] \<notin> set ms"
    using named_by_apart [OF assms] name_chain_names [of ch us] unfolding rule_names_def by auto
  have "Some [] \<notin> set (rule_names (fst (name_chain ch us)))" using ms by auto
  then have "\<forall>r \<in> set (FromChainToRulesArray (fst (name_chain ch us))). GetName r \<noteq> Some []"
    unfolding rule_names_def set_map image_iff by metis
  then show ?thesis using ms(1,2) unfolding checkRulesInChain_Ok named_apart_def rule_names_def by blast
qed

text \<open>C32: The mutating webhook patches every object that decodes, and the rules of the patched object
  pass the validating webhook's checks on names, provided that the random names are distinct, not
  empty and different from the given names, and that the given names of a chain are distinct.\<close>

theorem generated_names_admitted:
  assumes "q_Object req = Inr cfg" and "fresh_uuids us names"
    and "\<forall>ch \<in> set (t_Chains (fc_Table cfg)). set (rule_names ch) \<subseteq> {None} \<union> Some ` names \<and>
      distinct (filter (\<lambda>n. \<not> void_name n) (rule_names ch))"
  shows "\<exists>cfg'. mutate_Handle us req = FwPatched cfg' \<and>
    length (t_Chains (fc_Table cfg')) = length (t_Chains (fc_Table cfg)) \<and>
    list_all (\<lambda>ch. checkRulesInChain ch = Ok ()) (t_Chains (fc_Table cfg'))"
proof -
  let ?chs = "t_Chains (fc_Table cfg)"
  note all = generateRuleNames_chains [OF assms(2), of ?chs]
  have "checkRulesInChain ch' = Ok ()" if "ch' \<in> set (fst (generateRuleNames ?chs us))" for ch'
  proof -
    obtain ch us' where "ch \<in> set ?chs" "fresh_uuids us' names" "ch' = fst (name_chain ch us')"
      using list_all2_mem2 [OF all \<open>ch' \<in> _\<close>] by blast
    then show ?thesis using name_chain_checks assms(3) by blast
  qed
  then show ?thesis
    using assms(1) list_all2_lengthD [OF all] by (simp add: mutate_Handle_def list_all_iff)
qed

definition ex_uuids :: "string stream" where
  "ex_uuids = smap (\<lambda>n. replicate (Suc n) (CHR ''u'')) (fromN 0)"

lemma ex_uuids_fresh: "fresh_uuids ex_uuids {''a''}"
proof -
  have n: "ex_uuids !! n = replicate (Suc n) (CHR ''u'')" for n by (simp add: ex_uuids_def)
  have "inj (snth ex_uuids)"
  proof (rule injI)
    fix i j assume "ex_uuids !! i = ex_uuids !! j"
    then have "length (ex_uuids !! i) = length (ex_uuids !! j)" by simp
    then show "i = j" unfolding n by simp
  qed
  moreover have "sset ex_uuids = range (\<lambda>n. replicate (Suc n) (CHR ''u''))"
    unfolding sset_range using n by auto
  ultimately show ?thesis by (auto simp: fresh_uuids_def)
qed

theorem generated_names_admitted_witness:
  "\<exists>cfg'. mutate_Handle ex_uuids \<lparr>q_Object = Inr (ex_config [ex_chain
       [filter_rule (Some ''a'') ActionAccept [], filter_rule None ActionDrop []]]), q_OldObject = Inl [], q_IsUpdate = False\<rparr> =
       FwPatched cfg' \<and>
     length (t_Chains (fc_Table cfg')) = 1 \<and>
     list_all (\<lambda>ch. checkRulesInChain ch = Ok ()) (t_Chains (fc_Table cfg'))"
  using generated_names_admitted [OF _ ex_uuids_fresh, of "\<lparr>q_Object = Inr (ex_config [ex_chain
       [filter_rule (Some ''a'') ActionAccept [], filter_rule None ActionDrop []]]), q_OldObject = Inl [], q_IsUpdate = False\<rparr>"]
  by (simp add: ex_fw_defs rule_names_def FromChainToRulesArray_def elems_def void_name_def)

section \<open>What the forged rules mean\<close>

definition ex_step :: nft_machine where
  "ex_step p e r =
     (case e of
        Payload _ base off _ \<Rightarrow>
          Some (if base = PayloadBaseNetworkHeader then be_bytes 4 (if off = 12 then pk_src p else pk_dst p)
                else be_bytes 2 (if off = 0 then pk_sport p else pk_dport p))
      | Meta key _ _ \<Rightarrow>
          Some (if key = MetaKeyL4PROTO then [pk_proto p] else if key = MetaKeyIIFNAME then pk_iif p else pk_oif p)
      | Bitwise _ _ _ m x \<Rightarrow> Some (map2 (XOR) (map2 (AND) r m) x)
      | Cmp op _ d \<Rightarrow> if cmp_bytes op (take (length d) r) d then Some r else None
      | Range _ _ a b \<Rightarrow> if be_val a \<le> be_val r \<and> be_val r \<le> be_val b then Some r else None
      | _ \<Rightarrow> Some r)"

lemma ex_step_ok: "step_ok ex_step"
  by (simp add: step_ok_def ex_step_def)

definition ex_packet :: packet where
  "ex_packet = \<lparr>pk_src = 0x0A000001, pk_dst = 0x0A000002, pk_proto = 6, pk_sport = 1024, pk_dport = 80,
     pk_iif = [], pk_oif = []\<rparr>"

text \<open>C19: Let every match of a rule have the operator equal, no device, an IPv4 address or a subnet without
  host bits but no range of addresses, and a port or range of ports that parses, where it has an address or
  a port at all (\<open>plain_match\<close>; outside of these the two sides differ). If the matches can be forged, the expressions forged for a rule let an IPv4 packet pass exactly when the
  conntrack matcher says that the packet's addresses, protocol and ports match the rule: the flows that
  are evicted are those the rule matches.\<close>

theorem rule_agrees_with_eviction:
  assumes "step_ok nft_step" and "list_all plain_match (fr_Match rule)" and "applyMatches (fr_Match rule) = Ok es"
  shows "passes nft_step p es r \<longleftrightarrow> tupleMatchesRule (tuple_of p) rule"
  using applyMatches_agree [OF assms] by (simp add: tupleMatchesRule_def)

definition ex_port_match :: "MatchOperation \<Rightarrow> string \<Rightarrow> Match" where
  "ex_port_match op v = \<lparr>m_Op = op, m_IP = None, m_Port = Some \<lparr>port_Value = v, port_Position = MatchPositionDst\<rparr>,
     m_Proto = Some \<lparr>proto_Value = L4ProtoTCP\<rparr>, m_Dev = None\<rparr>"

definition ex_agree_rule :: FilterRule where
  "ex_agree_rule = filter_rule (Some ''r'') ActionNotrack
     [ip_match ''10.0.0.0/8'' MatchPositionSrc, ex_port_match MatchOperationEq ''80'']"

lemma ex_80: "ParseUint ''80'' 16 = Some 80"
  by (simp add: ParseUint_def is_digit_def dec_val_def digit_val_def)

lemma ex_agree_forges: "\<exists>es. applyMatches (fr_Match ex_agree_rule) = Ok es"
proof -
  have c: "ParseCIDR ''10.0.0.0/8'' = Some (As16 (V4 0xA000000), ip_net (V4 0xA000000) 8)"
    using ParsePrefix_ParseCIDR [OF ParsePrefix_example] by simp
  have i: "applyMatchIP m \<lparr>ip_Value = ''10.0.0.0/8'', ip_Position = MatchPositionSrc\<rparr> op =
      applyMatchIPPoolSubnet m \<lparr>ip_Value = ''10.0.0.0/8'', ip_Position = MatchPositionSrc\<rparr> op" for m op
    using applyMatchIP_subnet [of "\<lparr>ip_Value = ''10.0.0.0/8'', ip_Position = MatchPositionSrc\<rparr>"] c by simp
  have a: "Atoi ''80'' = Some 80" using Atoi_ParseUint(1) [OF ex_80] by simp
  show ?thesis
    by (simp add: ex_agree_rule_def ex_fw_defs ex_port_match_def applyMatch_def getMatchCmpOp_def opt_apply_def
        applyMatchProto_def getMatchProtoValue_def applyMatchPort_def GetPortValueType_def ParsePortRange_def a
        applyMatchPortSinglePort_def getMatchPortPositionOffset_def i applyMatchIPPoolSubnet_def c
        getMatchIPPositionOffset_def)
qed

theorem rule_agrees_with_eviction_witness:
  "\<exists>es. applyMatches (fr_Match ex_agree_rule) = Ok es \<and>
     (passes ex_step ex_packet es [] \<longleftrightarrow> tupleMatchesRule (tuple_of ex_packet) ex_agree_rule)"
proof -
  have "list_all plain_match (fr_Match ex_agree_rule)"
    by (simp add: ex_agree_rule_def ex_fw_defs ex_port_match_def plain_match_def plain_ip_def opt_holds_def
        ParsePrefix_example parsePortRange_def ex_80)
  then show ?thesis using ex_agree_forges rule_agrees_with_eviction [OF ex_step_ok] by blast
qed

lemma position_error_Op [simp]: "position_error (m\<lparr>m_Op := x\<rparr>) = position_error m"
  by (simp add: position_error_def)

text \<open>For a match on a range of ports and possibly a protocol, the operator is not looked at when the
  expressions are forged: a rule for all ports outside the range becomes the rule for the range. The
  conntrack matcher does negate, so on such rules the two disagree on every tuple.\<close>

theorem neq_port_range_ignored:
  assumes "m_Port m = Some q" and "ParsePortRange (port_Value q) \<noteq> None" and "m_IP m = None" and "m_Dev m = None"
  shows "applyMatch (m\<lparr>m_Op := MatchOperationNeq\<rparr>) = applyMatch (m\<lparr>m_Op := MatchOperationEq\<rparr>) \<and>
    matchSatisfiesRule (m\<lparr>m_Op := MatchOperationNeq\<rparr>) t = (\<not> matchSatisfiesRule (m\<lparr>m_Op := MatchOperationEq\<rparr>) t)"
proof -
  have "applyMatchPort (m\<lparr>m_Op := x\<rparr>) q op = applyMatchPortRange m q" for x op
    using assms(2) by (cases "port_Position q") (simp_all add: applyMatchPort_def GetPortValueType_def
        applyMatchPortRange_def getMatchPortPositionOffset_def)
  moreover have "applyMatchProto (m\<lparr>m_Op := x\<rparr>) pr = applyMatchProto m pr" for x pr
    by (cases "proto_Value pr") (simp_all add: applyMatchProto_def getMatchProtoValue_def)
  ultimately have "applyMatch (m\<lparr>m_Op := MatchOperationNeq\<rparr>) = applyMatch (m\<lparr>m_Op := MatchOperationEq\<rparr>)"
    using assms by (cases "m_Proto m") (simp_all add: applyMatch_def getMatchCmpOp_def opt_apply_def)
  then show ?thesis by (simp add: matchSatisfiesRule_def)
qed

theorem neq_port_range_ignored_witness:
  "applyMatch (ex_port_match MatchOperationNeq ''80-80'') = applyMatch (ex_port_match MatchOperationEq ''80-80'') \<and>
   matchSatisfiesRule (ex_port_match MatchOperationNeq ''80-80'') (tuple_of ex_packet) =
     (\<not> matchSatisfiesRule (ex_port_match MatchOperationEq ''80-80'') (tuple_of ex_packet))"
proof -
  have "ParsePortRange ''80-80'' \<noteq> None" by (simp add: ParsePortRange_def ex_80)
  then show ?thesis
    using neq_port_range_ignored [of "ex_port_match MatchOperationEq ''80-80''" _ "tuple_of ex_packet"]
    by (simp add: ex_port_match_def)
qed

lemma mask_addr_idem: "mask_addr n (mask_addr n a) = mask_addr n a"
proof -
  have "topbits n (mask_addr n a) = topbits n a"
    using a_nat_mask_addr [of n a] by (simp add: topbits_def)
  then show ?thesis using mask_addr_eq_iff [of "mask_addr n a" a n] by simp
qed

text \<open>A match on an IPv4 subnet written with host bits, such as 10.0.0.5/24, is forged without an
  error but matches no packet at all, although its own address lies in the subnet.\<close>

theorem subnet_host_bits_never_match:
  assumes "step_ok nft_step" and "ParsePrefix (ip_Value i) = Some (Prefix (V4 w) n)"
    and "mask_addr n (V4 w) \<noteq> V4 w" and "applyMatchIP m i CmpOpEq = Ok es"
  shows "\<not> passes nft_step p es r \<and> Contains (Prefix (V4 w) n) (V4 w)"
proof -
  note v = ParsePrefix_ParseCIDR [OF assms(2)]
  have "mask_addr n (V4 (pos_addr i p)) \<noteq> V4 w" using assms(3) mask_addr_idem by metis
  moreover have "applyMatchIPPoolSubnet m i CmpOpEq = Ok es" using assms(4) applyMatchIP_subnet [OF v] by simp
  ultimately have "\<not> passes nft_step p es r" using subnet_passes [OF assms(1) v] by blast
  moreover have "Contains (Prefix (V4 w) n) (V4 w)"
    using Contains_Addr [OF ParsePrefix_Valid [OF assms(2)]] by simp
  ultimately show ?thesis by blast
qed

theorem subnet_host_bits_never_match_witness:
  "\<exists>es. applyMatchIP (ip_match ''10.0.0.5/24'' MatchPositionSrc)
       \<lparr>ip_Value = ''10.0.0.5/24'', ip_Position = MatchPositionSrc\<rparr> CmpOpEq = Ok es \<and>
     passes ex_step (ex_packet\<lparr>pk_src := 0x0A000005\<rparr>) es [] = False \<and>
     Contains (Prefix (V4 0x0A000005) 24) (V4 0x0A000005)"
proof -
  let ?i = "\<lparr>ip_Value = ''10.0.0.5/24'', ip_Position = MatchPositionSrc\<rparr>"
  let ?m = "ip_match ''10.0.0.5/24'' MatchPositionSrc"
  have p: "ParsePrefix (ip_Value ?i) = Some (Prefix (V4 0x0A000005) 24)" by (simp add: parse_eval)
  note c = ParsePrefix_ParseCIDR [OF p]
  have "\<exists>es. applyMatchIP ?m ?i CmpOpEq = Ok es"
    unfolding applyMatchIP_subnet [OF c] using c
    by (simp add: applyMatchIPPoolSubnet_def getMatchIPPositionOffset_def)
  moreover have "mask_addr 24 (V4 0x0A000005) \<noteq> V4 0x0A000005" by simp
  ultimately show ?thesis using subnet_host_bits_never_match [OF ex_step_ok p] by blast
qed

section \<open>Comparing rules\<close>

lemma forge_two_addresses:
  assumes "ParseAddr a = Some (V4 x)" and "ParseAddr b = Some (V4 y)"
  shows "forge fam (FilterRuleWrapper (filter_rule (Some name) ActionDrop
      [ip_match a MatchPositionSrc, ip_match b MatchPositionDst])) =
    Ok (Some \<lparr>f_Comment = name, f_Exprs =
      [Payload 1 PayloadBaseNetworkHeader 12 4, Cmp CmpOpEq 1 (be_bytes 4 x),
       Payload 1 PayloadBaseNetworkHeader 16 4, Cmp CmpOpEq 1 (be_bytes 4 y), Verdict VerdictDrop]\<rparr>)"
proof -
  have i: "applyMatchIP m \<lparr>ip_Value = v, ip_Position = pos\<rparr> op =
      applyMatchIPSingleIP m \<lparr>ip_Value = v, ip_Position = pos\<rparr> op"
    if "ParseAddr v = Some (V4 z)" for m v pos op z
    using applyMatchIP_single [of "\<lparr>ip_Value = v, ip_Position = pos\<rparr>"] that by simp
  have "applyMatch (ip_match a MatchPositionSrc) =
      Ok [Payload 1 PayloadBaseNetworkHeader 12 4, Cmp CmpOpEq 1 (be_bytes 4 x)]"
    using assms(1) by (simp add: ip_match_def applyMatch_def getMatchCmpOp_def opt_apply_def i [OF assms(1)]
        applyMatchIPSingleIP_def getMatchIPPositionOffset_def ParseIP_def to4_bytes_def del: As16.simps)
  moreover have "applyMatch (ip_match b MatchPositionDst) =
      Ok [Payload 1 PayloadBaseNetworkHeader 16 4, Cmp CmpOpEq 1 (be_bytes 4 y)]"
    using assms(2) by (simp add: ip_match_def applyMatch_def getMatchCmpOp_def opt_apply_def i [OF assms(2)]
        applyMatchIPSingleIP_def getMatchIPPositionOffset_def ParseIP_def to4_bytes_def del: As16.simps)
  ultimately show ?thesis
    by (simp add: filter_rule_def forgeFilterRule_def deref_def applyFilterAction_def applyDropAction_def)
qed

text \<open>C40: A rule in the kernel that drops packets from one IPv4 address to another is taken for the rule
  with the two addresses swapped: after the configuration changes from the one to the other the kernel's
  rule is kept, although the expressions of the two rules differ.\<close>

theorem swapped_addresses_unnoticed:
  assumes "\<forall>e. marshal e \<noteq> None" and "ParseAddr a = Some (V4 x)" and "ParseAddr b = Some (V4 y)" and "x \<noteq> y"
  shows "\<exists>f f'. forge fam (FilterRuleWrapper (filter_rule (Some name) ActionDrop
        [ip_match a MatchPositionSrc, ip_match b MatchPositionDst])) = Ok (Some f) \<and>
    forge fam (FilterRuleWrapper (filter_rule (Some name) ActionDrop
        [ip_match b MatchPositionSrc, ip_match a MatchPositionDst])) = Ok (Some f') \<and>
    f_Exprs f \<noteq> f_Exprs f' \<and>
    isRuleOutdated marshal fam \<lparr>r_Handle = h, r_Comment = Some name, r_Exprs = f_Exprs f\<rparr>
      [FilterRuleWrapper (filter_rule (Some name) ActionDrop
        [ip_match b MatchPositionSrc, ip_match a MatchPositionDst])] = Ok False"
proof -
  let ?es = "\<lambda>x y. [Payload 1 PayloadBaseNetworkHeader 12 4, Cmp CmpOpEq 1 (be_bytes 4 x),
       Payload 1 PayloadBaseNetworkHeader 16 4, Cmp CmpOpEq 1 (be_bytes 4 y), Verdict VerdictDrop]"
  note f = forge_two_addresses [OF assms(2,3), of fam name] and f' = forge_two_addresses [OF assms(3,2), of fam name]
  have "compareRuleExpressions marshal (?es x y) (?es y x)"
    using compare_same_set [OF assms(1), of "?es x y" "?es y x"]
    by (auto simp: filterUnstableExprs_def unstable_def)
  then have "Rule_Equal marshal fam (FilterRuleWrapper (filter_rule (Some name) ActionDrop
        [ip_match b MatchPositionSrc, ip_match a MatchPositionDst]))
      \<lparr>r_Handle = h, r_Comment = Some name, r_Exprs = ?es x y\<rparr> = Ok True"
    unfolding Rule_Equal_def f' by simp
  moreover have "GetName (FilterRuleWrapper (filter_rule (Some name) ActionDrop
        [ip_match b MatchPositionSrc, ip_match a MatchPositionDst])) = Some name" by (simp add: filter_rule_def)
  ultimately have "isRuleOutdated marshal fam \<lparr>r_Handle = h, r_Comment = Some name, r_Exprs = ?es x y\<rparr>
      [FilterRuleWrapper (filter_rule (Some name) ActionDrop
        [ip_match b MatchPositionSrc, ip_match a MatchPositionDst])] = Ok False"
    by (simp del: GetName.simps One_nat_def)
  moreover have "?es x y \<noteq> ?es y x" using assms(4) by (simp add: be_bytes_4_inject)
  ultimately show ?thesis using f f' by (intro exI conjI) (assumption, assumption, simp_all only: forged.simps simp_thms)
qed

theorem swapped_addresses_unnoticed_witness:
  "\<exists>f f'. forge FamilyIPv4 (FilterRuleWrapper (filter_rule (Some ''r'') ActionDrop
        [ip_match ''10.0.0.1'' MatchPositionSrc, ip_match ''10.0.0.2'' MatchPositionDst])) = Ok (Some f) \<and>
    forge FamilyIPv4 (FilterRuleWrapper (filter_rule (Some ''r'') ActionDrop
        [ip_match ''10.0.0.2'' MatchPositionSrc, ip_match ''10.0.0.1'' MatchPositionDst])) = Ok (Some f') \<and>
    f_Exprs f \<noteq> f_Exprs f' \<and>
    isRuleOutdated (\<lambda>e. Some [0]) FamilyIPv4 \<lparr>r_Handle = 7, r_Comment = Some ''r'', r_Exprs = f_Exprs f\<rparr>
      [FilterRuleWrapper (filter_rule (Some ''r'') ActionDrop
        [ip_match ''10.0.0.2'' MatchPositionSrc, ip_match ''10.0.0.1'' MatchPositionDst])] = Ok False"
proof -
  have "ParseAddr ''10.0.0.1'' = Some (V4 0x0A000001)" "ParseAddr ''10.0.0.2'' = Some (V4 0x0A000002)"
    by (simp_all add: parse_eval)
  moreover have "(0x0A000001 :: 32 word) \<noteq> 0x0A000002" by simp
  ultimately show ?thesis using swapped_addresses_unnoticed [of "\<lambda>e. Some [0]"] by blast
qed

section \<open>Reconciliation\<close>

text \<open>The object that leads to an application of the table: present, not being deleted, with the finalizer.\<close>

definition applies :: "fw_client \<Rightarrow> Table \<Rightarrow> bool" where
  "applies cl table \<longleftrightarrow> cl_Get cl = Inr (Some \<lparr>fo_Table = table, fo_Deleting = False, fo_Finalizer = True\<rparr>)"

lemma Reconcile_applies: "applies cl table \<Longrightarrow> Reconcile lib client True cl conn = applyTable lib client table conn"
  by (simp add: applies_def Reconcile_def)

lemma valid_ready:
  assumes "valid_configuration items cfg" and "kernel_table (fc_Table cfg) = Some T" and "nt_Family T \<noteq> FamilyUnspecified"
    and "\<forall>ch \<in> set (t_Chains (fc_Table cfg)). chain_complete ch \<and>
      (\<forall>rule \<in> set (FromChainToRulesArray ch). forges (nt_Family T) rule)"
  shows "table_ready (fc_Table cfg) T"
    and "\<forall>ch \<in> set (t_Chains (fc_Table cfg)). named_apart GetName (FromChainToRulesArray ch)"
proof -
  show "table_ready (fc_Table cfg) T"
    using assms by (simp add: table_ready_def table_forges_def valid_configuration_def)
  show "\<forall>ch \<in> set (t_Chains (fc_Table cfg)). named_apart GetName (FromChainToRulesArray ch)"
  proof
    fix ch assume "ch \<in> set (t_Chains (fc_Table cfg))"
    then obtain family where "chain_ok family ch" using assms(1) unfolding valid_configuration_def by blast
    then show "named_apart GetName (FromChainToRulesArray ch)" unfolding chain_ok_def by blast
  qed
qed

definition ex_drop_rule :: FilterRule where
  "ex_drop_rule = filter_rule (Some ''r'') ActionDrop
     [ip_match ''10.0.0.1'' MatchPositionSrc, ip_match ''10.0.0.2'' MatchPositionDst]"

abbreviation ex_cfg :: FirewallConfiguration where
  "ex_cfg \<equiv> ex_config [ex_chain [ex_drop_rule]]"

definition ex_T :: nft_table where
  "ex_T = \<lparr>nt_Name = ''liqo'', nt_Family = FamilyIPv4\<rparr>"

definition ex_client :: fw_client where
  "ex_client = \<lparr>cl_Get = Inr (Some \<lparr>fo_Table = fc_Table ex_cfg, fo_Deleting = False, fo_Finalizer = True\<rparr>),
     cl_AddFinalizer = None, cl_RemoveFinalizer = None\<rparr>"

definition ex_old_chain :: nft_chain where
  "ex_old_chain = \<lparr>nc_Table = ex_T, nc_Name = ''old'', nc_Hooknum = Some HookInput, nc_Priority = Some 0,
     nc_Type = TypeFilter, nc_Policy = Some PolicyAccept\<rparr>"

definition ex_regular_chain :: nft_chain where
  "ex_regular_chain = \<lparr>nc_Table = ex_T\<lparr>nt_Name := ''other''\<rparr>, nc_Name = ''jump'', nc_Hooknum = None,
     nc_Priority = None, nc_Type = TypeFilter, nc_Policy = None\<rparr>"

definition ex_before :: ruleset where
  "ex_before = \<lparr>rs_At = [((ex_T, ''old''), (ex_old_chain, [])), ((nc_Table ex_regular_chain, ''jump''), (ex_regular_chain, []))],
     rs_Next = 1\<rparr>"

definition ex_drop_exprs :: "nft_expr list" where
  "ex_drop_exprs =
     [Payload 1 PayloadBaseNetworkHeader 12 4, Cmp CmpOpEq 1 (be_bytes 4 (0x0A000001 :: 32 word)),
      Payload 1 PayloadBaseNetworkHeader 16 4, Cmp CmpOpEq 1 (be_bytes 4 (0x0A000002 :: 32 word)), Verdict VerdictDrop]"

lemma ex_drop_forge:
  "forge fam (FilterRuleWrapper ex_drop_rule) = Ok (Some \<lparr>f_Comment = ''r'', f_Exprs = ex_drop_exprs\<rparr>)"
  unfolding ex_drop_rule_def ex_drop_exprs_def by (rule forge_two_addresses) (simp_all add: parse_eval)

lemma ex_chain_rules: "FromChainToRulesArray (ex_chain rs) = map FilterRuleWrapper rs"
  by (simp add: FromChainToRulesArray_def ex_chain_def elems_def)

lemma ex_chains: "t_Chains (fc_Table ex_cfg) = [ex_chain [ex_drop_rule]]"
  by (simp add: ex_config_def ex_table_def)

lemma ex_full:
  "\<forall>ch \<in> set (t_Chains (fc_Table ex_cfg)). chain_complete ch \<and>
    (\<forall>rule \<in> set (FromChainToRulesArray ch). forges (nt_Family ex_T) rule)"
proof -
  have "forges fam (FilterRuleWrapper ex_drop_rule)" for fam using ex_drop_forge unfolding forges_def by blast
  moreover have "chain_complete (ex_chain rs)" for rs by (simp add: chain_complete_def ex_chain_def)
  ultimately show ?thesis unfolding ex_chains by (simp add: ex_chain_rules)
qed

lemma ex_valid: "valid_configuration [] ex_cfg"
proof -
  have "ParseIP ''10.0.0.1'' \<noteq> None" "ParseIP ''10.0.0.2'' \<noteq> None" by (simp_all add: ParseIP_def parse_eval)
  then have r: "filter_rule_ok ex_drop_rule"
    by (simp add: filter_rule_ok_def ex_drop_rule_def filter_rule_def ip_match_def ip_value_ok_def)
  have "named_apart GetName [FilterRuleWrapper ex_drop_rule]"
    unfolding named_apart_def by (rule exI [of _ "[''r'']"]) (simp add: ex_drop_rule_def filter_rule_def)
  moreover have "named_apart ch_Name [ex_chain rs]" for rs
    unfolding named_apart_def by (rule exI [of _ "[''pre'']"]) (simp add: ex_chain_def)
  moreover have "ChainHookPrerouting \<in> hooks_of TableFamilyIPv4 ChainTypeFilter" by (simp add: hooks_of_def)
  ultimately show ?thesis using r
    by (simp add: valid_configuration_def ex_chains table_name_free_def chain_ok_def ex_chain_rules)
      (simp add: ex_config_def ex_table_def ex_chain_def rules_sets_ok_def elems_def ex_drop_rule_def filter_rule_def)
qed

lemma ex_table_T: "kernel_table (fc_Table ex_cfg) = Some ex_T" "nt_Family ex_T \<noteq> FamilyUnspecified"
  by (simp_all add: kernel_table_def ex_config_def ex_table_def ex_T_def getTableFamily_def)

lemma ex_applies: "applies ex_client (fc_Table ex_cfg)"
  by (simp add: applies_def ex_client_def)

lemma ex_flows: "snd (flushConntrackForNotrackRules None table) = None"
  by (simp add: flushConntrackForNotrackRules_def)

lemma ex_before_wf: "wf_ruleset ex_before"
  by (rule wf_rulesetI) (auto simp: ex_before_def entry_ok_def key_of_def ex_old_chain_def ex_regular_chain_def has_key_def ex_T_def split: if_splits)

lemma ex_before_own: "own_table ex_T ex_before"
  by (simp add: own_table_def ex_before_def base_chain_def ex_old_chain_def ex_regular_chain_def ex_T_def)

text \<open>C6: Let nftables behave as documented (\<open>kernel_ok\<close>), let the configuration be valid in the sense of
  the webhook, with all attributes of its chains given and rules that can be forged (the webhook admits
  rules that cannot, such as a match on a mark without a value), let the conntrack flows be flushed without an
  error where that is asked for, and let the table of the configuration hold no chain without hook, priority
  or policy (the controller never adds one; on one of a configured name \<open>isChainModified\<close> panics).
  Other tables may hold any chains. Then a
  reconciliation from an empty queue succeeds and leaves an empty queue; in the configuration's table
  the kernel then has exactly the chains of the configuration, with their type, hook, priority and policy,
  each with exactly the rules of the configuration up to the comparison the code makes (\<open>converged\<close>);
  the chains of every other table are untouched, and the table again holds base chains only.\<close>

theorem reconcile_converges:
  assumes ok: "kernel_ok lib view" and wf: "wf_ruleset (view k)" and own: "own_table T (view k)"
    and marshal: "\<forall>e. lib_Marshal lib e \<noteq> None" and valid: "valid_configuration items cfg"
    and T: "kernel_table (fc_Table cfg) = Some T" "nt_Family T \<noteq> FamilyUnspecified"
    and full: "\<forall>ch \<in> set (t_Chains (fc_Table cfg)). chain_complete ch \<and>
      (\<forall>rule \<in> set (FromChainToRulesArray ch). forges (nt_Family T) rule)"
    and get: "applies cl (fc_Table cfg)" and flows: "snd (flushConntrackForNotrackRules client (fc_Table cfg)) = None"
  shows "\<exists>deleted k'. Reconcile lib client True cl (idle k) = FwOk (FinalizerKept, deleted) (idle k') \<and>
    wf_ruleset (view k') \<and> own_table T (view k') \<and>
    converged (lib_Marshal lib) T (t_Chains (fc_Table cfg)) (map_of (rs_At (view k'))) \<and>
    map_of (rs_At (view k')) |` {key. fst key \<noteq> T} = map_of (rs_At (view k)) |` {key. fst key \<noteq> T}"
proof -
  note ready = valid_ready(1) [OF valid T full]
  obtain deleted k1 k2 where run: "applyTable lib client (fc_Table cfg) (idle k) = FwOk (FinalizerKept, deleted) (idle k2)"
      "wf_ruleset (view k2)"
      "map_of (rs_At (view k1)) = cleaned (lib_Marshal lib) T (t_Chains (fc_Table cfg)) (map_of (rs_At (view k)))"
      "added (view k1) T (t_Chains (fc_Table cfg)) (map_of (rs_At (view k1))) (map_of (rs_At (view k2)))"
    using applyTable_runs [OF ok wf own ready flows] by blast
  have named: "named_apart ch_Name (t_Chains (fc_Table cfg))" using ready by (simp add: table_ready_def)
  note conv = added_converges [OF wf run(3,4) named full marshal]
  have "map_of (rs_At (view k2)) |` {key. fst key \<noteq> T} = map_of (rs_At (view k)) |` {key. fst key \<noteq> T}"
    using conv(2) by (auto simp: restrict_map_def fun_eq_iff)
  moreover have "own_table T (view k2)" using converged_own_table [OF conv(1)] full by blast
  ultimately show ?thesis using run(1,2) conv(1) Reconcile_applies [OF get] by metis
qed

theorem reconcile_converges_witness:
  "\<exists>deleted k'. Reconcile (ruleset_lib (\<lambda>e. Some [0])) None True ex_client (idle ex_before) =
      FwOk (FinalizerKept, deleted) (idle k') \<and> wf_ruleset k' \<and> own_table ex_T k' \<and>
    converged (lib_Marshal (ruleset_lib (\<lambda>e. Some [0]))) ex_T (t_Chains (fc_Table ex_cfg)) (map_of (rs_At k')) \<and>
    map_of (rs_At k') |` {key. fst key \<noteq> ex_T} = map_of (rs_At ex_before) |` {key. fst key \<noteq> ex_T}"
  by (rule reconcile_converges [OF ruleset_lib_ok _ _ _ ex_valid ex_table_T ex_full ex_applies ex_flows])
    (simp_all add: ex_before_wf ex_before_own ruleset_lib_def)

text \<open>C22: For such a configuration and kernel (any chains in other tables), a reconciliation of a kernel that already agrees with the
  configuration succeeds and changes no chain and no rule: reconciling is idempotent.\<close>

theorem reconcile_stable:
  assumes ok: "kernel_ok lib view" and wf: "wf_ruleset (view k)"
    and valid: "valid_configuration items cfg"
    and T: "kernel_table (fc_Table cfg) = Some T" "nt_Family T \<noteq> FamilyUnspecified"
    and full: "\<forall>ch \<in> set (t_Chains (fc_Table cfg)). chain_complete ch \<and>
      (\<forall>rule \<in> set (FromChainToRulesArray ch). forges (nt_Family T) rule)"
    and get: "applies cl (fc_Table cfg)" and flows: "snd (flushConntrackForNotrackRules client (fc_Table cfg)) = None"
    and conv: "converged (lib_Marshal lib) T (t_Chains (fc_Table cfg)) (map_of (rs_At (view k)))"
  shows "\<exists>deleted k'. Reconcile lib client True cl (idle k) = FwOk (FinalizerKept, deleted) (idle k') \<and>
    map_of (rs_At (view k')) = map_of (rs_At (view k))"
proof -
  note ready = valid_ready [OF valid T full]
  have named: "named_apart ch_Name (t_Chains (fc_Table cfg))" using ready(1) by (simp add: table_ready_def)
  have own: "own_table T (view k)" using converged_own_table [OF conv] full by blast
  obtain deleted k1 k2 where run: "applyTable lib client (fc_Table cfg) (idle k) = FwOk (FinalizerKept, deleted) (idle k2)"
      "map_of (rs_At (view k1)) = cleaned (lib_Marshal lib) T (t_Chains (fc_Table cfg)) (map_of (rs_At (view k)))"
      "added (view k1) T (t_Chains (fc_Table cfg)) (map_of (rs_At (view k1))) (map_of (rs_At (view k2)))"
    using applyTable_runs [OF ok wf own ready(1) flows] by blast
  have k1: "map_of (rs_At (view k1)) = map_of (rs_At (view k))"
    using run(2) cleaned_converged [OF wf conv named ready(2)] by simp
  have "map_of (rs_At (view k2)) = map_of (rs_At (view k1))"
    using added_converged [OF _ named run(3)] conv k1 by simp
  then show ?thesis using run(1) k1 Reconcile_applies [OF get] by metis
qed

definition ex_after :: ruleset where
  "ex_after = \<lparr>rs_At = [((ex_T, ''pre''), (made_chain ex_T (ex_chain [ex_drop_rule]),
     [\<lparr>r_Handle = 1, r_Comment = Some ''r'', r_Exprs = ex_drop_exprs\<rparr>]))], rs_Next = 2\<rparr>"

lemma ex_made:
  "key_of (made_chain ex_T (ex_chain rs)) = (ex_T, ''pre'')" "base_chain (made_chain ex_T (ex_chain rs))"
  "isChainModified (made_chain ex_T (ex_chain rs)) (ex_chain rs) = Ok False"
  by (rule made_chain_current; simp add: chain_complete_def ex_chain_def)+

lemma ex_after_wf: "wf_ruleset ex_after"
  by (rule wf_rulesetI) (auto simp: ex_after_def entry_ok_def ex_made split: if_splits)

lemma ex_after_converged: "converged (\<lambda>e. Some [0]) ex_T (t_Chains (fc_Table ex_cfg)) (map_of (rs_At ex_after))"
proof -
  have "Rule_Equal (\<lambda>e. Some [0]) (nt_Family ex_T) (FilterRuleWrapper ex_drop_rule) r = Ok True"
    if "r_Exprs r = ex_drop_exprs" for r
    unfolding Rule_Equal_def ex_drop_forge that by (simp add: compare_refl)
  moreover have "GetName (FilterRuleWrapper ex_drop_rule) = Some ''r''" by (simp add: ex_drop_rule_def filter_rule_def)
  moreover have "ch_Name (ex_chain rs) = Some ''pre''" for rs by (simp add: ex_chain_def)
  ultimately show ?thesis
    unfolding converged_def ex_chains rules_installed_def
    by (auto simp: ex_after_def ex_made ex_chain_rules simp del: GetName.simps forge.simps split: if_splits)
qed

theorem reconcile_stable_witness:
  "\<exists>deleted k'. Reconcile (ruleset_lib (\<lambda>e. Some [0])) None True ex_client (idle ex_after) =
      FwOk (FinalizerKept, deleted) (idle k') \<and> map_of (rs_At k') = map_of (rs_At ex_after)"
  by (rule reconcile_stable [OF ruleset_lib_ok ex_after_wf ex_valid ex_table_T ex_full ex_applies ex_flows])
    (simp add: ruleset_lib_def ex_after_converged)

end
