(* ===== verification/FirewallValues.thy ===== *)
theory FirewallValues
  imports FirewallProps "HOL-Library.Sublist"
begin

text \<open>
  More properties of the firewall: the flows an application evicts, the queue after a failure, and the
  bytes that forged rules carry for marks, segment sizes and NAT ranges.
\<close>

section \<open>Evicting flows\<close>

definition matching_flows :: "Table \<Rightarrow> Flow list \<Rightarrow> Flow list" where
  "matching_flows table flows = filter (\<lambda>f. \<exists>r \<in> set (notrackRules table). ruleMatchesFlow r f) flows"

definition evicts :: "(Flow \<Rightarrow> bool) \<Rightarrow> bool \<Rightarrow> Flow list \<Rightarrow> Flow list \<Rightarrow> Flow list \<times> string option \<Rightarrow> bool" where
  "evicts P fine fs deleted res \<longleftrightarrow> (\<exists>pre. fst res = deleted @ pre \<and> prefix pre (filter P fs) \<and>
     (snd res = None \<longrightarrow> pre = filter P fs) \<and> (fine \<longrightarrow> snd res = None))"

lemma evicts_skip: "evicts P fine fs deleted res \<Longrightarrow> \<not> P f \<Longrightarrow> evicts P fine (f # fs) deleted res"
  by (simp add: evicts_def)

lemma evicts_delete:
  assumes "evicts P fine fs (deleted @ [f]) res" and "P f"
  shows "evicts P fine (f # fs) deleted res"
proof -
  obtain pre where "fst res = deleted @ f # pre" "prefix pre (filter P fs)" "snd res = None \<longrightarrow> pre = filter P fs"
      "fine \<longrightarrow> snd res = None"
    using assms(1) unfolding evicts_def by auto
  then show ?thesis using assms(2) unfolding evicts_def by (intro exI [of _ "f # pre"]) simp
qed

lemma evicts_stop: "evicts P False fs deleted (deleted, Some e)"
  by (simp add: evicts_def)

lemma flush_loop_spec:
  "evicts (\<lambda>f. flowMatchesNotrackRules f rules) (\<forall>f \<in> set fs. ct_Cancelled ct f = None \<and> ct_Delete ct f = None)
     fs deleted (flush_loop ct rules fs deleted)"
proof (induction fs arbitrary: deleted)
  case (Cons f fs)
  show ?case
  proof (cases "ct_Cancelled ct f")
    case None
    note ct = this
    show ?thesis
    proof (cases "flowMatchesNotrackRules f rules")
      case True
      then show ?thesis
        using ct Cons [of "deleted @ [f]"] evicts_stop
        by (cases "ct_Delete ct f") (simp_all add: evicts_delete)
    next
      case False
      then show ?thesis
        using ct evicts_skip [OF Cons [of deleted] False] evicts_stop
        by (cases "ct_Delete ct f") (auto simp: evicts_def)
    qed
  qed (simp add: evicts_stop)
qed (simp add: evicts_def)

text \<open>C33: The eviction deletes flows of the dump that a notrack rule of the table matches, in the order of
  the dump: all of them if it returns without an error, and an initial part of them otherwise. It returns
  without an error if the context is not cancelled and every deletion succeeds.\<close>

theorem eviction_exact:
  assumes "ct_Dump ct = Inr flows"
  shows "prefix (fst (flushConntrackForNotrackRules (Some ct) table)) (matching_flows table flows) \<and>
    (snd (flushConntrackForNotrackRules (Some ct) table) = None \<longrightarrow>
       fst (flushConntrackForNotrackRules (Some ct) table) = matching_flows table flows) \<and>
    ((\<forall>f \<in> set flows. ct_Cancelled ct f = None \<and> ct_Delete ct f = None) \<longrightarrow>
       snd (flushConntrackForNotrackRules (Some ct) table) = None)"
proof (cases "notrackRules table = []")
  case True
  then show ?thesis by (simp add: flushConntrackForNotrackRules_def matching_flows_def)
next
  case False
  have "matching_flows table flows = filter (\<lambda>f. flowMatchesNotrackRules f (notrackRules table)) flows"
    by (simp add: matching_flows_def flowMatchesNotrackRules_def list_ex_iff)
  then show ?thesis
    using False assms flush_loop_spec [of "notrackRules table" flows ct "[]"]
    by (simp add: flushConntrackForNotrackRules_def evicts_def)
qed

definition ex_flow :: "32 word \<Rightarrow> Flow" where
  "ex_flow a = \<lparr>TupleOrig = tuple_of (ex_packet\<lparr>pk_src := a\<rparr>), TupleReply = tuple_of ex_packet\<rparr>"

definition ex_conntrack :: conntrack_client where
  "ex_conntrack = \<lparr>ct_Dump = Inr [ex_flow 1, ex_flow 2], ct_Delete = (\<lambda>f. None), ct_Cancelled = (\<lambda>f. None)\<rparr>"

theorem eviction_exact_witness:
  "flushConntrackForNotrackRules (Some ex_conntrack) (ex_table [ex_chain [filter_rule (Some ''r'') ActionNotrack []]]) =
     (matching_flows (ex_table [ex_chain [filter_rule (Some ''r'') ActionNotrack []]]) [ex_flow 1, ex_flow 2], None)"
proof -
  have "ct_Dump ex_conntrack = Inr [ex_flow 1, ex_flow 2]"
    and "\<forall>f \<in> set [ex_flow 1, ex_flow 2]. ct_Cancelled ex_conntrack f = None \<and> ct_Delete ex_conntrack f = None"
    by (simp_all add: ex_conntrack_def)
  then show ?thesis
    using eviction_exact [of ex_conntrack "[ex_flow 1, ex_flow 2]" "ex_table [ex_chain [filter_rule (Some ''r'') ActionNotrack []]]"]
    by (metis prod.collapse)
qed

section \<open>A failed application\<close>

definition grows :: "'k Conn \<Rightarrow> ('k, 'a) fw_res \<Rightarrow> bool" where
  "grows conn res = (case res of
     FwPanic \<Rightarrow> True | FwErr _ c \<Rightarrow> set (c_Queue conn) \<subseteq> set (c_Queue c) | FwOk _ c \<Rightarrow> set (c_Queue conn) \<subseteq> set (c_Queue c))"

lemma grows_bind: "grows conn r \<Longrightarrow> (\<And>x c. r = FwOk x c \<Longrightarrow> grows c (f x c)) \<Longrightarrow> grows conn (fw_bind r f)"
  by (cases r) (auto simp: grows_def split: fw_res.splits)

lemma grows_lift: "grows conn (lift r conn)"
  by (cases r) (simp_all add: grows_def)

lemma grows_Rule_Add: "grows conn (Rule_Add c rule conn)"
  by (auto simp: grows_def Rule_Add_def queue_def split: res.splits option.splits)

lemma grows_add_rules_loop: "grows conn (add_rules_loop nftrules c rules notrack conn)"
proof (induction rules arbitrary: notrack conn)
  case (Cons rule rules)
  then show ?case by (simp add: grows_bind [OF grows_Rule_Add])
qed (simp add: grows_def)

lemma grows_addRules: "grows conn (addRules lib ch c conn)"
  by (auto simp: addRules_def grows_add_rules_loop grows_def [of _ "FwErr _ _"] split: sum.splits)

lemma grows_addChain: "grows conn (addChain lib ch T conn)"
  unfolding addChain_def
  by (rule grows_bind [OF grows_lift]) (auto simp: grows_def queue_def Let_def split: option.splits)

lemma grows_add_chains_loop: "grows conn (add_chains_loop lib T chs notrack conn)"
proof (induction chs arbitrary: notrack conn)
  case (Cons ch chs)
  then show ?case by (simp add: grows_bind [OF grows_addChain] grows_bind [OF grows_addRules])
qed (simp add: grows_def)

text \<open>Cleaning and flushing never report an error of a rule.\<close>

definition no_rule_error :: "('k, 'a) fw_res \<Rightarrow> bool" where
  "no_rule_error res = (case res of FwErr (RuleError _) _ \<Rightarrow> False | _ \<Rightarrow> True)"

lemma no_rule_error_bind:
  "no_rule_error r \<Longrightarrow> (\<And>x c. r = FwOk x c \<Longrightarrow> no_rule_error (f x c)) \<Longrightarrow> no_rule_error (fw_bind r f)"
  by (cases r) (auto simp: no_rule_error_def)

lemma no_rule_error_lift: "(\<And>e. r \<noteq> Err (RuleError e)) \<Longrightarrow> no_rule_error (lift r conn)"
  by (cases r) (auto simp: no_rule_error_def split: fw_error.splits)

lemma no_rule_error_Flush: "no_rule_error (Flush lib conn)"
  by (auto simp: Flush_def no_rule_error_def split: sum.splits)

lemma Flush_not_rule_error: "Flush lib conn \<noteq> FwErr (RuleError e) conn'"
  using no_rule_error_Flush [of lib conn] by (auto simp: no_rule_error_def)

lemma res_bind_Err: "res_bind r f = Err e \<longleftrightarrow> r = Err e \<or> (\<exists>x. r = Ok x \<and> f x = Err e)"
  by (cases r) auto

lemma isRuleOutdated_not_Err: "isRuleOutdated marshal fam r rules \<noteq> Err e"
  by (induction rules)
    (auto simp: Rule_Equal_def res_bind_Err split: option.splits res.splits)

lemma ptr_differs_not_Err: "ptr_differs w h f \<noteq> Err e"
  by (cases w; cases h) (simp_all add: ptr_differs_def deref_def)

lemma isChainModified_not_Err: "isChainModified c ch \<noteq> Err e"
  by (auto simp: isChainModified_def res_bind_Err ptr_differs_not_Err)

lemma isChainOutdated_not_Err: "isChainOutdated c chs \<noteq> Err e"
  by (induction chs) (auto simp: res_bind_Err isChainModified_not_Err)

lemma no_rule_error_clean_rules: "no_rule_error (clean_rules_loop lib c rules rs conn)"
proof (induction rs arbitrary: conn)
  case (Cons r rs)
  show ?case unfolding clean_rules_loop.simps
    by (rule no_rule_error_bind [OF no_rule_error_lift]) (simp_all add: isRuleOutdated_not_Err Cons)
qed (simp add: no_rule_error_def)

lemma no_rule_error_cleanChain: "no_rule_error (cleanChain lib ch c conn)"
  using no_rule_error_clean_rules
  by (cases "lib_GetRules lib (c_Kernel conn) c") (simp_all add: cleanChain_def no_rule_error_def [of "FwErr _ _"])

lemma no_rule_error_clean_chains: "no_rule_error (clean_chains_loop lib table cs conn)"
proof (induction cs arbitrary: conn)
  case (Cons c cs)
  have p: "no_rule_error FwPanic" by (simp add: no_rule_error_def)
  have "no_rule_error (fw_bind (lift (isChainOutdated c (t_Chains table)) conn) (\<lambda>(outdated, ch) conn'.
            if outdated then clean_chains_loop lib table cs (queue (DelChain c) conn')
            else (case ch of None \<Rightarrow> FwPanic
                  | Some chain \<Rightarrow> fw_bind (cleanChain lib chain c conn') (\<lambda>_ conn''. clean_chains_loop lib table cs conn''))))"
    by (rule no_rule_error_bind [OF no_rule_error_lift])
      (auto simp: isChainOutdated_not_Err Cons p no_rule_error_bind [OF no_rule_error_cleanChain] split: option.split)
  then show ?case using Cons p by (auto split: option.split)
qed (simp add: no_rule_error_def)

lemma no_rule_error_cleanTable: "no_rule_error (cleanTable lib table conn)"
  by (auto simp: cleanTable_def no_rule_error_clean_chains no_rule_error_def [of "FwErr _ _"]
      no_rule_error_def [of FwPanic] split: option.split sum.split)

text \<open>When a rule cannot be forged, the reconciliation returns its error with the commands it has queued
  so far, the creation of the table among them, still in the connection. The connection is shared, so
  the next flush, of whatever configuration, sends them.\<close>

theorem failed_reconcile_leaves_queue:
  assumes "kernel_table table = Some T" and "applies cl table"
    and "Reconcile lib client True cl conn = FwErr (RuleError e) conn'"
  shows "AddTable T \<in> set (c_Queue conn')"
proof -
  have run: "applyTable lib client table conn = FwErr (RuleError e) conn'"
    using assms(2,3) Reconcile_applies by metis
  obtain conn1 where c1: "cleanTable lib table conn = FwOk () conn1"
    using run no_rule_error_cleanTable [of lib table conn]
    by (cases "cleanTable lib table conn") (auto simp: applyTable_def no_rule_error_def)
  obtain conn2 where c2: "Flush lib conn1 = FwOk () conn2"
    using run c1 no_rule_error_Flush [of lib conn1]
    by (cases "Flush lib conn1") (auto simp: applyTable_def no_rule_error_def)
  let ?conn3 = "conn2\<lparr>c_Queue := c_Queue conn2 @ [AddTable T]\<rparr>"
  have c3: "addTable table conn2 = FwOk T ?conn3" using addTable_sends [OF assms(1)] by (simp add: sends_def)
  have "grows ?conn3 (addChains lib (t_Chains table) T ?conn3)"
    unfolding addChains_def by (rule grows_add_chains_loop)
  moreover have "addChains lib (t_Chains table) T ?conn3 = FwErr (RuleError e) conn'"
    using run c1 c2 c3
    by (cases "addChains lib (t_Chains table) T ?conn3")
      (auto simp: applyTable_def Flush_not_rule_error split: fw_res.splits prod.splits option.splits if_splits elim!: fw_bind.elims)
  ultimately show ?thesis by (simp add: grows_def)
qed

definition ex_bad_table :: Table where
  "ex_bad_table = ex_table [ex_chain [filter_rule (Some ''r'') ActionCtMark []]]"

definition ex_bad_client :: fw_client where
  "ex_bad_client = \<lparr>cl_Get = Inr (Some \<lparr>fo_Table = ex_bad_table, fo_Deleting = False, fo_Finalizer = True\<rparr>),
     cl_AddFinalizer = None, cl_RemoveFinalizer = None\<rparr>"

theorem failed_reconcile_leaves_queue_witness:
  "\<exists>conn'. Reconcile (ruleset_lib (\<lambda>e. Some [0])) None True ex_bad_client (idle \<lparr>rs_At = [], rs_Next = 0\<rparr>) =
     FwErr (RuleError ValueRequired) conn' \<and> AddTable ex_T \<in> set (c_Queue conn')"
proof -
  have a: "applies ex_bad_client ex_bad_table" by (simp add: applies_def ex_bad_client_def)
  have t: "kernel_table ex_bad_table = Some ex_T"
    by (simp add: kernel_table_def ex_bad_table_def ex_table_def ex_T_def getTableFamily_def)
  have "\<exists>conn'. applyTable (ruleset_lib (\<lambda>e. Some [0])) None ex_bad_table (idle \<lparr>rs_At = [], rs_Next = 0\<rparr>) =
      FwErr (RuleError ValueRequired) conn'"
    by (simp add: applyTable_def cleanTable_def ex_bad_table_def ex_table_def ruleset_lib_def Flush_def addTable_def
        Let_def addChains_def addChain_def getChain_def queue_def ex_chain_def addRules_def FromChainToRulesArray_def
        elems_def rules_at_def Rule_Add_def filter_rule_def forgeFilterRule_def deref_def applyFilterAction_def
        applyCtMarkAction_def mark_value_def)
  then show ?thesis
    using failed_reconcile_leaves_queue [OF t a] Reconcile_applies [OF a] by metis
qed

section \<open>Marks and segment sizes\<close>

text \<open>A mark is accepted exactly when its text is a number of 32 bits, and the forged rule then loads the
  four bytes of that number, the lowest first.\<close>

theorem mark_bytes_exact:
  "applySetMetaMarkAction (Some v) = Ok es \<longleftrightarrow>
    (\<exists>bs. length bs = 4 \<and> Atoi v = Some (int (be_val (rev bs))) \<and> es = [Immediate 1 bs, Meta MetaKeyMARK True 1])"
proof -
  have val: "int (be_val (be_bytes 4 (word_of_int n :: 32 word))) = n" if "0 \<le> n" "n < 4294967296" for n
    using that by (simp add: be_val_32 unsigned_of_int take_bit_int_eq_self)
  have bytes: "rev (be_bytes 4 (word_of_int (int (be_val (rev bs))) :: 32 word)) = bs" if "length bs = 4" for bs
  proof -
    have "be_val (rev bs) < 4294967296" using be_val_bound [of "rev bs"] that by simp
    then have "be_val (be_bytes 4 (word_of_int (int (be_val (rev bs))) :: 32 word)) = be_val (rev bs)"
      using val [of "int (be_val (rev bs))"] by simp
    then have "be_bytes 4 (word_of_int (int (be_val (rev bs))) :: 32 word) = rev bs"
      using that by (intro be_val_inject) simp_all
    then show ?thesis by simp
  qed
  show ?thesis
  proof
    assume "applySetMetaMarkAction (Some v) = Ok es"
    then obtain n where n: "Atoi v = Some n" "0 \<le> n" "n < 4294967296"
        "es = [Immediate 1 (rev (be_bytes 4 (word_of_int n :: 32 word))), Meta MetaKeyMARK True 1]"
      by (auto simp: applySetMetaMarkAction_def mark_value_def res_bind_Ok native_uint32_def split: option.splits if_splits)
    then show "\<exists>bs. length bs = 4 \<and> Atoi v = Some (int (be_val (rev bs))) \<and> es = [Immediate 1 bs, Meta MetaKeyMARK True 1]"
      using val by (intro exI [of _ "rev (be_bytes 4 (word_of_int n :: 32 word))"]) simp
  next
    assume "\<exists>bs. length bs = 4 \<and> Atoi v = Some (int (be_val (rev bs))) \<and> es = [Immediate 1 bs, Meta MetaKeyMARK True 1]"
    then obtain bs where bs: "length bs = 4" "Atoi v = Some (int (be_val (rev bs)))" "es = [Immediate 1 bs, Meta MetaKeyMARK True 1]"
      by blast
    have "be_val (rev bs) < 4294967296" using be_val_bound [of "rev bs"] bs(1) by simp
    then show "applySetMetaMarkAction (Some v) = Ok es"
      using bs bytes [OF bs(1)] by (simp add: applySetMetaMarkAction_def mark_value_def native_uint32_def del: of_int_of_nat_eq)
  qed
qed

text \<open>The segment size of a clamping rule is not checked: the forged rule loads the number of its text
  modulo 65536, so larger and negative numbers give another size.\<close>

theorem mss_size_wraps:
  assumes "Atoi v = Some n" and "n \<noteq> 0"
  shows "\<exists>es bs. applyTCPMssClampAction (Some v) = Ok es \<and> Immediate 1 bs \<in> set es \<and> length bs = 2 \<and>
    int (be_val bs) = n mod 65536"
proof -
  let ?bs = "[word_of_int (n div 256), word_of_int n] :: bytes"
  have "int (unat (word_of_int m :: 8 word)) = m mod 256" for m
    by (simp add: unsigned_of_int take_bit_eq_mod)
  then have "int (be_val ?bs) = 256 * (n div 256 mod 256) + n mod 256" by (simp add: be_val_def)
  also have "\<dots> = n mod 65536" using zmod_zmult2_eq [of 256 n 256] by simp
  finally show ?thesis using assms
    by (auto simp: applyTCPMssClampAction_def intro!: exI [of _ ?bs])
qed

theorem mss_size_wraps_witness:
  "\<exists>es bs. applyTCPMssClampAction (Some ''65537'') = Ok es \<and> Immediate 1 bs \<in> set es \<and> length bs = 2 \<and>
    int (be_val bs) = 1"
proof -
  have "Atoi ''65537'' = Some 65537" by (simp add: Atoi_def Let_def is_digit_def dec_val_def digit_val_def)
  then show ?thesis using mss_size_wraps [of "''65537''" 65537] by simp
qed

section \<open>NAT to a subnet\<close>

lemma bit_prefix_mask: "bit (prefix_mask n :: 32 word) i \<longleftrightarrow> 32 - n \<le> i \<and> i < 32"
  by (auto simp: prefix_mask_def bit_simps)

lemma bit_less_32: "bit w i \<Longrightarrow> i < 32" for w :: "32 word"
  using bit_imp_le_length [of w i] by simp

lemma masked_bits:
  fixes w x M :: "32 word"
  assumes M: "\<And>i. bit M i \<longleftrightarrow> k \<le> i \<and> i < 32"
  shows "drop_bit k (w AND M) = drop_bit k w" and "drop_bit k ((w AND M) OR NOT M) = drop_bit k w"
    and "drop_bit k x = drop_bit k w \<Longrightarrow> w AND M = x AND M \<and> (w AND M) OR NOT M = x OR NOT M"
proof -
  show a: "drop_bit k (w AND M) = drop_bit k w"
    by (rule bit_word_eqI) (auto simp: bit_drop_bit_eq bit_and_iff M dest: bit_less_32)
  show "drop_bit k ((w AND M) OR NOT M) = drop_bit k w"
    by (rule bit_word_eqI) (auto simp: bit_drop_bit_eq bit_and_iff bit_or_iff bit_not_iff M dest: bit_less_32)
  assume e: "drop_bit k x = drop_bit k w"
  have b: "bit w i = bit x i" if "k \<le> i" for i
    using arg_cong [OF e, of "\<lambda>v. bit v (i - k)"] that by (simp add: bit_drop_bit_eq)
  have "w AND M = x AND M"
    by (rule bit_word_eqI) (auto simp: bit_and_iff M b)
  moreover have "(x AND M) OR NOT M = x OR NOT M"
    by (rule bit_word_eqI) (auto simp: bit_and_iff bit_or_iff bit_not_iff)
  ultimately show "w AND M = x AND M \<and> (w AND M) OR NOT M = x OR NOT M" by simp
qed

lemma subnet_interval:
  fixes w x M :: "32 word"
  assumes M: "\<And>i. bit M i \<longleftrightarrow> k \<le> i \<and> i < 32"
  shows "w AND M \<le> x \<and> x \<le> (w AND M) OR NOT M \<longleftrightarrow> drop_bit k x = drop_bit k w"
proof
  assume i: "w AND M \<le> x \<and> x \<le> (w AND M) OR NOT M"
  have "unat (drop_bit k (w AND M)) \<le> unat (drop_bit k x)" "unat (drop_bit k x) \<le> unat (drop_bit k ((w AND M) OR NOT M))"
    unfolding unat_drop_bit using i by (simp_all add: word_le_nat_alt div_le_mono)
  then show "drop_bit k x = drop_bit k w" unfolding masked_bits(1,2) [OF M] by (simp add: word_unat_eq_iff)
next
  assume "drop_bit k x = drop_bit k w"
  from masked_bits(3) [OF M this] have e: "w AND M = x AND M" "(w AND M) OR NOT M = x OR NOT M" by blast+
  show "w AND M \<le> x \<and> x \<le> (w AND M) OR NOT M"
    unfolding e(2) unfolding e(1) using word_and_le2 le_word_or2 by blast
qed

text \<open>C34: A NAT rule to an IPv4 subnet loads the first and the last address of the subnet, host bits or
  not: the addresses between the two are exactly those the subnet contains.\<close>

theorem nat_subnet_range:
  assumes "ParsePrefix s = Some (Prefix (V4 w) n)"
  shows "\<exists>a b. applyNatSubnet fam (Some s) natType =
      Ok [Immediate 1 (be_bytes 4 a), Immediate 2 (be_bytes 4 b), NAT natType 1 2 True fam] \<and>
    {x. a \<le> x \<and> x \<le> b} = {x :: 32 word. Contains (Prefix (V4 w) n) (V4 x)}"
proof -
  let ?M = "prefix_mask n :: 32 word"
  have n: "n \<le> 32" "Valid (Prefix (V4 w) n)" using ParsePrefix_Valid [OF assms] by (auto simp: Valid_def)
  have M: "bit ?M i \<longleftrightarrow> 32 - n \<le> i \<and> i < 32" for i by (rule bit_prefix_mask)
  have ff: "(0xFFFFFFFF :: 32 word) = - 1" by simp
  have "?M XOR 0xFFFFFFFF = NOT ?M"
    unfolding ff by (rule bit_word_eqI) (simp add: bit_xor_iff bit_not_iff)
  then have "applyNatSubnet fam (Some s) natType =
      Ok [Immediate 1 (be_bytes 4 (w AND ?M)), Immediate 2 (be_bytes 4 ((w AND ?M) OR NOT ?M)), NAT natType 1 2 True fam]"
    using ParsePrefix_ParseCIDR [OF assms]
    by (simp add: applyNatSubnet_def be_uint32_be_bytes Let_def ac_simps)
  moreover have "Contains (Prefix (V4 w) n) (V4 x) \<longleftrightarrow> drop_bit (32 - n) x = drop_bit (32 - n) w" for x
    using n by (auto simp: Contains_iff topbits_def word_unat_eq_iff unat_drop_bit)
  then have "{x. w AND ?M \<le> x \<and> x \<le> (w AND ?M) OR NOT ?M} = {x. Contains (Prefix (V4 w) n) (V4 x)}"
    using subnet_interval [OF M] by auto
  ultimately show ?thesis by blast
qed

theorem nat_subnet_range_witness:
  "\<exists>a b. applyNatSubnet FamilyIPv4 (Some ''10.0.0.0/8'') NATTypeSourceNAT =
      Ok [Immediate 1 (be_bytes 4 a), Immediate 2 (be_bytes 4 b), NAT NATTypeSourceNAT 1 2 True FamilyIPv4] \<and>
    {x. a \<le> x \<and> x \<le> b} = {x :: 32 word. Contains (Prefix (V4 0xA000000) 8) (V4 x)}"
  by (rule nat_subnet_range [OF ParsePrefix_example])

end
