(* ===== verification/Allocator.thy ===== *)
theory Allocator
  imports Main
begin

text \<open>
  The contract of an allocator that gives values to names: \<open>fabricipam.IPAM\<close> gives addresses, the
  \<open>id.Manager\<close> gives identifiers. What a sequence of allocations returns follows from the contract.
\<close>

fun run_alloc :: "('n \<Rightarrow> 's \<Rightarrow> ('e + 'i) \<times> 's) \<Rightarrow> 'n list \<Rightarrow> 's \<Rightarrow> ('e + 'i) list \<times> 's" where
  "run_alloc alloc [] s = ([], s)"
| "run_alloc alloc (n # ns) s =
     (let (r, s1) = alloc n s; (rs, s2) = run_alloc alloc ns s1 in (r # rs, s2))"

locale name_allocator =
  fixes lookup :: "'s \<Rightarrow> 'n \<Rightarrow> 'i option"
    and alloc :: "'n \<Rightarrow> 's \<Rightarrow> ('e + 'i) \<times> 's"
    and valid :: "'s \<Rightarrow> bool"
  assumes valid_alloc: "valid s \<Longrightarrow> alloc n s = (r, t) \<Longrightarrow> valid t"
    and lookup_inj: "valid s \<Longrightarrow> lookup s n = Some i \<Longrightarrow> lookup s n' = Some i \<Longrightarrow> n = n'"
    and alloc_got: "valid s \<Longrightarrow> alloc n s = (Inr i, t) \<Longrightarrow> lookup t n = Some i"
    and alloc_keeps: "valid s \<Longrightarrow> alloc n s = (r, t) \<Longrightarrow> lookup s n' = Some i \<Longrightarrow> lookup t n' = Some i"
begin

lemma run_length: "run_alloc alloc ns s = (rs, t) \<Longrightarrow> length rs = length ns"
  by (induction ns arbitrary: s rs) (auto split: prod.splits)

lemma run_valid: "valid s \<Longrightarrow> run_alloc alloc ns s = (rs, t) \<Longrightarrow> valid t"
  by (induction ns arbitrary: s rs) (auto split: prod.splits dest: valid_alloc)

lemma run_keeps:
  "valid s \<Longrightarrow> run_alloc alloc ns s = (rs, t) \<Longrightarrow> lookup s n = Some i \<Longrightarrow> lookup t n = Some i"
  by (induction ns arbitrary: s rs) (auto split: prod.splits dest: valid_alloc alloc_keeps)

lemma run_got:
  assumes "valid s" and "run_alloc alloc ns s = (rs, t)" and "k < length ns" and "rs ! k = Inr i"
  shows "lookup t (ns ! k) = Some i"
  using assms
proof (induction ns arbitrary: s rs k)
  case (Cons n ns)
  obtain r s1 rs' where a: "alloc n s = (r, s1)" "run_alloc alloc ns s1 = (rs', t)" "rs = r # rs'"
    using Cons.prems(2) by (auto split: prod.splits)
  have v: "valid s1" using valid_alloc [OF Cons.prems(1) a(1)] .
  show ?case
  proof (cases k)
    case 0
    then show ?thesis
      using Cons.prems(1,4) a run_keeps [OF v a(2)] alloc_got by auto
  next
    case (Suc j)
    then show ?thesis using Cons.IH [OF v a(2), of j] Cons.prems(3,4) a(3) by auto
  qed
qed simp

text \<open>Two allocations that succeed return the same value exactly when they are for the same name.\<close>

lemma run_same_iff:
  assumes "valid s" and "run_alloc alloc ns s = (rs, t)" and "j < length ns" and "k < length ns"
    and "rs ! j = Inr a" and "rs ! k = Inr b"
  shows "a = b \<longleftrightarrow> ns ! j = ns ! k"
  using run_got [OF assms(1,2,3,5)] run_got [OF assms(1,2,4,6)] lookup_inj [OF run_valid [OF assms(1,2)]]
  by auto

end

end
