(* ===== verification/IdManager.thy ===== *)
theory IdManager
  imports GoMap Allocator "HOL-Library.Word"
begin

text \<open>
  The allocator of numeric identifiers,
  \<open>pkg/liqo-controller-manager/networking/internal-network/id/manager.go\<close>. The type parameter
  \<open>T\<close> is an unsigned integer of any width (the program uses \<open>uint32\<close>): \<open>id++\<close> and \<open>id + 1\<close> wrap.
  The mutex makes every method one step.
\<close>

record 'i Manager =
  allocated :: "(string, 'i) gomap"
  allocatedReverse :: "('i, string) gomap"
  minID :: 'i
  nextAllocatedID :: 'i
  maxID :: 'i

datatype id_error = NameConfigured string | IDConfigured | NoMoreID

section \<open>The operations\<close>

definition NewWithRange :: "'a::len word \<Rightarrow> 'a word \<Rightarrow> 'a word Manager" where
  "NewWithRange lo hi =
     \<lparr>allocated = [], allocatedReverse = [], minID = lo, nextAllocatedID = lo, maxID = hi\<rparr>"

definition New_Manager :: "'a::len word Manager" where
  "New_Manager = NewWithRange 0 (word_of_int (2 ^ 24 - 1))"

definition Configure :: "string \<Rightarrow> 'a::len word \<Rightarrow> 'a word Manager \<Rightarrow> id_error option \<times> 'a word Manager" where
  "Configure name i m =
     (if has_key name (allocated m) then (Some (NameConfigured name), m)
      else if has_key i (allocatedReverse m) then (Some IDConfigured, m)
      else (None, m\<lparr>allocated := put name i (allocated m),
                   allocatedReverse := put i name (allocatedReverse m)\<rparr>))"

text \<open>One of the two loops of \<open>Allocate\<close>: the first identifier from \<open>i\<close> below \<open>stop\<close> that is not taken.\<close>

lemma unat_plus_1_less: "unat (i + 1) = Suc (unat i)" if "i < stop" for i stop :: "'a::len word"
proof -
  have "i \<noteq> - 1" using that by auto
  then have "1 + i \<noteq> 0" by (metis add.commute eq_neg_iff_add_eq_0)
  then show ?thesis using unatSuc [of i] by (simp add: add.commute)
qed

function scan :: "('a::len word, string) gomap \<Rightarrow> 'a word \<Rightarrow> 'a word \<Rightarrow> 'a word option" where
  "scan taken i stop =
     (if i < stop then if \<not> has_key i taken then Some i else scan taken (i + 1) stop else None)"
  by pat_completeness auto
termination
  by (relation "measure (\<lambda>(_, i, stop). unat stop - unat i)")
     (auto simp: unat_plus_1_less word_less_nat_alt intro!: diff_less_mono2)

declare scan.simps [simp del]

definition assign :: "string \<Rightarrow> 'a::len word \<Rightarrow> 'a word Manager \<Rightarrow> 'a word Manager" where
  "assign name i m =
     m\<lparr>nextAllocatedID := (if i = maxID m - 1 then minID m else i + 1),
       allocated := put name i (allocated m),
       allocatedReverse := put i name (allocatedReverse m)\<rparr>"

definition Allocate :: "string \<Rightarrow> 'a::len word Manager \<Rightarrow> (id_error + 'a word) \<times> 'a word Manager" where
  "Allocate name m =
     (case map_of (allocated m) name of
        Some v \<Rightarrow> (Inr v, m)
      | None \<Rightarrow>
          (case scan (allocatedReverse m) (nextAllocatedID m) (maxID m) of
             Some i \<Rightarrow> (Inr i, assign name i m)
           | None \<Rightarrow>
               (case scan (allocatedReverse m) (minID m) (nextAllocatedID m) of
                  Some i \<Rightarrow> (Inr i, assign name i m)
                | None \<Rightarrow> (Inl NoMoreID, m))))"

definition Release :: "string \<Rightarrow> 'a::len word Manager \<Rightarrow> 'a word Manager" where
  "Release name m =
     (case map_of (allocated m) name of
        None \<Rightarrow> m
      | Some v \<Rightarrow> m\<lparr>allocated := del name (allocated m),
                    allocatedReverse := del v (allocatedReverse m)\<rparr>)"

section \<open>The loop\<close>

lemma le_split_first: "i \<le> k \<longleftrightarrow> k = i \<or> i + 1 \<le> k" if "i < stop" for i k stop :: "'a::len word"
  using unat_plus_1_less [OF that] by (auto simp: word_le_nat_alt word_unat_eq_iff)

lemma scan_Some:
  "scan taken i stop = Some j \<longleftrightarrow>
     i \<le> j \<and> j < stop \<and> \<not> has_key j taken \<and> (\<forall>k. i \<le> k \<longrightarrow> k < j \<longrightarrow> has_key k taken)"
proof (induction taken i stop rule: scan.induct)
  case (1 taken i stop)
  consider "\<not> i < stop" | "i < stop" "\<not> has_key i taken" | "i < stop" "has_key i taken" by blast
  then show ?case
  proof cases
    case 1
    then show ?thesis using le_less_trans [of i j stop] by (subst scan.simps) auto
  next
    case 2
    have "i = j" if "i \<le> j" "\<forall>k. i \<le> k \<longrightarrow> k < j \<longrightarrow> has_key k taken"
      using that 2(2) by (metis order.order_iff_strict)
    then show ?thesis using 2 by (subst scan.simps) auto
  next
    case 3
    have "scan taken i stop = scan taken (i + 1) stop" using 3 by (subst scan.simps) simp
    moreover have "(\<forall>k. i \<le> k \<longrightarrow> k < j \<longrightarrow> has_key k taken) \<longleftrightarrow>
        (\<forall>k. i + 1 \<le> k \<longrightarrow> k < j \<longrightarrow> has_key k taken)"
      using le_split_first [OF 3(1)] 3(2) by metis
    moreover have "i \<le> j \<and> \<not> has_key j taken \<longleftrightarrow> i + 1 \<le> j \<and> \<not> has_key j taken"
      using le_split_first [OF 3(1), of j] 3(2) by metis
    ultimately show ?thesis using 1 [OF 3(1)] 3(2) by simp metis
  qed
qed

lemma scan_None: "scan taken i stop = None \<longleftrightarrow> (\<forall>k. i \<le> k \<longrightarrow> k < stop \<longrightarrow> has_key k taken)"
proof (induction taken i stop rule: scan.induct)
  case (1 taken i stop)
  consider "\<not> i < stop" | "i < stop" "\<not> has_key i taken" | "i < stop" "has_key i taken" by blast
  then show ?case
  proof cases
    case 1
    then show ?thesis using le_less_trans [of i _ stop] by (subst scan.simps) auto
  next
    case 2
    then show ?thesis by (subst scan.simps) auto
  next
    case 3
    have "scan taken i stop = scan taken (i + 1) stop" using 3 by (subst scan.simps) simp
    then show ?thesis using 1 [OF 3(1)] 3(2) le_split_first [OF 3(1)] by metis
  qed
qed

section \<open>Well-formed managers\<close>

text \<open>
  The two maps are inverse to each other, and the next candidate is in the range unless the range
  is empty.
\<close>

definition wf_Manager :: "'a::len word Manager \<Rightarrow> bool" where
  "wf_Manager m \<longleftrightarrow>
     inverse_maps (allocated m) (allocatedReverse m) \<and>
     minID m \<le> nextAllocatedID m \<and>
     (if minID m < maxID m then nextAllocatedID m < maxID m else nextAllocatedID m = minID m)"

lemma wf_NewWithRange: "wf_Manager (NewWithRange lo hi)"
  by (simp add: wf_Manager_def NewWithRange_def)

lemma wf_Configure: "wf_Manager m \<Longrightarrow> wf_Manager (snd (Configure name i m))"
  by (simp add: Configure_def wf_Manager_def inverse_maps_put)

lemma wf_assign:
  assumes "wf_Manager m" and "\<not> has_key name (allocated m)" and "\<not> has_key i (allocatedReverse m)"
    and "minID m \<le> i" and "i < maxID m"
  shows "wf_Manager (assign name i m)"
proof -
  have s: "unat (i + 1) = Suc (unat i)" using unat_plus_1_less [OF assms(5)] .
  have "i + 1 < maxID m" if "i \<noteq> maxID m - 1"
  proof -
    have "i + 1 \<noteq> maxID m" using that by (metis add_diff_cancel_right')
    moreover have "i + 1 \<le> maxID m" using assms(5) s by (simp add: word_le_nat_alt word_less_nat_alt)
    ultimately show ?thesis by (simp add: order.order_iff_strict)
  qed
  moreover have "minID m \<le> i + 1" using assms(4) s by (simp add: word_le_nat_alt)
  moreover have "minID m < maxID m" using assms(4,5) by simp
  ultimately show ?thesis
    using assms by (simp add: wf_Manager_def assign_def inverse_maps_put)
qed

lemma wf_Release: "wf_Manager m \<Longrightarrow> wf_Manager (Release name m)"
  by (simp add: wf_Manager_def Release_def inverse_maps_del split: option.splits)

section \<open>What an allocation does\<close>

text \<open>An identifier of the range that no name holds.\<close>

definition free_id :: "'a::len word Manager \<Rightarrow> 'a word \<Rightarrow> bool" where
  "free_id m i \<longleftrightarrow> minID m \<le> i \<and> i < maxID m \<and> \<not> has_key i (allocatedReverse m)"

text \<open>
  The identifier that a new name gets: the first free one from the next candidate on, and if there
  is none, the first free one of the range.
\<close>

definition next_free :: "'a::len word Manager \<Rightarrow> 'a word \<Rightarrow> bool" where
  "next_free m i \<longleftrightarrow> free_id m i \<and>
     (if nextAllocatedID m \<le> i then \<forall>k. free_id m k \<longrightarrow> nextAllocatedID m \<le> k \<longrightarrow> i \<le> k
      else \<forall>k. free_id m k \<longrightarrow> k < nextAllocatedID m \<and> i \<le> k)"

lemma Allocate_known: "map_of (allocated m) name = Some v \<Longrightarrow> Allocate name m = (Inr v, m)"
  by (simp add: Allocate_def)

lemma next_below: "wf_Manager m \<Longrightarrow> minID m \<le> i \<Longrightarrow> i < nextAllocatedID m \<Longrightarrow> i < maxID m"
  by (auto simp: wf_Manager_def split: if_splits)

lemma Allocate_full:
  assumes "wf_Manager m" and "map_of (allocated m) name = None" and "\<forall>i. \<not> free_id m i"
  shows "Allocate name m = (Inl NoMoreID, m)"
proof -
  have l: "minID m \<le> nextAllocatedID m" using assms(1) by (simp add: wf_Manager_def)
  have taken: "has_key k (allocatedReverse m)" if "minID m \<le> k" "k < maxID m" for k
    using assms(3) that by (auto simp: free_id_def)
  have "scan (allocatedReverse m) (nextAllocatedID m) (maxID m) = None"
    using taken l by (auto simp: scan_None)
  moreover have "scan (allocatedReverse m) (minID m) (nextAllocatedID m) = None"
    using taken next_below [OF assms(1)] by (auto simp: scan_None)
  ultimately show ?thesis using assms(2) by (simp add: Allocate_def)
qed

lemma Allocate_fresh:
  assumes "wf_Manager m" and "map_of (allocated m) name = None" and "free_id m j"
  obtains i where "next_free m i" and "Allocate name m = (Inr i, assign name i m)"
proof (cases "scan (allocatedReverse m) (nextAllocatedID m) (maxID m)")
  case (Some i)
  have l: "minID m \<le> nextAllocatedID m" using assms(1) by (simp add: wf_Manager_def)
  have "next_free m i"
    using Some l by (auto simp: scan_Some next_free_def free_id_def not_le [symmetric])
  then show ?thesis using that Some assms(2) by (simp add: Allocate_def)
next
  case None
  then have up: "k < nextAllocatedID m" if "free_id m k" for k
    using that by (auto simp: scan_None free_id_def not_le [symmetric])
  then have "scan (allocatedReverse m) (minID m) (nextAllocatedID m) \<noteq> None"
    using assms(3) by (auto simp: scan_None free_id_def)
  then obtain i where i: "scan (allocatedReverse m) (minID m) (nextAllocatedID m) = Some i" by auto
  then have "free_id m i" using next_below [OF assms(1)] by (auto simp: scan_Some free_id_def)
  moreover have "i \<le> k" if "free_id m k" for k
    using i that by (auto simp: scan_Some free_id_def not_le [symmetric])
  ultimately have "next_free m i" using up by (auto simp: next_free_def dest: leD)
  then show ?thesis using that None i assms(2) by (simp add: Allocate_def)
qed

lemma wf_Allocate: "wf_Manager m \<Longrightarrow> wf_Manager (snd (Allocate name m))"
proof -
  assume w: "wf_Manager m"
  consider v where "map_of (allocated m) name = Some v"
    | "map_of (allocated m) name = None" "\<forall>i. \<not> free_id m i"
    | j where "map_of (allocated m) name = None" "free_id m j" by (cases "map_of (allocated m) name") auto
  then show ?thesis
  proof cases
    case 1
    then show ?thesis using w by (simp add: Allocate_known)
  next
    case 2
    then show ?thesis using w by (simp add: Allocate_full)
  next
    case 3
    then obtain i where i: "next_free m i" "Allocate name m = (Inr i, assign name i m)"
      using Allocate_fresh [OF w] by metis
    then have "wf_Manager (assign name i m)"
      using 3(1) by (intro wf_assign [OF w]) (simp_all add: next_free_def free_id_def has_key_iff)
    then show ?thesis using i(2) by simp
  qed
qed

lemma Allocate_Inr:
  assumes "wf_Manager m" and "Allocate name m = (Inr i, m')"
  shows "map_of (allocated m') name = Some i"
  using assms(2) by (auto simp: Allocate_def assign_def map_of_put split: option.splits)

lemma Allocate_keeps:
  assumes "Allocate name m = (r, m')" and "map_of (allocated m) n = Some i"
  shows "map_of (allocated m') n = Some i"
  using assms by (auto simp: Allocate_def assign_def map_of_put split: option.splits)

interpretation idm: name_allocator "\<lambda>m n. map_of (allocated m) n" Allocate wf_Manager
proof
  show "wf_Manager t" if "wf_Manager s" "Allocate n s = (r, t)" for s t :: "'a::len word Manager" and n r
    using wf_Allocate [OF that(1), of n] that(2) by simp
  show "n = n'" if "wf_Manager s" "map_of (allocated s) n = Some i" "map_of (allocated s) n' = Some i"
    for s :: "'a::len word Manager" and n n' i
    using that by (auto simp: wf_Manager_def intro: inverse_maps_inj)
qed (use Allocate_Inr Allocate_keeps in blast)+

section \<open>Reachable managers\<close>

datatype 'i id_op = ConfigureOp string 'i | AllocateOp string | ReleaseOp string

fun id_step :: "'a::len word id_op \<Rightarrow> 'a word Manager \<Rightarrow> 'a word Manager" where
  "id_step (ConfigureOp n i) m = snd (Configure n i m)"
| "id_step (AllocateOp n) m = snd (Allocate n m)"
| "id_step (ReleaseOp n) m = Release n m"

lemma wf_id_step: "wf_Manager m \<Longrightarrow> wf_Manager (id_step a m)"
  by (cases a) (simp_all add: wf_Configure wf_Allocate wf_Release)

lemma wf_id_steps: "wf_Manager m \<Longrightarrow> wf_Manager (fold id_step ops m)"
  by (induction ops arbitrary: m) (simp_all add: wf_id_step)

lemma range_id_step [simp]: "minID (id_step op m) = minID m" "maxID (id_step op m) = maxID m"
  by (cases op; simp add: Configure_def Allocate_def Release_def assign_def split: option.splits prod.splits)+

lemma range_id_steps: "minID (fold id_step ops m) = minID m \<and> maxID (fold id_step ops m) = maxID m"
  by (induction ops arbitrary: m) simp_all

end
