(* ===== verification/GeneveTunnels.thy ===== *)
theory GeneveTunnels
  imports Resource IdManager
begin

text \<open>
  The Geneve tunnels of an internal fabric and their identifiers:
  \<open>internal-network/id/genevetunnel.go\<close> and
  \<open>internal-network/internalfabric-controller/genevetunnel.go\<close> (both under
  \<open>pkg/liqo-controller-manager/networking\<close>).
\<close>

record GeneveTunnel = objectMeta +
  gt_ID :: "32 word"
  gt_InternalNodeRef :: "string option"
  gt_InternalFabricRef :: "objkey option"

record InternalFabric =
  if_Namespace :: string
  if_Name :: string
  if_UID :: string
  if_Finalizers :: "string list"

definition InternalFabricName :: string where
  "InternalFabricName = ''networking.liqo.io/internal-fabric-name''"

definition InternalNodeName :: string where
  "InternalNodeName = ''networking.liqo.io/internal-node-name''"

definition InternalFabricGeneveTunnelFinalizer :: string where
  "InternalFabricGeneveTunnelFinalizer = ''networking.liqo.io/internal-fabric-geneve-tunnel-finalizer''"

section \<open>The manager of the identifiers\<close>

text \<open>
  The state of the controller: the package variable \<open>geneveTunnelManager\<close>, which is \<open>None\<close> until
  \<open>geneveTunnelOnce\<close> has run its function, and the API server. A \<open>sync.Once\<close> is done also when its
  function panics.
\<close>

record 'c gst =
  geneveTunnelManager :: "32 word Manager option"
  cluster :: 'c

type_synonym ('c, 'a) gm = "('c gst, id_error, 'a) ctl"

fun configure_all :: "GeneveTunnel list \<Rightarrow> 32 word Manager \<Rightarrow> bool \<times> 32 word Manager" where
  "configure_all [] m = (True, m)"
| "configure_all (t # ts) m =
     (case Configure (key_String (object_key t)) (gt_ID t) m of
        (None, m') \<Rightarrow> configure_all ts m'
      | (Some _, m') \<Rightarrow> (False, m'))"

definition GetGeneveTunnelManager :: "('c, GeneveTunnel) kube \<Rightarrow> ('c, 32 word Manager) gm" where
  "GetGeneveTunnelManager K st =
     (case geneveTunnelManager st of
        Some m \<Rightarrow> (Ok m, st)
      | None \<Rightarrow>
          (case k_list K (\<lambda>_. True) (cluster st) of
             None \<Rightarrow> (Panic, st\<lparr>geneveTunnelManager := Some New_Manager\<rparr>)
           | Some ts \<Rightarrow>
               (case configure_all ts New_Manager of
                  (True, m) \<Rightarrow> (Ok m, st\<lparr>geneveTunnelManager := Some m\<rparr>)
                | (False, m) \<Rightarrow> (Panic, st\<lparr>geneveTunnelManager := Some m\<rparr>))))"

definition tunnel_Allocate :: "('c, GeneveTunnel) kube \<Rightarrow> string \<Rightarrow> ('c, 32 word) gm" where
  "tunnel_Allocate K name =
     gbind (GetGeneveTunnelManager K) (\<lambda>m st.
       (case Allocate name m of
          (Inr i, m') \<Rightarrow> (Ok i, st\<lparr>geneveTunnelManager := Some m'\<rparr>)
        | (Inl e, m') \<Rightarrow> (Err (Specific e), st\<lparr>geneveTunnelManager := Some m'\<rparr>)))"

definition tunnel_Release :: "('c, GeneveTunnel) kube \<Rightarrow> string \<Rightarrow> ('c, unit) gm" where
  "tunnel_Release K name =
     gbind (GetGeneveTunnelManager K) (\<lambda>m st. (Ok (), st\<lparr>geneveTunnelManager := Some (Release name m)\<rparr>))"

section \<open>The tunnels of a fabric\<close>

definition geneveTunnelName :: "InternalFabric \<Rightarrow> string \<Rightarrow> string" where
  "geneveTunnelName f node = if_Name f @ ''-'' @ node"

definition mutateGeneveTunnel ::
  "('c, GeneveTunnel) kube \<Rightarrow> InternalFabric \<Rightarrow> string \<Rightarrow> GeneveTunnel \<Rightarrow> ('c, GeneveTunnel) gm" where
  "mutateGeneveTunnel K f node t =
     gbind (tunnel_Allocate K (key_String (object_key t))) (\<lambda>i.
       greturn (t\<lparr>om_Labels := put InternalNodeName node (put InternalFabricName (if_Name f) (om_Labels t)),
                  gt_ID := i,
                  gt_InternalNodeRef := Some node,
                  gt_InternalFabricRef := Some (if_Namespace f, if_Name f)\<rparr>))"

definition blank_tunnel :: "string \<Rightarrow> string \<Rightarrow> GeneveTunnel" where
  "blank_tunnel ns name =
     \<lparr>om_Namespace = ns, om_Name = name, om_Labels = [], om_Annotations = [], om_Owners = [], gt_ID = 0,
      gt_InternalNodeRef = None, gt_InternalFabricRef = None\<rparr>"

definition ensure_tunnel :: "('c, GeneveTunnel) kube \<Rightarrow> globals \<Rightarrow> InternalFabric \<Rightarrow> string \<Rightarrow> ('c, unit) gm" where
  "ensure_tunnel K G f node =
     gbind (CreateOrUpdate cluster (\<lambda>c st. st\<lparr>cluster := c\<rparr>) K G
              (blank_tunnel (if_Namespace f) (geneveTunnelName f node)) (\<lambda>t.
       gbind (mutateGeneveTunnel K f node t) (\<lambda>t'.
         case setControllerReference G (if_UID f) (om_Owners t') of
           None \<Rightarrow> gfail OwnedByOther
         | Some os \<Rightarrow> greturn (t'\<lparr>om_Owners := os\<rparr>)))) (\<lambda>_. greturn ())"

text \<open>\<open>updateFabric\<close> is \<open>cl.Update\<close> on the fabric: whether it succeeds, and the server after it.\<close>

definition ensureGeneveTunnels ::
  "('c, GeneveTunnel) kube \<Rightarrow> globals \<Rightarrow> (InternalFabric \<Rightarrow> 'c \<Rightarrow> bool \<times> 'c) \<Rightarrow> InternalFabric \<Rightarrow> string list \<Rightarrow>
     ('c, InternalFabric) gm" where
  "ensureGeneveTunnels K G updateFabric f nodes =
     gbind (gforeach (ensure_tunnel K G f) nodes) (\<lambda>_ st.
       if nodes \<noteq> [] \<and> \<not> List.member (if_Finalizers f) InternalFabricGeneveTunnelFinalizer
       then (let f' = f\<lparr>if_Finalizers := if_Finalizers f @ [InternalFabricGeneveTunnelFinalizer]\<rparr>;
                 (updated, c) = updateFabric f' (cluster st)
             in (if updated then Ok f' else Err WriteFailed, st\<lparr>cluster := c\<rparr>))
       else (Ok f, st))"

definition label0 :: "(string, string) gomap \<Rightarrow> string \<Rightarrow> string" where
  "label0 m k = (case map_of m k of None \<Rightarrow> [] | Some v \<Rightarrow> v)"

definition of_fabric :: "InternalFabric \<Rightarrow> GeneveTunnel \<Rightarrow> bool" where
  "of_fabric f t \<longleftrightarrow> om_Namespace t = if_Namespace f \<and> map_of (om_Labels t) InternalFabricName = Some (if_Name f)"

definition delete_tunnel :: "('c, GeneveTunnel) kube \<Rightarrow> GeneveTunnel \<Rightarrow> ('c, unit) gm" where
  "delete_tunnel K t =
     gbind (tunnel_Release K (key_String (object_key t))) (\<lambda>_ st.
       (case k_delete K t (cluster st) of
          (DeleteFailed, c) \<Rightarrow> (Err DeletionFailed, st\<lparr>cluster := c\<rparr>)
        | (_, c) \<Rightarrow> (Ok (), st\<lparr>cluster := c\<rparr>)))"

definition cleanupGeneveTunnels :: "('c, GeneveTunnel) kube \<Rightarrow> InternalFabric \<Rightarrow> string list \<Rightarrow> ('c, unit) gm" where
  "cleanupGeneveTunnels K f nodes st =
     (case k_list K (of_fabric f) (cluster st) of
        None \<Rightarrow> (Err ListFailed, st)
      | Some ts \<Rightarrow>
          gforeach (\<lambda>t. if List.member nodes (label0 (om_Labels t) InternalNodeName) then greturn ()
                       else delete_tunnel K t) ts st)"

definition deleteGeneveTunnels :: "('c, GeneveTunnel) kube \<Rightarrow> InternalFabric \<Rightarrow> ('c, unit) gm" where
  "deleteGeneveTunnels K f st =
     (case k_list K (of_fabric f) (cluster st) of
        None \<Rightarrow> (Err ListFailed, st)
      | Some ts \<Rightarrow> gforeach (delete_tunnel K) ts st)"

end
