(* ===== verification/GeneveSpec.thy ===== *)
theory GeneveSpec
  imports GeneveTunnels
begin

text \<open>
  The identifiers of the tunnels on the API server agree with the manager. Triples over the state of
  the controller give what an operation leaves when it returns, when it fails and when it panics.
\<close>

section \<open>The manager agrees with the server\<close>

definition agrees :: "('c \<Rightarrow> objkey \<rightharpoonup> GeneveTunnel) \<Rightarrow> 32 word Manager \<Rightarrow> 'c \<Rightarrow> bool" where
  "agrees view m c \<longleftrightarrow>
     wf_Manager m \<and> (\<forall>k t. view c k = Some t \<longrightarrow> map_of (allocated m) (key_String k) = Some (gt_ID t))"

lemma agreesD: "agrees view m c \<Longrightarrow> view c k = Some t \<Longrightarrow> map_of (allocated m) (key_String k) = Some (gt_ID t)"
  unfolding agrees_def by blast

lemma agrees_wf: "agrees view m c \<Longrightarrow> wf_Manager m"
  by (simp add: agrees_def)

text \<open>Before the manager is loaded the identifiers on the server are different, so that loading it succeeds.\<close>

definition unique_ids :: "(objkey \<rightharpoonup> GeneveTunnel) \<Rightarrow> bool" where
  "unique_ids v \<longleftrightarrow> (\<forall>j k s t. v j = Some s \<longrightarrow> v k = Some t \<longrightarrow> gt_ID s = gt_ID t \<longrightarrow> j = k)"

definition names_valid :: "('c \<Rightarrow> objkey \<rightharpoonup> 'o) \<Rightarrow> bool" where
  "names_valid view \<longleftrightarrow> (\<forall>c k. view c k \<noteq> None \<longrightarrow> CHR ''/'' \<notin> set (fst k))"

definition tunnels_ok :: "('c \<Rightarrow> objkey \<rightharpoonup> GeneveTunnel) \<Rightarrow> 'c gst \<Rightarrow> bool" where
  "tunnels_ok view st \<longleftrightarrow>
     (case geneveTunnelManager st of None \<Rightarrow> unique_ids (view (cluster st)) | Some m \<Rightarrow> agrees view m (cluster st))"

text \<open>The list that the manager will be loaded from succeeds and shows each tunnel of the server once.\<close>

definition loadable :: "('c, GeneveTunnel) kube \<Rightarrow> ('c \<Rightarrow> objkey \<rightharpoonup> GeneveTunnel) \<Rightarrow> 'c gst \<Rightarrow> bool" where
  "loadable K view st \<longleftrightarrow> (geneveTunnelManager st = None \<longrightarrow>
     (\<exists>ts. k_list K (\<lambda>_. True) (cluster st) = Some ts \<and> set ts = ran (view (cluster st)) \<and> distinct ts))"

definition ready :: "('c, GeneveTunnel) kube \<Rightarrow> ('c \<Rightarrow> objkey \<rightharpoonup> GeneveTunnel) \<Rightarrow> 'c gst \<Rightarrow> bool" where
  "ready K view st \<longleftrightarrow> tunnels_ok view st \<and> loadable K view st"

lemma ready_loaded: "geneveTunnelManager st = Some m \<Longrightarrow> agrees view m (cluster st) \<Longrightarrow> ready K view st"
  by (simp add: ready_def tunnels_ok_def loadable_def)

lemma agrees_unique:
  assumes "agrees view m c" and "names_valid view"
  shows "unique_ids (view c)"
  unfolding unique_ids_def
proof (intro allI impI)
  fix j k s t assume v: "view c j = Some s" "view c k = Some t" "gt_ID s = gt_ID t"
  then have "map_of (allocated m) (key_String j) = Some (gt_ID t)" "map_of (allocated m) (key_String k) = Some (gt_ID t)"
    using agreesD [OF assms(1)] by simp_all
  then have "key_String j = key_String k"
    using agrees_wf [OF assms(1)] inverse_maps_inj unfolding wf_Manager_def by metis
  then show "j = k" using key_String_inj assms(2) v unfolding names_valid_def by blast
qed

lemma tunnels_ok_unique: "tunnels_ok view st \<Longrightarrow> names_valid view \<Longrightarrow> unique_ids (view (cluster st))"
  by (auto simp: tunnels_ok_def agrees_unique split: option.splits)

lemma Configure_None:
  "Configure n i m = (None, m') \<Longrightarrow>
     map_of (allocated m') n = Some i \<and> (\<forall>n' j. map_of (allocated m) n' = Some j \<longrightarrow> map_of (allocated m') n' = Some j)"
  by (auto simp: Configure_def has_key_iff map_of_put split: if_splits)

lemma configure_all_True:
  assumes "configure_all ts m = (True, m')" and "wf_Manager m"
  shows "wf_Manager m' \<and> (\<forall>t\<in>set ts. map_of (allocated m') (key_String (object_key t)) = Some (gt_ID t)) \<and>
         (\<forall>n j. map_of (allocated m) n = Some j \<longrightarrow> map_of (allocated m') n = Some j)"
  using assms
proof (induction ts arbitrary: m)
  case (Cons t ts)
  obtain m1 where c: "Configure (key_String (object_key t)) (gt_ID t) m = (None, m1)"
    and r: "configure_all ts m1 = (True, m')"
    using Cons.prems(1) by (auto split: prod.splits option.splits)
  have "wf_Manager m1" using wf_Configure [OF Cons.prems(2)] c by (metis snd_conv)
  then show ?case using Cons.IH [OF r] Configure_None [OF c] by auto
qed simp

lemma wf_New_Manager: "wf_Manager New_Manager"
  by (simp add: New_Manager_def wf_NewWithRange)

lemma configure_all_loads:
  assumes "distinct (map (key_String \<circ> object_key) ts)" and "distinct (map gt_ID ts)"
    and "\<forall>t \<in> set ts. \<not> has_key (key_String (object_key t)) (allocated m) \<and> \<not> has_key (gt_ID t) (allocatedReverse m)"
  shows "\<exists>m'. configure_all ts m = (True, m')"
  using assms
proof (induction ts arbitrary: m)
  case (Cons t ts)
  let ?m = "m\<lparr>allocated := put (key_String (object_key t)) (gt_ID t) (allocated m),
    allocatedReverse := put (gt_ID t) (key_String (object_key t)) (allocatedReverse m)\<rparr>"
  have "Configure (key_String (object_key t)) (gt_ID t) m = (None, ?m)"
    using Cons.prems(3) by (simp add: Configure_def)
  moreover have "key_String (object_key x) \<noteq> key_String (object_key t) \<and> gt_ID x \<noteq> gt_ID t" if "x \<in> set ts" for x
    using Cons.prems(1,2) imageI [OF that, of gt_ID] imageI [OF that, of "key_String \<circ> object_key"] by auto
  then have "\<exists>m'. configure_all ts ?m = (True, m')"
    using Cons.prems by (intro Cons.IH) (simp_all add: has_key_put)
  ultimately show ?case by simp
qed simp

lemma distinct_map_set: "distinct xs \<Longrightarrow> (\<And>x y. x \<in> set xs \<Longrightarrow> y \<in> set xs \<Longrightarrow> f x = f y \<Longrightarrow> x = y) \<Longrightarrow> distinct (map f xs)"
  by (simp add: distinct_map inj_on_def)

lemma load_succeeds:
  assumes ok: "kube_ok object_key gt_ID K view" and v: "names_valid view" and u: "unique_ids (view c)"
    and ts: "set ts = ran (view c)" "distinct ts"
  shows "\<exists>m. configure_all ts New_Manager = (True, m)"
proof (rule configure_all_loads)
  have at: "view c (object_key t) = Some t" if "t \<in> set ts" for t
  proof -
    have "\<exists>k. view c k = Some t" using that unfolding ts(1) ran_def by simp
    then obtain k where k: "view c k = Some t" by (rule exE)
    show ?thesis unfolding kube_view [OF ok k] by (rule k)
  qed
  have slash: "CHR ''/'' \<notin> set (fst (object_key t))" if "t \<in> set ts" for t
    using at [OF that] v [unfolded names_valid_def, rule_format, of c "object_key t"] by simp
  have one: "s = t" if "s \<in> set ts" "t \<in> set ts" "object_key s = object_key t" for s t
    using trans [OF at [OF that(1), unfolded that(3), symmetric] at [OF that(2)]] by (rule option.inject [THEN iffD1])
  show "distinct (map (key_String \<circ> object_key) ts)"
  proof (rule distinct_map_set [OF ts(2)])
    fix s t assume s: "s \<in> set ts" "t \<in> set ts" "(key_String \<circ> object_key) s = (key_String \<circ> object_key) t"
    then have "object_key s = object_key t" using key_String_inj [OF _ slash slash] by simp
    then show "s = t" by (rule one [OF s(1,2)])
  qed
  show "distinct (map gt_ID ts)"
  proof (rule distinct_map_set [OF ts(2)])
    fix s t assume s: "s \<in> set ts" "t \<in> set ts" "gt_ID s = gt_ID t"
    have "object_key s = object_key t"
      by (rule u [unfolded unique_ids_def, rule_format, OF at [OF s(1)] at [OF s(2)] s(3)])
    then show "s = t" by (rule one [OF s(1,2)])
  qed
qed (simp add: New_Manager_def NewWithRange_def)

lemma GetGeneveTunnelManager_triple:
  assumes ok: "kube_ok object_key gt_ID K view" and v: "names_valid view"
  shows "triple (ready K view) (GetGeneveTunnelManager K)
           (\<lambda>m st. geneveTunnelManager st = Some m \<and> agrees view m (cluster st)) R"
  unfolding triple_def
proof (intro allI impI)
  fix st assume r: "ready K view st"
  have "\<exists>m. GetGeneveTunnelManager K st = (Ok m, st\<lparr>geneveTunnelManager := Some m\<rparr>) \<and> agrees view m (cluster st)"
  proof (cases "geneveTunnelManager st")
    case None
    then obtain ts where ts: "k_list K (\<lambda>_. True) (cluster st) = Some ts" "set ts = ran (view (cluster st))" "distinct ts"
      using r by (auto simp: ready_def loadable_def)
    moreover have "unique_ids (view (cluster st))" using r None by (simp add: ready_def tunnels_ok_def)
    ultimately obtain m where m: "configure_all ts New_Manager = (True, m)" using load_succeeds [OF ok v] by blast
    have "agrees view m (cluster st)"
      unfolding agrees_def
      using configure_all_True [OF m wf_New_Manager] kube_view [OF ok, of "cluster st"] ts(2) by (metis ranI)
    then show ?thesis using None ts(1) m by (simp add: GetGeneveTunnelManager_def)
  next
    case (Some m)
    then have "st\<lparr>geneveTunnelManager := Some m\<rparr> = st" by simp
    then show ?thesis using Some r by (simp add: GetGeneveTunnelManager_def ready_def tunnels_ok_def)
  qed
  then show "case GetGeneveTunnelManager K st of
      (Ok m, st') \<Rightarrow> geneveTunnelManager st' = Some m \<and> agrees view m (cluster st')
    | (Err e, st') \<Rightarrow> R (Some e) st' | (Panic, st') \<Rightarrow> R None st'" by auto
qed

lemma agrees_Allocate:
  assumes "agrees view m c" and "Allocate n m = (r, m')"
  shows "agrees view m' c"
  unfolding agrees_def
proof (intro conjI allI impI)
  show "wf_Manager m'" using wf_Allocate [OF agrees_wf [OF assms(1)], of n] assms(2) by simp
  show "map_of (allocated m') (key_String k) = Some (gt_ID t)" if "view c k = Some t" for k t
    using Allocate_keeps [OF assms(2) agreesD [OF assms(1) that]] .
qed

lemma tunnel_Allocate_triple:
  assumes ok: "kube_ok object_key gt_ID K view" and v: "names_valid view"
  shows "triple (ready K view) (tunnel_Allocate K n)
           (\<lambda>i st. \<exists>m. geneveTunnelManager st = Some m \<and> agrees view m (cluster st) \<and> map_of (allocated m) n = Some i)
           (\<lambda>_. tunnels_ok view)"
  unfolding tunnel_Allocate_def
proof (rule triple_bind [OF GetGeneveTunnelManager_triple [OF ok v]])
  fix m
  show "triple (\<lambda>st. geneveTunnelManager st = Some m \<and> agrees view m (cluster st))
      (\<lambda>st. case Allocate n m of
          (Inr i, m') \<Rightarrow> (Ok i, st\<lparr>geneveTunnelManager := Some m'\<rparr>)
        | (Inl e, m') \<Rightarrow> (Err (Specific e), st\<lparr>geneveTunnelManager := Some m'\<rparr>))
      (\<lambda>i st. \<exists>m. geneveTunnelManager st = Some m \<and> agrees view m (cluster st) \<and> map_of (allocated m) n = Some i)
      (\<lambda>_. tunnels_ok view)"
    unfolding triple_def tunnels_ok_def
    using agrees_Allocate [of view m _ n] Allocate_Inr [of m n] agrees_wf [of view m]
    by (auto split: prod.splits sum.splits)
qed

text \<open>An identifier may be given up for a tunnel that is not on the server.\<close>

lemma agrees_Release:
  assumes "agrees view m c" and "view c' = (view c)(k := None)" and "CHR ''/'' \<notin> set (fst k)"
    and "\<And>j. view c j \<noteq> None \<Longrightarrow> CHR ''/'' \<notin> set (fst j)"
  shows "agrees view (Release (key_String k) m) c'"
  unfolding agrees_def
proof (intro conjI allI impI)
  show "wf_Manager (Release (key_String k) m)" using wf_Release [OF agrees_wf [OF assms(1)]] .
  show "map_of (allocated (Release (key_String k) m)) (key_String j) = Some (gt_ID t)" if "view c' j = Some t" for j t
  proof -
    have "j \<noteq> k" "view c j = Some t" using that assms(2) by (auto split: if_splits)
    then have "key_String j \<noteq> key_String k" using key_String_inj [of j k] assms(3) assms(4) [of j] by auto
    then show ?thesis
      using agreesD [OF assms(1) \<open>view c j = Some t\<close>] by (auto simp: Release_def map_of_del split: option.splits)
  qed
qed

section \<open>The operations keep the agreement\<close>

text \<open>Only a deletion that fails breaks the agreement: the tunnel is still there, its identifier is free.\<close>

abbreviation undeleted_or_ok :: "('c \<Rightarrow> objkey \<rightharpoonup> GeneveTunnel) \<Rightarrow> 'e ctrl_error option \<Rightarrow> 'c gst \<Rightarrow> bool" where
  "undeleted_or_ok view e st \<equiv> e \<noteq> Some DeletionFailed \<longrightarrow> tunnels_ok view st"

lemma delete_tunnel_triple:
  assumes ok: "kube_ok object_key gt_ID K view" and v: "names_valid view"
    and t: "CHR ''/'' \<notin> set (om_Namespace t)"
  shows "triple (ready K view) (delete_tunnel K t) (\<lambda>_. ready K view) (undeleted_or_ok view)"
proof -
  define A where "A m st \<longleftrightarrow> geneveTunnelManager st = Some (Release (key_String (object_key t)) m) \<and>
    agrees view m (cluster st)" for m and st :: "'a gst"
  have r: "triple (ready K view) (tunnel_Release K (key_String (object_key t))) (\<lambda>_ st. \<exists>m. A m st) (undeleted_or_ok view)"
    unfolding tunnel_Release_def
    by (rule triple_bind [OF GetGeneveTunnelManager_triple [OF ok v]]) (auto simp: triple_def A_def)
  have gone: "ready K view (st\<lparr>cluster := c\<rparr>)"
    if "A m st" "k_delete K t (cluster st) = (d, c)" "d \<noteq> DeleteFailed" for m st d c
  proof -
    have "view c = (view (cluster st))(object_key t := None)" using kube_delete [OF ok that(2)] that(3) by blast
    then have "agrees view (Release (key_String (object_key t)) m) c"
    proof (rule agrees_Release [rotated])
      show "agrees view m (cluster st)" using that(1) by (simp add: A_def)
      show "CHR ''/'' \<notin> set (fst (object_key t))" using t by (simp add: object_key_def)
      show "CHR ''/'' \<notin> set (fst j)" if "view (cluster st) j \<noteq> None" for j
        using v that unfolding names_valid_def by blast
    qed
    then show ?thesis using that(1) by (intro ready_loaded) (simp_all add: A_def)
  qed
  show ?thesis
    unfolding delete_tunnel_def
    by (rule triple_bind [OF r], unfold triple_def) (auto split: prod.splits deleted.splits dest: gone)
qed

text \<open>Writing a tunnel that has the identifier of its name.\<close>

lemma k_put_ok:
  assumes ok: "kube_ok object_key gt_ID K view" and "agrees view m c"
    and "map_of (allocated m) (key_String (object_key t)) = Some (gt_ID t)" and "k_put K t c = (r, c')"
  shows "agrees view m c'"
  using kube_put [OF ok assms(4)]
proof
  assume "r = None \<and> view c' = view c"
  then show ?thesis using assms(2) by (simp add: agrees_def)
next
  assume "\<exists>ob'. object_key ob' = object_key t \<and> gt_ID ob' = gt_ID t \<and> view c' = (view c)(object_key t \<mapsto> ob') \<and> (r = None \<or> r = Some ob')"
  then show ?thesis using assms(2,3) agreesD [OF assms(2)] unfolding agrees_def by (auto split: if_splits)
qed

definition written :: "('c \<Rightarrow> objkey \<rightharpoonup> GeneveTunnel) \<Rightarrow> GeneveTunnel \<Rightarrow> 'c gst \<Rightarrow> bool" where
  "written view t st \<longleftrightarrow> (\<exists>m. geneveTunnelManager st = Some m \<and> agrees view m (cluster st) \<and>
     map_of (allocated m) (key_String (object_key t)) = Some (gt_ID t))"

lemma written_ok: "written view t st \<Longrightarrow> ready K view st" "written view t st \<Longrightarrow> tunnels_ok view st"
  by (auto simp: written_def tunnels_ok_def intro: ready_loaded)

lemma written_keeps:
  "written view t st \<Longrightarrow> written view (t\<lparr>om_Labels := ls, om_Annotations := as\<rparr>) st"
  "written view t st \<Longrightarrow> written view (t\<lparr>om_Owners := os\<rparr>) st"
  by (simp_all add: written_def object_key_def)

lemma CreateOrUpdate_tunnel:
  assumes ok: "kube_ok object_key gt_ID K view"
    and mut: "\<And>t. triple (ready K view) (mutateFn t) (\<lambda>t'. written view t') (\<lambda>_. tunnels_ok view)"
  shows "triple (ready K view) (CreateOrUpdate cluster (\<lambda>c st. st\<lparr>cluster := c\<rparr>) K G ob mutateFn)
           (\<lambda>_. ready K view) (\<lambda>_. tunnels_ok view)"
proof (rule triple_CreateOrUpdate [where W = "\<lambda>_. written view"])
  have sent: "written view t (st\<lparr>cluster := c\<rparr>)" if "written view t st" "k_put K t (cluster st) = (r, c)" for t r st c
    using that k_put_ok [OF ok _ _ that(2)] by (auto simp: written_def)
  then show "ready K view (st\<lparr>cluster := c\<rparr>)"
    if "written view t st" "k_put K t (cluster st) = (Some t', c)" for g :: "GeneveTunnel got" and t t' st c
    using that written_ok(1) by blast
  show "tunnels_ok view (st\<lparr>cluster := c\<rparr>)"
    if "written view t st" "k_put K t (cluster st) = (None, c)" for g :: "GeneveTunnel got" and t e st c
    using that sent written_ok(2) by blast
  show "triple (\<lambda>st. ready K view st \<and> k_get K (object_key ob) (cluster st) = g) (mutateFn t) (written view) (\<lambda>_. tunnels_ok view)" for g t
    by (rule triple_weaken [OF mut]) simp_all
  then show "triple (\<lambda>st. ready K view st \<and> k_get K (object_key ob) (cluster st) = g) (mutateFn t) (written view) (\<lambda>_. tunnels_ok view)" for g t .
qed (simp_all add: written_ok written_keeps, simp add: ready_def)

lemma mutateGeneveTunnel_triple:
  assumes ok: "kube_ok object_key gt_ID K view" and v: "names_valid view"
  shows "triple (ready K view) (mutateGeneveTunnel K f node t) (\<lambda>t'. written view t') (\<lambda>_. tunnels_ok view)"
  unfolding mutateGeneveTunnel_def
  by (rule triple_bind [OF tunnel_Allocate_triple [OF ok v]])
     (auto intro!: triple_return simp: written_def object_key_def)

lemma ensure_tunnel_triple:
  assumes ok: "kube_ok object_key gt_ID K view" and v: "names_valid view"
  shows "triple (ready K view) (ensure_tunnel K G f node) (\<lambda>_. ready K view) (\<lambda>_. tunnels_ok view)"
  unfolding ensure_tunnel_def
proof (rule triple_bind [OF CreateOrUpdate_tunnel [OF ok] triple_return])
  show "triple (ready K view) (gbind (mutateGeneveTunnel K f node t)
      (\<lambda>t'. case setControllerReference G (if_UID f) (om_Owners t') of
        None \<Rightarrow> gfail OwnedByOther | Some os \<Rightarrow> greturn (t'\<lparr>om_Owners := os\<rparr>)))
      (\<lambda>t'. written view t') (\<lambda>_. tunnels_ok view)" for t
    by (rule triple_bind [OF mutateGeneveTunnel_triple [OF ok v]])
       (auto split: option.split intro!: triples intro: written_ok written_keeps)
qed

lemma ensureGeneveTunnels_triple:
  assumes ok: "kube_ok object_key gt_ID K view" and v: "names_valid view"
    and u: "\<And>f c. view (snd (updateFabric f c)) = view c"
  shows "triple (ready K view) (ensureGeneveTunnels K G updateFabric f nodes) (\<lambda>_. tunnels_ok view) (\<lambda>_. tunnels_ok view)"
proof -
  have c: "tunnels_ok view (st\<lparr>cluster := snd (updateFabric g (cluster st))\<rparr>)" if "tunnels_ok view st" for st g
    using that u [of g "cluster st"] by (auto simp: tunnels_ok_def agrees_def split: option.splits)
  show ?thesis
    unfolding ensureGeneveTunnels_def
    by (rule triple_bind [OF triple_foreach [OF ensure_tunnel_triple [OF ok v]]], unfold triple_def)
       (auto simp: Let_def case_prod_beta ready_def split: if_splits dest: c)
qed

lemma list_of_fabric:
  assumes "kube_ok object_key gt_ID K view" and "k_list K (of_fabric f) c = Some ts" and "t \<in> set ts"
  shows "om_Namespace t = if_Namespace f"
  using kube_list [OF assms] by (simp add: of_fabric_def)

text \<open>An operation that starts with a list and does nothing when that fails.\<close>

lemma triple_list:
  assumes "\<And>st. op st = (case k_list K P (cluster st) of None \<Rightarrow> (Err ListFailed, st) | Some ts \<Rightarrow> g ts st)"
    and "\<And>c ts. k_list K P c = Some ts \<Longrightarrow> triple (ready K view) (g ts) (\<lambda>_. ready K view) (undeleted_or_ok view)"
  shows "triple (ready K view) op (\<lambda>_. tunnels_ok view) (undeleted_or_ok view)"
proof -
  have "triple (ready K view) (g ts) (\<lambda>_. tunnels_ok view) (undeleted_or_ok view)"
    if "k_list K P c = Some ts" for c ts
    by (rule triple_weaken [OF assms(2) [OF that]]) (simp_all add: ready_def)
  then show ?thesis unfolding triple_def
    apply (intro allI impI)
    subgoal for st by (cases "k_list K P (cluster st)") (simp_all add: assms(1) ready_def)
    done
qed

lemma cleanupGeneveTunnels_triple:
  assumes ok: "kube_ok object_key gt_ID K view" and v: "names_valid view"
    and f: "CHR ''/'' \<notin> set (if_Namespace f)"
  shows "triple (ready K view) (cleanupGeneveTunnels K f nodes) (\<lambda>_. tunnels_ok view) (undeleted_or_ok view)"
proof -
  have "triple (ready K view) (gforeach (\<lambda>t. if List.member nodes (label0 (om_Labels t) InternalNodeName) then greturn ()
                       else delete_tunnel K t) ts) (\<lambda>_. ready K view) (undeleted_or_ok view)"
    if "k_list K (of_fabric f) c = Some ts" for c ts
    using list_of_fabric [OF ok that] f
    by (auto intro!: triple_foreach triple_return delete_tunnel_triple [OF ok v])
  from triple_list [OF cleanupGeneveTunnels_def this] show ?thesis .
qed

lemma deleteGeneveTunnels_triple:
  assumes ok: "kube_ok object_key gt_ID K view" and v: "names_valid view"
    and f: "CHR ''/'' \<notin> set (if_Namespace f)"
  shows "triple (ready K view) (deleteGeneveTunnels K f) (\<lambda>_. tunnels_ok view) (undeleted_or_ok view)"
proof -
  have "triple (ready K view) (gforeach (delete_tunnel K) ts) (\<lambda>_. ready K view) (undeleted_or_ok view)"
    if "k_list K (of_fabric f) c = Some ts" for c ts
    using list_of_fabric [OF ok that] f by (auto intro!: triple_foreach delete_tunnel_triple [OF ok v])
  from triple_list [OF deleteGeneveTunnels_def this] show ?thesis .
qed

section \<open>Runs of the controller\<close>

text \<open>
  The controller runs its operations in any order and for any fabrics, and goes on after every result,
  errors and panics included, but for a deletion that fails. It may be restarted at any time, and tunnels may
  disappear from the server. While the manager is not loaded, an operation starts only if the list that
  it loads the manager from is going to succeed and is up to date. An operation is one step: the runs of
  the controller for different fabrics are not interleaved.
\<close>

inductive geneve_run ::
  "('c, GeneveTunnel) kube \<Rightarrow> ('c \<Rightarrow> objkey \<rightharpoonup> GeneveTunnel) \<Rightarrow> (InternalFabric \<Rightarrow> 'c \<Rightarrow> bool \<times> 'c) \<Rightarrow> 'c gst \<Rightarrow> bool"
  for K view updateFabric where
  boot: "geneveTunnelManager st = None \<Longrightarrow> unique_ids (view (cluster st)) \<Longrightarrow> geneve_run K view updateFabric st"
| restart: "geneve_run K view updateFabric st \<Longrightarrow> geneve_run K view updateFabric (st\<lparr>geneveTunnelManager := None\<rparr>)"
| ensure: "geneve_run K view updateFabric st \<Longrightarrow> loadable K view st \<Longrightarrow>
     ensureGeneveTunnels K G updateFabric f nodes st = (r, st') \<Longrightarrow> geneve_run K view updateFabric st'"
| cleanup: "geneve_run K view updateFabric st \<Longrightarrow> loadable K view st \<Longrightarrow> CHR ''/'' \<notin> set (if_Namespace f) \<Longrightarrow>
     cleanupGeneveTunnels K f nodes st = (r, st') \<Longrightarrow> r \<noteq> Err DeletionFailed \<Longrightarrow> geneve_run K view updateFabric st'"
| delete: "geneve_run K view updateFabric st \<Longrightarrow> loadable K view st \<Longrightarrow> CHR ''/'' \<notin> set (if_Namespace f) \<Longrightarrow>
     deleteGeneveTunnels K f st = (r, st') \<Longrightarrow> r \<noteq> Err DeletionFailed \<Longrightarrow> geneve_run K view updateFabric st'"
| vanish: "geneve_run K view updateFabric st \<Longrightarrow> view c \<subseteq>\<^sub>m view (cluster st) \<Longrightarrow>
     geneve_run K view updateFabric (st\<lparr>cluster := c\<rparr>)"

lemma geneve_run_ok:
  assumes "geneve_run K view updateFabric st" and ok: "kube_ok object_key gt_ID K view"
    and v: "names_valid view" and u: "\<And>f c. view (snd (updateFabric f c)) = view c"
  shows "tunnels_ok view st"
  using assms(1)
proof induction
  case (restart st)
  then show ?case using tunnels_ok_unique [OF restart.IH v] by (simp add: tunnels_ok_def)
next
  case (ensure st G f nodes r st')
  then show ?case
    using tripleD [OF ensureGeneveTunnels_triple [OF ok v u] _ ensure.hyps(3)]
    by (simp add: ready_def split: res.splits)
next
  case (cleanup st f nodes r st')
  then show ?case
    using tripleD [OF cleanupGeneveTunnels_triple [OF ok v cleanup.hyps(3)] _ cleanup.hyps(4)]
    by (simp add: ready_def split: res.splits)
next
  case (delete st f r st')
  then show ?case
    using tripleD [OF deleteGeneveTunnels_triple [OF ok v delete.hyps(3)] _ delete.hyps(4)]
    by (simp add: ready_def split: res.splits)
next
  case (vanish st c)
  have "view (cluster st) k = Some t" if "view c k = Some t" for k t
    using vanish.hyps(2) that by (metis map_le_def domI)
  then have "unique_ids (view (cluster st)) \<Longrightarrow> unique_ids (view c)"
    and "agrees view m (cluster st) \<Longrightarrow> agrees view m c" for m
    unfolding unique_ids_def agrees_def by blast+
  then show ?case using vanish.IH by (simp add: tunnels_ok_def split: option.splits)
qed (simp add: tunnels_ok_def)

end
