(* ===== verification/GeneveProps.thy ===== *)
theory GeneveProps
  imports GeneveSpec
begin

text \<open>
  Properties of the identifier allocator and of the Geneve tunnels that use it, with an instance of
  the API server for the examples.
\<close>

section \<open>The allocator\<close>

text \<open>C28: Whatever the sequence of \<open>Configure\<close>, \<open>Allocate\<close> and \<open>Release\<close>, a manager stays well formed: the
  maps from names to identifiers and from identifiers to names are inverse to each other, the next
  candidate lies in \<open>[minID, maxID)\<close> unless that range is empty, and the range is the one given to
  \<open>NewWithRange\<close>.\<close>

theorem id_manager_typed:
  fixes lo hi :: "'a::len word"
  shows "wf_Manager (fold id_step ops (NewWithRange lo hi)) \<and>
         minID (fold id_step ops (NewWithRange lo hi)) = lo \<and> maxID (fold id_step ops (NewWithRange lo hi)) = hi"
  using wf_id_steps [OF wf_NewWithRange] range_id_steps [of ops "NewWithRange lo hi"] by (simp add: NewWithRange_def)

text \<open>C17: \<open>Allocate\<close> on a manager in any state that \<open>NewWithRange\<close> and the operations reach. A name
  that has an identifier gets it again. A new name gets the first free identifier of
  \<open>[minID, maxID)\<close> from the next candidate on, wrapping around to \<open>minID\<close>; it is recorded for that
  name and the names before keep theirs. There is an error, with the manager same_object, exactly when
  every identifier of the range is taken.\<close>

theorem id_allocate_exact:
  fixes m :: "'a::len word Manager"
  assumes "m = fold id_step ops (NewWithRange lo hi)"
  shows "case Allocate name m of
           (Inr i, m') \<Rightarrow> map_of (allocated m') = (map_of (allocated m))(name \<mapsto> i) \<and>
              (if has_key name (allocated m) then m' = m
               else next_free m i \<and> map_of (allocatedReverse m') = (map_of (allocatedReverse m))(i \<mapsto> name))
         | (Inl e, m') \<Rightarrow> m' = m \<and> \<not> has_key name (allocated m) \<and> (\<forall>i. \<not> free_id m i)"
proof -
  have w: "wf_Manager m" using assms wf_id_steps [OF wf_NewWithRange] by blast
  consider v where "map_of (allocated m) name = Some v"
    | "map_of (allocated m) name = None" "\<forall>i. \<not> free_id m i"
    | j where "map_of (allocated m) name = None" "free_id m j" by (cases "map_of (allocated m) name") auto
  then show ?thesis
  proof cases
    case 1
    then show ?thesis by (simp add: Allocate_known has_key_iff map_upd_triv)
  next
    case 2
    then show ?thesis using Allocate_full [OF w] by (simp add: has_key_iff)
  next
    case 3
    then obtain i where "next_free m i" "Allocate name m = (Inr i, assign name i m)"
      using Allocate_fresh [OF w] by metis
    then show ?thesis using 3(1) by (auto simp: has_key_iff assign_def update_conv')
  qed
qed

theorem id_allocate_exact_witness:
  "case Allocate ''b'' (fold id_step [ConfigureOp ''x'' 6, AllocateOp ''a''] (NewWithRange 5 (8 :: 32 word))) of
     (Inr i, m') \<Rightarrow> i = 7 | (Inl e, m') \<Rightarrow> False"
  using id_allocate_exact [where ops = "[ConfigureOp ''x'' 6, AllocateOp ''a'']" and lo = 5 and hi = "8 :: 32 word"
      and name = "''b''", OF refl]
  by (simp add: NewWithRange_def Configure_def Allocate_def assign_def scan.simps has_key_def)

text \<open>Whatever the operations before, the identifiers that a sequence of allocations returns are
  equal exactly for equal names.\<close>

theorem id_allocations_injective:
  fixes lo hi :: "'a::len word"
  assumes "run_alloc Allocate names (fold id_step ops (NewWithRange lo hi)) = (rs, m)"
    and "j < length names" and "k < length names" and "rs ! j = Inr a" and "rs ! k = Inr b"
  shows "a = b \<longleftrightarrow> names ! j = names ! k"
  using idm.run_same_iff [OF wf_id_steps [OF wf_NewWithRange] assms] .

theorem id_allocations_injective_witness:
  "let (rs, m) = run_alloc Allocate [''a'', ''b'', ''a''] (fold id_step [ReleaseOp ''z''] (NewWithRange 0 (4 :: 32 word)))
   in rs ! 0 \<noteq> rs ! 1 \<and> rs ! 0 = rs ! 2"
proof -
  have e: "run_alloc Allocate [''a'', ''b'', ''a''] (fold id_step [ReleaseOp ''z''] (NewWithRange 0 (4 :: 32 word))) =
    ([Inr 0, Inr 1, Inr 0], \<lparr>allocated = [(''a'', 0), (''b'', 1)], allocatedReverse = [(0, ''a''), (1, ''b'')],
       minID = 0, nextAllocatedID = 2, maxID = 4\<rparr>)"
    by (simp add: NewWithRange_def Release_def Allocate_def assign_def scan.simps has_key_def)
  show ?thesis
    unfolding e Let_def
    using id_allocations_injective [OF e, of 0 1 0 1] id_allocations_injective [OF e, of 0 2 0 0] by simp
qed

section \<open>The identifiers of the tunnels\<close>

text \<open>C9: While the controller runs, two tunnels on the API server never have the same identifier, provided
  that no deletion of a tunnel fails and that the list which loads the manager, after each start of the
  controller, succeeds and is up to date. Other reads may be stale, writes may fail with or without effect,
  every operation may end with any other error or a panic and the controller goes on, it may be restarted, and the
  operations may come in any order for any fabrics and nodes. Without either proviso the claim is false, as is shown
  below.\<close>

theorem tunnel_ids_unique:
  assumes "kube_ok object_key gt_ID K view" and "names_valid view"
    and "\<And>f c. view (snd (updateFabric f c)) = view c" and "geneve_run K view updateFabric st"
    and "view (cluster st) j = Some s" and "view (cluster st) k = Some t" and "gt_ID s = gt_ID t"
  shows "j = k"
  using tunnels_ok_unique [OF geneve_run_ok [OF assms(4,1,2,3)] assms(2)] assms(5-7)
  unfolding unique_ids_def by blast

definition plain_globals :: globals where
  "plain_globals =
     \<lparr>globalLabels = [(''app'', ''liqo'')], globalAnnotations = [], objectKind = Some (''GeneveTunnel'', ''networking.liqo.io''),
      rangeOrder = (\<lambda>_ vars. vars), setControllerReference = (\<lambda>uid owners. Some [uid])\<rparr>"

definition tenant_fabric :: InternalFabric where
  "tenant_fabric = \<lparr>if_Namespace = ''t'', if_Name = ''gw'', if_UID = ''u'', if_Finalizers = []\<rparr>"

definition booted :: "(objkey, GeneveTunnel) gomap \<Rightarrow> (objkey, GeneveTunnel) gomap gst" where
  "booted c = \<lparr>geneveTunnelManager = None, cluster = c\<rparr>"

definition plain_tunnel :: "string \<Rightarrow> 32 word \<Rightarrow> GeneveTunnel" where
  "plain_tunnel node i =
     \<lparr>om_Namespace = ''t'', om_Name = ''gw-'' @ node,
      om_Labels = [(InternalFabricName, ''gw''), (InternalNodeName, node), (''app'', ''liqo'')],
      om_Annotations = [], om_Owners = [''u''], gt_ID = i, gt_InternalNodeRef = Some node,
      gt_InternalFabricRef = Some (''t'', ''gw'')\<rparr>"

lemmas tunnel_eval =
  gbind_def greturn_def gfail_def GetGeneveTunnelManager_def tunnel_Allocate_def tunnel_Release_def
  mutateGeneveTunnel_def blank_tunnel_def CreateOrUpdate_def same_object_def same_map_def ensure_tunnel_def ensureGeneveTunnels_def
  cleanupGeneveTunnels_def delete_tunnel_def label0_def of_fabric_def geneveTunnelName_def object_key_def key_String_def
  add_globals_def buildVariablesMap_def replaceVariables_def plain_globals_def tenant_fabric_def
  booted_def plain_tunnel_def store_kube_def store_view_def InternalFabricName_def InternalNodeName_def
  New_Manager_def NewWithRange_def Configure_def Allocate_def assign_def Release_def scan.simps has_key_def

lemma two_tunnels:
  "ensureGeneveTunnels (store_kube object_key stuck) plain_globals (\<lambda>f c. (True, c)) tenant_fabric [''a'', ''b''] (booted []) =
     (Ok (tenant_fabric\<lparr>if_Finalizers := [InternalFabricGeneveTunnelFinalizer]\<rparr>),
      \<lparr>geneveTunnelManager = Some \<lparr>allocated = [(''t/gw-a'', 0), (''t/gw-b'', 1)],
          allocatedReverse = [(0, ''t/gw-a''), (1, ''t/gw-b'')], minID = 0, nextAllocatedID = 2, maxID = 0xFFFFFF\<rparr>,
       cluster = [((''t'', ''gw-a''), plain_tunnel ''a'' 0), ((''t'', ''gw-b''), plain_tunnel ''b'' 1)]\<rparr>)"
  by (simp add: tunnel_eval)

lemma store_names_valid: "names_valid (store_view key)"
  unfolding names_valid_def using store_view_Some by fastforce

theorem tunnel_ids_unique_witness:
  "\<exists>st s t. geneve_run (store_kube object_key []) (store_view object_key) (\<lambda>f c. (True, c)) st \<and>
     store_view object_key (cluster st) (''t'', ''gw-a'') = Some s \<and>
     store_view object_key (cluster st) (''t'', ''gw-b'') = Some t \<and> gt_ID s \<noteq> gt_ID t"
proof -
  let ?K = "store_kube object_key []" and ?U = "\<lambda>f c. (True, c)"
  obtain f st where e: "ensureGeneveTunnels ?K plain_globals ?U tenant_fabric [''a'', ''b''] (booted []) = (Ok f, st)"
    and st: "cluster st = [((''t'', ''gw-a''), plain_tunnel ''a'' 0), ((''t'', ''gw-b''), plain_tunnel ''b'' 1)]"
    using two_tunnels [of "[]"] by simp
  have "geneve_run ?K (store_view object_key) ?U (booted [])"
    by (rule geneve_run.boot) (simp_all add: booted_def unique_ids_def store_view_def)
  moreover have "loadable ?K (store_view object_key) (booted [])"
    by (simp add: loadable_def booted_def store_kube_def store_view_def ran_def)
  ultimately have r: "geneve_run ?K (store_view object_key) ?U st" by (rule geneve_run.ensure [OF _ _ e])
  have v: "store_view object_key (cluster st) (''t'', ''gw-a'') = Some (plain_tunnel ''a'' 0)"
    "store_view object_key (cluster st) (''t'', ''gw-b'') = Some (plain_tunnel ''b'' 1)"
    unfolding st by (simp_all add: store_view_def object_key_def plain_tunnel_def)
  have "gt_ID (plain_tunnel ''a'' 0) \<noteq> gt_ID (plain_tunnel ''b'' 1)"
    using tunnel_ids_unique [OF store_kube_ok store_names_valid _ r v] by auto
  then show ?thesis using r v by blast
qed

text \<open>The next free identifier is the one that a new name gets.\<close>

lemma next_free_unique: "next_free m i \<Longrightarrow> next_free m j \<Longrightarrow> i = j"
  unfolding next_free_def by (metis order.antisym leD)

lemma Allocate_next_free:
  assumes "wf_Manager m" and "\<not> has_key name (allocated m)" and "next_free m i"
  shows "Allocate name m = (Inr i, assign name i m)"
proof -
  have "map_of (allocated m) name = None" "free_id m i" using assms(2,3) by (simp_all add: has_key_iff next_free_def)
  then obtain j where "next_free m j" "Allocate name m = (Inr j, assign name j m)"
    using Allocate_fresh [OF assms(1)] by metis
  then show ?thesis using next_free_unique [OF assms(3)] by simp
qed

text \<open>A new tunnel is stored with the identifier that the manager gives.\<close>

lemma ensure_new_tunnel:
  assumes ok: "kube_ok object_key gt_ID K view" and m: "geneveTunnelManager st = Some m"
    and new: "k_get K (if_Namespace f, geneveTunnelName f node) (cluster st) = GetNotFound"
    and a: "Allocate (key_String (if_Namespace f, geneveTunnelName f node)) m = (Inr i, m')"
    and e: "ensure_tunnel K G f node st = (Ok (), st')"
  shows "\<exists>s. gt_ID s = i \<and>
    view (cluster st') = (view (cluster st))((if_Namespace f, geneveTunnelName f node) \<mapsto> s)"
proof -
  have "\<exists>t t'. k_put K t (cluster st) = (Some t', cluster st') \<and>
      object_key t = (if_Namespace f, geneveTunnelName f node) \<and> gt_ID t = i"
    using e new a m
    apply (clarsimp simp: ensure_tunnel_def gbind_def greturn_def gfail_def CreateOrUpdate_def blank_tunnel_def object_key_def
        mutateGeneveTunnel_def tunnel_Allocate_def GetGeneveTunnelManager_def add_globals_def
        split: option.splits prod.splits)
    apply (intro exI conjI, assumption)
    by simp_all
  then obtain t t' where t: "object_key t = (if_Namespace f, geneveTunnelName f node)" "gt_ID t = i"
    and put: "k_put K t (cluster st) = (Some t', cluster st')" by blast
  show ?thesis using kube_put [OF ok put] t by auto
qed

lemma shared_id_panics:
  assumes "k_list K (\<lambda>_. True) (cluster st) = Some ts" and "s \<in> set ts" and "t \<in> set ts"
    and "gt_ID s = gt_ID t" and "key_String (object_key s) \<noteq> key_String (object_key t)"
  shows "fst (GetGeneveTunnelManager K (st\<lparr>geneveTunnelManager := None\<rparr>)) = Panic"
proof -
  obtain b m where c: "configure_all ts New_Manager = (b, m)" by fastforce
  have False if b
  proof -
    have m: "wf_Manager m" "map_of (allocated m) (key_String (object_key s)) = Some (gt_ID t)"
        "map_of (allocated m) (key_String (object_key t)) = Some (gt_ID t)"
      using configure_all_True [OF _ wf_New_Manager] c that assms(2-4) by auto
    then show False using assms(5) inverse_maps_inj unfolding wf_Manager_def by metis
  qed
  then show ?thesis using c assms(1) by (cases b) (auto simp: GetGeneveTunnelManager_def)
qed

text \<open>C36: The identifier of a tunnel is released before the tunnel is deleted. Take any state of a run in
  which the deletion of a tunnel of the server fails and leaves it there. The call returns the error,
  and the manager has forgotten the tunnel. If its identifier is the next free one then, a new tunnel for any fabric and node that
  the controller succeeds to create gets it too, so that two tunnels of the server
  share it; and a controller that is started on that server panics while it loads the manager.\<close>

theorem failed_deletion_duplicates_id:
  assumes ok: "kube_ok object_key gt_ID K view" and "names_valid view"
    and "\<And>f c. view (snd (updateFabric f c)) = view c" and "geneve_run K view updateFabric st"
    and m: "geneveTunnelManager st = Some m" and t: "view (cluster st) (object_key t) = Some t"
    and del: "k_delete K t (cluster st) = (DeleteFailed, c)" "view c = view (cluster st)"
    and new: "k_get K (if_Namespace f, geneveTunnelName f node) c = GetNotFound"
      "\<not> has_key (key_String (if_Namespace f, geneveTunnelName f node)) (allocated m)"
    and free: "next_free (Release (key_String (object_key t)) m) (gt_ID t)"
  shows "\<exists>st'. delete_tunnel K t st = (Err DeletionFailed, st') \<and> view (cluster st') (object_key t) = Some t \<and>
    (\<forall>G st''. ensure_tunnel K G f node st' = (Ok (), st'') \<longrightarrow>
       (\<exists>s. view (cluster st'') (object_key t) = Some t \<and>
         view (cluster st'') (if_Namespace f, geneveTunnelName f node) = Some s \<and> gt_ID s = gt_ID t \<and>
         object_key t \<noteq> (if_Namespace f, geneveTunnelName f node) \<and>
         (\<forall>K' ts. k_list K' (\<lambda>_. True) (cluster st'') = Some ts \<longrightarrow> {s, t} \<subseteq> set ts \<longrightarrow>
            fst (GetGeneveTunnelManager K' (st''\<lparr>geneveTunnelManager := None\<rparr>)) = Panic)))"
proof -
  let ?n = "key_String (if_Namespace f, geneveTunnelName f node)" and ?m = "Release (key_String (object_key t)) m"
  let ?st = "st\<lparr>geneveTunnelManager := Some ?m, cluster := c\<rparr>"
  have a: "agrees view m (cluster st)" using geneve_run_ok [OF assms(4,1,2,3)] m by (simp add: tunnels_ok_def)
  have d: "delete_tunnel K t st = (Err DeletionFailed, ?st)"
    using m del(1) by (simp add: delete_tunnel_def tunnel_Release_def GetGeneveTunnelManager_def gbind_def)
  have known: "map_of (allocated m) (key_String (object_key t)) = Some (gt_ID t)" by (rule agreesD [OF a t])
  then have ne: "key_String (object_key t) \<noteq> ?n" using new(2) by (auto simp: has_key_iff)
  have "\<not> has_key ?n (allocated ?m)" using new(2) by (auto simp: Release_def has_key_iff map_of_del split: option.splits)
  then have al: "Allocate ?n ?m = (Inr (gt_ID t), assign ?n (gt_ID t) ?m)"
    using Allocate_next_free [OF wf_Release [OF agrees_wf [OF a]] _ free] by blast
  have "\<exists>s. view (cluster st'') (object_key t) = Some t \<and>
         view (cluster st'') (if_Namespace f, geneveTunnelName f node) = Some s \<and> gt_ID s = gt_ID t \<and>
         object_key t \<noteq> (if_Namespace f, geneveTunnelName f node) \<and>
         (\<forall>K' ts. k_list K' (\<lambda>_. True) (cluster st'') = Some ts \<longrightarrow> {s, t} \<subseteq> set ts \<longrightarrow>
            fst (GetGeneveTunnelManager K' (st''\<lparr>geneveTunnelManager := None\<rparr>)) = Panic)"
    if e: "ensure_tunnel K G f node ?st = (Ok (), st'')" for G st''
  proof -
    obtain s where s: "gt_ID s = gt_ID t"
        "view (cluster st'') = (view c)((if_Namespace f, geneveTunnelName f node) \<mapsto> s)"
      using ensure_new_tunnel [OF ok _ _ al e] new(1) by auto
    then have "object_key s = (if_Namespace f, geneveTunnelName f node)" using kube_view [OF ok, of "cluster st''"] by simp
    then have "key_String (object_key s) \<noteq> key_String (object_key t)" using ne by simp
    then show ?thesis using s t ne del(2) shared_id_panics [where s = s and t = t and st = st''] by auto
  qed
  then show ?thesis using d t del(2) by (intro exI [of _ ?st]) auto
qed

definition two_stored :: "(objkey, GeneveTunnel) gomap" where
  "two_stored = [((''t'', ''gw-a''), plain_tunnel ''a'' 0), ((''t'', ''gw-b''), plain_tunnel ''b'' 1)]"

definition two_managed :: "(objkey, GeneveTunnel) gomap gst" where
  "two_managed = \<lparr>geneveTunnelManager = Some \<lparr>allocated = [(''t/gw-a'', 0), (''t/gw-b'', 1)],
     allocatedReverse = [(0, ''t/gw-a''), (1, ''t/gw-b'')], minID = 0, nextAllocatedID = 0, maxID = 0xFFFFFF\<rparr>,
     cluster = two_stored\<rparr>"

lemma two_managed_run:
  "geneve_run (store_kube object_key stuck) (store_view object_key) (\<lambda>f c. (True, c)) two_managed"
proof -
  let ?K = "store_kube object_key stuck"
  have view: "store_view object_key two_stored k = Some t \<longleftrightarrow>
      k = (''t'', ''gw-a'') \<and> t = plain_tunnel ''a'' 0 \<or> k = (''t'', ''gw-b'') \<and> t = plain_tunnel ''b'' 1" for k t
    by (auto simp: store_view_def two_stored_def object_key_def plain_tunnel_def)
  have "geneve_run ?K (store_view object_key) (\<lambda>f c. (True, c)) (booted two_stored)"
    by (rule geneve_run.boot) (auto simp: booted_def unique_ids_def view plain_tunnel_def)
  moreover have "loadable ?K (store_view object_key) (booted two_stored)"
  proof -
    have "ran (store_view object_key two_stored) = {plain_tunnel ''a'' 0, plain_tunnel ''b'' 1}"
      unfolding ran_def view by auto
    then show ?thesis
      by (simp add: loadable_def booted_def store_kube_def store_view_def two_stored_def object_key_def plain_tunnel_def)
  qed
  moreover have "\<exists>f. ensureGeneveTunnels ?K plain_globals (\<lambda>f c. (True, c)) tenant_fabric [''b''] (booted two_stored) = (Ok f, two_managed)"
    by (simp add: tunnel_eval two_stored_def two_managed_def)
  ultimately show ?thesis using geneve_run.ensure by blast
qed

theorem failed_deletion_duplicates_id_witness:
  "let K = store_kube object_key [(''t'', ''gw-a'')];
       (r, st) = delete_tunnel K (plain_tunnel ''a'' 0) two_managed;
       (r', st') = ensure_tunnel K plain_globals tenant_fabric ''c'' st
   in r = Err DeletionFailed \<and> r' = Ok () \<and>
      (\<exists>s. store_view object_key (cluster st') (''t'', ''gw-a'') = Some (plain_tunnel ''a'' 0) \<and>
           store_view object_key (cluster st') (''t'', ''gw-c'') = Some s \<and> gt_ID s = gt_ID (plain_tunnel ''a'' 0))"
proof -
  let ?K = "store_kube object_key [(''t'', ''gw-a'')]" and ?t = "plain_tunnel ''a'' 0"
  have key: "object_key ?t = (''t'', ''gw-a'')" "geneveTunnelName tenant_fabric ''c'' = ''gw-c''" "if_Namespace tenant_fabric = ''t''"
    by (simp_all add: object_key_def plain_tunnel_def geneveTunnelName_def tenant_fabric_def)
  obtain m where m: "geneveTunnelManager two_managed = Some m"
    and free: "next_free (Release (key_String (object_key ?t)) m) (gt_ID ?t)"
      "\<not> has_key (key_String (''t'', ''gw-c'')) (allocated m)"
    by (simp add: two_managed_def Release_def key_String_def object_key_def next_free_def free_id_def has_key_def plain_tunnel_def)
  have t: "store_view object_key (cluster two_managed) (object_key ?t) = Some ?t"
    by (simp add: store_view_def two_managed_def two_stored_def key)
  have d: "k_delete ?K ?t (cluster two_managed) = (DeleteFailed, cluster two_managed)"
    by (simp add: store_kube_def key)
  have n: "k_get ?K (''t'', ''gw-c'') (cluster two_managed) = GetNotFound"
    by (simp add: store_kube_def store_view_def two_managed_def two_stored_def)
  obtain st where st: "delete_tunnel ?K ?t two_managed = (Err DeletionFailed, st)"
    and dup: "\<forall>G st''. ensure_tunnel ?K G tenant_fabric ''c'' st = (Ok (), st'') \<longrightarrow>
      (\<exists>s. store_view object_key (cluster st'') (object_key ?t) = Some ?t \<and>
         store_view object_key (cluster st'') (''t'', ''gw-c'') = Some s \<and> gt_ID s = gt_ID ?t)"
    using failed_deletion_duplicates_id [where f = tenant_fabric and node = "''c''",
        OF store_kube_ok store_names_valid _ two_managed_run m t d refl] n free unfolding key by fastforce
  have "\<exists>st''. ensure_tunnel ?K plain_globals tenant_fabric ''c'' (snd (delete_tunnel ?K ?t two_managed)) = (Ok (), st'')"
    by (simp add: tunnel_eval two_managed_def two_stored_def)
  then show ?thesis using st dup unfolding key by fastforce
qed

text \<open>If the first list of the tunnels fails, the manager stays empty: the call panics, and every
  later call returns a manager that knows no tunnel, whatever is on the server.\<close>

theorem manager_empty_after_failed_list:
  fixes st :: "'c gst"
  assumes "geneveTunnelManager st = None" and "k_list K (\<lambda>_. True) (cluster st) = None"
  shows "\<exists>st'. GetGeneveTunnelManager K st = (Panic, st') \<and> cluster st' = cluster st \<and>
           (\<forall>K' c. GetGeneveTunnelManager K' (st'\<lparr>cluster := c\<rparr>) = (Ok New_Manager, st'\<lparr>cluster := c\<rparr>)) \<and>
           (\<forall>K' c name. fst (tunnel_Allocate K' name (st'\<lparr>cluster := c\<rparr>)) = Ok 0)"
proof -
  have "scan [] 0 (0xFFFFFF :: 32 word) = Some 0" by (simp add: scan.simps)
  then have a: "\<exists>m. Allocate name (New_Manager :: 32 word Manager) = (Inr 0, m)" for name
    by (simp add: Allocate_def New_Manager_def NewWithRange_def)
  have l: "geneveTunnelManager s = Some New_Manager \<Longrightarrow> GetGeneveTunnelManager K' s = (Ok New_Manager, s)"
    for K' and s :: "'c gst"
    by (simp add: GetGeneveTunnelManager_def)
  have "fst (tunnel_Allocate K' name s) = Ok 0" if "geneveTunnelManager s = Some New_Manager"
    for K' name and s :: "'c gst"
    using a [of name] by (auto simp: tunnel_Allocate_def gbind_def l [OF that])
  then show ?thesis
    using assms l by (intro exI [of _ "st\<lparr>geneveTunnelManager := Some New_Manager\<rparr>"] conjI)
      (simp_all add: GetGeneveTunnelManager_def)
qed

theorem manager_empty_after_failed_list_witness:
  "\<exists>st'. GetGeneveTunnelManager ((store_kube object_key [])\<lparr>k_list := \<lambda>_ _. None\<rparr>)
            (booted [((''t'', ''gw-a''), plain_tunnel ''a'' 0)]) = (Panic, st') \<and>
         fst (tunnel_Allocate (store_kube object_key []) ''t/gw-c''
           (st'\<lparr>cluster := [((''t'', ''gw-a''), plain_tunnel ''a'' 0)]\<rparr>)) = Ok 0"
  using manager_empty_after_failed_list [of "booted [((''t'', ''gw-a''), plain_tunnel ''a'' 0)]"
      "(store_kube object_key [])\<lparr>k_list := \<lambda>_ _. None\<rparr>"]
  by (simp add: booted_def) blast

end
