(* ===== verification/FabricIpam.thy ===== *)
theory FabricIpam
  imports GoIP GoMap
begin

text \<open>
  The allocator of the addresses of the internal fabric,
  \<open>pkg/liqo-controller-manager/networking/internal-network/fabricipam\<close>. A slice of bytes is an
  index into the \<open>heap\<close>: \<open>Allocate\<close> changes the bytes of \<open>lastAllocatedIP\<close> in place and returns that
  same slice. The mutex makes every method one step. A loop that does not end is \<open>None\<close>.
\<close>

unbundle bit_operations_syntax

type_synonym slice = nat

record IPAM =
  network :: IPNet
  allocated :: "(string, string) gomap"
  allocatedReverse :: "(string, string) gomap"
  lastAllocatedIP :: slice

record fabric =
  ipam :: IPAM
  heap :: "bytes list"

datatype fabric_error = InvalidCIDR | NameConfigured string | IPConfigured string | NoMoreIP
  | InternalCIDRMissing | ListNodesFailed | ListFabricsFailed

section \<open>Arithmetic on the bytes of an address\<close>

text \<open>\<open>inc\<close> and the loop of \<open>add\<close> start at the last byte: they are given on the reversed bytes.\<close>

fun inc_rev :: "bytes \<Rightarrow> bytes" where
  "inc_rev [] = []"
| "inc_rev (b # bs) = (if b + 1 > 0 then (b + 1) # bs else (b + 1) # inc_rev bs)"

definition inc :: "bytes \<Rightarrow> bytes" where
  "inc ip = rev (inc_rev (rev ip))"

fun add_rev :: "bytes \<Rightarrow> 64 word \<Rightarrow> bytes" where
  "add_rev [] n = []"
| "add_rev (b # bs) n =
     (if n > 0 then (let tmp = ucast b + n in ucast tmp # add_rev bs (drop_bit 8 tmp)) else b # bs)"

text \<open>The variable \<open>ip\<close> is overwritten by the result of \<open>To4\<close> before \<open>To16\<close> is tried.\<close>

definition add :: "bytes \<Rightarrow> 64 word \<Rightarrow> bytes" where
  "add ip0 n =
     (let ip = (case ip_To4 ip0 of Some b \<Rightarrow> b | None \<Rightarrow> []);
          ip = (if ip = [] then ip_To16 ip else ip)
      in if ip = [] then [] else rev (add_rev (rev ip) n))"

section \<open>The operations\<close>

definition newIPAM :: "string \<Rightarrow> fabric_error + fabric" where
  "newIPAM cidr =
     (case ParseCIDR cidr of
        None \<Rightarrow> Inl InvalidCIDR
      | Some (ip, ipNet) \<Rightarrow>
          (let first = ip_String (net_IP ipNet);
               (ones, bits) = mask_Size (net_Mask ipNet);
               nIPs = push_bit (bits - ones) (1 :: 64 word);
               last = ip_String (add (ip_Parse first) (nIPs - 1))
           in Inr \<lparr>ipam = \<lparr>network = ipNet,
                            allocated = put last last (put first first []),
                            allocatedReverse = put last last (put first first []),
                            lastAllocatedIP = 0\<rparr>,
                   heap = [be_bytes 16 ip]\<rparr>))"

definition configure :: "string \<Rightarrow> string \<Rightarrow> IPAM \<Rightarrow> fabric_error option \<times> IPAM" where
  "configure name ip i =
     (if has_key name (allocated i) then (Some (NameConfigured name), i)
      else if has_key ip (allocatedReverse i) then (Some (IPConfigured ip), i)
      else (None, i\<lparr>allocated := put name ip (allocated i), allocatedReverse := put ip name (allocatedReverse i)\<rparr>))"

definition isIPConfigured :: "string \<Rightarrow> IPAM \<Rightarrow> bool" where
  "isIPConfigured ip i = has_key ip (allocatedReverse i)"

text \<open>A loop of \<open>Allocate\<close>: the bytes that it leaves in the slice, and whether that address is free.\<close>

partial_function (option) search :: "IPNet \<Rightarrow> (string, string) gomap \<Rightarrow> bytes \<Rightarrow> (bytes \<times> bool) option" where
  "search net taken ip =
     (if net_Contains net ip
      then if \<not> has_key (ip_String ip) taken then Some (ip, True) else search net taken (inc ip)
      else Some (ip, False))"

definition record_ip :: "string \<Rightarrow> slice \<Rightarrow> fabric \<Rightarrow> fabric" where
  "record_ip name l st =
     (let ip = ip_String (heap st ! l)
      in st\<lparr>ipam := (ipam st)\<lparr>lastAllocatedIP := l, allocated := put name ip (allocated (ipam st)),
                              allocatedReverse := put ip name (allocatedReverse (ipam st))\<rparr>\<rparr>)"

definition Allocate :: "string \<Rightarrow> fabric \<Rightarrow> ((fabric_error + slice) \<times> fabric) option" where
  "Allocate name st =
     (let i = ipam st; l = lastAllocatedIP i
      in case map_of (allocated i) name of
           Some v \<Rightarrow> Some (Inr (length (heap st)), st\<lparr>heap := heap st @ [ip_Parse v]\<rparr>)
         | None \<Rightarrow>
             (case search (network i) (allocatedReverse i) (heap st ! l) of
                None \<Rightarrow> None
              | Some (ip, True) \<Rightarrow> Some (Inr l, record_ip name l (st\<lparr>heap := (heap st)[l := ip]\<rparr>))
              | Some (ip, False) \<Rightarrow>
                  (let h = (heap st)[l := ip]
                   in case search (network i) (allocatedReverse i) (ip_Mask (net_IP (network i)) (net_Mask (network i))) of
                        None \<Rightarrow> None
                      | Some (ip', True) \<Rightarrow>
                          Some (Inr (length h), record_ip name (length h) (st\<lparr>heap := h @ [ip']\<rparr>))
                      | Some (ip', False) \<Rightarrow> Some (Inl NoMoreIP, st\<lparr>heap := h @ [ip']\<rparr>))))"

section \<open>The allocator of the controllers\<close>

text \<open>
  A resource of the cluster that holds an address: its name and the address in its specification
  (\<open>InternalNode\<close> and \<open>InternalFabric\<close>). Reading the cluster may fail (\<open>None\<close>).
\<close>

fun init_items :: "(string \<times> string) list \<Rightarrow> IPAM \<Rightarrow> fabric_error option \<times> IPAM" where
  "init_items [] i = (None, i)"
| "init_items ((name, ip) # xs) i =
     (if isIPConfigured ip i then init_items xs i
      else (case configure name ip i of
              (None, i') \<Rightarrow> init_items xs i'
            | (Some e, i') \<Rightarrow> (Some e, i')))"

definition fabricipam_Init ::
  "(string \<times> string) list option \<Rightarrow> (string \<times> string) list option \<Rightarrow> IPAM \<Rightarrow> fabric_error option \<times> IPAM" where
  "fabricipam_Init nodes fabrics i =
     (case nodes of
        None \<Rightarrow> (Some ListNodesFailed, i)
      | Some ns \<Rightarrow>
          (case init_items ns i of
             (Some e, i') \<Rightarrow> (Some e, i')
           | (None, i') \<Rightarrow>
               (case fabrics of
                  None \<Rightarrow> (Some ListFabricsFailed, i')
                | Some fs \<Rightarrow> init_items fs i')))"

text \<open>The package variables \<open>fabricIPAM\<close> and \<open>ready\<close>: the allocator once it is ready.\<close>

definition fabricipam_Get ::
  "string option \<Rightarrow> (string \<times> string) list option \<Rightarrow> (string \<times> string) list option \<Rightarrow> fabric option \<Rightarrow>
     (fabric_error + fabric) \<times> fabric option" where
  "fabricipam_Get internalCIDR nodes fabrics ready =
     (case ready of
        Some st \<Rightarrow> (Inr st, ready)
      | None \<Rightarrow>
          (case internalCIDR of
             None \<Rightarrow> (Inl InternalCIDRMissing, None)
           | Some cidr \<Rightarrow>
               (case newIPAM cidr of
                  Inl e \<Rightarrow> (Inl e, None)
                | Inr st \<Rightarrow>
                    (case fabricipam_Init nodes fabrics (ipam st) of
                       (Some e, _) \<Rightarrow> (Inl e, None)
                     | (None, i) \<Rightarrow> (Inr (st\<lparr>ipam := i\<rparr>), Some (st\<lparr>ipam := i\<rparr>))))))"

end
