(* ===== verification/FabricSpec.thy ===== *)
theory FabricSpec
  imports FabricIpam Allocator
begin

text \<open>
  The allocator of the fabric on an IPv4 network: the addresses as numbers, what a search finds and
  when it ends, and the state that an allocation leaves.
\<close>

declare ip_net.simps [simp del]

section \<open>Increment and addition\<close>

lemma be_val_snoc: "be_val (bs @ [b]) = 256 * be_val bs + unat b"
  by (simp add: be_val_def)

lemma be_val_inc_rev: "be_val (rev (inc_rev bs)) = (be_val (rev bs) + 1) mod 256 ^ length bs"
proof (induction bs)
  case (Cons b bs)
  show ?case
  proof (cases "b = - 1")
    case True
    then have "be_val (rev (inc_rev (b # bs))) = 256 * ((be_val (rev bs) + 1) mod 256 ^ length bs)"
      using Cons by (simp add: be_val_snoc)
    moreover have "unat b = 255" using True by (simp add: unsigned_minus_1_eq_mask mask_eq_exp_minus_1)
    then have "be_val (rev (b # bs)) + 1 = 256 * (be_val (rev bs) + 1)" by (simp add: be_val_snoc)
    ultimately show ?thesis by (simp add: mult_mod_right)
  next
    case False
    then have u: "unat (b + 1) = unat b + 1" "b + 1 > 0"
      using unatSuc [of b] by (auto simp: add.commute word_gt_0 eq_neg_iff_add_eq_0)
    have "unat (b + 1) < 256" using unsigned_less [of "b + 1"] by simp
    moreover have "be_val (rev bs) < 256 ^ length bs" using be_val_bound [of "rev bs"] by simp
    ultimately have "256 * be_val (rev bs) + (unat b + 1) < 256 * 256 ^ length bs" unfolding u(1) by linarith
    then show ?thesis using u by (simp add: be_val_snoc)
  qed
qed (simp add: be_val_def)

lemma length_inc_rev [simp]: "length (inc_rev bs) = length bs"
  by (induction bs) simp_all

lemma length_inc [simp]: "length (inc ip) = length ip"
  by (simp add: inc_def)

lemma be_val_inc: "be_val (inc ip) = (be_val ip + 1) mod 256 ^ length ip"
  using be_val_inc_rev [of "rev ip"] by (simp add: inc_def)

lemma length_add_rev [simp]: "length (add_rev bs n) = length bs"
  by (induction bs arbitrary: n) (simp_all add: Let_def)

lemma be_val_add_rev:
  assumes "unat n < 2 ^ 63"
  shows "be_val (rev (add_rev bs n)) = (be_val (rev bs) + unat n) mod 256 ^ length bs"
  using assms
proof (induction bs arbitrary: n)
  case (Cons b bs)
  show ?case
  proof (cases "n = 0")
    case True
    then show ?thesis using be_val_bound [of "rev (b # bs)"] by simp
  next
    case False
    define tmp where "tmp = ucast b + n"
    have "unat b < 256" using unsigned_less [of b] by simp
    then have b: "unat (ucast b :: 64 word) = unat b" by (simp add: unsigned_ucast_eq take_bit_eq_mod)
    have t: "unat tmp = unat b + unat n"
      unfolding tmp_def unat_word_ariths(1) b using Cons.prems \<open>unat b < 256\<close> by simp
    have d: "unat (drop_bit 8 tmp) = unat tmp div 256" by (simp add: unat_drop_bit)
    have "unat (drop_bit 8 tmp) < 2 ^ 63" using t Cons.prems \<open>unat b < 256\<close> unfolding d by simp
    note ih = Cons.IH [OF this]
    have low: "unat (ucast tmp :: 8 word) = unat tmp mod 256" by (simp add: unsigned_ucast_eq take_bit_eq_mod)
    have "be_val (rev (add_rev (b # bs) n)) = 256 * ((be_val (rev bs) + unat tmp div 256) mod 256 ^ length bs) + unat tmp mod 256"
      using False ih by (simp add: Let_def tmp_def [symmetric] be_val_snoc d low word_gt_0)
    also have "\<dots> = (256 * be_val (rev bs) + unat tmp) mod (256 * 256 ^ length bs)"
      using mod_mult2_eq [of "256 * be_val (rev bs) + unat tmp" 256 "256 ^ length bs"] by simp
    finally show ?thesis using t by (simp add: be_val_snoc algebra_simps)
  qed
qed (simp add: be_val_def)

section \<open>The addresses as numbers\<close>

definition ip4 :: "nat \<Rightarrow> bytes" where
  "ip4 v = be_bytes 4 (word_of_nat v :: 32 word)"

definition at4 :: "bytes \<Rightarrow> nat \<Rightarrow> bool" where
  "at4 ip v \<longleftrightarrow> ip_To4 ip = Some (ip4 v) \<and> v < 2 ^ 32"

lemma length_ip4 [simp]: "length (ip4 v) = 4"
  by (simp add: ip4_def)

lemma be_val_ip4: "v < 2 ^ 32 \<Longrightarrow> be_val (ip4 v) = v"
  unfolding ip4_def be_val_be_bytes by (simp add: unat_of_nat)

lemma ip4_be_val: "length b = 4 \<Longrightarrow> ip4 (be_val b) = b"
  unfolding ip4_def by (rule be_bytes_be_val) simp_all

lemma at4_ex: "ip_To4 ip = Some b \<Longrightarrow> at4 ip (be_val b)"
  using ip_To4_Some [of ip b] be_val_bound [of b] by (simp add: at4_def ip4_be_val)

lemma at4_length: "at4 ip v \<Longrightarrow> length ip = 4 \<or> length ip = 16"
  by (auto simp: at4_def ip_To4_def split: if_splits)

lemma at4_4: "length ip = 4 \<Longrightarrow> at4 ip v \<longleftrightarrow> be_val ip = v"
  using be_val_bound [of ip] ip4_be_val [of ip] by (auto simp: at4_def be_val_ip4)

lemma div_mod_iff: "a div m = q \<and> a mod m = v \<and> v < m \<longleftrightarrow> a = q * m + v \<and> v < m" for a m q v :: nat
  using div_mult_mod_eq [of a m] by auto

lemma at4_16: "at4 (be_bytes 16 x) v \<longleftrightarrow> unat x = 0xFFFF * 2 ^ 32 + v \<and> v < 2 ^ 32" for x :: "128 word"
proof -
  have d: "drop_bit 32 x = 0xFFFF \<longleftrightarrow> unat x div 2 ^ 32 = 0xFFFF"
    using word_unat_eq_iff [of "drop_bit 32 x" "0xFFFF"] unfolding unat_drop_bit by simp
  have l: "(ucast x :: 32 word) = word_of_nat v \<longleftrightarrow> unat x mod 2 ^ 32 = v" if "v < 2 ^ 32"
  proof -
    have "unat (ucast x :: 32 word) = unat x mod 2 ^ 32" by (simp add: unsigned_ucast_eq take_bit_eq_mod)
    moreover have "unat (word_of_nat v :: 32 word) = v" using that by (simp add: unat_of_nat)
    ultimately show ?thesis using word_unat_eq_iff [of "ucast x :: 32 word" "word_of_nat v"] by simp
  qed
  have "at4 (be_bytes 16 x) v \<longleftrightarrow> unat x div 2 ^ 32 = 0xFFFF \<and> unat x mod 2 ^ 32 = v \<and> v < 2 ^ 32"
    unfolding at4_def ip_To4_16 To4_def ip4_def using d l by (auto simp: be_bytes_4_eq)
  also have "\<dots> \<longleftrightarrow> unat x = 0xFFFF * 2 ^ 32 + v \<and> v < 2 ^ 32"
    by (rule div_mod_iff)
  finally show ?thesis .
qed

lemma inc_16: "inc (be_bytes 16 x) = be_bytes 16 (x + 1)" for x :: "128 word"
proof (rule be_val_inject)
  have p: "(256::nat) ^ 16 = 2 ^ LENGTH(128)" by simp
  have "unat (x + 1) = (unat x + 1) mod 2 ^ LENGTH(128)" by (simp add: unat_word_ariths(1))
  then show "be_val (inc (be_bytes 16 x)) = be_val (be_bytes 16 (x + 1))"
    unfolding be_val_inc be_val_be_bytes length_be_bytes p by (simp add: mod_simps)
qed simp

text \<open>One step of the loops.\<close>

lemma at4_inc:
  assumes "at4 ip v" and "v + 1 < 2 ^ 32"
  shows "at4 (inc ip) (v + 1)"
  using at4_length [OF assms(1)]
proof
  assume l: "length ip = 4"
  then show ?thesis using assms by (simp add: at4_4 be_val_inc)
next
  assume "length ip = 16"
  then obtain x :: "128 word" where x: "ip = be_bytes 16 x" using be_bytes_16 by blast
  then have u: "unat x = 0xFFFF * 2 ^ 32 + v" using assms(1) at4_16 [of x v] by blast
  then have "unat (x + 1) = unat x + 1" using assms(2) by (simp add: unat_word_ariths(1))
  then show ?thesis unfolding x inc_16 at4_16 using u assms(2) by simp
qed

lemma at4_wrap_4: "at4 ip (2 ^ 32 - 1) \<Longrightarrow> length ip = 4 \<Longrightarrow> at4 (inc ip) 0"
  by (simp add: at4_4 be_val_inc)

lemma at4_wrap_16:
  assumes "at4 ip (2 ^ 32 - 1)" and "length ip = 16"
  shows "ip_To4 (inc ip) = None"
proof (rule ccontr)
  assume "ip_To4 (inc ip) \<noteq> None"
  then obtain b where "ip_To4 (inc ip) = Some b" by blast
  then have a: "at4 (inc ip) (be_val b)" by (rule at4_ex)
  obtain x :: "128 word" where x: "ip = be_bytes 16 x" using assms(2) be_bytes_16 by blast
  have u: "unat x = 0xFFFF * 2 ^ 32 + (2 ^ 32 - 1)" using assms(1) x at4_16 by blast
  have "unat (x + 1) = 0xFFFF * 2 ^ 32 + be_val b" "be_val b < 2 ^ 32"
    using a unfolding x inc_16 at4_16 by blast+
  moreover have "unat (x + 1) = unat x + 1" using u by (simp add: unat_word_ariths(1))
  ultimately show False using u by simp
qed

section \<open>The network\<close>

text \<open>The network of \<open>w/n\<close>: the numbers from \<open>net_lo w n\<close> to below \<open>net_hi w n\<close>.\<close>

definition net_lo :: "32 word \<Rightarrow> nat \<Rightarrow> nat" where
  "net_lo w n = unat w div 2 ^ (32 - n) * 2 ^ (32 - n)"

definition net_hi :: "32 word \<Rightarrow> nat \<Rightarrow> nat" where
  "net_hi w n = net_lo w n + 2 ^ (32 - n)"

definition in_net :: "32 word \<Rightarrow> nat \<Rightarrow> nat \<Rightarrow> bool" where
  "in_net w n v \<longleftrightarrow> net_lo w n \<le> v \<and> v < net_hi w n"

lemma in_net_div: "in_net w n v \<longleftrightarrow> v div 2 ^ (32 - n) = unat w div 2 ^ (32 - n)"
proof -
  have "v div m = q \<longleftrightarrow> q * m \<le> v \<and> v < q * m + m" if "0 < m" for m q :: nat
  proof -
    have "v div m = q \<longleftrightarrow> q \<le> v div m \<and> v div m < q + 1" by auto
    then show ?thesis unfolding less_eq_div_iff_mult_less_eq [OF that] div_less_iff_less_mult [OF that] by (simp add: add.commute)
  qed
  then show ?thesis unfolding in_net_def net_lo_def net_hi_def by simp
qed

lemma in_net_0: "in_net w 0 v \<longleftrightarrow> v < 2 ^ 32"
proof -
  have "unat w < 2 ^ 32" using unsigned_less [of w] by simp
  then show ?thesis by (simp add: in_net_def net_hi_def net_lo_def)
qed

lemma net_hi_le: "net_hi w n \<le> 2 ^ 32"
proof (cases "n \<le> 32")
  case True
  let ?S = "2 ^ (32 - n) :: nat"
  have "(2::nat) ^ 32 = 2 ^ n * ?S" using True by (simp add: power_add [symmetric])
  moreover have "unat w < 2 ^ 32" using unsigned_less [of w] by simp
  ultimately have "unat w div ?S < 2 ^ n" by (simp add: less_mult_imp_div_less)
  then have "(unat w div ?S + 1) * ?S \<le> 2 ^ n * ?S" by (intro mult_le_mono1) simp
  then show ?thesis using \<open>2 ^ 32 = 2 ^ n * ?S\<close> by (simp add: net_hi_def net_lo_def)
next
  case False
  have "unat w < 2 ^ 32" using unsigned_less [of w] by simp
  then show ?thesis using False by (simp add: net_hi_def net_lo_def)
qed

lemma in_net_less: "in_net w n v \<Longrightarrow> v < 2 ^ 32"
  using net_hi_le [of w n] by (simp add: in_net_def)

lemma net_lo_pos: "1 \<le> n \<Longrightarrow> net_hi w n = 2 ^ 32 \<Longrightarrow> 0 < net_lo w n"
proof -
  assume "1 \<le> n" "net_hi w n = 2 ^ 32"
  moreover have "(2::nat) ^ (32 - n) < 2 ^ 32" using \<open>1 \<le> n\<close> by (intro power_strict_increasing) auto
  ultimately show ?thesis by (simp add: net_hi_def)
qed

lemma Contains_at4: "at4 ip v \<Longrightarrow> net_Contains (ip_net (V4 w) n) ip \<longleftrightarrow> in_net w n v"
proof -
  assume a: "at4 ip v"
  then have u: "unat (word_of_nat v :: 32 word) = v" by (simp add: at4_def unat_of_nat)
  have "net_Contains (ip_net (V4 w) n) ip \<longleftrightarrow>
      (word_of_nat v :: 32 word) AND prefix_mask n = w AND prefix_mask n"
    unfolding net_Contains_V4 a [unfolded at4_def, THEN conjunct1] ip4_def option.inject be_bytes_4_eq by blast
  then show ?thesis unfolding same_network u in_net_div .
qed

lemma Contains_not4: "ip_To4 ip = None \<Longrightarrow> \<not> net_Contains (ip_net (V4 w) n) ip"
  by (simp add: net_Contains_V4)

lemma String_at4: "at4 ip v \<Longrightarrow> ip_String ip = text4 (ip4 v)"
  by (auto simp: at4_def dest: ip_String_To4)

lemma text4_ip4_inject: "u < 2 ^ 32 \<Longrightarrow> v < 2 ^ 32 \<Longrightarrow> text4 (ip4 u) = text4 (ip4 v) \<longleftrightarrow> u = v"
  by (metis text4_inject length_ip4 be_val_ip4)

section \<open>The search\<close>

definition taken4 :: "(string, string) gomap \<Rightarrow> nat \<Rightarrow> bool" where
  "taken4 m v \<longleftrightarrow> has_key (text4 (ip4 v)) m"

lemma search_skip:
  assumes "\<forall>j<k. net_Contains net ((inc ^^ j) ip) \<and> has_key (ip_String ((inc ^^ j) ip)) taken"
  shows "search net taken ip = search net taken ((inc ^^ k) ip)"
  using assms
proof (induction k)
  case (Suc k)
  have "search net taken ip = search net taken ((inc ^^ k) ip)" using Suc by simp
  also have "\<dots> = search net taken ((inc ^^ Suc k) ip)"
    using Suc.prems [rule_format, of k] by (subst search.simps) simp
  finally show ?case .
qed simp

lemma at4_incs:
  assumes "at4 ip v" and "v + k < 2 ^ 32"
  shows "at4 ((inc ^^ k) ip) (v + k)"
  using assms(2)
proof (induction k)
  case (Suc k)
  then show ?case using at4_inc [of "(inc ^^ k) ip" "v + k"] by simp
qed (simp add: assms(1))

lemma length_incs [simp]: "length ((inc ^^ k) ip) = length ip"
  by (induction k) simp_all

lemma search_to:
  assumes "at4 ip v" and "in_net w n v" and "v \<le> u" and "u < net_hi w n"
    and "\<forall>x. v \<le> x \<longrightarrow> x < u \<longrightarrow> taken4 taken x"
  shows "search (ip_net (V4 w) n) taken ip = search (ip_net (V4 w) n) taken ((inc ^^ (u - v)) ip) \<and>
         at4 ((inc ^^ (u - v)) ip) u"
proof -
  have l: "u < 2 ^ 32" using assms(4) net_hi_le [of w n] by simp
  have at: "at4 ((inc ^^ j) ip) (v + j)" if "j \<le> u - v" for j
    using at4_incs [OF assms(1), of j] that l assms(3) by simp
  have "\<forall>j<u - v. net_Contains (ip_net (V4 w) n) ((inc ^^ j) ip) \<and> has_key (ip_String ((inc ^^ j) ip)) taken"
  proof (intro allI impI)
    fix j
    assume j: "j < u - v"
    have "in_net w n (v + j)" using assms(2,4) j by (auto simp: in_net_def)
    moreover have "taken4 taken (v + j)" using assms(5) j by auto
    ultimately show "net_Contains (ip_net (V4 w) n) ((inc ^^ j) ip) \<and> has_key (ip_String ((inc ^^ j) ip)) taken"
      using at [of j] j by (simp add: Contains_at4 String_at4 taken4_def)
  qed
  then show ?thesis using search_skip at [of "u - v"] assms(3) by auto
qed

text \<open>A free address of the network from the start on is found.\<close>

lemma search_found:
  assumes "at4 ip v" and "in_net w n v" and "v \<le> u" and "u < net_hi w n" and "\<not> taken4 taken u"
    and "\<forall>x. v \<le> x \<longrightarrow> x < u \<longrightarrow> taken4 taken x"
  shows "search (ip_net (V4 w) n) taken ip = Some ((inc ^^ (u - v)) ip, True)"
    and "at4 ((inc ^^ (u - v)) ip) u"
proof -
  show a: "at4 ((inc ^^ (u - v)) ip) u" using search_to [OF assms(1-4,6)] by blast
  have "in_net w n u" using assms(2-4) by (simp add: in_net_def)
  then have "search (ip_net (V4 w) n) taken ((inc ^^ (u - v)) ip) = Some ((inc ^^ (u - v)) ip, True)"
    using a assms(5) by (subst search.simps) (simp add: Contains_at4 String_at4 taken4_def)
  then show "search (ip_net (V4 w) n) taken ip = Some ((inc ^^ (u - v)) ip, True)"
    using search_to [OF assms(1-4,6)] by simp
qed

text \<open>
  Otherwise it comes to the end of the network. A slice of 16 bytes leaves the IPv4 addresses there,
  one of four bytes wraps around to \<open>0.0.0.0\<close>.
\<close>

lemma search_end:
  assumes "at4 ip v" and "in_net w n v" and "\<forall>x. v \<le> x \<longrightarrow> x < net_hi w n \<longrightarrow> taken4 taken x"
  obtains ip' where "search (ip_net (V4 w) n) taken ip = search (ip_net (V4 w) n) taken ip'" and "length ip' = length ip"
    and "net_hi w n < 2 ^ 32 \<Longrightarrow> at4 ip' (net_hi w n)"
    and "net_hi w n = 2 ^ 32 \<Longrightarrow> length ip = 4 \<Longrightarrow> at4 ip' 0"
    and "net_hi w n = 2 ^ 32 \<Longrightarrow> length ip = 16 \<Longrightarrow> ip_To4 ip' = None"
proof -
  let ?u = "net_hi w n - 1" and ?N = "ip_net (V4 w) n"
  define ip1 where "ip1 = (inc ^^ (?u - v)) ip"
  have u: "v \<le> ?u" "?u < net_hi w n" using assms(2) by (auto simp: in_net_def)
  have t: "\<forall>x. v \<le> x \<longrightarrow> x < ?u \<longrightarrow> taken4 taken x" using assms(3) by auto
  have s: "search ?N taken ip = search ?N taken ip1" and a: "at4 ip1 ?u"
    using search_to [OF assms(1,2) u t] unfolding ip1_def by blast+
  have "in_net w n ?u" "taken4 taken ?u" using u assms(2,3) by (auto simp: in_net_def)
  then have "search ?N taken ip1 = search ?N taken (inc ip1)"
    using a by (subst search.simps) (simp add: Contains_at4 String_at4 taken4_def)
  moreover have "at4 (inc ip1) (net_hi w n)" if "net_hi w n < 2 ^ 32"
    using at4_inc [OF a] that u by simp
  moreover have "at4 (inc ip1) 0" if "net_hi w n = 2 ^ 32" "length ip = 4"
    using at4_wrap_4 [of ip1] a that by (simp add: ip1_def)
  moreover have "ip_To4 (inc ip1) = None" if "net_hi w n = 2 ^ 32" "length ip = 16"
    using at4_wrap_16 [of ip1] a that by (simp add: ip1_def)
  ultimately show ?thesis using that [of "inc ip1"] s by (simp add: ip1_def)
qed

lemma search_Some:
  assumes "search net taken ip = Some (ip', found)"
  shows "if found then net_Contains net ip' \<and> \<not> has_key (ip_String ip') taken else \<not> net_Contains net ip'"
proof -
  define P where "P net taken r \<longleftrightarrow>
      (if snd r then net_Contains net (fst r) \<and> \<not> has_key (ip_String (fst r)) taken else \<not> net_Contains net (fst r))"
    for net and taken :: "(string, string) gomap" and r :: "bytes \<times> bool"
  have "P net taken (ip', found)"
    using assms
  proof (rule search.raw_induct [rotated, where P = "\<lambda>net taken _. P net taken"])
    fix srch net taken ip r
    assume ih: "\<And>net taken ip r. srch net taken ip = Some r \<Longrightarrow> P net taken r"
      and e: "(if net_Contains net ip then if \<not> has_key (ip_String ip) taken then Some (ip, True)
               else srch net taken (inc ip) else Some (ip, False)) = Some r"
    consider "\<not> net_Contains net ip" | "net_Contains net ip" "\<not> has_key (ip_String ip) taken"
      | "net_Contains net ip" "has_key (ip_String ip) taken" by blast
    then show "P net taken r"
    proof cases
      case 1
      then have "r = (ip, False)" using e by (simp only: if_False option.inject)
      then show ?thesis using 1 by (simp add: P_def)
    next
      case 2
      then have "r = (ip, True)" using e by (simp only: if_True option.inject not_False_eq_True)
      then show ?thesis using 2 by (simp add: P_def)
    next
      case 3
      then have "srch net taken (inc ip) = Some r" using e by (simp only: if_True if_False not_True_eq_False)
      then show ?thesis by (rule ih)
    qed
  qed
  then show ?thesis unfolding P_def fst_conv snd_conv .
qed

lemma search_True:
  assumes "search (ip_net (V4 w) n) taken ip = Some (ip', True)"
  shows "\<exists>u. at4 ip' u \<and> in_net w n u \<and> \<not> taken4 taken u"
proof -
  have c: "net_Contains (ip_net (V4 w) n) ip'" "\<not> has_key (ip_String ip') taken"
    using search_Some [OF assms] by simp_all
  then obtain b where "ip_To4 ip' = Some b" using Contains_not4 by blast
  then have "at4 ip' (be_val b)" by (rule at4_ex)
  then show ?thesis using c by (auto simp: Contains_at4 String_at4 taken4_def)
qed

text \<open>The first free address from \<open>v\<close> on.\<close>

lemma least_free:
  fixes u v h :: nat
  assumes "v \<le> u" and "u < h" and "\<not> P u"
  shows "\<exists>x\<ge>v. x < h \<and> \<not> P x \<and> (\<forall>y. v \<le> y \<longrightarrow> y < x \<longrightarrow> P y)"
proof -
  define x where "x = (LEAST x. v \<le> x \<and> \<not> P x)"
  have 1: "v \<le> x \<and> \<not> P x" unfolding x_def by (rule LeastI [of _ u]) (simp add: assms)
  have 2: "x \<le> u" unfolding x_def by (rule Least_le) (simp add: assms)
  have 3: "P y" if "v \<le> y" "y < x" for y using not_less_Least [OF that(2) [unfolded x_def]] that(1) by simp
  show ?thesis using 1 2 3 assms(2) by (intro exI [of _ x]) auto
qed

lemma search_free:
  assumes "at4 ip v" and "in_net w n v" and "v \<le> u" and "u < net_hi w n" and "\<not> taken4 taken u"
  shows "\<exists>ip'. search (ip_net (V4 w) n) taken ip = Some (ip', True)"
proof -
  obtain x where x: "v \<le> x" "x < net_hi w n" "\<not> taken4 taken x" "\<forall>y. v \<le> y \<longrightarrow> y < x \<longrightarrow> taken4 taken y"
    using least_free [of v u "net_hi w n" "taken4 taken", OF assms(3-5)] by (elim exE conjE)
  show ?thesis by (rule exI, rule search_found(1) [OF assms(1,2) x])
qed

lemma search_not_contained: "\<not> net_Contains net ip \<Longrightarrow> search net taken ip = Some (ip, False)"
  by (subst search.simps) simp

text \<open>The search ends unless it goes round all addresses and finds them taken.\<close>

lemma search_ends:
  assumes "1 \<le> n \<or> (\<exists>u. in_net w n u \<and> \<not> taken4 taken u) \<or> length ip = 16"
  shows "search (ip_net (V4 w) n) taken ip \<noteq> None"
proof (cases "net_Contains (ip_net (V4 w) n) ip")
  case False
  then show ?thesis by (simp add: search_not_contained)
next
  case True
  let ?N = "ip_net (V4 w) n"
  obtain b where "ip_To4 ip = Some b" using True Contains_not4 by blast
  then have a: "at4 ip (be_val b)" by (rule at4_ex)
  define v where "v = be_val b"
  have v: "at4 ip v" "in_net w n v" using a True by (auto simp: v_def Contains_at4)
  show ?thesis
  proof (cases "\<exists>u. v \<le> u \<and> u < net_hi w n \<and> \<not> taken4 taken u")
    case True
    then show ?thesis using search_free [OF v] by blast
  next
    case no: False
    then obtain ip' where s: "search ?N taken ip = search ?N taken ip'"
      and h: "net_hi w n < 2 ^ 32 \<Longrightarrow> at4 ip' (net_hi w n)"
      and z: "net_hi w n = 2 ^ 32 \<Longrightarrow> length ip = 4 \<Longrightarrow> at4 ip' 0"
      and o6: "net_hi w n = 2 ^ 32 \<Longrightarrow> length ip = 16 \<Longrightarrow> ip_To4 ip' = None"
      using search_end [OF v, of taken] by blast
    consider "net_hi w n < 2 ^ 32" | "net_hi w n = 2 ^ 32" "length ip = 4" | "net_hi w n = 2 ^ 32" "length ip = 16"
      using net_hi_le [of w n] at4_length [OF v(1)] by linarith
    then show ?thesis
    proof cases
      case 1
      then have "\<not> net_Contains ?N ip'" using Contains_at4 [OF h] by (simp add: in_net_def)
      then show ?thesis using s search_not_contained by simp
    next
      case 3
      then show ?thesis using s search_not_contained [OF Contains_not4 [OF o6]] by simp
    next
      case 2
      show ?thesis
      proof (cases "net_lo w n = 0")
        case True
        then obtain u where u: "in_net w n u" "\<not> taken4 taken u"
          using assms 2 net_lo_pos [of n w] by auto
        have "in_net w n 0" using True by (simp add: in_net_def net_hi_def)
        then show ?thesis using s search_free [OF z [OF 2], of w n u taken] u by (auto simp: in_net_def)
      next
        case False
        then have "\<not> net_Contains ?N ip'" using Contains_at4 [OF z [OF 2]] by (simp add: in_net_def)
        then show ?thesis using s search_not_contained by simp
      qed
    qed
  qed
qed

text \<open>On the network of all addresses, the search in a slice of four bytes does not end when all are taken.\<close>

lemma search_loops:
  assumes "length ip = 4" and "\<forall>v<2 ^ 32. taken4 taken v"
  shows "search (ip_net (V4 w) 0) taken ip = None"
proof -
  define P where "P net m ip \<longleftrightarrow> net = ip_net (V4 w) 0 \<longrightarrow> m = taken \<longrightarrow> length ip \<noteq> 4"
    for net and m :: "(string, string) gomap" and ip :: bytes
  have "P (ip_net (V4 w) 0) taken ip" if "search (ip_net (V4 w) 0) taken ip = Some r" for r
    using that
  proof (rule search.raw_induct [rotated, where P = "\<lambda>net m ip _. P net m ip"])
    fix srch net m ip r
    assume ih: "\<And>net m ip r. srch net m ip = Some r \<Longrightarrow> P net m ip"
      and e: "(if net_Contains net ip then if \<not> has_key (ip_String ip) m then Some (ip, True)
               else srch net m (inc ip) else Some (ip, False)) = Some r"
    show "P net m ip"
      unfolding P_def
    proof (intro impI notI)
      assume n: "net = ip_net (V4 w) 0" and m: "m = taken" and l: "length ip = 4"
      have a: "at4 ip (be_val ip)" using l by (simp add: at4_4)
      then have "be_val ip < 2 ^ 32" by (simp add: at4_def)
      moreover have "unat w < 2 ^ 32" using unsigned_less [of w] by simp
      ultimately have "net_Contains net ip" using Contains_at4 [OF a] n by (simp add: in_net_div)
      moreover have "has_key (ip_String ip) m"
        using assms(2) \<open>be_val ip < 2 ^ 32\<close> String_at4 [OF a] m by (simp add: taken4_def)
      ultimately have "srch net m (inc ip) = Some r" using e by (simp only: if_True if_False not_True_eq_False)
      then show False using ih [of net m "inc ip"] n m l by (simp add: P_def)
    qed
  qed
  then show ?thesis using assms(1) by (cases "search (ip_net (V4 w) 0) taken ip") (simp_all add: P_def)
qed

section \<open>The state of the allocator\<close>

lemma and_prefix_mask: "unat (w AND prefix_mask n) = net_lo w n" for w :: "32 word"
proof -
  have "w AND prefix_mask n = push_bit (32 - n) (drop_bit (32 - n) w)"
    by (rule bit_word_eqI) (auto simp: prefix_mask_def bit_simps)
  moreover have "unat (push_bit k x) = unat x * 2 ^ k mod 2 ^ 32" for k and x :: "32 word"
    unfolding unsigned_push_bit_eq by (simp add: push_bit_eq_mult take_bit_eq_mod)
  ultimately have "unat (w AND prefix_mask n) = (unat w div 2 ^ (32 - n) * 2 ^ (32 - n)) mod 2 ^ 32"
    by (simp only: unat_drop_bit)
  moreover have "unat w div 2 ^ (32 - n) * 2 ^ (32 - n) \<le> unat w" by (rule div_times_less_eq_dividend)
  moreover have "unat w < 2 ^ 32" using unsigned_less [of w] by simp
  ultimately show ?thesis unfolding net_lo_def by (simp only: mod_less le_less_trans)
qed

lemma net_IP_V4: "net_IP (ip_net (V4 w) n) = ip4 (net_lo w n)"
  unfolding ip_net.simps ip4_def and_prefix_mask [symmetric] by simp

lemma ip_Mask_V4: "ip_Mask (net_IP (ip_net (V4 w) n)) (net_Mask (ip_net (V4 w) n)) = ip4 (net_lo w n)"
proof -
  have "ip_Mask (net_IP (ip_net (V4 w) n)) (net_Mask (ip_net (V4 w) n)) = be_bytes 4 (w AND prefix_mask n)"
    by (simp add: ip_Mask_def ip_net.simps Let_def map2_and_be_bytes)
  then show ?thesis using net_IP_V4 [of w n] by (simp add: ip_net.simps)
qed

lemma net_lo_less: "net_lo w n < 2 ^ 32"
proof -
  have "net_lo w n < net_hi w n" by (simp add: net_hi_def)
  then show ?thesis using net_hi_le [of w n] by simp
qed

lemma in_net_lo: "in_net w n (net_lo w n)"
  by (simp add: in_net_def net_hi_def)

lemma at4_ip4: "v < 2 ^ 32 \<Longrightarrow> at4 (ip4 v) v"
  by (simp add: at4_def)

definition fabric_ok :: "32 word \<Rightarrow> nat \<Rightarrow> fabric \<Rightarrow> bool" where
  "fabric_ok w n st \<longleftrightarrow>
     network (ipam st) = ip_net (V4 w) n \<and> lastAllocatedIP (ipam st) < length (heap st) \<and>
     inverse_maps (allocated (ipam st)) (allocatedReverse (ipam st))"

text \<open>An address of the network that nothing holds.\<close>

definition free4 :: "32 word \<Rightarrow> nat \<Rightarrow> fabric \<Rightarrow> nat \<Rightarrow> bool" where
  "free4 w n st v \<longleftrightarrow> in_net w n v \<and> \<not> taken4 (allocatedReverse (ipam st)) v"

lemma record_ip_at4:
  assumes "at4 (heap st ! l) u"
  shows "record_ip name l st = st\<lparr>ipam := (ipam st)\<lparr>lastAllocatedIP := l,
           allocated := put name (text4 (ip4 u)) (allocated (ipam st)),
           allocatedReverse := put (text4 (ip4 u)) name (allocatedReverse (ipam st))\<rparr>\<rparr>"
  by (simp add: record_ip_def Let_def String_at4 [OF assms])

lemma fabric_Allocate_known:
  "map_of (allocated (ipam st)) name = Some v \<Longrightarrow>
     Allocate name st = Some (Inr (length (heap st)), st\<lparr>heap := heap st @ [ip_Parse v]\<rparr>)"
  by (simp add: Allocate_def Let_def)

text \<open>What is recorded for a name that gets the address \<open>u\<close> in the slice \<open>l\<close>.\<close>

definition recorded :: "string \<Rightarrow> nat \<Rightarrow> slice \<Rightarrow> fabric \<Rightarrow> fabric \<Rightarrow> bool" where
  "recorded name u l st st' \<longleftrightarrow>
     l < length (heap st') \<and> at4 (heap st' ! l) u \<and>
     ipam st' = (ipam st)\<lparr>lastAllocatedIP := l, allocated := put name (text4 (ip4 u)) (allocated (ipam st)),
                          allocatedReverse := put (text4 (ip4 u)) name (allocatedReverse (ipam st))\<rparr>"

lemma found_cases: "x = None \<or> (\<exists>a. x = Some (a, True)) \<or> (\<exists>a. x = Some (a, False))"
proof (cases x)
  case (Some p)
  then show ?thesis by (cases p; cases "snd p") auto
qed simp

lemma Allocate_first:
  assumes ok: "fabric_ok w n st" and name: "map_of (allocated (ipam st)) name = None"
    and s: "search (ip_net (V4 w) n) (allocatedReverse (ipam st)) (heap st ! lastAllocatedIP (ipam st)) = Some (ip, True)"
  shows "\<exists>u st'. Allocate name st = Some (Inr (lastAllocatedIP (ipam st)), st') \<and> free4 w n st u \<and>
           recorded name u (lastAllocatedIP (ipam st)) st st' \<and> length (heap st') = length (heap st)"
proof -
  let ?l = "lastAllocatedIP (ipam st)" and ?h = "(heap st)[lastAllocatedIP (ipam st) := ip]"
  obtain u where u: "at4 ip u" "in_net w n u" "\<not> taken4 (allocatedReverse (ipam st)) u" using search_True [OF s] by blast
  have l: "?l < length (heap st)" using ok by (simp add: fabric_ok_def)
  have a: "at4 (heap (st\<lparr>heap := ?h\<rparr>) ! ?l) u" using u(1) l by simp
  have "Allocate name st = Some (Inr ?l, record_ip name ?l (st\<lparr>heap := ?h\<rparr>))"
    using ok name s by (simp add: Allocate_def Let_def fabric_ok_def)
  moreover have "recorded name u ?l st (record_ip name ?l (st\<lparr>heap := ?h\<rparr>))"
    unfolding record_ip_at4 [OF a] recorded_def using l u(1) by simp
  moreover have "length (heap (record_ip name ?l (st\<lparr>heap := ?h\<rparr>))) = length (heap st)"
    by (simp add: record_ip_def Let_def)
  ultimately show ?thesis using u(2,3) by (auto simp: free4_def)
qed

lemma Allocate_second:
  assumes ok: "fabric_ok w n st" and name: "map_of (allocated (ipam st)) name = None"
    and s: "search (ip_net (V4 w) n) (allocatedReverse (ipam st)) (heap st ! lastAllocatedIP (ipam st)) = Some (ip, False)"
  shows "case search (ip_net (V4 w) n) (allocatedReverse (ipam st)) (ip4 (net_lo w n)) of
           None \<Rightarrow> Allocate name st = None
         | Some (ip', True) \<Rightarrow> \<exists>u st'. Allocate name st = Some (Inr (length (heap st)), st') \<and> free4 w n st u \<and>
              recorded name u (length (heap st)) st st' \<and> length (heap st') = Suc (length (heap st))
         | Some (ip', False) \<Rightarrow>
              \<exists>h. Allocate name st = Some (Inl NoMoreIP, st\<lparr>heap := h\<rparr>) \<and> length h = Suc (length (heap st))"
proof -
  let ?l = "lastAllocatedIP (ipam st)" and ?h = "(heap st)[lastAllocatedIP (ipam st) := ip]"
  let ?s = "search (ip_net (V4 w) n) (allocatedReverse (ipam st)) (ip4 (net_lo w n))"
  have e: "Allocate name st = (case ?s of None \<Rightarrow> None
      | Some (ip', True) \<Rightarrow> Some (Inr (length ?h), record_ip name (length ?h) (st\<lparr>heap := ?h @ [ip']\<rparr>))
      | Some (ip', False) \<Rightarrow> Some (Inl NoMoreIP, st\<lparr>heap := ?h @ [ip']\<rparr>))"
    using ok name s ip_Mask_V4 [of w n] by (simp add: Allocate_def Let_def fabric_ok_def)
  consider "?s = None" | ip' where "?s = Some (ip', True)" | ip' where "?s = Some (ip', False)"
    using found_cases [of ?s] by metis
  then show ?thesis
  proof cases
    case (2 ip')
    obtain u where u: "at4 ip' u" "in_net w n u" "\<not> taken4 (allocatedReverse (ipam st)) u" using search_True [OF 2] by blast
    have a: "at4 (heap (st\<lparr>heap := ?h @ [ip']\<rparr>) ! length ?h) u" using u(1) by (simp del: length_list_update)
    have "recorded name u (length ?h) st (record_ip name (length ?h) (st\<lparr>heap := ?h @ [ip']\<rparr>))"
      unfolding record_ip_at4 [OF a] recorded_def using u(1) by (simp del: length_list_update)
    then show ?thesis using 2 e u(2,3) by (auto simp: free4_def record_ip_def Let_def)
  qed (use e in auto)
qed

lemma search_not_found:
  assumes "\<forall>v. \<not> free4 w n st v"
  shows "search (ip_net (V4 w) n) (allocatedReverse (ipam st)) ip \<noteq> Some (ip', True)"
proof
  assume "search (ip_net (V4 w) n) (allocatedReverse (ipam st)) ip = Some (ip', True)"
  then show False using search_True assms unfolding free4_def by metis
qed

lemma search_lo_free: "free4 w n st v \<Longrightarrow> \<exists>ip. search (ip_net (V4 w) n) (allocatedReverse (ipam st)) (ip4 (net_lo w n)) = Some (ip, True)"
  using search_free [OF at4_ip4 [OF net_lo_less] in_net_lo] by (auto simp: free4_def in_net_def)

text \<open>The first loop finds the next free address.\<close>

lemma Allocate_next:
  assumes ok: "fabric_ok w n st" and name: "map_of (allocated (ipam st)) name = None"
    and v: "at4 (heap st ! lastAllocatedIP (ipam st)) v" "in_net w n v" and u: "v \<le> u" "free4 w n st u"
    and "\<forall>x. v \<le> x \<longrightarrow> x < u \<longrightarrow> taken4 (allocatedReverse (ipam st)) x"
  shows "\<exists>st'. Allocate name st = Some (Inr (lastAllocatedIP (ipam st)), st') \<and>
           recorded name u (lastAllocatedIP (ipam st)) st st' \<and> length (heap st') = length (heap st)"
proof -
  let ?l = "lastAllocatedIP (ipam st)"
  define ip where "ip = (inc ^^ (u - v)) (heap st ! ?l)"
  have f: "u < net_hi w n" "\<not> taken4 (allocatedReverse (ipam st)) u" using u(2) by (simp_all add: free4_def in_net_def)
  have s: "search (ip_net (V4 w) n) (allocatedReverse (ipam st)) (heap st ! ?l) = Some (ip, True)" and a: "at4 ip u"
    using search_found [OF v u(1) f assms(7)] unfolding ip_def by blast+
  have l: "?l < length (heap st)" using ok by (simp add: fabric_ok_def)
  have a': "at4 (heap (st\<lparr>heap := (heap st)[?l := ip]\<rparr>) ! ?l) u" using a l by simp
  have "Allocate name st = Some (Inr ?l, record_ip name ?l (st\<lparr>heap := (heap st)[?l := ip]\<rparr>))"
    using ok name s by (simp add: Allocate_def Let_def fabric_ok_def)
  then show ?thesis unfolding record_ip_at4 [OF a'] recorded_def using l a by simp
qed

text \<open>A new name gets a free address if there is one.\<close>

lemma Allocate_free:
  assumes ok: "fabric_ok w n st" and name: "map_of (allocated (ipam st)) name = None" and v: "free4 w n st v"
  shows "\<exists>l u st'. Allocate name st = Some (Inr l, st') \<and> free4 w n st u \<and> recorded name u l st st' \<and>
           (if length (heap st') = length (heap st) then l = lastAllocatedIP (ipam st) else l = length (heap st))"
proof -
  let ?s = "search (ip_net (V4 w) n) (allocatedReverse (ipam st)) (heap st ! lastAllocatedIP (ipam st))"
  have "?s \<noteq> None" using v by (intro search_ends) (auto simp: free4_def)
  then consider ip where "?s = Some (ip, True)" | ip where "?s = Some (ip, False)" using found_cases [of ?s] by metis
  then show ?thesis
  proof cases
    case 1
    then show ?thesis using Allocate_first [OF ok name] by metis
  next
    case 2
    obtain ip' where "search (ip_net (V4 w) n) (allocatedReverse (ipam st)) (ip4 (net_lo w n)) = Some (ip', True)"
      using search_lo_free [OF v] by blast
    then show ?thesis using Allocate_second [OF ok name 2] by fastforce
  qed
qed

lemma Allocate_none_free:
  assumes ok: "fabric_ok w n st" and name: "map_of (allocated (ipam st)) name = None" and v: "\<forall>v. \<not> free4 w n st v"
    and n: "1 \<le> n"
  shows "\<exists>h. Allocate name st = Some (Inl NoMoreIP, st\<lparr>heap := h\<rparr>) \<and> length h = Suc (length (heap st))"
proof -
  let ?S = "search (ip_net (V4 w) n) (allocatedReverse (ipam st))"
  have "?S ip \<noteq> None" for ip using n by (intro search_ends) simp
  moreover have "?S ip \<noteq> Some (ip', True)" for ip ip' using search_not_found [OF v] .
  ultimately have "\<exists>ip'. ?S ip = Some (ip', False)" for ip using found_cases [of "?S ip"] by metis
  then obtain ip ip' where "?S (heap st ! lastAllocatedIP (ipam st)) = Some (ip, False)"
    and "?S (ip4 (net_lo w n)) = Some (ip', False)" by blast
  then show ?thesis using Allocate_second [OF ok name] by fastforce
qed

text \<open>On the network of all addresses an allocation does not return when they are all taken.\<close>

lemma Allocate_loops:
  assumes ok: "fabric_ok w 0 st" and name: "map_of (allocated (ipam st)) name = None" and v: "\<forall>v. \<not> free4 w 0 st v"
  shows "Allocate name st = None"
proof -
  let ?S = "search (ip_net (V4 w) 0) (allocatedReverse (ipam st))"
  have "\<forall>u<2 ^ 32. taken4 (allocatedReverse (ipam st)) u" using v by (auto simp: free4_def in_net_0)
  then have lo: "?S (ip4 (net_lo w 0)) = None" by (intro search_loops) simp_all
  have "?S ip \<noteq> Some (ip', True)" for ip ip' using search_not_found [OF v] .
  then consider "?S (heap st ! lastAllocatedIP (ipam st)) = None"
    | ip where "?S (heap st ! lastAllocatedIP (ipam st)) = Some (ip, False)" using found_cases by metis
  then show ?thesis
  proof cases
    case 1
    then show ?thesis using ok name by (simp add: Allocate_def Let_def fabric_ok_def)
  next
    case 2
    then show ?thesis using Allocate_second [OF ok name 2] lo by simp
  qed
qed

section \<open>A new allocator\<close>

text \<open>The first and the last address of the network are taken.\<close>

definition ends_taken :: "32 word \<Rightarrow> nat \<Rightarrow> IPAM \<Rightarrow> bool" where
  "ends_taken w n i \<longleftrightarrow> taken4 (allocatedReverse i) (net_lo w n) \<and> taken4 (allocatedReverse i) (net_hi w n - 1)"

lemma last_address:
  assumes "n \<le> 32"
  shows "add (ip_Parse (text4 (ip4 (net_lo w n)))) (push_bit (32 - n) 1 - 1) = ip4 (net_hi w n - 1)"
proof (rule be_val_inject)
  let ?b = "ip4 (net_lo w n)" and ?k = "push_bit (32 - n) 1 - 1 :: 64 word"
  have "?b \<noteq> []" using length_ip4 [of "net_lo w n"] by fastforce
  then have e: "add (ip_Parse (text4 ?b)) ?k = rev (add_rev (rev ?b) ?k)"
    by (simp add: add_def ip_Parse_text4)
  have "(2::nat) ^ (32 - n) < 2 ^ 64" by (rule power_strict_increasing) simp_all
  then have p: "unat (push_bit (32 - n) 1 :: 64 word) = 2 ^ (32 - n)"
    unfolding unsigned_push_bit_eq by (simp add: push_bit_eq_mult take_bit_eq_mod)
  have "1 \<le> (push_bit (32 - n) 1 :: 64 word)" unfolding word_le_nat_alt p by simp
  then have k: "unat ?k = 2 ^ (32 - n) - 1" using unat_sub p by fastforce
  have "(2::nat) ^ (32 - n) \<le> 2 ^ 32" by (rule power_increasing) simp_all
  then have "unat ?k < 2 ^ 63" unfolding k by simp
  then have "be_val (rev (add_rev (rev ?b) ?k)) = (net_lo w n + (2 ^ (32 - n) - 1)) mod 2 ^ 32"
    using be_val_add_rev [of ?k "rev ?b"] be_val_ip4 [OF net_lo_less] k by simp
  also have "\<dots> = net_hi w n - 1"
    using net_hi_le [of w n] by (simp add: net_hi_def)
  finally show "be_val (add (ip_Parse (text4 ?b)) ?k) = be_val (ip4 (net_hi w n - 1))"
    using net_hi_le [of w n] unfolding e by (subst be_val_ip4) (simp_all add: net_hi_def)
  show "length (add (ip_Parse (text4 ?b)) ?k) = length (ip4 (net_hi w n - 1))" unfolding e by simp
qed

definition fabric_inv :: "32 word \<Rightarrow> nat \<Rightarrow> fabric \<Rightarrow> bool" where
  "fabric_inv w n st \<longleftrightarrow> fabric_ok w n st \<and> ends_taken w n (ipam st)"

lemma ends_taken_put: "ends_taken w n i \<Longrightarrow> ends_taken w n (i\<lparr>allocated := a, allocatedReverse := put k v (allocatedReverse i)\<rparr>)"
  by (simp add: ends_taken_def taken4_def has_key_put)

text \<open>The allocator of the network \<open>a/n\<close> before any address is configured.\<close>

definition new_fabric :: "32 word \<Rightarrow> nat \<Rightarrow> fabric" where
  "new_fabric a n =
     (let m = put (text4 (ip4 (net_hi a n - 1))) (text4 (ip4 (net_hi a n - 1)))
                (put (text4 (ip4 (net_lo a n))) (text4 (ip4 (net_lo a n))) [])
      in \<lparr>ipam = \<lparr>network = ip_net (V4 a) n, allocated = m, allocatedReverse = m, lastAllocatedIP = 0\<rparr>,
          heap = [be_bytes 16 (As16 (V4 a))]\<rparr>)"

lemma newIPAM_V4:
  assumes "ParseCIDR cidr = Some (As16 (V4 a), ip_net (V4 a) n)" and "n \<le> 32"
  shows "newIPAM cidr = Inr (new_fabric a n)"
proof -
  have s: "ip_String (net_IP (ip_net (V4 a) n)) = text4 (ip4 (net_lo a n))"
    unfolding net_IP_V4 by (rule String_at4 [OF at4_ip4 [OF net_lo_less]])
  have m: "mask_Size (net_Mask (ip_net (V4 a) n)) = (n, 32)"
    using mask_Size_prefix [OF assms(2)] by (simp add: ip_net.simps)
  have "net_hi a n - 1 < 2 ^ 32" using net_hi_le [of a n] by (simp add: net_hi_def)
  then have l: "ip_String (ip4 (net_hi a n - 1)) = text4 (ip4 (net_hi a n - 1))" by (rule String_at4 [OF at4_ip4])
  show ?thesis
    unfolding newIPAM_def assms(1) option.case prod.case s m Let_def last_address [OF assms(2)] l new_fabric_def ..
qed

lemma new_fabric_inv: "fabric_inv a n (new_fabric a n)"
proof -
  define m where "m = put (text4 (ip4 (net_hi a n - 1))) (text4 (ip4 (net_hi a n - 1)))
                (put (text4 (ip4 (net_lo a n))) (text4 (ip4 (net_lo a n))) [])"
  have "inverse_maps m m" by (auto simp: m_def inverse_maps_def map_of_put)
  moreover have "has_key (text4 (ip4 (net_lo a n))) m" "has_key (text4 (ip4 (net_hi a n - 1))) m"
    by (auto simp: m_def has_key_put simp del: update.simps)
  ultimately show ?thesis
    unfolding new_fabric_def Let_def m_def [symmetric]
    by (simp add: fabric_inv_def fabric_ok_def ends_taken_def taken4_def)
qed

text \<open>Configuring an address keeps the invariant.\<close>

lemma configure_inv:
  assumes "fabric_inv w n (st\<lparr>ipam := i\<rparr>)" and "configure name ip i = (e, i')"
  shows "fabric_inv w n (st\<lparr>ipam := i'\<rparr>)"
  using assms inverse_maps_put [of "allocated i" "allocatedReverse i" name ip] ends_taken_put [of w n i]
  by (auto simp: configure_def fabric_inv_def fabric_ok_def split: if_splits)

lemma init_items_inv:
  assumes "fabric_inv w n (st\<lparr>ipam := i\<rparr>)" and "init_items xs i = (e, i')"
  shows "fabric_inv w n (st\<lparr>ipam := i'\<rparr>)"
  using assms
proof (induction xs arbitrary: i)
  case (Cons x xs)
  obtain name ip where x: "x = (name, ip)" by (cases x)
  show ?case
  proof (cases "isIPConfigured ip i")
    case True
    then show ?thesis using Cons x by simp
  next
    case False
    obtain e1 i1 where c: "configure name ip i = (e1, i1)" by (cases "configure name ip i")
    have "fabric_inv w n (st\<lparr>ipam := i1\<rparr>)" by (rule configure_inv [OF Cons.prems(1) c])
    then show ?thesis using Cons.IH Cons.prems(2) False c x by (cases e1) simp_all
  qed
qed simp

lemma Init_inv:
  assumes "fabric_inv w n (st\<lparr>ipam := i\<rparr>)" and "fabricipam_Init nodes fabrics i = (e, i')"
  shows "fabric_inv w n (st\<lparr>ipam := i'\<rparr>)"
proof (cases nodes)
  case None
  then show ?thesis using assms by (simp add: fabricipam_Init_def)
next
  case (Some ns)
  obtain e1 i1 where c: "init_items ns i = (e1, i1)" by (cases "init_items ns i")
  have i1: "fabric_inv w n (st\<lparr>ipam := i1\<rparr>)" by (rule init_items_inv [OF assms(1) c])
  show ?thesis
  proof (cases "e1 = None \<and> fabrics \<noteq> None")
    case True
    then obtain fs where "init_items fs i1 = (e, i')" using assms(2) Some c by (auto simp: fabricipam_Init_def)
    then show ?thesis by (rule init_items_inv [OF i1])
  next
    case False
    then have "i' = i1" using assms(2) Some c by (auto simp: fabricipam_Init_def split: option.splits)
    then show ?thesis using i1 by simp
  qed
qed

lemma recorded_inv:
  assumes "fabric_inv w n st" and "free4 w n st u" and "recorded name u l st st'" and "map_of (allocated (ipam st)) name = None"
  shows "fabric_inv w n st'"
proof -
  have "inverse_maps (put name (text4 (ip4 u)) (allocated (ipam st))) (put (text4 (ip4 u)) name (allocatedReverse (ipam st)))"
    using assms(1,2,4) by (intro inverse_maps_put) (simp_all add: fabric_inv_def fabric_ok_def free4_def taken4_def has_key_iff)
  then show ?thesis
    using assms(1,3) by (auto simp: fabric_inv_def fabric_ok_def recorded_def ends_taken_def taken4_def has_key_put)
qed

lemma Allocate_inv:
  assumes "fabric_inv w n st" and "Allocate name st = Some (r, st')"
  shows "fabric_inv w n st'"
proof -
  have ok: "fabric_ok w n st" using assms(1) by (simp add: fabric_inv_def)
  have heap: "fabric_inv w n (st\<lparr>heap := h\<rparr>)" if "length (heap st) \<le> length h" for h
    using assms(1) that by (auto simp: fabric_inv_def fabric_ok_def)
  consider v where "map_of (allocated (ipam st)) name = Some v"
    | v where "map_of (allocated (ipam st)) name = None" "free4 w n st v"
    | "map_of (allocated (ipam st)) name = None" "\<forall>v. \<not> free4 w n st v"
    by (cases "map_of (allocated (ipam st)) name") auto
  then show ?thesis
  proof cases
    case 1
    then show ?thesis using assms(2) heap by (auto simp: fabric_Allocate_known)
  next
    case 2
    then show ?thesis using Allocate_free [OF ok 2] recorded_inv [OF assms(1)] assms(2) by auto
  next
    case 3
    show ?thesis
    proof (cases "n = 0")
      case True
      then show ?thesis using Allocate_loops [of w st name] ok 3 assms(2) by simp
    next
      case False
      then obtain h where "Allocate name st = Some (Inl NoMoreIP, st\<lparr>heap := h\<rparr>)" "length h = Suc (length (heap st))"
        using Allocate_none_free [OF ok 3] by auto
      then show ?thesis using assms(2) heap [of h] by simp
    qed
  qed
qed

end
