(* ===== verification/FabricProps.thy ===== *)
theory FabricProps
  imports FabricSpec
begin

text \<open>
  Properties of the allocator of the fabric: what an allocation returns and when it returns, that the
  addresses of different names differ, and that the slice it returns is overwritten later.
\<close>

section \<open>Runs of the allocator\<close>

inductive fabric_run :: "string \<Rightarrow> fabric \<Rightarrow> bool" for cidr where
  get: "fabricipam_Get (Some cidr) nodes fabrics None = (Inr st, r) \<Longrightarrow> fabric_run cidr st"
| allocate: "fabric_run cidr st \<Longrightarrow> Allocate name st = Some (r, st') \<Longrightarrow> fabric_run cidr st'"

lemma fabric_run_inv:
  assumes "fabric_run cidr st" and "ParseCIDR cidr = Some (As16 (V4 a), ip_net (V4 a) n)" and "n \<le> 32"
  shows "fabric_inv a n st"
  using assms(1)
proof induction
  case (get nodes fabrics st r)
  obtain st0 where n: "newIPAM cidr = Inr st0" "fabric_inv a n st0"
    using newIPAM_V4 [OF assms(2,3)] new_fabric_inv by blast
  then have e: "fst (fabricipam_Get (Some cidr) nodes fabrics None) = Inr st" using get by simp
  obtain e1 i1 where c: "fabricipam_Init nodes fabrics (ipam st0) = (e1, i1)" by (cases "fabricipam_Init nodes fabrics (ipam st0)")
  have "st = st0\<lparr>ipam := i1\<rparr>" using e n(1) c by (cases e1) (simp_all add: fabricipam_Get_def)
  then show ?case using Init_inv [OF _ c, of a n st0] n(2) by simp
next
  case (allocate st name r st')
  then show ?case using Allocate_inv by blast
qed

lemma free4_inside:
  assumes "fabric_inv a n st" and "free4 a n st u"
  shows "net_lo a n < u \<and> u < net_hi a n - 1"
proof -
  have "u \<noteq> net_lo a n" "u \<noteq> net_hi a n - 1" using assms by (auto simp: fabric_inv_def ends_taken_def free4_def)
  then show ?thesis using assms(2) by (auto simp: free4_def in_net_def)
qed

text \<open>C12: \<open>Allocate\<close> on an IPv4 network that is not \<open>/0\<close>, in any state that follows from
  \<open>fabricipam.Get\<close> on any resources and from allocations before. It returns. A name that has an
  address gets it again and nothing changes. A new name gets an address strictly between the first
  and the last one of the network that nothing held, and it is recorded for that name alone. There is
  an error, with the tables unchanged, exactly when all these addresses are held.\<close>

theorem fabric_allocate_exact:
  assumes "ParseCIDR cidr = Some (As16 (V4 a), ip_net (V4 a) n)" and "1 \<le> n" and "n \<le> 32" and "fabric_run cidr st"
  shows "case Allocate name st of
      None \<Rightarrow> False
    | Some (Inl e, st') \<Rightarrow> map_of (allocated (ipam st)) name = None \<and> ipam st' = ipam st \<and>
        (\<forall>u. net_lo a n < u \<longrightarrow> u < net_hi a n - 1 \<longrightarrow> has_key (text4 (ip4 u)) (allocatedReverse (ipam st)))
    | Some (Inr l, st') \<Rightarrow>
        (case map_of (allocated (ipam st)) name of
           Some v \<Rightarrow> heap st' ! l = ip_Parse v \<and> ipam st' = ipam st
         | None \<Rightarrow> \<exists>u. net_lo a n < u \<and> u < net_hi a n - 1 \<and>
             \<not> has_key (text4 (ip4 u)) (allocatedReverse (ipam st)) \<and> ip_String (heap st' ! l) = text4 (ip4 u) \<and>
             map_of (allocated (ipam st')) = (map_of (allocated (ipam st)))(name \<mapsto> text4 (ip4 u)) \<and>
             map_of (allocatedReverse (ipam st')) = (map_of (allocatedReverse (ipam st)))(text4 (ip4 u) \<mapsto> name))"
proof -
  have inv: "fabric_inv a n st" using fabric_run_inv assms(1,3,4) by blast
  then have ok: "fabric_ok a n st" by (simp add: fabric_inv_def)
  consider v where "map_of (allocated (ipam st)) name = Some v"
    | v where "map_of (allocated (ipam st)) name = None" "free4 a n st v"
    | "map_of (allocated (ipam st)) name = None" "\<forall>v. \<not> free4 a n st v"
    by (cases "map_of (allocated (ipam st)) name") auto
  then show ?thesis
  proof cases
    case 1
    then show ?thesis by (simp add: fabric_Allocate_known)
  next
    case 2
    then obtain l u st' where r: "Allocate name st = Some (Inr l, st')" "free4 a n st u" "recorded name u l st st'"
      using Allocate_free [OF ok 2] by blast
    have "at4 (heap st' ! l) u" using r(3) by (simp add: recorded_def)
    then show ?thesis
      using 2(1) r free4_inside [OF inv r(2)]
      by (auto simp: recorded_def free4_def taken4_def String_at4 update_conv' intro!: exI [of _ u])
  next
    case 3
    obtain h where "Allocate name st = Some (Inl NoMoreIP, st\<lparr>heap := h\<rparr>)" using Allocate_none_free [OF ok 3 assms(2)] by blast
    then show ?thesis using 3 by (auto simp: free4_def in_net_def taken4_def)
  qed
qed

lemma example_cidr: "ParseCIDR ''10.80.0.0/30'' = Some (As16 (V4 0x0A500000), ip_net (V4 0x0A500000) 30)"
  by (simp add: ParseCIDR_def dtoi_def parse_eval del: As16.simps ip_net.simps)

lemma example_text: "text4 (ip4 0x0A500000) = ''10.80.0.0''" "text4 (ip4 0x0A500001) = ''10.80.0.1''"
  "text4 (ip4 0x0A500003) = ''10.80.0.3''"
  by (simp_all add: text4_def ip4_def be_bytes_4_list dec.simps digit_char_def char_of_def bit_0)

lemma example_run: "fabric_run ''10.80.0.0/30'' (new_fabric 0x0A500000 30)"
proof (rule fabric_run.get)
  show "fabricipam_Get (Some ''10.80.0.0/30'') (Some []) (Some []) None =
      (Inr (new_fabric 0x0A500000 30), Some (new_fabric 0x0A500000 30))"
    using newIPAM_V4 [OF example_cidr] by (simp add: fabricipam_Get_def fabricipam_Init_def)
qed

lemma example_net: "net_lo 0x0A500000 30 = 0x0A500000" "net_hi 0x0A500000 30 = 0x0A500004"
  by (simp_all add: net_hi_def net_lo_def)

lemma example_tables:
  "allocated (ipam (new_fabric 0x0A500000 30)) = [(''10.80.0.0'', ''10.80.0.0''), (''10.80.0.3'', ''10.80.0.3'')]"
  "allocatedReverse (ipam (new_fabric 0x0A500000 30)) = [(''10.80.0.0'', ''10.80.0.0''), (''10.80.0.3'', ''10.80.0.3'')]"
  by (simp_all add: new_fabric_def Let_def example_net example_text)

theorem fabric_allocate_exact_witness:
  "\<exists>l st'. Allocate ''node'' (new_fabric 0x0A500000 30) = Some (Inr l, st') \<and>
     map_of (allocated (ipam st')) ''node'' = Some (ip_String (heap st' ! l)) \<and>
     (ip_String (heap st' ! l) = text4 (ip4 0x0A500001) \<or> ip_String (heap st' ! l) = text4 (ip4 0x0A500002))"
proof -
  let ?st = "new_fabric 0x0A500000 30"
  note t = fabric_allocate_exact [OF example_cidr _ _ example_run, of "''node''"]
  have k: "map_of (allocated (ipam ?st)) ''node'' = None" "\<not> has_key (text4 (ip4 0x0A500001)) (allocatedReverse (ipam ?st))"
    by (simp_all add: example_tables example_text has_key_def)
  obtain r st' where a: "Allocate ''node'' ?st = Some (r, st')" using t by (cases "Allocate ''node'' ?st") auto
  show ?thesis
  proof (cases r)
    case (Inl e)
    then show ?thesis using t a k(2) by (auto simp: example_net)
  next
    case (Inr l)
    then obtain u where u: "0x0A500000 < u" "u < 0x0A500003" "ip_String (heap st' ! l) = text4 (ip4 u)"
      "map_of (allocated (ipam st')) = (map_of (allocated (ipam ?st)))(''node'' \<mapsto> text4 (ip4 u))"
      using t a k(1) by (auto simp: example_net)
    then have "u = 0x0A500001 \<or> u = 0x0A500002" by linarith
    then show ?thesis using a Inr u(3,4) by auto
  qed
qed

section \<open>Termination\<close>

text \<open>C21: On an IPv4 network \<open>Allocate\<close> returns, except in one case: the network is \<open>0.0.0.0/0\<close>, the
  name is new and every one of the \<open>2 ^ 32\<close> addresses is taken. Then the second loop, whose slice has
  four bytes, goes round forever.\<close>

theorem fabric_allocate_terminates:
  assumes "ParseCIDR cidr = Some (As16 (V4 a), ip_net (V4 a) n)" and "n \<le> 32" and "fabric_run cidr st"
  shows "Allocate name st = None \<longleftrightarrow>
    n = 0 \<and> \<not> has_key name (allocated (ipam st)) \<and> (\<forall>u<2 ^ 32. has_key (text4 (ip4 u)) (allocatedReverse (ipam st)))"
proof -
  have ok: "fabric_ok a n st" using fabric_run_inv [OF assms(3,1,2)] by (simp add: fabric_inv_def)
  have all: "(\<forall>u<2 ^ 32. has_key (text4 (ip4 u)) (allocatedReverse (ipam st))) \<longleftrightarrow> (\<forall>u. \<not> free4 a n st u)" if "n = 0"
    using that by (auto simp: free4_def taken4_def in_net_0)
  consider v where "map_of (allocated (ipam st)) name = Some v"
    | v where "map_of (allocated (ipam st)) name = None" "free4 a n st v"
    | "map_of (allocated (ipam st)) name = None" "\<forall>v. \<not> free4 a n st v"
    by (cases "map_of (allocated (ipam st)) name") auto
  then show ?thesis
  proof cases
    case 1
    then show ?thesis by (simp add: fabric_Allocate_known has_key_iff)
  next
    case 2
    then show ?thesis using Allocate_free [OF ok 2] all by auto
  next
    case 3
    show ?thesis
    proof (cases "n = 0")
      case True
      then show ?thesis using Allocate_loops [of a st name] ok 3 all by (simp add: has_key_iff)
    next
      case False
      then show ?thesis using Allocate_none_free [OF ok 3] by auto
    qed
  qed
qed

theorem fabric_allocate_terminates_witness: "Allocate ''node'' (new_fabric 0x0A500000 30) \<noteq> None"
  using fabric_allocate_terminates [OF example_cidr _ example_run, of "''node''"] by simp

section \<open>Different names have different addresses\<close>

text \<open>The text of the address that an allocation returns, read before the next one.\<close>

definition allocate_text :: "string \<Rightarrow> fabric \<Rightarrow> (fabric_error + string) \<times> fabric" where
  "allocate_text name st =
     (case Allocate name st of
        None \<Rightarrow> (Inl NoMoreIP, st)
      | Some (Inl e, st') \<Rightarrow> (Inl e, st')
      | Some (Inr l, st') \<Rightarrow> (Inr (ip_String (heap st' ! l)), st'))"

text \<open>Every recorded address is the text of an address.\<close>

definition canonical :: "IPAM \<Rightarrow> bool" where
  "canonical i \<longleftrightarrow> (\<forall>name v. map_of (allocated i) name = Some v \<longrightarrow> ip_String (ip_Parse v) = v)"

definition fabric_valid :: "fabric \<Rightarrow> bool" where
  "fabric_valid st \<longleftrightarrow> (\<exists>w n. 1 \<le> n \<and> fabric_inv w n st) \<and> canonical (ipam st)"

lemma text4_canonical: "length b = 4 \<Longrightarrow> ip_String (ip_Parse (text4 b)) = text4 b"
  using ip_String_To4 [OF ip_Parse_text4] .

lemma allocate_text_cases:
  assumes "fabric_valid st" and "allocate_text name st = (r, st')"
  obtains v where "map_of (allocated (ipam st)) name = Some v" "r = Inr v" "ipam st' = ipam st"
  | u where "map_of (allocated (ipam st)) name = None" "r = Inr (text4 (ip4 u))"
      "allocated (ipam st') = put name (text4 (ip4 u)) (allocated (ipam st))"
  | e where "map_of (allocated (ipam st)) name = None" "r = Inl e" "ipam st' = ipam st"
proof -
  obtain w n where n: "1 \<le> n" and "fabric_inv w n st" using assms(1) by (auto simp: fabric_valid_def)
  then have ok: "fabric_ok w n st" by (simp add: fabric_inv_def)
  consider (known) v where "map_of (allocated (ipam st)) name = Some v"
    | (free) v where "map_of (allocated (ipam st)) name = None" "free4 w n st v"
    | (full) "map_of (allocated (ipam st)) name = None" "\<forall>v. \<not> free4 w n st v"
    by (cases "map_of (allocated (ipam st)) name") auto
  then show ?thesis
  proof cases
    case known
    then show ?thesis
      using assms that(1) by (auto simp: allocate_text_def fabric_Allocate_known fabric_valid_def canonical_def)
  next
    case free
    obtain l u st1 where a: "Allocate name st = Some (Inr l, st1)" "recorded name u l st st1"
      using Allocate_free [OF ok free] by blast
    then have "at4 (heap st1 ! l) u" by (simp add: recorded_def)
    then show ?thesis
      using that(2) [of u] assms(2) a free(1) by (auto simp: allocate_text_def recorded_def String_at4)
  next
    case full
    obtain h where "Allocate name st = Some (Inl NoMoreIP, st\<lparr>heap := h\<rparr>)" using Allocate_none_free [OF ok full n] by blast
    then show ?thesis using that(3) assms(2) full(1) by (auto simp: allocate_text_def)
  qed
qed

lemma allocate_text_valid:
  assumes "fabric_valid st" and "allocate_text name st = (r, st')"
  shows "fabric_valid st'"
proof -
  obtain w n where n: "1 \<le> n" "fabric_inv w n st" using assms(1) by (auto simp: fabric_valid_def)
  have "fabric_inv w n st'"
    using Allocate_inv [OF n(2)] assms(2) n(2) by (auto simp: allocate_text_def split: option.splits sum.splits)
  moreover have "canonical (ipam st')"
    using assms(1)
    by (cases rule: allocate_text_cases [OF assms])
       (auto simp: canonical_def fabric_valid_def map_of_put text4_canonical split: if_splits)
  ultimately show ?thesis using n(1) by (auto simp: fabric_valid_def)
qed

interpretation fab: name_allocator "\<lambda>st n. map_of (allocated (ipam st)) n" allocate_text fabric_valid
proof
  fix s t n n' r i
  show "fabric_valid s \<Longrightarrow> allocate_text n s = (r, t) \<Longrightarrow> fabric_valid t" by (rule allocate_text_valid)
  show "fabric_valid s \<Longrightarrow> map_of (allocated (ipam s)) n = Some i \<Longrightarrow> map_of (allocated (ipam s)) n' = Some i \<Longrightarrow> n = n'"
    by (auto simp: fabric_valid_def fabric_inv_def fabric_ok_def intro: inverse_maps_inj)
  show "map_of (allocated (ipam t)) n = Some i" if "fabric_valid s" "allocate_text n s = (Inr i, t)"
    by (cases rule: allocate_text_cases [OF that]) (auto simp: map_of_put)
  show "map_of (allocated (ipam t)) n' = Some i"
    if "fabric_valid s" "allocate_text n s = (r, t)" "map_of (allocated (ipam s)) n' = Some i"
    using that(3) by (cases rule: allocate_text_cases [OF that(1,2)]) (auto simp: map_of_put)
qed

text \<open>C25: In a sequence of allocations on an IPv4 network, two that succeed return the same address
  exactly when they are for the same name, provided that the addresses configured at the start are
  in their usual text form. The names are plain strings: a node and a gateway, or two gateways in
  different namespaces, that have the same name share one address.\<close>

theorem fabric_addresses_injective:
  assumes "ParseCIDR cidr = Some (As16 (V4 a), ip_net (V4 a) n)" and "1 \<le> n" and "n \<le> 32"
    and "fabric_run cidr st" and "canonical (ipam st)" and "run_alloc allocate_text names st = (rs, st')"
    and "j < length names" and "k < length names" and "rs ! j = Inr x" and "rs ! k = Inr y"
  shows "x = y \<longleftrightarrow> names ! j = names ! k"
proof -
  have "fabric_valid st" using fabric_run_inv [OF assms(4,1,3)] assms(2,5) by (auto simp: fabric_valid_def)
  then show ?thesis by (rule fab.run_same_iff [OF _ assms(6-10)])
qed

theorem fabric_addresses_injective_witness:
  "\<exists>rs st'. run_alloc allocate_text [''n'', ''gw''] (new_fabric 0x0A500000 30) = (rs, st') \<and>
     (fst (allocate_text ''n'' (new_fabric 0x0A500000 30)) = rs ! 0) \<and>
     (rs ! 0 \<noteq> rs ! 1 \<or> (\<exists>e. rs ! 1 = Inl e))"
proof -
  obtain rs st' where r: "run_alloc allocate_text [''n'', ''gw''] (new_fabric 0x0A500000 30) = (rs, st')"
    by (cases "run_alloc allocate_text [''n'', ''gw''] (new_fabric 0x0A500000 30)")
  have c: "canonical (ipam (new_fabric 0x0A500000 30))"
    using text4_canonical [of "ip4 0x0A500000"] text4_canonical [of "ip4 0x0A500003"]
    by (auto simp: canonical_def example_tables example_text split: if_splits)
  have "rs ! 0 \<noteq> rs ! 1" if "rs ! 1 = Inr y" for y
    using fabric_addresses_injective [OF example_cidr _ _ example_run c r, of 0 1 y y] that by auto
  moreover have "fst (allocate_text ''n'' (new_fabric 0x0A500000 30)) = rs ! 0"
    using r by (auto split: prod.splits)
  ultimately show ?thesis using r by (cases "rs ! 1") auto
qed

section \<open>The slice that is returned\<close>

text \<open>C37: The slice that \<open>Allocate\<close> returns is the one it keeps as \<open>lastAllocatedIP\<close>. When the next
  allocation for a new name finds an address in its first loop, it increments that slice in place
  and returns it again: the caller of the first allocation then reads the address of the second
  name from its result. The controllers read it (\<open>ip.String()\<close>) after the mutex is released.\<close>

theorem fabric_slice_overwritten:
  assumes "ParseCIDR cidr = Some (As16 (V4 a), ip_net (V4 a) n)" and "n \<le> 32" and "fabric_run cidr st"
    and "\<not> has_key x (allocated (ipam st))" and "\<not> has_key y (allocated (ipam st))" and "x \<noteq> y"
    and "Allocate x st = Some (Inr l, st1)" and "Allocate y st1 = Some (Inr k, st2)"
    and "length (heap st2) = length (heap st1)"
  shows "k = l \<and> ip_String (heap st1 ! l) = the (map_of (allocated (ipam st2)) x) \<and>
         ip_String (heap st2 ! l) = the (map_of (allocated (ipam st2)) y) \<and>
         ip_String (heap st2 ! l) \<noteq> ip_String (heap st1 ! l)"
proof -
  have inv: "fabric_inv a n st" using fabric_run_inv [OF assms(3,1,2)] .
  have found: "\<exists>u. free4 a n s u \<and> recorded z u m s s' \<and>
      (if length (heap s') = length (heap s) then m = lastAllocatedIP (ipam s) else m = length (heap s))"
    if "fabric_inv a n s" "\<not> has_key z (allocated (ipam s))" "Allocate z s = Some (Inr m, s')" for s z m s'
  proof -
    have ok: "fabric_ok a n s" and z: "map_of (allocated (ipam s)) z = None"
      using that(1,2) by (simp_all add: fabric_inv_def has_key_iff)
    have "\<exists>v. free4 a n s v"
      using Allocate_loops [of a s z] Allocate_none_free [OF ok z] ok z that(3) by (cases "n = 0") auto
    then show ?thesis using Allocate_free [OF ok z] that(3) by fastforce
  qed
  obtain u where u: "recorded x u l st st1" "free4 a n st u" using found [OF inv assms(4,7)] by blast
  have inv1: "fabric_inv a n st1" using Allocate_inv [OF inv assms(7)] .
  have "\<not> has_key y (allocated (ipam st1))" using u(1) assms(5,6) by (simp add: recorded_def has_key_put)
  then obtain v where v: "recorded y v k st1 st2" "free4 a n st1 v" and k: "k = lastAllocatedIP (ipam st1)"
    using found [OF inv1 _ assms(8)] assms(9) by (auto split: if_splits)
  have "u \<noteq> v" using v(2) u(1) by (auto simp: free4_def taken4_def recorded_def has_key_put)
  moreover have "u < 2 ^ 32" "v < 2 ^ 32" using u(2) v(2) in_net_less by (auto simp: free4_def)
  ultimately have "text4 (ip4 u) \<noteq> text4 (ip4 v)" by (simp add: text4_ip4_inject)
  moreover have "k = l" using k u(1) by (simp add: recorded_def)
  moreover have "ip_String (heap st1 ! l) = text4 (ip4 u)" "ip_String (heap st2 ! k) = text4 (ip4 v)"
    using u(1) v(1) String_at4 by (auto simp: recorded_def)
  moreover have "map_of (allocated (ipam st2)) x = Some (text4 (ip4 u))" "map_of (allocated (ipam st2)) y = Some (text4 (ip4 v))"
    using u(1) v(1) assms(6) by (auto simp: recorded_def map_of_put)
  ultimately show ?thesis by auto
qed

lemma example_two:
  obtains st1 st2 where "Allocate ''x'' (new_fabric 0x0A500000 30) = Some (Inr 0, st1)" and "Allocate ''y'' st1 = Some (Inr 0, st2)"
    and "length (heap st2) = length (heap st1)"
proof -
  let ?st = "new_fabric 0x0A500000 30" and ?w = "0x0A500000 :: 32 word"
  have inv: "fabric_inv ?w 30 ?st" by (rule new_fabric_inv)
  then have ok: "fabric_ok ?w 30 ?st" by (simp add: fabric_inv_def)
  have 0: "lastAllocatedIP (ipam ?st) = 0" by (simp add: new_fabric_def Let_def)
  have "at4 (heap ?st ! 0) 0x0A500000"
    using at4_ex [of "heap ?st ! 0" "ip4 0x0A500000"] be_val_ip4 [of "0x0A500000"] ip_To4_16 [of "As16 (V4 ?w)"]
    by (simp add: new_fabric_def Let_def ip4_def del: As16.simps)
  moreover have free: "free4 ?w 30 ?st 0x0A500001"
    by (simp add: free4_def in_net_def example_net taken4_def example_text example_tables has_key_def)
  moreover have "taken4 (allocatedReverse (ipam ?st)) x" if "0x0A500000 \<le> x" "x < 0x0A500001" for x
  proof -
    have "x = 0x0A500000" using that by simp
    then show ?thesis by (simp add: taken4_def example_text example_tables has_key_def)
  qed
  ultimately obtain st1 where a: "Allocate ''x'' ?st = Some (Inr 0, st1)" and r: "recorded ''x'' 0x0A500001 0 ?st st1"
    using Allocate_next [OF ok, of "''x''" "0x0A500000" "0x0A500001"] unfolding 0
    by (auto simp: example_tables in_net_def example_net)
  have ok1: "fabric_ok ?w 30 st1" using Allocate_inv [OF inv a] by (simp add: fabric_inv_def)
  have l: "lastAllocatedIP (ipam st1) = 0" using r by (simp add: recorded_def)
  have ne: "text4 (ip4 0x0A500002) \<noteq> text4 (ip4 0x0A500001)" "text4 (ip4 0x0A500002) \<noteq> text4 (ip4 0x0A500000)"
    "text4 (ip4 0x0A500002) \<noteq> text4 (ip4 0x0A500003)"
    by (simp_all add: text4_ip4_inject)
  have "free4 ?w 30 st1 0x0A500002"
    using r ne by (simp add: free4_def in_net_def example_net taken4_def recorded_def has_key_put example_tables has_key_def
        example_text [symmetric])
  moreover have "taken4 (allocatedReverse (ipam st1)) x" if "0x0A500001 \<le> x" "x < 0x0A500002" for x
  proof -
    have "x = 0x0A500001" using that by simp
    then show ?thesis using r by (simp add: taken4_def recorded_def has_key_put)
  qed
  moreover have "at4 (heap st1 ! 0) 0x0A500001" using r by (simp add: recorded_def)
  ultimately obtain st2 where "Allocate ''y'' st1 = Some (Inr 0, st2)" "length (heap st2) = length (heap st1)"
    using Allocate_next [OF ok1, of "''y''" "0x0A500001" "0x0A500002"] r unfolding l
    by (auto simp: recorded_def map_of_put example_tables in_net_def example_net)
  then show ?thesis using that a by blast
qed

theorem fabric_slice_overwritten_witness:
  "\<exists>st1 st2. Allocate ''x'' (new_fabric 0x0A500000 30) = Some (Inr 0, st1) \<and> Allocate ''y'' st1 = Some (Inr 0, st2) \<and>
     ip_String (heap st2 ! 0) \<noteq> ip_String (heap st1 ! 0)"
proof -
  obtain st1 st2 where a: "Allocate ''x'' (new_fabric 0x0A500000 30) = Some (Inr 0, st1)" "Allocate ''y'' st1 = Some (Inr 0, st2)"
    "length (heap st2) = length (heap st1)"
    by (rule example_two)
  have "ip_String (heap st2 ! 0) \<noteq> ip_String (heap st1 ! 0)"
    using fabric_slice_overwritten [OF example_cidr _ example_run _ _ _ a, THEN conjunct2, THEN conjunct2, THEN conjunct2]
    by (simp add: example_tables has_key_def)
  then show ?thesis using a by blast
qed

text \<open>
  \<open>add\<close> returns \<open>nil\<close> for an address that is not IPv4, so that on an IPv6 network the text \<open><nil>\<close> is
  reserved in place of the last address.
\<close>

lemma newIPAM_ipv6_last:
  assumes "ParseCIDR cidr = Some (ip, net)" and "ip_To4 (ip_Parse (ip_String (net_IP net))) = None"
  shows "\<exists>st. newIPAM cidr = Inr st \<and> set (map fst (allocatedReverse (ipam st))) = {ip_String (net_IP net), ''<nil>''}"
proof -
  have a: "add (ip_Parse (ip_String (net_IP net))) k = []" for k
    using assms(2) by (simp add: add_def ip_To16_def)
  have "fst ` set (put x x (put y y [])) = {y, x}" for x y :: string by auto
  then show ?thesis
    by (simp add: newIPAM_def assms(1) a Let_def ip_String_def [of "[]"] case_prod_beta del: update.simps)
qed

end
