(* ===== verification/ConfigApi.thy ===== *)
theory ConfigApi
  imports NetworkApi
begin

text \<open>
  The types of a network configuration (\<open>apis/networking/v1beta1/configuration_types.go\<close>), with the helpers of
  \<open>pkg/utils/cidr\<close> and \<open>pkg/liqo-controller-manager/networking/utils\<close>. A CIDR is a text.
\<close>

section \<open>Configurations\<close>

record ClusterConfigCIDR =
  cc_Pod :: "string list"
  cc_External :: "string list"

datatype ConditionStatus = ConditionTrue | ConditionFalse | ConditionUnknown

text \<open>The time of the last transition, which no code reads, is left out.\<close>

record Condition =
  cond_Type :: string
  cond_Status :: ConditionStatus
  cond_Reason :: string
  cond_Message :: string
  cond_ObservedGeneration :: int

record Configuration = objectMeta +
  cfg_UID :: string
  cfg_Generation :: int
  spec_Local :: "ClusterConfigCIDR option"
  spec_Remote :: ClusterConfigCIDR
  spec_TunneledCIDRs :: "string list"
  status_Conditions :: "Condition list"
  status_Remote :: "ClusterConfigCIDR option"
  status_TunneledCIDRs :: "string list"

section \<open>Lists of CIDRs\<close>

definition AllNonVoid :: "string list \<Rightarrow> bool" where
  "AllNonVoid cidrs \<longleftrightarrow> cidrs \<noteq> [] \<and> list_all (\<lambda>c. c \<noteq> []) cidrs"

definition EscapeForName :: "string \<Rightarrow> string" where
  "EscapeForName cidr = ReplaceAll ''.'' ''-'' (ReplaceAll ''/'' ''-'' cidr)"

section \<open>The status of a configuration\<close>

definition NetworkCIDRsConfigured :: string where
  "NetworkCIDRsConfigured = ''NetworkCIDRsConfigured''"

definition TunneledCIDRsConfigured :: string where
  "TunneledCIDRsConfigured = ''TunneledCIDRsConfigured''"

text \<open>\<open>findCondition\<close> is \<open>meta.FindStatusCondition\<close> of the Kubernetes library.\<close>

definition AreConfigurationNetworkCIDRsConfigured ::
  "(Condition list \<Rightarrow> string \<Rightarrow> Condition option) \<Rightarrow> Configuration \<Rightarrow> bool" where
  "AreConfigurationNetworkCIDRsConfigured findCondition cfg =
     (case findCondition (status_Conditions cfg) NetworkCIDRsConfigured of
        None \<Rightarrow> False
      | Some c \<Rightarrow> cfg_Generation cfg = cond_ObservedGeneration c \<and> cond_Status c = ConditionTrue)"

definition AreConfigurationNetworkCIDRsEqual ::
  "(Condition list \<Rightarrow> string \<Rightarrow> Condition option) \<Rightarrow> Configuration \<Rightarrow> Configuration \<Rightarrow> (unit, bool) res" where
  "AreConfigurationNetworkCIDRsEqual findCondition cfg1 cfg2 =
     (if \<not> AreConfigurationNetworkCIDRsConfigured findCondition cfg1 \<or>
         \<not> AreConfigurationNetworkCIDRsConfigured findCondition cfg2 then Ok False
      else (case (status_Remote cfg1, status_Remote cfg2) of
              (Some r1, Some r2) \<Rightarrow>
                Ok (cc_External r1 = cc_External r2 \<and> cc_Pod r1 = cc_Pod r2 \<and>
                    status_TunneledCIDRs cfg1 = status_TunneledCIDRs cfg2)
            | _ \<Rightarrow> Panic))"

definition ConfigurationRemoteCIDRs :: "Configuration \<Rightarrow> string list" where
  "ConfigurationRemoteCIDRs cfg =
     (case status_Remote cfg of None \<Rightarrow> [] | Some r \<Rightarrow> cc_Pod r @ cc_External r) @ status_TunneledCIDRs cfg"

end
