(* ===== verification/ConfigController.thy ===== *)
theory ConfigController
  imports ConfigApi FirewallApi
begin

text \<open>
  The controller of network configurations
  (\<open>pkg/liqo-controller-manager/networking/external-network/configuration\<close>): it keeps one \<open>Network\<close> for
  every CIDR of the remote cluster, copies the CIDRs that the IPAM has chosen into the status, and
  masquerades the traffic to the tunneled CIDRs. Events and log lines are left out.
\<close>

section \<open>What the controller uses\<close>

text \<open>
  The calls of the API server, and the functions of the Kubernetes libraries on conditions
  (\<open>meta.SetStatusCondition\<close>, \<open>meta.FindStatusCondition\<close>) and on labels (\<open>labels.Merge\<close>).
  \<open>updateConfiguration\<close> is \<open>Update\<close> and \<open>updateStatus\<close> is \<open>Status().Update\<close>.
\<close>

record FirewallObject = objectMeta +
  fo_Table :: Table

record 'c config_env =
  networks :: "('c, Network) kube"
  firewalls :: "('c, FirewallObject) kube"
  getConfiguration :: "objkey \<Rightarrow> 'c \<Rightarrow> Configuration got"
  updateConfiguration :: "Configuration \<Rightarrow> 'c \<Rightarrow> Configuration option \<times> 'c"
  updateStatus :: "Configuration \<Rightarrow> 'c \<Rightarrow> Configuration option \<times> 'c"
  networkGlobals :: globals
  firewallGlobals :: globals
  findCondition :: "Condition list \<Rightarrow> string \<Rightarrow> Condition option"
  setCondition :: "Condition \<Rightarrow> Condition list \<Rightarrow> Condition list"
  mergeLabels :: "(string, string) gomap \<Rightarrow> (string, string) gomap \<Rightarrow> (string, string) gomap"

record 'c cst =
  localCIDR :: "ClusterConfigCIDR option"
  server :: 'c

datatype config_error = MissingClusterLabel | NoPodNetwork | PodNotReady | ExternalNotFound | ManyExternal | ExternalNotReady

type_synonym ('c, 'a) cm = "('c cst, config_error, 'a) ctl"

section \<open>Labels and names\<close>

datatype LabelCIDRTypeValue = LabelCIDRTypePod | LabelCIDRTypeExternal | LabelCIDRTypeTunneled

fun cidr_type_text :: "LabelCIDRTypeValue \<Rightarrow> string" where
  "cidr_type_text LabelCIDRTypePod = ''pod''"
| "cidr_type_text LabelCIDRTypeExternal = ''external''"
| "cidr_type_text LabelCIDRTypeTunneled = ''tunneled''"

definition LabelCIDRTypeValues :: "LabelCIDRTypeValue list" where
  "LabelCIDRTypeValues = [LabelCIDRTypePod, LabelCIDRTypeExternal, LabelCIDRTypeTunneled]"

definition LabelCIDRType :: string where
  "LabelCIDRType = ''configuration.liqo.io/cidr-type''"

definition RemoteClusterID :: string where
  "RemoteClusterID = ''liqo.io/remote-cluster-id''"

definition ForgeNetworkLabel :: "Configuration \<Rightarrow> LabelCIDRTypeValue \<Rightarrow> (string, string) gomap option" where
  "ForgeNetworkLabel cfg ty =
     (case map_of (om_Labels cfg) RemoteClusterID of
        None \<Rightarrow> None
      | Some i \<Rightarrow> Some [(RemoteClusterID, i), (LabelCIDRType, cidr_type_text ty)])"

text \<open>The selector made of a set of labels asks for each of them.\<close>

definition has_labels :: "(string, string) gomap \<Rightarrow> 'a objectMeta_scheme \<Rightarrow> bool" where
  "has_labels ls ob \<longleftrightarrow> list_all (\<lambda>(k, v). map_of (om_Labels ob) k = Some v) ls"

definition ForgeNetworkName :: "Configuration \<Rightarrow> LabelCIDRTypeValue \<Rightarrow> string \<Rightarrow> string" where
  "ForgeNetworkName cfg ty cidr = om_Name cfg @ ''-'' @ cidr_type_text ty @ ''-'' @ EscapeForName cidr"

section \<open>Networks\<close>

record EnsureNetworkOptions =
  NotRemapped :: bool
  Shared :: bool

definition ensureNetworkOptions :: "LabelCIDRTypeValue \<Rightarrow> EnsureNetworkOptions" where
  "ensureNetworkOptions ty =
     (if ty = LabelCIDRTypeTunneled then \<lparr>NotRemapped = True, Shared = True\<rparr> else \<lparr>NotRemapped = False, Shared = False\<rparr>)"

definition blank_network :: "string \<Rightarrow> string \<Rightarrow> Network" where
  "blank_network ns name =
     \<lparr>om_Namespace = ns, om_Name = name, om_Labels = [], om_Annotations = [], om_Owners = [],
      nw_Finalizers = [], nw_Deleting = False, nw_CIDR = [], nw_PreAllocated = 0, nw_StatusCIDR = []\<rparr>"

definition mutate_network ::
  "'c config_env \<Rightarrow> Configuration \<Rightarrow> LabelCIDRTypeValue \<Rightarrow> string \<Rightarrow> EnsureNetworkOptions \<Rightarrow> Network \<Rightarrow> ('c, Network) cm" where
  "mutate_network E cfg ty cidr opts nw =
     (case ForgeNetworkLabel cfg ty of
        None \<Rightarrow> gfail (Specific MissingClusterLabel)
      | Some ls \<Rightarrow>
          (let ls = (if NotRemapped opts then put NetworkNotRemappedLabelKey ''true'' ls else ls);
               ls = (if Shared opts then put NetworkSharedLabelKey ''true'' ls else ls)
           in case setControllerReference (networkGlobals E) (cfg_UID cfg) (om_Owners nw) of
                None \<Rightarrow> gfail OwnedByOther
              | Some os \<Rightarrow> greturn (nw\<lparr>om_Labels := ls, nw_CIDR := cidr, om_Owners := os\<rparr>)))"

definition EnsureNetwork ::
  "'c config_env \<Rightarrow> Configuration \<Rightarrow> LabelCIDRTypeValue \<Rightarrow> string \<Rightarrow> EnsureNetworkOptions \<Rightarrow> ('c, Network) cm" where
  "EnsureNetwork E cfg ty cidr opts =
     CreateOrUpdate server (\<lambda>c st. st\<lparr>server := c\<rparr>) (networks E) (networkGlobals E)
       (blank_network (om_Namespace cfg) (ForgeNetworkName cfg ty cidr)) (mutate_network E cfg ty cidr opts)"

definition ownedByConfiguration :: "Network \<Rightarrow> Configuration \<Rightarrow> bool" where
  "ownedByConfiguration nw cfg = List.member (om_Owners nw) (cfg_UID cfg)"

text \<open>A network that \<open>DeleteOrphanNetworks\<close> leaves alone.\<close>

definition desired_network :: "Configuration \<Rightarrow> LabelCIDRTypeValue \<Rightarrow> string list \<Rightarrow> Network \<Rightarrow> bool" where
  "desired_network cfg ty desired nw \<longleftrightarrow>
     \<not> ownedByConfiguration nw cfg \<or>
     List.member desired (nw_CIDR nw) \<and> om_Name nw = ForgeNetworkName cfg ty (nw_CIDR nw)"

fun delete_orphans ::
  "'c config_env \<Rightarrow> Configuration \<Rightarrow> LabelCIDRTypeValue \<Rightarrow> string list \<Rightarrow> bool \<Rightarrow> Network list \<Rightarrow> ('c, bool) cm" where
  "delete_orphans E cfg ty desired pending [] = greturn pending"
| "delete_orphans E cfg ty desired pending (nw # nws) =
     (if desired_network cfg ty desired nw then delete_orphans E cfg ty desired pending nws
      else if nw_Deleting nw then delete_orphans E cfg ty desired True nws
      else (\<lambda>st. case k_delete (networks E) nw (server st) of
              (DeleteFailed, c) \<Rightarrow> (Err DeletionFailed, st\<lparr>server := c\<rparr>)
            | (_, c) \<Rightarrow> delete_orphans E cfg ty desired True nws (st\<lparr>server := c\<rparr>)))"

definition DeleteOrphanNetworks ::
  "'c config_env \<Rightarrow> Configuration \<Rightarrow> LabelCIDRTypeValue \<Rightarrow> string list \<Rightarrow> ('c, bool) cm" where
  "DeleteOrphanNetworks E cfg ty desired st =
     (case ForgeNetworkLabel cfg ty of
        None \<Rightarrow> (Err (Specific MissingClusterLabel), st)
      | Some ls \<Rightarrow>
          (case k_list (networks E) (\<lambda>nw. om_Namespace nw = om_Namespace cfg \<and> has_labels ls nw) (server st) of
             None \<Rightarrow> (Err ListFailed, st)
           | Some nws \<Rightarrow> delete_orphans E cfg ty desired False nws st))"

section \<open>The status\<close>

fun selectSpecCIDRs :: "Configuration \<Rightarrow> LabelCIDRTypeValue \<Rightarrow> string list" where
  "selectSpecCIDRs cfg LabelCIDRTypePod = cc_Pod (spec_Remote cfg)"
| "selectSpecCIDRs cfg LabelCIDRTypeExternal = cc_External (spec_Remote cfg)"
| "selectSpecCIDRs cfg LabelCIDRTypeTunneled = spec_TunneledCIDRs cfg"

definition status_remote0 :: "Configuration \<Rightarrow> ClusterConfigCIDR" where
  "status_remote0 cfg = (case status_Remote cfg of None \<Rightarrow> \<lparr>cc_Pod = [], cc_External = []\<rparr> | Some r \<Rightarrow> r)"

fun writeStatusForCIDRType :: "Configuration \<Rightarrow> LabelCIDRTypeValue \<Rightarrow> string list \<Rightarrow> Configuration" where
  "writeStatusForCIDRType cfg LabelCIDRTypePod remapped =
     cfg\<lparr>status_Remote := Some ((status_remote0 cfg)\<lparr>cc_Pod := remapped\<rparr>)\<rparr>"
| "writeStatusForCIDRType cfg LabelCIDRTypeExternal remapped =
     cfg\<lparr>status_Remote := Some ((status_remote0 cfg)\<lparr>cc_External := remapped\<rparr>)\<rparr>"
| "writeStatusForCIDRType cfg LabelCIDRTypeTunneled remapped = cfg\<lparr>status_TunneledCIDRs := remapped\<rparr>"

fun ensure_networks :: "'c config_env \<Rightarrow> Configuration \<Rightarrow> LabelCIDRTypeValue \<Rightarrow> string list \<Rightarrow> ('c, string list) cm" where
  "ensure_networks E cfg ty [] = greturn []"
| "ensure_networks E cfg ty (c # cs) =
     gbind (EnsureNetwork E cfg ty c (ensureNetworkOptions ty)) (\<lambda>nw.
       gbind (ensure_networks E cfg ty cs) (\<lambda>remapped.
         greturn (if ty = LabelCIDRTypeTunneled \<and> nw_StatusCIDR nw = [] then remapped else nw_StatusCIDR nw # remapped)))"

definition remapCIDRType :: "'c config_env \<Rightarrow> LabelCIDRTypeValue \<Rightarrow> Configuration \<Rightarrow> ('c, Configuration) cm" where
  "remapCIDRType E ty cfg =
     (let specCIDRs = selectSpecCIDRs cfg ty
      in gbind (DeleteOrphanNetworks E cfg ty specCIDRs) (\<lambda>pendingDeletion.
           if pendingDeletion then greturn cfg
           else gbind (ensure_networks E cfg ty specCIDRs) (\<lambda>remapped.
             greturn (writeStatusForCIDRType cfg ty remapped))))"

fun remap_types :: "'c config_env \<Rightarrow> LabelCIDRTypeValue list \<Rightarrow> Configuration \<Rightarrow> ('c, Configuration) cm" where
  "remap_types E [] cfg = greturn cfg"
| "remap_types E (ty # tys) cfg =
     (if ty = LabelCIDRTypeTunneled then remap_types E tys cfg
      else gbind (remapCIDRType E ty cfg) (remap_types E tys))"

definition RemapConfiguration :: "'c config_env \<Rightarrow> Configuration \<Rightarrow> ('c, Configuration) cm" where
  "RemapConfiguration E = remap_types E LabelCIDRTypeValues"

definition reserveTunneledCIDRs :: "'c config_env \<Rightarrow> Configuration \<Rightarrow> ('c, Configuration) cm" where
  "reserveTunneledCIDRs E = remapCIDRType E LabelCIDRTypeTunneled"

definition isRemapComplete :: "Configuration \<Rightarrow> bool" where
  "isRemapComplete cfg =
     (case status_Remote cfg of
        None \<Rightarrow> False
      | Some r \<Rightarrow>
          if length (cc_Pod r) \<noteq> length (cc_Pod (spec_Remote cfg)) \<or>
             length (cc_External r) \<noteq> length (cc_External (spec_Remote cfg)) then False
          else AllNonVoid (cc_Pod r) \<and> AllNonVoid (cc_External r))"

definition isTunneledReservationComplete :: "Configuration \<Rightarrow> bool" where
  "isTunneledReservationComplete cfg \<longleftrightarrow> length (status_TunneledCIDRs cfg) = length (spec_TunneledCIDRs cfg)"

definition network_condition :: "Configuration \<Rightarrow> Condition" where
  "network_condition cfg =
     (let complete = isRemapComplete cfg
      in \<lparr>cond_Type = NetworkCIDRsConfigured,
          cond_Status = (if complete then ConditionTrue else ConditionFalse),
          cond_Reason = (if complete then ''NetworkCIDRsConfigured'' else ''WaitingForNetworks''),
          cond_Message = (if complete then ''All network CIDRs are configured'' else ''Waiting for all networks to be ready''),
          cond_ObservedGeneration = cfg_Generation cfg\<rparr>)"

definition tunneled_condition :: "Configuration \<Rightarrow> Condition" where
  "tunneled_condition cfg =
     (let complete = isTunneledReservationComplete cfg;
          message = (if complete then ''All tunneled CIDRs are reserved'' else ''Waiting for all tunneled CIDRs to be reserved'')
      in \<lparr>cond_Type = TunneledCIDRsConfigured,
          cond_Status = (if complete then ConditionTrue else ConditionFalse),
          cond_Reason = (if complete then ''TunneledCIDRsConfigured'' else ''WaitingForTunneledCIDRs''),
          cond_Message = (if status_TunneledCIDRs cfg \<noteq> [] then message @ '': '' @ joinWith '', '' (status_TunneledCIDRs cfg) else message),
          cond_ObservedGeneration = cfg_Generation cfg\<rparr>)"

definition setConfigurationConditions :: "'c config_env \<Rightarrow> Configuration \<Rightarrow> Configuration" where
  "setConfigurationConditions E cfg =
     cfg\<lparr>status_Conditions :=
           setCondition E (tunneled_condition cfg) (setCondition E (network_condition cfg) (status_Conditions cfg))\<rparr>"

section \<open>Masquerading of the tunneled CIDRs\<close>

definition tunneledMasqueradeChainName :: string where
  "tunneledMasqueradeChainName = ''postrouting-tunneled-snat''"

definition TunnelInterfaceName :: string where
  "TunnelInterfaceName = ''liqo-tunnel''"

definition masquerade_rule :: "string \<Rightarrow> NatRule" where
  "masquerade_rule cidr =
     \<lparr>nr_Name = Some (''tunneled-snat-'' @ EscapeForName cidr),
      nr_Match =
        [\<lparr>m_Op = MatchOperationEq, m_IP = Some \<lparr>ip_Value = cidr, ip_Position = MatchPositionDst\<rparr>,
          m_Port = None, m_Proto = None, m_Dev = None\<rparr>,
         \<lparr>m_Op = MatchOperationEq, m_IP = None, m_Port = None, m_Proto = None,
          m_Dev = Some \<lparr>dev_Value = TunnelInterfaceName, dev_Position = MatchDevPositionOut, dev_Wildcard = False\<rparr>\<rparr>],
      nr_NatType = NatTypeMasquerade,
      nr_To = None\<rparr>"

definition forgeTunneledMasqueradeChain :: "Configuration \<Rightarrow> Chain" where
  "forgeTunneledMasqueradeChain cfg =
     \<lparr>ch_Name = Some tunneledMasqueradeChainName,
      ch_Rules = \<lparr>NatRules = Some (map masquerade_rule (status_TunneledCIDRs cfg)), FilterRules = None, RouteRules = None\<rparr>,
      ch_Type = ChainTypeNAT,
      ch_Policy = Some ChainPolicyAccept,
      ch_Hook = Some ChainHookPostrouting,
      ch_Priority = Some 100\<rparr>"

definition generateTunneledMasqueradeFirewallConfigurationName :: "Configuration \<Rightarrow> string" where
  "generateTunneledMasqueradeFirewallConfigurationName cfg = om_Name cfg @ ''-tunneled-masquerade''"

definition ForgeFirewallTargetLabels :: "string \<Rightarrow> (string, string) gomap" where
  "ForgeFirewallTargetLabels remoteID =
     [(''networking.liqo.io/firewall-category'', ''gateway''), (''networking.liqo.io/firewall-unique'', remoteID)]"

definition blank_firewall :: "string \<Rightarrow> string \<Rightarrow> FirewallObject" where
  "blank_firewall ns name =
     \<lparr>om_Namespace = ns, om_Name = name, om_Labels = [], om_Annotations = [], om_Owners = [],
      fo_Table = \<lparr>t_Name = None, t_Chains = [], t_Family = None\<rparr>\<rparr>"

definition masquerade_table :: "Configuration \<Rightarrow> string \<Rightarrow> Table" where
  "masquerade_table cfg name =
     \<lparr>t_Name = Some name, t_Chains = [forgeTunneledMasqueradeChain cfg], t_Family = Some TableFamilyIPv4\<rparr>"

definition mutate_firewall :: "'c config_env \<Rightarrow> Configuration \<Rightarrow> string \<Rightarrow> FirewallObject \<Rightarrow> ('c, FirewallObject) cm" where
  "mutate_firewall E cfg remoteClusterID fw =
     (case setControllerReference (firewallGlobals E) (cfg_UID cfg) (om_Owners fw) of
        None \<Rightarrow> gfail OwnedByOther
      | Some os \<Rightarrow>
          greturn (fw\<lparr>om_Labels := mergeLabels E (om_Labels fw) (ForgeFirewallTargetLabels remoteClusterID),
                      fo_Table := masquerade_table cfg (om_Name fw),
                      om_Owners := os\<rparr>))"

definition ensureTunneledMasquerade :: "'c config_env \<Rightarrow> Configuration \<Rightarrow> ('c, unit) cm" where
  "ensureTunneledMasquerade E cfg =
     (let fwcfg = blank_firewall (om_Namespace cfg) (generateTunneledMasqueradeFirewallConfigurationName cfg)
      in if status_TunneledCIDRs cfg = []
         then (\<lambda>st. case k_delete (firewalls E) fwcfg (server st) of
                 (DeleteFailed, c) \<Rightarrow> (Err DeletionFailed, st\<lparr>server := c\<rparr>)
               | (_, c) \<Rightarrow> (Ok (), st\<lparr>server := c\<rparr>))
         else (case map_of (om_Labels cfg) RemoteClusterID of
                 None \<Rightarrow> gfail (Specific MissingClusterLabel)
               | Some remoteClusterID \<Rightarrow>
                   gbind (CreateOrUpdate server (\<lambda>c st. st\<lparr>server := c\<rparr>) (firewalls E) (firewallGlobals E) fwcfg
                            (mutate_firewall E cfg remoteClusterID)) (\<lambda>_. greturn ())))"

section \<open>The local networks\<close>

definition GetPodCIDRs :: "'c config_env \<Rightarrow> ('c, string list) cm" where
  "GetPodCIDRs E st =
     (case k_list (networks E) (has_labels [(NetworkTypeLabelKey, ''pod-cidr'')]) (server st) of
        None \<Rightarrow> (Err ListFailed, st)
      | Some nws \<Rightarrow>
          if nws = [] then (Err (Specific NoPodNetwork), st)
          else if list_ex (\<lambda>nw. nw_StatusCIDR nw = []) nws then (Err (Specific PodNotReady), st)
          else (Ok (map nw_StatusCIDR nws), st))"

definition GetExternalCIDR :: "'c config_env \<Rightarrow> ('c, string) cm" where
  "GetExternalCIDR E st =
     (case k_list (networks E) (has_labels [(NetworkTypeLabelKey, ''external-cidr'')]) (server st) of
        None \<Rightarrow> (Err ListFailed, st)
      | Some [] \<Rightarrow> (Err (Specific ExternalNotFound), st)
      | Some [nw] \<Rightarrow> (if nw_StatusCIDR nw = [] then Err (Specific ExternalNotReady) else Ok (nw_StatusCIDR nw), st)
      | Some _ \<Rightarrow> (Err (Specific ManyExternal), st))"

definition local_network :: "'c config_env \<Rightarrow> ('c, ClusterConfigCIDR) cm" where
  "local_network E st =
     (case localCIDR st of
        Some l \<Rightarrow> (Ok l, st)
      | None \<Rightarrow>
          gbind (GetPodCIDRs E) (\<lambda>pods. gbind (GetExternalCIDR E) (\<lambda>ext st.
            let l = \<lparr>cc_Pod = pods, cc_External = [ext]\<rparr> in (Ok l, st\<lparr>localCIDR := Some l\<rparr>))) st)"

definition defaultLocalNetwork :: "'c config_env \<Rightarrow> Configuration \<Rightarrow> ('c, Configuration) cm" where
  "defaultLocalNetwork E cfg =
     gbind (local_network E) (\<lambda>l st.
       case updateConfiguration E (cfg\<lparr>spec_Local := Some l\<rparr>) (server st) of
         (None, c) \<Rightarrow> (Err WriteFailed, st\<lparr>server := c\<rparr>)
       | (Some cfg', c) \<Rightarrow> (Ok cfg', st\<lparr>server := c\<rparr>))"

section \<open>The reconciliation\<close>

text \<open>The part of \<open>Reconcile\<close> between reading the configuration and writing its status.\<close>

definition reconcile_status :: "'c config_env \<Rightarrow> Configuration \<Rightarrow> ('c, Configuration) cm" where
  "reconcile_status E cfg =
     gbind (if spec_Local cfg = None then defaultLocalNetwork E cfg else greturn cfg) (\<lambda>cfg1.
     gbind (RemapConfiguration E cfg1) (\<lambda>cfg2.
     gbind (reserveTunneledCIDRs E cfg2) (\<lambda>cfg3.
     gbind (ensureTunneledMasquerade E cfg3) (\<lambda>_.
       greturn (setConfigurationConditions E cfg3)))))"

definition UpdateConfigurationStatus :: "'c config_env \<Rightarrow> Configuration \<Rightarrow> ('c, unit) cm" where
  "UpdateConfigurationStatus E cfg st =
     (case updateStatus E cfg (server st) of
        (None, c) \<Rightarrow> (Err WriteFailed, st\<lparr>server := c\<rparr>)
      | (Some _, c) \<Rightarrow> (Ok (), st\<lparr>server := c\<rparr>))"

definition Reconcile :: "'c config_env \<Rightarrow> objkey \<Rightarrow> ('c, unit) cm" where
  "Reconcile E key st =
     (case getConfiguration E key (server st) of
        GetNotFound \<Rightarrow> (Ok (), st)
      | GetFailed \<Rightarrow> (Err GetObjectFailed, st)
      | Got originalCfg \<Rightarrow>
          gbind (reconcile_status E originalCfg) (\<lambda>cfg.
            if status_Conditions cfg = status_Conditions originalCfg \<and> status_Remote cfg = status_Remote originalCfg \<and>
               status_TunneledCIDRs cfg = status_TunneledCIDRs originalCfg
            then greturn () else UpdateConfigurationStatus E cfg) st)"

end
