(* ===== verification/ConfigSpec.thy ===== *)
theory ConfigSpec
  imports ConfigController
begin

text \<open>
  What a reconciliation leaves in the status of a configuration: for every kind of CIDRs either the
  CIDRs of the networks in the order of the specification, or, while a network that is not wanted
  any more is listed, what was there before.
\<close>

section \<open>What is assumed of the libraries\<close>

text \<open>
  \<open>view c\<close> are the networks of the server. A read is current. The status of a network is a subresource: a
  write of the network keeps the status that the server has, which is empty for a new network.
  Deletions are left open: a network has a finalizer and may stay for a while.
\<close>

definition status_at :: "(objkey \<rightharpoonup> Network) \<Rightarrow> objkey \<Rightarrow> string" where
  "status_at v k = (case v k of None \<Rightarrow> [] | Some nw \<Rightarrow> nw_StatusCIDR nw)"

definition networks_ok :: "'c config_env \<Rightarrow> ('c \<Rightarrow> objkey \<rightharpoonup> Network) \<Rightarrow> bool" where
  "networks_ok E view \<longleftrightarrow>
     (\<forall>k c nw. k_get (networks E) k c = Got nw \<longrightarrow> object_key nw = k \<and> view c k = Some nw) \<and>
     (\<forall>k c. k_get (networks E) k c = GetNotFound \<longrightarrow> view c k = None) \<and>
     (\<forall>nw c nw' c'. k_put (networks E) nw c = (Some nw', c') \<longrightarrow>
        object_key nw' = object_key nw \<and> nw_CIDR nw' = nw_CIDR nw \<and>
        nw_StatusCIDR nw' = status_at (view c) (object_key nw) \<and> view c' = (view c)(object_key nw \<mapsto> nw'))"

text \<open>\<open>SetStatusCondition\<close> sets the condition of its type, and \<open>FindStatusCondition\<close> finds it.\<close>

definition conditions_ok :: "'c config_env \<Rightarrow> bool" where
  "conditions_ok E \<longleftrightarrow>
     (\<forall>cd cs ty. findCondition E (setCondition E cd cs) ty = (if ty = cond_Type cd then Some cd else findCondition E cs ty))"

section \<open>The status of a kind of CIDRs\<close>

abbreviation network_key :: "Configuration \<Rightarrow> LabelCIDRTypeValue \<Rightarrow> string \<Rightarrow> objkey" where
  "network_key cfg ty s \<equiv> (om_Namespace cfg, ForgeNetworkName cfg ty s)"

text \<open>The server has a network for every CIDR in \<open>ss\<close>; no status and no other network has changed.\<close>

definition ensured :: "Configuration \<Rightarrow> LabelCIDRTypeValue \<Rightarrow> string list \<Rightarrow> (objkey \<rightharpoonup> Network) \<Rightarrow> (objkey \<rightharpoonup> Network) \<Rightarrow> bool" where
  "ensured cfg ty ss v v' \<longleftrightarrow>
     (\<forall>s \<in> set ss. \<exists>nw. v' (network_key cfg ty s) = Some nw \<and> nw_CIDR nw \<in> set ss \<and>
        network_key cfg ty (nw_CIDR nw) = network_key cfg ty s) \<and>
     (\<forall>k. status_at v' k = status_at v k) \<and> (\<forall>k. k \<notin> network_key cfg ty ` set ss \<longrightarrow> v' k = v k)"

text \<open>What the status list becomes: the tunneled CIDRs that are not reserved yet are left out.\<close>

definition remapped :: "Configuration \<Rightarrow> LabelCIDRTypeValue \<Rightarrow> string list \<Rightarrow> (objkey \<rightharpoonup> Network) \<Rightarrow> string list" where
  "remapped cfg ty ss v =
     (let rs = map (\<lambda>s. status_at v (network_key cfg ty s)) ss
      in if ty = LabelCIDRTypeTunneled then filter (\<lambda>r. r \<noteq> []) rs else rs)"

fun status_of :: "Configuration \<Rightarrow> LabelCIDRTypeValue \<Rightarrow> string list" where
  "status_of cfg LabelCIDRTypePod = cc_Pod (status_remote0 cfg)"
| "status_of cfg LabelCIDRTypeExternal = cc_External (status_remote0 cfg)"
| "status_of cfg LabelCIDRTypeTunneled = status_TunneledCIDRs cfg"

text \<open>The list of the networks of this kind has one that is not wanted.\<close>

definition orphaned :: "'c config_env \<Rightarrow> Configuration \<Rightarrow> LabelCIDRTypeValue \<Rightarrow> 'c \<Rightarrow> bool" where
  "orphaned E cfg ty c \<longleftrightarrow>
     (\<exists>ls nws. ForgeNetworkLabel cfg ty = Some ls \<and>
        k_list (networks E) (\<lambda>nw. om_Namespace nw = om_Namespace cfg \<and> has_labels ls nw) c = Some nws \<and>
        (\<exists>nw\<in>set nws. \<not> desired_network cfg ty (selectSpecCIDRs cfg ty) nw))"

definition same_spec :: "Configuration \<Rightarrow> Configuration \<Rightarrow> bool" where
  "same_spec cfg cfg' \<longleftrightarrow> (\<exists>cs r ts. cfg' = cfg\<lparr>status_Conditions := cs, status_Remote := r, status_TunneledCIDRs := ts\<rparr>)"

lemma same_spec_updates [simp]:
  "same_spec cfg cfg" "same_spec cfg (cfg\<lparr>status_Conditions := cs\<rparr>)" "same_spec cfg (cfg\<lparr>status_Remote := r\<rparr>)"
  "same_spec cfg (cfg\<lparr>status_TunneledCIDRs := ts\<rparr>)"
  unfolding same_spec_def
  by (rule exI [of _ "status_Conditions cfg"] exI [of _ cs], rule exI [of _ "status_Remote cfg"] exI [of _ r],
      rule exI [of _ "status_TunneledCIDRs cfg"] exI [of _ ts], simp; fail)+

lemma same_spec_select: "same_spec cfg cfg' \<Longrightarrow> selectSpecCIDRs cfg' ty = selectSpecCIDRs cfg ty"
  by (cases ty) (auto simp: same_spec_def)

lemma same_spec_trans: "same_spec a b \<Longrightarrow> same_spec b c \<Longrightarrow> same_spec a c"
  unfolding same_spec_def by (elim exE, intro exI) simp

lemma same_spec_write [simp]: "same_spec cfg (writeStatusForCIDRType cfg ty rs)"
  by (cases ty) simp_all

lemma status_of_write: "status_of (writeStatusForCIDRType cfg ty rs) ty' = (if ty' = ty then rs else status_of cfg ty')"
  by (cases ty; cases ty') (simp_all add: status_remote0_def)

section \<open>The operations\<close>

lemma networks_put:
  "networks_ok E view \<Longrightarrow> k_put (networks E) nw c = (Some nw', c') \<Longrightarrow>
     object_key nw' = object_key nw \<and> nw_CIDR nw' = nw_CIDR nw \<and>
     nw_StatusCIDR nw' = status_at (view c) (object_key nw) \<and> view c' = (view c)(object_key nw \<mapsto> nw')"
  unfolding networks_ok_def by blast

lemma EnsureNetwork_triple:
  assumes ok: "networks_ok E view"
  shows "triple (\<lambda>st. view (server st) = v) (EnsureNetwork E cfg ty s opts)
    (\<lambda>nw st. nw_StatusCIDR nw = status_at v (network_key cfg ty s) \<and>
       (\<exists>nw0. nw_CIDR nw0 = s \<and> nw_StatusCIDR nw0 = status_at v (network_key cfg ty s) \<and>
          view (server st) = v(network_key cfg ty s \<mapsto> nw0))) (\<lambda>_ _. True)"
  unfolding EnsureNetwork_def
proof (rule triple_CreateOrUpdate [where W = "\<lambda>g nw st. object_key nw = network_key cfg ty s \<and> nw_CIDR nw = s \<and>
    view (server st) = v \<and> (\<forall>t. g = Got t \<longrightarrow> v (network_key cfg ty s) = Some t)"])
  let ?ob = "blank_network (om_Namespace cfg) (ForgeNetworkName cfg ty s)" and ?k = "network_key cfg ty s"
  have k: "object_key ?ob = ?k" by (simp add: object_key_def blank_network_def)
  have mutate: "triple P (mutate_network E cfg ty s opts t)
      (\<lambda>nw st. object_key nw = ?k \<and> nw_CIDR nw = s \<and> view (server st) = v \<and> (\<forall>t. g = Got t \<longrightarrow> v ?k = Some t)) (\<lambda>_ _. True)"
    if "object_key t = ?k" "\<And>st. P st \<Longrightarrow> view (server st) = v \<and> (\<forall>t. g = Got t \<longrightarrow> v ?k = Some t)" for P t g
    using that by (auto simp: mutate_network_def Let_def object_key_def intro!: triples split: option.split)
  show "triple (\<lambda>st. view (server st) = v \<and> k_get (networks E) (object_key ?ob) (server st) = GetNotFound)
      (mutate_network E cfg ty s opts ?ob)
      (\<lambda>nw st. object_key nw = ?k \<and> nw_CIDR nw = s \<and> view (server st) = v \<and> (\<forall>t. GetNotFound = Got t \<longrightarrow> v ?k = Some t)) (\<lambda>_ _. True)"
    by (rule mutate) (simp_all add: k)
  show "triple (\<lambda>st. view (server st) = v \<and> k_get (networks E) (object_key ?ob) (server st) = Got t)
      (mutate_network E cfg ty s opts t)
      (\<lambda>nw st. object_key nw = ?k \<and> nw_CIDR nw = s \<and> view (server st) = v \<and> (\<forall>t'. Got t = Got t' \<longrightarrow> v ?k = Some t')) (\<lambda>_ _. True)" for t
  proof (cases "object_key t = ?k")
    case True
    then show ?thesis using ok by (intro mutate) (auto simp: k networks_ok_def)
  next
    case False
    then have "k_get (networks E) (object_key ?ob) c \<noteq> Got t" for c
      using ok unfolding networks_ok_def k by blast
    then show ?thesis by (simp add: triple_def)
  qed
  show "nw_StatusCIDR t' = status_at v ?k \<and> (\<exists>nw0. nw_CIDR nw0 = s \<and> nw_StatusCIDR nw0 = status_at v ?k \<and>
      view (server st) = v(?k \<mapsto> nw0))"
    if "object_key t' = ?k \<and> nw_CIDR t' = s \<and> view (server st) = v \<and> (\<forall>t''. Got t = Got t'' \<longrightarrow> v ?k = Some t'')"
      "same_object t' t" for t t' st
  proof -
    have u: "t'\<lparr>om_Labels := om_Labels t, om_Annotations := om_Annotations t\<rparr> = t" using that(2) by (simp add: same_object_def)
    have "nw_CIDR t = nw_CIDR t'" "nw_StatusCIDR t = nw_StatusCIDR t'"
      using arg_cong [OF u, of nw_CIDR] arg_cong [OF u, of nw_StatusCIDR] by simp_all
    moreover have "v ?k = Some t" using that(1) by blast
    ultimately show ?thesis using that(1) by (auto simp: status_at_def intro!: exI [of _ t])
  qed
  show "nw_StatusCIDR t' = status_at v ?k \<and> (\<exists>nw0. nw_CIDR nw0 = s \<and> nw_StatusCIDR nw0 = status_at v ?k \<and>
      view (server (st\<lparr>server := c\<rparr>)) = v(?k \<mapsto> nw0))"
    if "object_key t = ?k \<and> nw_CIDR t = s \<and> view (server st) = v \<and> (\<forall>t. g = Got t \<longrightarrow> v ?k = Some t)"
      "k_put (networks E) t (server st) = (Some t', c)" for g t t' st c
    using networks_put [OF ok that(2)] that(1) by (intro conjI exI [of _ t']) simp_all
qed (simp_all add: object_key_def)

lemma ensured_Cons:
  assumes "nw_CIDR nw = s" and "nw_StatusCIDR nw = status_at v (network_key cfg ty s)"
    and "ensured cfg ty ss (v(network_key cfg ty s \<mapsto> nw)) v'"
  shows "ensured cfg ty (s # ss) v v'"
proof -
  let ?k = "network_key cfg ty"
  have e: "\<forall>x \<in> set ss. \<exists>nw. v' (?k x) = Some nw \<and> nw_CIDR nw \<in> set ss \<and> ?k (nw_CIDR nw) = ?k x"
    "\<forall>k. status_at v' k = status_at (v(?k s \<mapsto> nw)) k" "\<forall>k. k \<notin> ?k ` set ss \<longrightarrow> v' k = (v(?k s \<mapsto> nw)) k"
    using assms(3) unfolding ensured_def by blast+
  have "\<exists>x. v' (?k s) = Some x \<and> nw_CIDR x \<in> set (s # ss) \<and> ?k (nw_CIDR x) = ?k s"
  proof (cases "?k s \<in> ?k ` set ss")
    case True
    then obtain s' where s': "s' \<in> set ss" "?k s = ?k s'" by (rule imageE)
    show ?thesis using bspec [OF e(1) s'(1)] unfolding s'(2) by auto
  next
    case False
    then have "v' (?k s) = Some nw" using e(3) by simp
    then show ?thesis using assms(1) by simp
  qed
  moreover have "status_at v' k = status_at v k" for k
    using spec [OF e(2), of k] assms(2) by (simp add: status_at_def split: if_splits)
  moreover have "v' k = v k" if "k \<notin> ?k ` set (s # ss)" for k
    using spec [OF e(3), of k] that by simp
  ultimately show ?thesis unfolding ensured_def using e(1) by (auto 0 3)
qed

lemma remapped_cong: "(\<And>k. status_at v k = status_at v' k) \<Longrightarrow> remapped cfg ty ss v = remapped cfg ty ss v'"
  by (simp add: remapped_def)

lemma ensure_networks_triple:
  fixes E :: "'c config_env"
  assumes "networks_ok E view"
  shows "triple (\<lambda>st. view (server st) = v) (ensure_networks E cfg ty ss)
    (\<lambda>rs st. rs = remapped cfg ty ss v \<and> ensured cfg ty ss v (view (server st))) (\<lambda>_ _. True)"
proof (induction ss arbitrary: v)
  case (Cons s ss)
  let ?v = "\<lambda>nw0. v(network_key cfg ty s \<mapsto> nw0)"
  have rest: "triple (\<lambda>st. nw_StatusCIDR nw = status_at v (network_key cfg ty s) \<and> (\<exists>nw0. nw_CIDR nw0 = s \<and>
        nw_StatusCIDR nw0 = status_at v (network_key cfg ty s) \<and> view (server st) = ?v nw0))
      (gbind (ensure_networks E cfg ty ss) (\<lambda>remapped. greturn
        (if ty = LabelCIDRTypeTunneled \<and> nw_StatusCIDR nw = [] then remapped else nw_StatusCIDR nw # remapped)))
      (\<lambda>rs st. rs = remapped cfg ty (s # ss) v \<and> ensured cfg ty (s # ss) v (view (server st))) (\<lambda>_ _. True)" for nw
    unfolding triple_def
  proof (intro allI impI, elim conjE exE)
    fix st :: "'c cst" and nw0
    assume a: "nw_StatusCIDR nw = status_at v (network_key cfg ty s)" "nw_CIDR nw0 = s"
      "nw_StatusCIDR nw0 = status_at v (network_key cfg ty s)" "view (server st) = ?v nw0"
    have "remapped cfg ty ss (?v nw0) = remapped cfg ty ss v" using a(3) by (intro remapped_cong) (simp add: status_at_def)
    moreover have "remapped cfg ty (s # ss) v =
        (if ty = LabelCIDRTypeTunneled \<and> nw_StatusCIDR nw = [] then remapped cfg ty ss v
         else nw_StatusCIDR nw # remapped cfg ty ss v)"
      using a(1) by (simp add: remapped_def Let_def)
    ultimately show "case gbind (ensure_networks E cfg ty ss) (\<lambda>remapped. greturn
        (if ty = LabelCIDRTypeTunneled \<and> nw_StatusCIDR nw = [] then remapped else nw_StatusCIDR nw # remapped)) st of
        (Ok x, st') \<Rightarrow> x = remapped cfg ty (s # ss) v \<and> ensured cfg ty (s # ss) v (view (server st'))
      | (Err e, st') \<Rightarrow> True | (Panic, st') \<Rightarrow> True"
      using Cons [of "?v nw0", unfolded triple_def, THEN spec, THEN mp, OF a(4)] ensured_Cons [OF a(2,3)]
      by (auto simp: gbind_def greturn_def split: prod.splits res.splits)
  qed
  show ?case unfolding ensure_networks.simps by (rule triple_bind [OF EnsureNetwork_triple [OF assms] rest])
qed (auto intro!: triples simp: remapped_def ensured_def)

text \<open>Without an unwanted network nothing is deleted.\<close>

lemma delete_orphans_triple:
  "triple (\<lambda>s. s = st) (delete_orphans E cfg ty desired pending nws)
     (\<lambda>p s. (p \<longleftrightarrow> pending \<or> (\<exists>nw\<in>set nws. \<not> desired_network cfg ty desired nw)) \<and>
        ((\<forall>nw\<in>set nws. desired_network cfg ty desired nw) \<longrightarrow> s = st)) (\<lambda>_ _. True)"
proof (induction nws arbitrary: pending st)
  case (Cons nw nws)
  have "triple (\<lambda>s. s = st') (delete_orphans E cfg ty desired True nws) (\<lambda>p _. p) (\<lambda>_ _. True)" for st'
    by (rule triple_weaken [OF Cons [of st' True]]) simp_all
  then have t: "triple (\<lambda>_. True) (delete_orphans E cfg ty desired True nws) (\<lambda>p _. p) (\<lambda>_ _. True)"
    unfolding triple_def by simp
  then have "triple (\<lambda>s. s = st) (\<lambda>st. case k_delete (networks E) nw (server st) of
        (DeleteFailed, c) \<Rightarrow> (Err DeletionFailed, st\<lparr>server := c\<rparr>)
      | (_, c) \<Rightarrow> delete_orphans E cfg ty desired True nws (st\<lparr>server := c\<rparr>)) (\<lambda>p _. p) (\<lambda>_ _. True)"
    by (auto simp: triple_def split: prod.splits deleted.splits)
  moreover have "triple (\<lambda>s. s = st) (delete_orphans E cfg ty desired True nws) (\<lambda>p _. p) (\<lambda>_ _. True)"
    by (rule triple_weaken [OF t]) simp_all
  ultimately show ?case using Cons [of st pending] by auto
qed (auto intro!: triples)

lemma DeleteOrphanNetworks_triple:
  "triple (\<lambda>s. s = st) (DeleteOrphanNetworks E cfg ty (selectSpecCIDRs cfg ty))
     (\<lambda>p s. (p \<longleftrightarrow> orphaned E cfg ty (server st)) \<and> (\<not> p \<longrightarrow> s = st)) (\<lambda>_ _. True)"
proof -
  have "triple (\<lambda>s. s = st) (delete_orphans E cfg ty (selectSpecCIDRs cfg ty) False nws)
      (\<lambda>p s. (p \<longleftrightarrow> orphaned E cfg ty (server st)) \<and> (\<not> p \<longrightarrow> s = st)) (\<lambda>_ _. True)"
    if "ForgeNetworkLabel cfg ty = Some ls"
      "k_list (networks E) (\<lambda>nw. om_Namespace nw = om_Namespace cfg \<and> has_labels ls nw) (server st) = Some nws" for ls nws
    by (rule triple_weaken [OF delete_orphans_triple]) (use that in \<open>auto simp: orphaned_def\<close>)
  then show ?thesis
    unfolding DeleteOrphanNetworks_def triple_def by (auto split: option.splits)
qed

text \<open>One proof of the two steps of \<open>remapCIDRType\<close>, for whatever is known of the second one.\<close>

lemma remapCIDRType_cases:
  assumes "triple (\<lambda>s. s = st) (ensure_networks E cfg ty (selectSpecCIDRs cfg ty)) Q (\<lambda>_ _. True)"
  shows "triple (\<lambda>s. s = st) (remapCIDRType E ty cfg)
    (\<lambda>cfg' st'. if orphaned E cfg ty (server st) then cfg' = cfg
              else \<exists>rs. cfg' = writeStatusForCIDRType cfg ty rs \<and> Q rs st') (\<lambda>_ _. True)"
proof -
  have w: "triple (\<lambda>s. s = st) (gbind (ensure_networks E cfg ty (selectSpecCIDRs cfg ty))
      (\<lambda>rs. greturn (writeStatusForCIDRType cfg ty rs)))
    (\<lambda>cfg' st'. \<exists>rs. cfg' = writeStatusForCIDRType cfg ty rs \<and> Q rs st') (\<lambda>_ _. True)"
    by (rule triple_bind [OF assms]) (auto intro!: triples)
  have "triple (\<lambda>s. (p \<longleftrightarrow> orphaned E cfg ty (server st)) \<and> (\<not> p \<longrightarrow> s = st))
      (if p then greturn cfg else gbind (ensure_networks E cfg ty (selectSpecCIDRs cfg ty))
        (\<lambda>rs. greturn (writeStatusForCIDRType cfg ty rs)))
    (\<lambda>cfg' st'. if orphaned E cfg ty (server st) then cfg' = cfg
              else \<exists>rs. cfg' = writeStatusForCIDRType cfg ty rs \<and> Q rs st') (\<lambda>_ _. True)" for p
  proof (cases p)
    case False
    show ?thesis
    proof (cases "orphaned E cfg ty (server st)")
      case True
      then show ?thesis using False by (simp add: triple_def)
    next
      case other: False
      show ?thesis using False other triple_weaken [OF w] by simp
    qed
  qed (auto intro!: triples)
  then show ?thesis
    unfolding remapCIDRType_def Let_def by (rule triple_bind [OF DeleteOrphanNetworks_triple])
qed

lemma remapCIDRType_triple:
  assumes "networks_ok E view"
  shows "triple (\<lambda>s. s = st) (remapCIDRType E ty cfg)
    (\<lambda>cfg' st'. if orphaned E cfg ty (server st) then cfg' = cfg
       else same_spec cfg cfg' \<and> status_of cfg' ty = remapped cfg ty (selectSpecCIDRs cfg ty) (view (server st)) \<and>
         (\<forall>ty'. ty' \<noteq> ty \<longrightarrow> status_of cfg' ty' = status_of cfg ty') \<and>
         ensured cfg ty (selectSpecCIDRs cfg ty) (view (server st)) (view (server st'))) (\<lambda>_ _. True)"
proof -
  have "triple (\<lambda>s. s = st) (ensure_networks E cfg ty (selectSpecCIDRs cfg ty))
      (\<lambda>rs st'. rs = remapped cfg ty (selectSpecCIDRs cfg ty) (view (server st)) \<and>
        ensured cfg ty (selectSpecCIDRs cfg ty) (view (server st)) (view (server st'))) (\<lambda>_ _. True)"
    by (rule triple_weaken [OF ensure_networks_triple [OF assms, of "view (server st)"]]) simp_all
  from remapCIDRType_cases [OF this] show ?thesis
    by (rule triple_weaken) (auto simp: status_of_write split: if_splits)
qed

text \<open>What holds of any server.\<close>

lemma remapCIDRType_frame:
  assumes "remapCIDRType E ty cfg st = (Ok cfg', st')"
  shows "same_spec cfg cfg'" and "ty' \<noteq> ty \<Longrightarrow> status_of cfg' ty' = status_of cfg ty'"
    and "orphaned E cfg ty (server st) \<Longrightarrow> cfg' = cfg"
  using tripleD [OF remapCIDRType_cases [OF triple_any] refl assms]
  by (auto simp: status_of_write split: if_splits)

text \<open>The condition tells whether the status is complete.\<close>

lemma configured_iff_complete:
  assumes "conditions_ok E"
  shows "AreConfigurationNetworkCIDRsConfigured (findCondition E) (setConfigurationConditions E cfg) \<longleftrightarrow>
         isRemapComplete (setConfigurationConditions E cfg)"
proof -
  have "NetworkCIDRsConfigured \<noteq> TunneledCIDRsConfigured"
    by (simp add: NetworkCIDRsConfigured_def TunneledCIDRsConfigured_def)
  then have "findCondition E (status_Conditions (setConfigurationConditions E cfg)) NetworkCIDRsConfigured = Some (network_condition cfg)"
    using assms by (simp add: conditions_ok_def setConfigurationConditions_def tunneled_condition_def network_condition_def Let_def)
  moreover have "isRemapComplete (setConfigurationConditions E cfg) = isRemapComplete cfg"
    by (cases "status_Remote cfg") (simp_all add: isRemapComplete_def setConfigurationConditions_def)
  ultimately show ?thesis
    by (simp add: AreConfigurationNetworkCIDRsConfigured_def network_condition_def Let_def setConfigurationConditions_def)
qed

lemma reconcile_status_conditions:
  assumes "reconcile_status E cfg st = (Ok cfg', st')"
  shows "\<exists>cfg3. cfg' = setConfigurationConditions E cfg3"
proof -
  have "triple (\<lambda>_. True) (reconcile_status E cfg) (\<lambda>cfg' _. \<exists>cfg3. cfg' = setConfigurationConditions E cfg3) (\<lambda>_ _. True)"
    unfolding reconcile_status_def by (intro triple_bind [OF triple_any] triple_return) blast
  from tripleD [OF this TrueI assms] show ?thesis by simp
qed

lemma gbind_Ok: "gbind f g st = (Ok y, st'') \<longleftrightarrow> (\<exists>x st'. f st = (Ok x, st') \<and> g x st' = (Ok y, st''))"
  by (auto simp: gbind_def split: prod.splits res.splits)

text \<open>While an unwanted pod network is listed, a reconciliation keeps the status of the pod CIDRs.\<close>

lemma reconcile_status_orphaned:
  assumes loc: "spec_Local cfg \<noteq> None" and orph: "orphaned E cfg LabelCIDRTypePod (server st)"
    and run: "reconcile_status E cfg st = (Ok cfg', st')"
  shows "same_spec cfg cfg' \<and> status_of cfg' LabelCIDRTypePod = status_of cfg LabelCIDRTypePod"
proof -
  obtain cfg1 cfg2 cfg3 st1 st2 st3 where r: "remapCIDRType E LabelCIDRTypePod cfg st = (Ok cfg1, st1)"
      "remapCIDRType E LabelCIDRTypeExternal cfg1 st1 = (Ok cfg2, st2)"
      "remapCIDRType E LabelCIDRTypeTunneled cfg2 st2 = (Ok cfg3, st3)"
    and cfg': "cfg' = setConfigurationConditions E cfg3"
    using run loc
    by (auto simp: reconcile_status_def RemapConfiguration_def LabelCIDRTypeValues_def reserveTunneledCIDRs_def gbind_Ok greturn_def)
  have "cfg1 = cfg" by (rule remapCIDRType_frame(3) [OF r(1) orph])
  moreover have "same_spec cfg1 cfg3"
    by (rule same_spec_trans [OF remapCIDRType_frame(1) [OF r(2)] remapCIDRType_frame(1) [OF r(3)]])
  moreover have "same_spec cfg3 cfg'" unfolding cfg' by (simp add: setConfigurationConditions_def)
  moreover have "status_of cfg' LabelCIDRTypePod = status_of cfg1 LabelCIDRTypePod"
    using remapCIDRType_frame(2) [OF r(2), of LabelCIDRTypePod] remapCIDRType_frame(2) [OF r(3), of LabelCIDRTypePod]
    by (simp add: cfg' setConfigurationConditions_def status_remote0_def)
  ultimately show ?thesis using same_spec_trans by auto
qed

lemma complete_lengths:
  assumes "isRemapComplete cfg"
  obtains r where "status_Remote cfg = Some r" and "length (cc_Pod r) = length (cc_Pod (spec_Remote cfg))"
    and "length (cc_External r) = length (cc_External (spec_Remote cfg))"
  using assms by (auto simp: isRemapComplete_def split: option.splits if_splits)

end
