(* ===== verification/AddressMapping.thy ===== *)
theory AddressMapping
  imports ConfigApi GoIP
begin

text \<open>
  The translation of an address of a remote cluster into the address under which the local cluster
  sees it (\<open>pkg/utils/ipam/mapping/ips.go\<close>): the address keeps its host part and gets the network
  part that the IPAM has chosen. A panic is \<open>None\<close> or \<open>Panic\<close>.
\<close>

unbundle bit_operations_syntax

datatype map_error = NotRemapped | InvalidIP string | InvalidSpecCIDR string | InvalidStatusCIDR string
  | ListConfigurationsFailed | ConfigurationNotFound | ManyConfigurations | IncompleteConfiguration | NoPodCIDR string

section \<open>One address and one network\<close>

definition be_uint64 :: "bytes \<Rightarrow> 64 word" where
  "be_uint64 bs = word_of_nat (be_val (take 8 bs))"

text \<open>
  The conversions of \<open>encoding/binary\<close> panic on a slice that is too short; a \<open>nil\<close> address is one. The
  masks are as long as the addresses of their networks, or the result is a panic as well.
\<close>

definition RemapMask :: "bytes \<Rightarrow> IPNet \<Rightarrow> bytes option" where
  "RemapMask addr msk =
     (if length (net_IP msk) = 4
      then (case ip_To4 addr of
              None \<Rightarrow> None
            | Some a \<Rightarrow>
                if length (net_Mask msk) < 4 then None
                else (let hostBin = be_uint32 a AND NOT (be_uint32 (net_Mask msk))
                      in Some (be_bytes 4 (be_uint32 (net_IP msk) OR hostBin))))
      else if length (net_IP msk) = 16
      then (let a = ip_To16 addr
            in if length a < 16 \<or> length (net_Mask msk) < 16 then None
               else (let hostBin1 = be_uint64 (take 8 a) AND NOT (be_uint64 (take 8 (net_Mask msk)));
                         hostBin2 = be_uint64 (drop 8 a) AND NOT (be_uint64 (drop 8 (net_Mask msk)));
                         result1 = be_uint64 (take 8 (net_IP msk)) OR hostBin1;
                         result2 = be_uint64 (drop 8 (net_IP msk)) OR hostBin2
                     in Some (be_bytes 8 result1 @ be_bytes 8 result2)))
      else Some [])"

section \<open>The networks of a configuration\<close>

text \<open>The loop over \<open>spec\<close>; \<open>status[i]\<close> panics when \<open>status\<close> is shorter.\<close>

fun remapWithin :: "bytes \<Rightarrow> string \<Rightarrow> string list \<Rightarrow> string list \<Rightarrow> (map_error, string option) res" where
  "remapWithin ip address [] status = Ok None"
| "remapWithin ip address (s # spec) status =
     (case ParseCIDR s of
        None \<Rightarrow> Err (InvalidSpecCIDR s)
      | Some (_, specNet) \<Rightarrow>
          if \<not> net_Contains specNet ip then remapWithin ip address spec (tl status)
          else (case status of
                  [] \<Rightarrow> Panic
                | t # _ \<Rightarrow>
                    if s = t then Ok (Some address)
                    else (case ParseCIDR t of
                            None \<Rightarrow> Err (InvalidStatusCIDR t)
                          | Some (_, statusNet) \<Rightarrow>
                              (case RemapMask ip statusNet of
                                 None \<Rightarrow> Panic
                               | Some r \<Rightarrow> Ok (Some (ip_String r))))))"

definition MapAddressWithConfiguration ::
  "(Condition list \<Rightarrow> string \<Rightarrow> Condition option) \<Rightarrow> Configuration option \<Rightarrow> string \<Rightarrow> (map_error, string) res" where
  "MapAddressWithConfiguration findCondition p address =
     (case p of
        None \<Rightarrow> Err NotRemapped
      | Some cfg \<Rightarrow>
          if \<not> AreConfigurationNetworkCIDRsConfigured findCondition cfg then Err NotRemapped
          else (let ip = ip_Parse address
                in if ip = [] then Err (InvalidIP address)
                   else res_bind (deref (status_Remote cfg)) (\<lambda>remote.
                     res_bind (remapWithin ip address (cc_Pod (spec_Remote cfg)) (cc_Pod remote)) (\<lambda>r.
                       case r of
                         Some podAddr \<Rightarrow> Ok podAddr
                       | None \<Rightarrow>
                           res_bind (remapWithin ip address (cc_External (spec_Remote cfg)) (cc_External remote)) (\<lambda>r.
                             case r of Some extAddr \<Rightarrow> Ok extAddr | None \<Rightarrow> Ok address)))))"

text \<open>
  \<open>GetConfigurationByClusterID\<close> of \<open>pkg/utils/getters\<close>: the list of the configurations with the label
  of the cluster is an argument, \<open>None\<close> if the call fails.
\<close>

definition GetConfigurationByClusterID :: "Configuration list option \<Rightarrow> (map_error, Configuration) res" where
  "GetConfigurationByClusterID items =
     (case items of
        None \<Rightarrow> Err ListConfigurationsFailed
      | Some [] \<Rightarrow> Err ConfigurationNotFound
      | Some [cfg] \<Rightarrow> Ok cfg
      | Some _ \<Rightarrow> Err ManyConfigurations)"

definition MapAddress ::
  "(Condition list \<Rightarrow> string \<Rightarrow> Condition option) \<Rightarrow> Configuration list option \<Rightarrow> string \<Rightarrow> (map_error, string) res" where
  "MapAddress findCondition items address =
     res_bind (GetConfigurationByClusterID items) (\<lambda>cfg. MapAddressWithConfiguration findCondition (Some cfg) address)"

definition ForceMapAddressWithConfiguration :: "Configuration list option \<Rightarrow> string \<Rightarrow> (map_error, string) res" where
  "ForceMapAddressWithConfiguration items address =
     (let addr = ip_Parse address
      in res_bind (GetConfigurationByClusterID items) (\<lambda>cfg.
           case status_Remote cfg of
             None \<Rightarrow> Err IncompleteConfiguration
           | Some remote \<Rightarrow>
               res_bind (remapWithin addr address (cc_Pod (spec_Remote cfg)) (cc_Pod remote)) (\<lambda>r.
                 case r of None \<Rightarrow> Err (NoPodCIDR (ip_String addr)) | Some remapped \<Rightarrow> Ok remapped)))"

end
