(* ===== verification/MappingSpec.thy ===== *)
theory MappingSpec
  imports AddressMapping
begin

text \<open>
  The translation of IPv4 addresses against its specification on numbers: \<open>in_network\<close> says that an
  address is in a network, \<open>moved\<close> is the address of a network with the host part of another one, and
  \<open>map4\<close> is the translation along a list of pairs of networks.
\<close>

unbundle bit_operations_syntax

definition in_network :: "32 word \<times> nat \<Rightarrow> 32 word \<Rightarrow> bool" where
  "in_network wn v \<longleftrightarrow> unat v div 2 ^ (32 - snd wn) = unat (fst wn) div 2 ^ (32 - snd wn)"

definition moved :: "32 word \<times> nat \<Rightarrow> 32 word \<Rightarrow> 32 word" where
  "moved wn v =
     word_of_nat (unat (fst wn) div 2 ^ (32 - snd wn) * 2 ^ (32 - snd wn) + unat v mod 2 ^ (32 - snd wn))"

definition pair_of :: "(string \<Rightarrow> 32 word \<times> nat) \<Rightarrow> (string \<times> string) list \<Rightarrow> 32 word \<Rightarrow> (string \<times> string) option" where
  "pair_of nets ps v = find (\<lambda>(s, t). in_network (nets s) v) ps"

definition target :: "(string \<Rightarrow> 32 word \<times> nat) \<Rightarrow> string \<Rightarrow> 32 word \<Rightarrow> string \<times> string \<Rightarrow> string" where
  "target nets address v = (\<lambda>(s, t). if s = t then address else text4 (be_bytes 4 (moved (nets t) v)))"

definition map4 :: "(string \<Rightarrow> 32 word \<times> nat) \<Rightarrow> (string \<times> string) list \<Rightarrow> string \<Rightarrow> 32 word \<Rightarrow> string" where
  "map4 nets ps address v = (case pair_of nets ps v of None \<Rightarrow> address | Some p \<Rightarrow> target nets address v p)"

text \<open>The texts are IPv4 networks: \<open>nets\<close> gives what they stand for.\<close>

definition cidrs_V4 :: "(string \<Rightarrow> 32 word \<times> nat) \<Rightarrow> string list \<Rightarrow> bool" where
  "cidrs_V4 nets ss \<longleftrightarrow>
     (\<forall>s\<in>set ss. ParseCIDR s = Some (As16 (V4 (fst (nets s))), ip_net (V4 (fst (nets s))) (snd (nets s))) \<and> snd (nets s) \<le> 32)"

lemma cidrs_V4_append: "cidrs_V4 nets (ss @ ts) \<longleftrightarrow> cidrs_V4 nets ss \<and> cidrs_V4 nets ts"
  by (auto simp: cidrs_V4_def)

section \<open>Words\<close>

lemma moved_word: "moved (w, n) v = w AND prefix_mask n OR v AND NOT (prefix_mask n)"
proof -
  let ?k = "32 - n"
  have m: "w AND prefix_mask n = push_bit ?k (drop_bit ?k w)"
    by (rule bit_word_eqI) (auto simp: prefix_mask_def bit_simps)
  have h: "v AND NOT (prefix_mask n) = take_bit ?k v"
    by (rule bit_word_eqI) (auto simp: prefix_mask_def bit_simps)
  have "push_bit ?k (drop_bit ?k w) AND take_bit ?k v = 0"
    by (rule bit_word_eqI) (auto simp: bit_simps)
  then have o: "push_bit ?k (drop_bit ?k w) OR take_bit ?k v = push_bit ?k (drop_bit ?k w) + take_bit ?k v"
    by (rule disjunctive_add_eq_or [symmetric])
  have p: "word_of_nat (unat w div 2 ^ ?k) * 2 ^ ?k = push_bit ?k (drop_bit ?k w)"
    unfolding unat_drop_bit [of ?k w, symmetric] by (simp add: push_bit_eq_mult)
  have t: "word_of_nat (unat v mod 2 ^ ?k) = take_bit ?k v"
  proof -
    have "unat v mod 2 ^ ?k = unat (take_bit ?k v)" unfolding unsigned_take_bit_eq by (simp only: take_bit_eq_mod)
    then show ?thesis by (simp only: of_nat_unat ucast_id)
  qed
  show ?thesis unfolding m h o moved_def by (simp add: p t)
qed

lemma in_network_word: "in_network (w, n) v \<longleftrightarrow> v AND prefix_mask n = w AND prefix_mask n"
  unfolding in_network_def same_network by simp

lemma in_network_moved: "in_network (w, n) (moved (w, n) v)"
  unfolding in_network_word moved_word by (rule bit_word_eqI) (auto simp: bit_simps)

lemma moved_moved: "in_network (w, n) v \<Longrightarrow> moved (w, n) (moved (x, n) v) = v"
  unfolding in_network_word moved_word
proof (rule bit_word_eqI)
  fix i
  assume e: "v AND prefix_mask n = w AND prefix_mask n"
  show "bit (w AND prefix_mask n OR (x AND prefix_mask n OR v AND NOT (prefix_mask n)) AND NOT (prefix_mask n)) i \<longleftrightarrow> bit v i"
    if "i < LENGTH(32)"
    unfolding e [symmetric] using that by (auto simp: bit_simps)
qed

section \<open>The operations\<close>

lemma RemapMask_V4:
  assumes "ip_To4 ip = Some (be_bytes 4 v)"
  shows "RemapMask ip (ip_net (V4 w) n) = Some (be_bytes 4 (moved (w, n) v))"
  using assms by (simp add: RemapMask_def moved_word Let_def be_uint32_be_bytes)

lemma remapWithin_V4:
  assumes "ip_To4 ip = Some (be_bytes 4 v)" and "cidrs_V4 nets spec" and "cidrs_V4 nets status"
    and "length status = length spec"
  shows "remapWithin ip address spec status = Ok (map_option (target nets address v) (pair_of nets (zip spec status) v))"
  using assms(4,2,3)
proof (induction status spec rule: list_induct2)
  case (Cons t status s spec)
  have s: "ParseCIDR s = Some (As16 (V4 (fst (nets s))), ip_net (V4 (fst (nets s))) (snd (nets s)))"
    and t: "ParseCIDR t = Some (As16 (V4 (fst (nets t))), ip_net (V4 (fst (nets t))) (snd (nets t)))"
    using Cons.prems by (simp_all add: cidrs_V4_def del: ip_net.simps As16.simps)
  have c: "net_Contains (ip_net (V4 (fst (nets s))) (snd (nets s))) ip \<longleftrightarrow> in_network (nets s) v"
    unfolding net_Contains_V4 assms(1) option.inject be_bytes_4_eq using in_network_word [of "fst (nets s)" "snd (nets s)" v] by auto
  have i: "remapWithin ip address spec status = Ok (map_option (target nets address v) (pair_of nets (zip spec status) v))"
    using Cons by (simp add: cidrs_V4_def)
  have "ip_String (be_bytes 4 (moved (nets t) v)) = text4 (be_bytes 4 (moved (nets t) v))"
    by (rule ip_String_To4) simp
  then show ?case
    using RemapMask_V4 [OF assms(1), of "fst (nets t)" "snd (nets t)"]
    by (simp add: s t c i pair_of_def target_def del: ip_net.simps As16.simps)
qed (simp add: pair_of_def)

lemma pair_of_append:
  "pair_of nets (ps @ qs) v = (case pair_of nets ps v of None \<Rightarrow> pair_of nets qs v | Some p \<Rightarrow> Some p)"
  by (induction ps) (auto simp: pair_of_def)

lemma ip_Parse_V4:
  assumes "ParseAddr address = Some (V4 v)"
  shows "ip_To4 (ip_Parse address) = Some (be_bytes 4 v)" and "ip_Parse address \<noteq> []"
proof -
  have e: "ip_Parse address = be_bytes 16 (As16 (V4 v))"
    unfolding ip_Parse_def ParseIP_def assms by (simp del: As16.simps)
  then show "ip_To4 (ip_Parse address) = Some (be_bytes 4 v)" by (simp add: ip_To4_16 del: As16.simps)
  show "ip_Parse address \<noteq> []" unfolding e by (metis length_be_bytes list.size(3) zero_neq_numeral)
qed

lemma MapAddress_V4:
  assumes "AreConfigurationNetworkCIDRsConfigured findCondition cfg" and "status_Remote cfg = Some remote"
    and "length (cc_Pod remote) = length (cc_Pod (spec_Remote cfg))"
    and "length (cc_External remote) = length (cc_External (spec_Remote cfg))"
    and "cidrs_V4 nets (cc_Pod (spec_Remote cfg) @ cc_External (spec_Remote cfg) @ cc_Pod remote @ cc_External remote)"
    and "ParseAddr address = Some (V4 v)"
  shows "MapAddressWithConfiguration findCondition (Some cfg) address =
    Ok (map4 nets (zip (cc_Pod (spec_Remote cfg)) (cc_Pod remote) @
                   zip (cc_External (spec_Remote cfg)) (cc_External remote)) address v)"
proof -
  note c = assms(5) [unfolded cidrs_V4_append]
  have p: "remapWithin (ip_Parse address) address (cc_Pod (spec_Remote cfg)) (cc_Pod remote) =
      Ok (map_option (target nets address v) (pair_of nets (zip (cc_Pod (spec_Remote cfg)) (cc_Pod remote)) v))"
    using remapWithin_V4 [OF ip_Parse_V4(1) [OF assms(6)] _ _ assms(3)] c by blast
  have e: "remapWithin (ip_Parse address) address (cc_External (spec_Remote cfg)) (cc_External remote) =
      Ok (map_option (target nets address v) (pair_of nets (zip (cc_External (spec_Remote cfg)) (cc_External remote)) v))"
    using remapWithin_V4 [OF ip_Parse_V4(1) [OF assms(6)] _ _ assms(4)] c by blast
  show ?thesis
    using assms(1,2) ip_Parse_V4(2) [OF assms(6)]
    by (simp add: MapAddressWithConfiguration_def Let_def p e map4_def pair_of_append split: option.split)
qed

section \<open>There and back\<close>

lemma find_nth_unique:
  assumes "i < length xs" and "P (xs ! i)" and "\<And>j. j < length xs \<Longrightarrow> P (xs ! j) \<Longrightarrow> j = i"
  shows "find P xs = Some (xs ! i)"
  using assms unfolding find_Some_iff by (metis less_imp_neq less_trans)

definition disjoint_nets :: "(string \<Rightarrow> 32 word \<times> nat) \<Rightarrow> string list \<Rightarrow> bool" where
  "disjoint_nets nets ts \<longleftrightarrow>
     (\<forall>i<length ts. \<forall>j<length ts. \<forall>u. in_network (nets (ts ! i)) u \<longrightarrow> in_network (nets (ts ! j)) u \<longrightarrow> i = j)"

lemma pair_of_back:
  assumes "disjoint_nets nets status" and "length status = length spec" and "i < length spec" and "in_network (nets (status ! i)) u"
  shows "pair_of nets (zip status spec) u = Some (status ! i, spec ! i)"
proof -
  have "find (\<lambda>(s, t). in_network (nets s) u) (zip status spec) = Some (zip status spec ! i)"
    using assms unfolding disjoint_nets_def by (intro find_nth_unique) auto
  then show ?thesis using assms(2,3) by (simp add: pair_of_def)
qed

lemma remapWithin_back:
  fixes v :: "32 word"
  assumes "cidrs_V4 nets spec" and "cidrs_V4 nets status" and "length status = length spec"
    and "\<And>i. i < length spec \<Longrightarrow> snd (nets (status ! i)) = snd (nets (spec ! i))" and "disjoint_nets nets status"
    and "remapWithin (ip_Parse (text4 (be_bytes 4 v))) (text4 (be_bytes 4 v)) spec status = Ok (Some b)"
  shows "remapWithin (ip_Parse b) b status spec = Ok (Some (text4 (be_bytes 4 v)))"
proof -
  let ?a = "text4 (be_bytes 4 v)"
  have t: "ip_To4 (ip_Parse (text4 (be_bytes 4 u))) = Some (be_bytes 4 u)" for u :: "32 word"
    by (rule ip_Parse_text4) simp
  obtain i where i: "i < length spec" "in_network (nets (spec ! i)) v" and b: "b = target nets ?a v (spec ! i, status ! i)"
    using assms(6) remapWithin_V4 [OF t assms(1,2,3)] assms(3) by (auto simp: pair_of_def find_Some_iff)
  have n: "nets (status ! i) = (fst (nets (status ! i)), snd (nets (spec ! i)))" using assms(4) [OF i(1)] by (simp add: prod_eq_iff)
  have s: "nets (spec ! i) = (fst (nets (spec ! i)), snd (nets (spec ! i)))" by simp
  define u where "u = (if spec ! i = status ! i then v else moved (nets (status ! i)) v)"
  have "b = text4 (be_bytes 4 u)" using b by (auto simp: target_def u_def)
  moreover have "in_network (nets (status ! i)) u"
    unfolding u_def using i(2) in_network_moved [of "fst (nets (status ! i))" "snd (nets (status ! i))"] by auto
  ultimately have "remapWithin (ip_Parse b) b status spec = Ok (Some (target nets b u (status ! i, spec ! i)))"
    using remapWithin_V4 [OF t assms(2,1) assms(3) [symmetric]] pair_of_back [OF assms(5,3) i(1)] by simp
  moreover have "target nets b u (status ! i, spec ! i) = ?a"
    using moved_moved [of "fst (nets (spec ! i))" "snd (nets (spec ! i))" v "fst (nets (status ! i))"] i(2) b n
    by (auto simp: target_def u_def)
  ultimately show ?thesis by simp
qed

section \<open>A status that is too short\<close>

lemma remapWithin_short:
  assumes "ip_To4 ip = Some (be_bytes 4 v)" and "cidrs_V4 nets (ss @ [s])" and "length status \<le> length ss"
    and "\<And>x. x \<in> set ss \<Longrightarrow> \<not> in_network (nets x) v" and "in_network (nets s) v"
  shows "remapWithin ip address (ss @ s # rest) status = Panic"
proof -
  have c: "net_Contains (ip_net (V4 (fst (nets x))) (snd (nets x))) ip \<longleftrightarrow> in_network (nets x) v" for x
    unfolding net_Contains_V4 assms(1) option.inject be_bytes_4_eq
    using in_network_word [of "fst (nets x)" "snd (nets x)" v] by auto
  show ?thesis
    using assms(2-4)
  proof (induction ss arbitrary: status)
    case Nil
    then show ?case using assms(5) c [of s] by (simp add: cidrs_V4_def del: ip_net.simps As16.simps)
  next
    case (Cons x ss)
    then show ?case using c [of x] by (simp add: cidrs_V4_def del: ip_net.simps As16.simps)
  qed
qed

end
