(* ===== verification/ConfigProps.thy ===== *)
theory ConfigProps
  imports ConfigSpec MappingSpec
begin

text \<open>
  Properties of the remapping of the networks of a remote cluster: the status that the controller
  writes, the translation of addresses with it, and a window in which the two do not fit.
\<close>

section \<open>An instance of the libraries and of the API server\<close>

record store =
  st_networks :: "(objkey, Network) gomap"
  st_firewalls :: "(objkey, FirewallObject) gomap"
  st_configurations :: "(objkey, Configuration) gomap"

definition part_kube :: "('s \<Rightarrow> 'c) \<Rightarrow> ('c \<Rightarrow> 's \<Rightarrow> 's) \<Rightarrow> ('c, 'o) kube \<Rightarrow> ('s, 'o) kube" where
  "part_kube srv upd K =
     \<lparr>k_get = (\<lambda>k s. k_get K k (srv s)), k_list = (\<lambda>P s. k_list K P (srv s)),
      k_put = (\<lambda>ob s. let (r, c) = k_put K ob (srv s) in (r, upd c s)),
      k_delete = (\<lambda>ob s. let (r, c) = k_delete K ob (srv s) in (r, upd c s))\<rparr>"

definition plain_globals_of :: "string \<Rightarrow> string \<Rightarrow> globals" where
  "plain_globals_of kind grp =
     \<lparr>globalLabels = [], globalAnnotations = [], objectKind = Some (kind, grp),
      rangeOrder = (\<lambda>_ vars. vars), setControllerReference = (\<lambda>uid owners. Some [uid])\<rparr>"

text \<open>A write of a network keeps the status that is stored.\<close>

definition network_kube :: "((objkey, Network) gomap, Network) kube" where
  "network_kube = (store_kube object_key [])\<lparr>k_put := (\<lambda>nw c.
     k_put (store_kube object_key []) (nw\<lparr>nw_StatusCIDR := status_at (store_view object_key c) (object_key nw)\<rparr>) c)\<rparr>"

definition store_env :: "store config_env" where
  "store_env =
     \<lparr>networks = part_kube st_networks (\<lambda>c s. s\<lparr>st_networks := c\<rparr>) network_kube,
      firewalls = part_kube st_firewalls (\<lambda>c s. s\<lparr>st_firewalls := c\<rparr>) (store_kube object_key []),
      getConfiguration = (\<lambda>k s. case map_of (st_configurations s) k of None \<Rightarrow> GetNotFound | Some cfg \<Rightarrow> Got cfg),
      updateConfiguration = (\<lambda>cfg s. let cfg' = cfg\<lparr>cfg_Generation := cfg_Generation cfg + 1\<rparr>
         in (Some cfg', s\<lparr>st_configurations := put (object_key cfg) cfg' (st_configurations s)\<rparr>)),
      updateStatus = (\<lambda>cfg s. (Some cfg, s\<lparr>st_configurations := put (object_key cfg) cfg (st_configurations s)\<rparr>)),
      networkGlobals = plain_globals_of ''Network'' ''ipam.liqo.io'',
      firewallGlobals = plain_globals_of ''FirewallConfiguration'' ''networking.liqo.io'',
      findCondition = (\<lambda>cs ty. find (\<lambda>c. cond_Type c = ty) cs),
      setCondition = (\<lambda>cd cs. filter (\<lambda>c. cond_Type c \<noteq> cond_Type cd) cs @ [cd]),
      mergeLabels = (\<lambda>m n. fold (\<lambda>(k, v). put k v) n m)\<rparr>"

lemma find_filter_other: "t \<noteq> f cd \<Longrightarrow> find (\<lambda>c. f c = t) (filter (\<lambda>c. f c \<noteq> f cd) cs @ [cd]) = find (\<lambda>c. f c = t) cs"
  by (induction cs) auto

lemma find_filter_same: "find (\<lambda>c. f c = f cd) (filter (\<lambda>c. f c \<noteq> f cd) cs @ [cd]) = Some cd"
  by (induction cs) auto

lemma store_conditions_ok: "conditions_ok store_env"
  by (auto simp: conditions_ok_def store_env_def find_filter_other find_filter_same)

abbreviation stored_networks :: "store \<Rightarrow> objkey \<rightharpoonup> Network" where
  "stored_networks s \<equiv> store_view object_key (st_networks s)"

lemma store_networks_ok: "networks_ok store_env stored_networks"
  unfolding networks_ok_def store_env_def part_kube_def network_kube_def store_kube_def
  by (auto simp: Let_def store_view_def map_of_put object_key_def fun_eq_iff split: option.splits if_splits)

definition remote_cluster :: "string list \<Rightarrow> string list \<Rightarrow> ClusterConfigCIDR option \<Rightarrow> int \<Rightarrow> Configuration" where
  "remote_cluster pods exts status gen =
     \<lparr>om_Namespace = ''t'', om_Name = ''c'', om_Labels = [(RemoteClusterID, ''r'')], om_Annotations = [], om_Owners = [],
      cfg_UID = ''u'', cfg_Generation = gen, spec_Local = Some \<lparr>cc_Pod = [''10.1.0.0/16''], cc_External = [''10.70.0.0/16'']\<rparr>,
      spec_Remote = \<lparr>cc_Pod = pods, cc_External = exts\<rparr>, spec_TunneledCIDRs = [], status_Conditions = [],
      status_Remote = status, status_TunneledCIDRs = []\<rparr>"

definition remote_network :: "LabelCIDRTypeValue \<Rightarrow> string \<Rightarrow> string \<Rightarrow> string \<Rightarrow> objkey \<times> Network" where
  "remote_network ty name cidr status =
     ((''t'', name),
      \<lparr>om_Namespace = ''t'', om_Name = name,
       om_Labels = [(RemoteClusterID, ''r''), (LabelCIDRType, cidr_type_text ty)], om_Annotations = [], om_Owners = [''u''],
       nw_Finalizers = [], nw_Deleting = False, nw_CIDR = cidr, nw_PreAllocated = 0, nw_StatusCIDR = status\<rparr>)"

lemmas config_eval = Let_def
  gbind_def greturn_def gfail_def store_env_def part_kube_def network_kube_def store_kube_def store_view_def object_key_def
  status_at_def
  plain_globals_of_def remote_cluster_def remote_network_def reconcile_status_def RemapConfiguration_def
  LabelCIDRTypeValues_def remapCIDRType_def DeleteOrphanNetworks_def ForgeNetworkLabel_def desired_network_def
  ownedByConfiguration_def has_labels_def ForgeNetworkName_def EscapeForName_def EnsureNetwork_def mutate_network_def
  blank_network_def ensureNetworkOptions_def CreateOrUpdate_def add_globals_def buildVariablesMap_def same_object_def
  same_map_def status_remote0_def reserveTunneledCIDRs_def ensureTunneledMasquerade_def blank_firewall_def
  generateTunneledMasqueradeFirewallConfigurationName_def setConfigurationConditions_def network_condition_def
  tunneled_condition_def isRemapComplete_def isTunneledReservationComplete_def AllNonVoid_def has_key_def
  RemoteClusterID_def LabelCIDRType_def NetworkCIDRsConfigured_def TunneledCIDRsConfigured_def

section \<open>The status\<close>

text \<open>C20: \<open>remapCIDRType\<close> on a server whose reads are current. While the list of the networks of this kind
  has one that belongs to the configuration and is not wanted any more, the configuration is returned
  as it is. Otherwise the status list becomes, in the order of the specification, the CIDRs that the
  IPAM has written into the status of the networks of the server with the names for the CIDRs of the specification:
  for the pod and the external CIDRs one entry each, empty where there is none yet, and for the
  tunneled ones only those that are reserved. Afterwards the server has a network for each of these names with a CIDR
  of the specification of that name, and no other network and no status of a network has changed. The
  specification and the rest of the status of the configuration do not change.\<close>

theorem remap_status_exact:
  assumes "networks_ok E view" and "remapCIDRType E ty cfg st = (Ok cfg', st')"
  shows "if orphaned E cfg ty (server st) then cfg' = cfg
         else same_spec cfg cfg' \<and>
              status_of cfg' ty =
                (let rs = map (\<lambda>s. status_at (view (server st)) (om_Namespace cfg, ForgeNetworkName cfg ty s)) (selectSpecCIDRs cfg ty)
                 in if ty = LabelCIDRTypeTunneled then filter (\<lambda>r. r \<noteq> []) rs else rs) \<and>
              (\<forall>ty'. ty' \<noteq> ty \<longrightarrow> status_of cfg' ty' = status_of cfg ty') \<and>
              ensured cfg ty (selectSpecCIDRs cfg ty) (view (server st)) (view (server st'))"
  using tripleD [OF remapCIDRType_triple [OF assms(1)] refl assms(2)] by (simp add: remapped_def)

definition two_networks :: store where
  "two_networks =
     \<lparr>st_networks = [remote_network LabelCIDRTypePod ''c-pod-10-2-0-0-16'' ''10.2.0.0/16'' ''10.71.0.0/16'',
                     remote_network LabelCIDRTypePod ''c-pod-10-3-0-0-16'' ''10.3.0.0/16'' ''10.3.0.0/16''],
      st_firewalls = [], st_configurations = []\<rparr>"

theorem remap_status_exact_witness:
  "\<exists>cfg' st'. remapCIDRType store_env LabelCIDRTypePod (remote_cluster [''10.4.0.0/16'', ''10.3.0.0/16'', ''10.2.0.0/16''] [] None 1)
       \<lparr>localCIDR = None, server = two_networks\<rparr> = (Ok cfg', st') \<and>
     status_of cfg' LabelCIDRTypePod = [[], ''10.3.0.0/16'', ''10.71.0.0/16''] \<and>
     (\<exists>nw. stored_networks (server st') (''t'', ''c-pod-10-4-0-0-16'') = Some nw \<and> nw_CIDR nw = ''10.4.0.0/16'')"
proof -
  let ?cfg = "remote_cluster [''10.4.0.0/16'', ''10.3.0.0/16'', ''10.2.0.0/16''] [] None 1"
    and ?st = "\<lparr>localCIDR = None, server = two_networks\<rparr>"
  obtain cfg' st' where r: "remapCIDRType store_env LabelCIDRTypePod ?cfg ?st = (Ok cfg', st')"
    by (simp add: config_eval two_networks_def)
  have o: "\<not> orphaned store_env ?cfg LabelCIDRTypePod two_networks"
    by (simp add: orphaned_def config_eval two_networks_def)
  have n: "ForgeNetworkName ?cfg LabelCIDRTypePod ''10.4.0.0/16'' = ''c-pod-10-4-0-0-16''"
    "ForgeNetworkName ?cfg LabelCIDRTypePod ''10.3.0.0/16'' = ''c-pod-10-3-0-0-16''"
    "ForgeNetworkName ?cfg LabelCIDRTypePod ''10.2.0.0/16'' = ''c-pod-10-2-0-0-16''"
    "om_Namespace ?cfg = ''t''" "selectSpecCIDRs ?cfg LabelCIDRTypePod = [''10.4.0.0/16'', ''10.3.0.0/16'', ''10.2.0.0/16'']"
    by (simp_all add: config_eval)
  note e = remap_status_exact [OF store_networks_ok r]
  have "status_of cfg' LabelCIDRTypePod = [[], ''10.3.0.0/16'', ''10.71.0.0/16'']"
    using e o n by (simp add: two_networks_def remote_network_def status_at_def store_view_def object_key_def)
  moreover have "\<exists>nw. stored_networks (server st') (''t'', ''c-pod-10-4-0-0-16'') = Some nw \<and> nw_CIDR nw = ''10.4.0.0/16''"
    using e o n by (auto simp: ensured_def)
  ultimately show ?thesis using r by blast
qed

section \<open>The translation of addresses\<close>

text \<open>C18: The translation of an IPv4 address with a configuration that the controller has reconciled, whose
  CIDRs are IPv4 networks. While the status is incomplete the address is refused. With a complete
  status it never panics: the first network of the specification, pod networks before external ones,
  that contains the address is replaced by the network at the same place of the status and the host
  part is kept; the address is returned as it is if the two are the same or if there is none.\<close>

theorem map_address_correct:
  assumes "conditions_ok E" and "reconcile_status E cfg0 st = (Ok cfg, st')" and "ParseAddr address = Some (V4 v)"
    and "isRemapComplete cfg \<Longrightarrow> cidrs_V4 nets (cc_Pod (spec_Remote cfg) @ cc_External (spec_Remote cfg) @
           cc_Pod (status_remote0 cfg) @ cc_External (status_remote0 cfg))"
  shows "MapAddressWithConfiguration (findCondition E) (Some cfg) address =
    (if isRemapComplete cfg
     then Ok (map4 nets (zip (cc_Pod (spec_Remote cfg)) (cc_Pod (status_remote0 cfg)) @
                         zip (cc_External (spec_Remote cfg)) (cc_External (status_remote0 cfg))) address v)
     else Err NotRemapped)"
proof -
  have c: "AreConfigurationNetworkCIDRsConfigured (findCondition E) cfg \<longleftrightarrow> isRemapComplete cfg"
    using reconcile_status_conditions [OF assms(2)] configured_iff_complete [OF assms(1)] by blast
  show ?thesis
  proof (cases "isRemapComplete cfg")
    case True
    then obtain r where "status_Remote cfg = Some r" "length (cc_Pod r) = length (cc_Pod (spec_Remote cfg))"
      "length (cc_External r) = length (cc_External (spec_Remote cfg))" by (rule complete_lengths)
    then show ?thesis
      using MapAddress_V4 [of "findCondition E" cfg r nets address v] assms(3) assms(4) [OF True] c True
      by (simp add: status_remote0_def)
  qed (simp add: MapAddressWithConfiguration_def c)
qed

definition example_nets :: "string \<Rightarrow> 32 word \<times> nat" where
  "example_nets s =
     (if s = ''10.2.0.0/16'' then (0x0A020000, 16) else if s = ''10.3.0.0/16'' then (0x0A030000, 16)
      else if s = ''10.71.0.0/16'' then (0x0A470000, 16) else (0x0A500000, 16))"

lemma example_cidrs: "cidrs_V4 example_nets [''10.2.0.0/16'', ''10.3.0.0/16'', ''10.71.0.0/16'', ''10.80.0.0/16'']"
  by (simp add: cidrs_V4_def example_nets_def ParseCIDR_def dtoi_def parse_eval del: As16.simps ip_net.simps)

lemma example_moved: "text4 (be_bytes 4 (moved (example_nets ''10.71.0.0/16'') 0x0A020304)) = ''10.71.3.4''"
  "text4 (be_bytes 4 (moved (example_nets ''10.71.0.0/16'') 0x0A030304)) = ''10.71.3.4''"
  by (simp_all add: moved_def example_nets_def text4_def be_bytes_4_list dec.simps digit_char_def char_of_def bit_0)

definition remapped_store :: store where
  "remapped_store =
     \<lparr>st_networks = [remote_network LabelCIDRTypePod ''c-pod-10-2-0-0-16'' ''10.2.0.0/16'' ''10.71.0.0/16'',
                     remote_network LabelCIDRTypeExternal ''c-external-10-80-0-0-16'' ''10.80.0.0/16'' ''10.80.0.0/16''],
      st_firewalls = [], st_configurations = []\<rparr>"

theorem map_address_correct_witness:
  "\<exists>cfg st'. reconcile_status store_env (remote_cluster [''10.2.0.0/16''] [''10.80.0.0/16''] None 1)
        \<lparr>localCIDR = None, server = remapped_store\<rparr> = (Ok cfg, st') \<and>
      MapAddressWithConfiguration (findCondition store_env) (Some cfg) ''10.2.3.4'' = Ok ''10.71.3.4''"
proof -
  let ?cfg = "remote_cluster [''10.2.0.0/16''] [''10.80.0.0/16''] None 1"
    and ?st = "\<lparr>localCIDR = None, server = remapped_store\<rparr>"
  obtain cfg st' where r: "reconcile_status store_env ?cfg ?st = (Ok cfg, st')"
    and c: "isRemapComplete cfg" "spec_Remote cfg = \<lparr>cc_Pod = [''10.2.0.0/16''], cc_External = [''10.80.0.0/16'']\<rparr>"
      "status_remote0 cfg = \<lparr>cc_Pod = [''10.71.0.0/16''], cc_External = [''10.80.0.0/16'']\<rparr>"
    by (simp add: config_eval remapped_store_def)
  have p: "ParseAddr ''10.2.3.4'' = Some (V4 0x0A020304)" by (simp add: parse_eval)
  have n: "in_network (example_nets ''10.2.0.0/16'') 0x0A020304" by (simp add: in_network_def example_nets_def)
  have "MapAddressWithConfiguration (findCondition store_env) (Some cfg) ''10.2.3.4'' = Ok ''10.71.3.4''"
    using map_address_correct [OF store_conditions_ok r p, of example_nets] example_cidrs c n example_moved
    by (simp add: cidrs_V4_def map4_def pair_of_def target_def del: As16.simps ip_net.simps)
  then show ?thesis using r by blast
qed

text \<open>C27: Translating back. Let the networks of the status be disjoint and each as long as the one of the
  specification at its place. If an address is translated, then translating the result with the two
  lists exchanged gives the address again. So different addresses have different translations.\<close>

theorem remap_roundtrip:
  fixes v :: "32 word"
  assumes "cidrs_V4 nets (spec @ status)" and "length status = length spec"
    and "\<And>i. i < length spec \<Longrightarrow> snd (nets (status ! i)) = snd (nets (spec ! i))" and "disjoint_nets nets status"
    and "remapWithin (ip_Parse (text4 (be_bytes 4 v))) (text4 (be_bytes 4 v)) spec status = Ok (Some b)"
  shows "remapWithin (ip_Parse b) b status spec = Ok (Some (text4 (be_bytes 4 v)))"
  using remapWithin_back [OF _ _ assms(2,3,4,5)] assms(1) by (simp add: cidrs_V4_append)

theorem remap_roundtrip_witness:
  "remapWithin (ip_Parse ''10.71.3.4'') ''10.71.3.4'' [''10.71.0.0/16'', ''10.80.0.0/16''] [''10.2.0.0/16'', ''10.80.0.0/16''] =
     Ok (Some (text4 (be_bytes 4 (0x0A020304 :: 32 word))))"
proof (rule remap_roundtrip [where nets = example_nets])
  show "cidrs_V4 example_nets ([''10.2.0.0/16'', ''10.80.0.0/16''] @ [''10.71.0.0/16'', ''10.80.0.0/16''])"
    using example_cidrs by (simp add: cidrs_V4_def)
  show "snd (example_nets ([''10.71.0.0/16'', ''10.80.0.0/16''] ! i)) = snd (example_nets ([''10.2.0.0/16'', ''10.80.0.0/16''] ! i))"
    if "i < length [''10.2.0.0/16'', ''10.80.0.0/16'']" for i
    using that by (auto simp: less_Suc_eq example_nets_def)
  show "disjoint_nets example_nets [''10.71.0.0/16'', ''10.80.0.0/16'']"
    by (auto simp: disjoint_nets_def less_Suc_eq in_network_def example_nets_def)
  have "ip_To4 (ip_Parse (text4 (be_bytes 4 (0x0A020304 :: 32 word)))) = Some (be_bytes 4 (0x0A020304 :: 32 word))"
    by (rule ip_Parse_text4) simp
  from remapWithin_V4 [OF this, of example_nets "[''10.2.0.0/16'', ''10.80.0.0/16'']" "[''10.71.0.0/16'', ''10.80.0.0/16'']"]
  show "remapWithin (ip_Parse (text4 (be_bytes 4 (0x0A020304 :: 32 word)))) (text4 (be_bytes 4 (0x0A020304 :: 32 word)))
      [''10.2.0.0/16'', ''10.80.0.0/16''] [''10.71.0.0/16'', ''10.80.0.0/16''] = Ok (Some ''10.71.3.4'')"
    using example_cidrs example_moved by (simp add: cidrs_V4_def pair_of_def target_def in_network_def example_nets_def
        del: As16.simps ip_net.simps)
qed simp

section \<open>A status of an older specification\<close>

text \<open>The specification has changed from \<open>10.2.0.0/16\<close> to \<open>10.3.0.0/16\<close>.\<close>

definition changed_store :: store where
  "changed_store = remapped_store\<lparr>st_configurations :=
     [((''t'', ''c''), remote_cluster [''10.3.0.0/16''] [''10.80.0.0/16'']
         (Some \<lparr>cc_Pod = [''10.71.0.0/16''], cc_External = [''10.80.0.0/16'']\<rparr>) 2)]\<rparr>"

text \<open>C39: The status can belong to an older specification although the configuration is reported as
  configured. Let the pod CIDRs of the remote cluster have changed, so that the reconciliation lists a network of the configuration
  for a CIDR that is not wanted any more, let the status of the pod CIDRs be complete for an older specification with as many of them, and
  let the external CIDRs be remapped. A reconciliation that succeeds leaves the status of the pod CIDRs as it is, and sets the
  condition for the current generation to true, as the lists have the same lengths. The addresses of the new
  pod CIDRs are then translated into the networks that had been assigned to the old ones, which are being given up.\<close>

theorem stale_status_reported_configured:
  assumes "conditions_ok E" and "spec_Local cfg \<noteq> None" and "orphaned E cfg LabelCIDRTypePod (server st)"
    and run: "reconcile_status E cfg st = (Ok cfg', st')"
    and pod: "status_Remote cfg = Some r" "length (cc_Pod r) = length (cc_Pod (spec_Remote cfg))" "AllNonVoid (cc_Pod r)"
    and ext: "status_Remote cfg' = Some r'" "length (cc_External r') = length (cc_External (spec_Remote cfg'))"
      "AllNonVoid (cc_External r')"
    and addr: "ParseAddr address = Some (V4 v)"
      "cidrs_V4 nets (cc_Pod (spec_Remote cfg) @ cc_External (spec_Remote cfg) @ cc_Pod r @ cc_External r')"
  shows "spec_Remote cfg' = spec_Remote cfg \<and> cfg_Generation cfg' = cfg_Generation cfg \<and> cc_Pod r' = cc_Pod r \<and>
    AreConfigurationNetworkCIDRsConfigured (findCondition E) cfg' \<and>
    MapAddressWithConfiguration (findCondition E) (Some cfg') address =
      Ok (map4 nets (zip (cc_Pod (spec_Remote cfg)) (cc_Pod r) @
                     zip (cc_External (spec_Remote cfg)) (cc_External r')) address v)"
proof -
  have k: "same_spec cfg cfg'" "cc_Pod r' = cc_Pod r"
    using reconcile_status_orphaned [OF assms(2,3) run] pod(1) ext(1) by (simp_all add: status_remote0_def)
  then have s: "spec_Remote cfg' = spec_Remote cfg" "cfg_Generation cfg' = cfg_Generation cfg"
    by (auto simp: same_spec_def)
  have "isRemapComplete cfg'" using k(2) s pod ext by (simp add: isRemapComplete_def)
  then have c: "AreConfigurationNetworkCIDRsConfigured (findCondition E) cfg'"
    using reconcile_status_conditions [OF run] configured_iff_complete [OF assms(1)] by blast
  have "MapAddressWithConfiguration (findCondition E) (Some cfg') address =
      Ok (map4 nets (zip (cc_Pod (spec_Remote cfg')) (cc_Pod r') @ zip (cc_External (spec_Remote cfg')) (cc_External r')) address v)"
    using MapAddress_V4 [of "findCondition E" cfg' r' nets address v] addr c ext(1,2) k(2) s pod(2) by simp
  then show ?thesis using c k(2) s by simp
qed

theorem stale_status_reported_configured_witness:
  "\<exists>cfg cfg' st'. map_of (st_configurations changed_store) (''t'', ''c'') = Some cfg \<and> cc_Pod (spec_Remote cfg) = [''10.3.0.0/16''] \<and>
     reconcile_status store_env cfg \<lparr>localCIDR = None, server = changed_store\<rparr> = (Ok cfg', st') \<and>
     AreConfigurationNetworkCIDRsConfigured (findCondition store_env) cfg' \<and>
     MapAddressWithConfiguration (findCondition store_env) (Some cfg') ''10.3.3.4'' = Ok ''10.71.3.4''"
proof -
  let ?cfg = "remote_cluster [''10.3.0.0/16''] [''10.80.0.0/16''] (Some \<lparr>cc_Pod = [''10.71.0.0/16''], cc_External = [''10.80.0.0/16'']\<rparr>) 2"
    and ?st = "\<lparr>localCIDR = None, server = changed_store\<rparr>"
  obtain cfg' st' where r: "reconcile_status store_env ?cfg ?st = (Ok cfg', st')"
    and ext: "status_Remote cfg' = Some \<lparr>cc_Pod = [''10.71.0.0/16''], cc_External = [''10.80.0.0/16'']\<rparr>"
      "cc_External (spec_Remote cfg') = [''10.80.0.0/16'']"
    by (simp add: config_eval changed_store_def remapped_store_def)
  have o: "orphaned store_env ?cfg LabelCIDRTypePod (server ?st)"
    by (simp add: orphaned_def config_eval changed_store_def remapped_store_def)
  have p: "ParseAddr ''10.3.3.4'' = Some (V4 0x0A030304)" by (simp add: parse_eval)
  have n: "in_network (example_nets ''10.3.0.0/16'') 0x0A030304" by (simp add: in_network_def example_nets_def)
  have f: "spec_Local ?cfg \<noteq> None" "status_Remote ?cfg = Some \<lparr>cc_Pod = [''10.71.0.0/16''], cc_External = [''10.80.0.0/16'']\<rparr>"
    "cc_Pod (spec_Remote ?cfg) = [''10.3.0.0/16'']" "cc_External (spec_Remote ?cfg) = [''10.80.0.0/16'']"
    by (simp_all add: remote_cluster_def)
  have "cidrs_V4 example_nets [''10.3.0.0/16'', ''10.80.0.0/16'', ''10.71.0.0/16'', ''10.80.0.0/16'']"
    using example_cidrs by (simp add: cidrs_V4_def del: As16.simps ip_net.simps)
  then have "AreConfigurationNetworkCIDRsConfigured (findCondition store_env) cfg' \<and>
      MapAddressWithConfiguration (findCondition store_env) (Some cfg') ''10.3.3.4'' = Ok ''10.71.3.4''"
    using stale_status_reported_configured [OF store_conditions_ok f(1) o r f(2) _ _ ext(1) _ _ p, of example_nets]
      f(3,4) ext(2) n example_moved
    by (simp add: AllNonVoid_def map4_def pair_of_def target_def)
  moreover have "map_of (st_configurations changed_store) (''t'', ''c'') = Some ?cfg" by (simp add: changed_store_def)
  ultimately show ?thesis using r f(3) by blast
qed

text \<open>
  \<open>ForceMapAddressWithConfiguration\<close> does not look at the condition: when a pod CIDR has been added to
  the specification and the status is still shorter, it panics on an address of the new CIDR.
\<close>

lemma force_map_panics:
  assumes "ParseAddr address = Some (V4 v)" and "status_Remote cfg = Some remote"
    and "cc_Pod (spec_Remote cfg) = ss @ s # rest" and "length (cc_Pod remote) \<le> length ss"
    and "cidrs_V4 nets (ss @ [s])" and "\<And>x. x \<in> set ss \<Longrightarrow> \<not> in_network (nets x) v" and "in_network (nets s) v"
  shows "ForceMapAddressWithConfiguration (Some [cfg]) address = Panic"
  using remapWithin_short [OF ip_Parse_V4(1) [OF assms(1)] assms(5,4,6,7)] assms(2,3)
  by (simp add: ForceMapAddressWithConfiguration_def GetConfigurationByClusterID_def Let_def)

end
