(* ===== verification/Spec2Isabelle.thy ===== *)
theory Spec2Isabelle
  imports IpamProps NetworkProps ShadowPodProps FirewallValues GeneveProps FabricProps ConfigProps
begin

text \<open>
  A verification development for Liqo, which joins Kubernetes clusters: pods of one cluster run on
  another one, and the pod networks are connected. The paths below are relative to \<open>src/\<close>.

  \<^bold>\<open>The parts and how they interact.\<close>
  The networks of the peered clusters come from one address manager, the IPAM server
  (\<open>pkg/ipam\<close>): controllers ask it for networks and addresses by gRPC and write its answers
  into \<open>Network\<close> and \<open>IP\<close> resources (the controller of networks is
  \<open>network-controller\<close>), and the server starts from, and is compared with, these resources. For every peered cluster a \<open>Configuration\<close> lists the
  remote CIDRs: its controller (\<open>external-network/configuration\<close>) keeps a
  \<open>Network\<close> for each, copies the CIDRs that the IPAM has chosen into the status, and forges
  the firewall rules of the tunneled CIDRs; addresses of remote pods are translated with that status
  (\<open>pkg/utils/ipam/mapping\<close>). Inside a cluster every node is connected to every gateway by
  a Geneve tunnel whose identifier comes from the identifier manager
  (\<open>internal-network/id\<close>) and whose ends have addresses from the fabric allocator
  (\<open>internal-network/fabricipam\<close>). The rules that translate and filter the traffic are
  \<open>FirewallConfiguration\<close> resources: a webhook checks them
  (\<open>pkg/webhooks/firewallconfiguration\<close>), and a reconciler on every node forges nftables
  rules from them (\<open>pkg/firewall\<close>). The pods that another cluster sends are shadow pods,
  and a webhook keeps them within the quota of their user (\<open>pkg/webhooks/shadowpod\<close>).

  \<^bold>\<open>Conventions.\<close>
  A Go function that can panic returns \<open>None\<close>, \<open>Panic\<close> or
  \<open>FwPanic\<close> there; an error is \<open>Inl\<close> or \<open>Err\<close>. Machine integers
  are words of their width; Go's \<open>int\<close> is \<open>int\<close> or \<open>nat\<close> where it
  cannot overflow. A Go map is an association list (\<open>GoMap\<close>) whose order is the order of
  one \<open>range\<close>, so that a theorem for every list holds for every order. A slice whose
  sharing matters is an index into an explicit heap. A method that runs under a mutex is one step. The
  clock is a stream of readings. The API server, the kernel, and packages outside the repository are
  arguments of the definitions; what is assumed of them are the predicates \<open>kube_ok\<close>
  and \<open>names_valid\<close> (API server: reads may be stale, writes may fail with or without effect), \<open>network_api_ok\<close> (writes of networks: a write takes
  effect only on the version that was read, and an object under deletion goes with its last finalizer),
  \<open>networks_ok\<close> (reads of networks are current, and a write keeps the status, which is a
  subresource), \<open>conditions_ok\<close> (conditions of Kubernetes), \<open>kernel_ok\<close> and
  \<open>step_ok\<close> (nftables), \<open>Max_ok\<close> and \<open>Value_ok\<close> (quantities of
  Kubernetes). Every property with hypotheses is followed by a theorem that applies it at a concrete
  instance.

  \<^bold>\<open>Shared theories.\<close>
  \<open>Prelude\<close> (clock, lists, numbers); \<open>Netip\<close>, \<open>NetipText\<close>,
  \<open>NetipText6\<close> (\<open>net/netip\<close> and its text forms); \<open>GoNet\<close> and
  \<open>GoIP\<close> (\<open>net\<close>, \<open>strconv\<close>, addresses as bytes);
  \<open>GoMap\<close>; \<open>Kube\<close> (the API server as the client of the controller runtime
  shows it, with a reference server); \<open>Resource\<close> (metadata of objects, computations of a
  controller with a logic of triples, and the wrapper \<open>CreateOrUpdate\<close> of
  \<open>pkg/utils/resource/wrappers.go\<close>); \<open>NetworkApi\<close> (the \<open>Network\<close>
  resource and its labels); \<open>Allocator\<close> (the contract of an allocator
  that gives values to names, the locale \<open>name_allocator\<close>, interpreted by the identifier
  manager and by the fabric allocator).

  \<^bold>\<open>The IPAM.\<close>
  \<open>IpamNet\<close> is \<open>pkg/ipam/core/net.go\<close>, \<open>IpamNode\<close> is
  \<open>node.go\<close>, a buddy tree of networks with reference counts, a grace period after a release
  and preallocated addresses, and \<open>IpamCore\<close> is \<open>ipam.go\<close>, the trees of the
  pools. \<open>IpamServer\<close> and \<open>IpamSync\<close> are the handlers of
  \<open>pkg/ipam/ips.go\<close> and \<open>networks.go\<close>, the initialisation and the
  synchronisation. \<open>IpamTree\<close>, \<open>IpamList\<close> and \<open>IpamIPs\<close> show that
  every operation of the tree keeps its invariant and refines an operation on the function from networks
  to reference counts; \<open>IpamCoreSpec\<close> and \<open>IpamCoreIPs\<close> lift this to the core,
  \<open>IpamContract\<close> states it as the locale \<open>ipam_contract\<close> and interprets it on
  the core, and \<open>IpamServerSpec\<close> and \<open>IpamReach\<close> carry it to every state the
  server reaches. The properties in \<open>IpamProps\<close> are: exclusive networks never overlap
  others; when an acquisition and a release succeed and what they change; that addresses are fresh and
  not given twice; liveness of a release; that a start and a synchronisation without
  error load exactly the cluster; and the panic on IPv6 requests.

  \<^bold>\<open>The controller of networks.\<close>
  \<open>NetworkController\<close> is \<open>network-controller\<close>, a reconciliation over the
  handlers of the IPAM server; a call can lose its request or its answer. \<open>NetworkInit\<close>
  has the networks that the controller manager acquires when it starts (\<open>modules/networking.go\<close>).
  \<open>NetworkSpec\<close> shows that a CIDR is read back from its text, and that every reconciliation keeps the counts of the
  server at least as high as the number of networks that hold a CIDR (\<open>backed\<close>), along the
  runs of \<open>network_run\<close>: reconciliations whose deletions get through, the acquisitions at the start, requests for
  addresses, periodic comparisons of the server with the cluster, and starts and restarts of the server at any time.
  A start or a comparison reads a current list while no network under deletion holds a CIDR, and at a start no CIDR of a
  pool is held by two networks, since the server loads it with one reference. Each of these operations is one step:
  their interleaving is not in the runs. \<open>NetworkProps\<close> has the
  properties: overlapping CIDRs in the statuses of two networks are shared ones, and what a deletion
  that does not get through does to the counts.

  \<^bold>\<open>Shadow pods.\<close>
  \<open>ShadowPod\<close> is \<open>spdescription.go\<close> and \<open>peeringinfo.go\<close>,
  \<open>ShadowPodCache\<close> is \<open>cache.go\<close> and \<open>webhook.go\<close>.
  \<open>ShadowPodSpec\<close> and \<open>ShadowPodReach\<close> have the invariant that the used quota
  is the sum of the quotas of the running shadow pods, through requests and refreshes.
  \<open>ShadowPodProps\<close> holds the properties: the invariant, when a creation or an update is
  admitted, the convergence of a refresh, and the effect of a repeated deletion.

  \<^bold>\<open>The firewall.\<close>
  \<open>FirewallApi\<close> has the resource types, \<open>FirewallForge\<close> is
  \<open>pkg/firewall/utils\<close>, \<open>FirewallNft\<close> and \<open>FirewallReconcile\<close> are
  the reconciler and the eviction of conntrack flows, \<open>FirewallWebhook\<close> is the webhook.
  \<open>FirewallForgeSpec\<close> gives the meaning of forged expressions on packets,
  \<open>FirewallWebhookSpec\<close> the declarative notion of a valid configuration, and
  \<open>FirewallKernel\<close>, \<open>FirewallClean\<close> and \<open>FirewallSync\<close> the effect
  of the queued commands on a ruleset, in which the table of the configuration has base chains only and
  the others any chains. \<open>FirewallProps\<close> and \<open>FirewallValues\<close>
  hold the properties: a reconciliation converges and is stable, the webhook admits exactly the valid
  configurations, forged rules and the eviction agree, the eviction deletes exactly the matching flows,
  the ranges of NAT rules, and a difference between rules that goes unnoticed.

  \<^bold>\<open>The internal network.\<close>
  \<open>IdManager\<close> is \<open>internal-network/id/manager.go\<close>;
  \<open>GeneveTunnels\<close> is \<open>id/genevetunnel.go\<close> and
  \<open>internalfabric-controller/genevetunnel.go\<close>; \<open>FabricIpam\<close> is
  \<open>internal-network/fabricipam\<close>. \<open>GeneveSpec\<close> has triples over the state of
  the controller and the relation \<open>geneve_run\<close> of its runs, with errors, panics and restarts but
  without failed deletions and failed or outdated loads of the manager; \<open>FabricSpec\<close> reads
  addresses as numbers and gives what a search finds. \<open>GeneveProps\<close> and
  \<open>FabricProps\<close> hold the properties: managers stay well formed, what an allocation returns,
  unique tunnel identifiers and how a failed deletion breaks them, when an allocation of the fabric
  returns, and that its result is overwritten later.

  \<^bold>\<open>Configurations.\<close>
  \<open>ConfigApi\<close> has the resource types, \<open>pkg/utils/cidr\<close> and
  \<open>networking/utils/configuration.go\<close>; \<open>ConfigController\<close> is
  \<open>external-network/configuration\<close>, and \<open>AddressMapping\<close> is
  \<open>pkg/utils/ipam/mapping/ips.go\<close>. \<open>MappingSpec\<close> gives the translation of IPv4
  addresses on numbers (\<open>map4\<close>), \<open>ConfigSpec\<close> what the controller leaves in
  the status. \<open>ConfigProps\<close> holds the properties: the status follows the specification
  entry by entry unless an old network is still listed, the translation keeps the host part and can be
  undone, and the condition can be true for a status of an older specification. The property at the end
  of this theory joins the controller with the firewall webhook: when the rules that the one forges are
  admitted by the other.

  \<^bold>\<open>Loops and bounds.\<close>
  No definition has fuel (the counter of \<open>ipAcquire_loop\<close> is the one of the code). The
  allocations in the buddy tree, which descend into children that they have just created, terminate by
  the size of the tree and then by the bits that are left below the prefix. The scan of the identifier
  manager terminates by the distance to its bound. The search of the fabric allocator may run forever:
  it is a partial function, \<open>None\<close> when it does not return, and a property says exactly
  when it returns. The theorems on the IPAM, on the fabric allocator and on the translation of addresses
  are for IPv4 networks, which is what the IPAM supports; its behaviour on IPv6 is stated separately.

  \<^bold>\<open>Not modelled.\<close>
  Log lines, metrics, gRPC health reporting, the Graphviz dump of the tree, timers and the set-up of
  controllers and watches, and the JSON coding of objects. The IP controller, the ECMP
  marks and the remaining controllers of the networking packages, the offloading and authentication
  controllers and the foreign cluster controller: they build one API object from another and send it.
  The virtual kubelet: its core is the concurrency of informers and work queues of
  \<open>client-go\<close>. The gateway, fabric and route packages: calls of netlink, WireGuard and
  sockets. The command line, telemetry and start-up code: input and output. Generated clients and deep
  copies.
\<close>

section \<open>The firewall configuration of the tunneled CIDRs\<close>

lemma named_apart_Some: "map f xs = map Some ns \<Longrightarrow> named_apart f xs \<longleftrightarrow> distinct ns"
  unfolding named_apart_def by (metis inj_Some inj_map_eq_map)

lemma masquerade_chain_ok:
  "chain_ok TableFamilyIPv4 (forgeTunneledMasqueradeChain cfg) \<longleftrightarrow> distinct (map EscapeForName (status_TunneledCIDRs cfg))"
proof -
  let ?ch = "forgeTunneledMasqueradeChain cfg"
  let ?names = "map (\<lambda>c. ''tunneled-snat-'' @ EscapeForName c) (status_TunneledCIDRs cfg)"
  have r: "FromChainToRulesArray ?ch = map (\<lambda>c. NatRuleWrapper (masquerade_rule c)) (status_TunneledCIDRs cfg)"
    by (simp add: forgeTunneledMasqueradeChain_def FromChainToRulesArray_def elems_def)
  then have "map GetName (FromChainToRulesArray ?ch) = map Some ?names" by (simp add: masquerade_rule_def)
  then have "named_apart GetName (FromChainToRulesArray ?ch) \<longleftrightarrow> distinct ?names" by (rule named_apart_Some)
  also have "\<dots> \<longleftrightarrow> distinct (map EscapeForName (status_TunneledCIDRs cfg))"
    by (simp add: distinct_map inj_on_def)
  finally show ?thesis
    using r by (auto simp: chain_ok_def forgeTunneledMasqueradeChain_def hooks_of_def rules_sets_ok_def masquerade_rule_def
        nat_rule_ok_def elems_def)
qed

text \<open>C31: The configuration controller and the firewall webhook: a request to create the firewall
  configuration that \<open>ensureTunneledMasquerade\<close> forges, with a table name that is free, is allowed
  exactly when the reserved tunneled CIDRs give different rule names. A tunneled CIDR that is listed
  twice makes the webhook refuse it.\<close>

theorem tunneled_masquerade_admitted:
  assumes "q_Object req = Inr fw" and "\<not> q_IsUpdate req" and "fc_Table fw = masquerade_table cfg name"
    and "table_name_free items fw"
  shows "validate_Handle (Inr items) req = Some FwAllowed \<longleftrightarrow> distinct (map EscapeForName (status_TunneledCIDRs cfg))"
proof -
  have "named_apart ch_Name [forgeTunneledMasqueradeChain cfg] \<longleftrightarrow> distinct [tunneledMasqueradeChainName]"
    by (rule named_apart_Some) (simp add: forgeTunneledMasqueradeChain_def)
  then have "valid_configuration items fw \<longleftrightarrow> distinct (map EscapeForName (status_TunneledCIDRs cfg))"
    using assms(3,4) masquerade_chain_ok [of cfg] by (simp add: valid_configuration_def masquerade_table_def)
  then show ?thesis
    using assms(1,2) check_configuration_Ok [of "Inr items" None fw] by (auto simp: validate_Handle_def split: res.splits)
qed

definition tunneled_twice :: Configuration where
  "tunneled_twice = (remote_cluster [] [] None 1)\<lparr>status_TunneledCIDRs := [''10.9.0.0/16'', ''10.9.0.0/16'']\<rparr>"

theorem tunneled_masquerade_admitted_witness:
  "validate_Handle (Inr []) \<lparr>q_Object = Inr \<lparr>fc_UID = ''f'', fc_Labels = [], fc_Table = masquerade_table tunneled_twice ''n''\<rparr>,
      q_OldObject = Inl [], q_IsUpdate = False\<rparr> \<noteq> Some FwAllowed"
  using tunneled_masquerade_admitted [of "\<lparr>q_Object = Inr \<lparr>fc_UID = ''f'', fc_Labels = [], fc_Table = masquerade_table tunneled_twice ''n''\<rparr>,
      q_OldObject = Inl [], q_IsUpdate = False\<rparr>" "\<lparr>fc_UID = ''f'', fc_Labels = [], fc_Table = masquerade_table tunneled_twice ''n''\<rparr>"
      tunneled_twice "''n''" "[]"]
  by (simp add: table_name_free_def tunneled_twice_def)

end
